(* ===== verification/Cli_Prelude.thy ===== *)
theory Cli_Prelude
  imports Main "HOL-Library.Sublist" "HOL-Library.Char_ord" "HOL-Library.List_Lexorder"
    "HOL-Library.Product_Lexorder"
begin

text \<open>
  Shared vocabulary of the development: the operations of Rust's \<open>str\<close> that the crates use,
  and the lemmas about them that the component proofs rest on.

  A Rust string is the list of its UTF-8 bytes (\<open>string\<close>, one \<open>char\<close> per byte), so
  \<open>length\<close> is \<open>str::len\<close> and slices are \<open>take\<close>/\<open>drop\<close>. A loop over \<open>str::chars\<close> that only
  tests for ASCII characters and copies the others reads the same list byte by byte: no
  byte of a multi-byte character is an ASCII byte. Case mapping is the ASCII one.
  Fallible functions return a sum, \<open>Inl\<close> for the error.
\<close>

section \<open>Collections\<close>

named_theorems str_simps \<open>rewriting with the string operations\<close>
named_theorems res_splits \<open>case splits on results and options\<close>

lemmas [res_splits] = option.splits sum.splits list.splits prod.splits if_splits

section \<open>Characters\<close>

definition is_upper :: "char \<Rightarrow> bool" where
  "is_upper c \<longleftrightarrow> CHR ''A'' \<le> c \<and> c \<le> CHR ''Z''"

definition is_lower :: "char \<Rightarrow> bool" where
  "is_lower c \<longleftrightarrow> CHR ''a'' \<le> c \<and> c \<le> CHR ''z''"

definition is_digit :: "char \<Rightarrow> bool" where
  "is_digit c \<longleftrightarrow> CHR ''0'' \<le> c \<and> c \<le> CHR ''9''"

definition is_alnum :: "char \<Rightarrow> bool" where
  "is_alnum c \<longleftrightarrow> is_upper c \<or> is_lower c \<or> is_digit c"

definition to_lower :: "char \<Rightarrow> char" where
  "to_lower c = (if is_upper c then char_of (of_char c + 32 :: nat) else c)"

definition to_upper :: "char \<Rightarrow> char" where
  "to_upper c = (if is_lower c then char_of (of_char c - 32 :: nat) else c)"

abbreviation lower :: "string \<Rightarrow> string" where
  "lower s \<equiv> map to_lower s"

definition eq_ignore_case :: "string \<Rightarrow> string \<Rightarrow> bool" where
  "eq_ignore_case s t \<longleftrightarrow> lower s = lower t"

lemma char_le_nat: "(c \<le> d) = (of_char c \<le> (of_char d :: nat))"
  by (simp add: less_eq_char_def)

lemma is_upper_nat: "is_upper c \<longleftrightarrow> 65 \<le> (of_char c :: nat) \<and> (of_char c :: nat) \<le> 90"
  by (simp add: is_upper_def char_le_nat)

lemma is_lower_nat: "is_lower c \<longleftrightarrow> 97 \<le> (of_char c :: nat) \<and> (of_char c :: nat) \<le> 122"
  by (simp add: is_lower_def char_le_nat)

lemma is_digit_nat: "is_digit c \<longleftrightarrow> 48 \<le> (of_char c :: nat) \<and> (of_char c :: nat) \<le> 57"
  by (simp add: is_digit_def char_le_nat)

lemma of_char_to_lower:
  "of_char (to_lower c) = (if is_upper c then of_char c + 32 else (of_char c :: nat))"
  by (auto simp: to_lower_def is_upper_nat take_bit_eq_mod)

lemma to_lower_not_upper [simp]: "\<not> is_upper (to_lower c)"
  by (auto simp: is_upper_nat of_char_to_lower)

lemma to_lower_idem [simp]: "to_lower (to_lower c) = to_lower c"
  using to_lower_not_upper [of c] by (simp add: to_lower_def)

lemma to_lower_id: "\<not> is_upper c \<Longrightarrow> to_lower c = c"
  by (simp add: to_lower_def)

lemma is_lower_to_lower: "is_upper c \<Longrightarrow> is_lower (to_lower c)"
  by (auto simp: is_lower_nat is_upper_nat of_char_to_lower)

lemma lower_lower [simp]: "lower (lower s) = lower s"
  by simp

lemma eq_ignore_case_refl [simp]: "eq_ignore_case s s"
  by (simp add: eq_ignore_case_def)

section \<open>Prefixes, suffixes and searching\<close>

fun strip_prefix :: "string \<Rightarrow> string \<Rightarrow> string option" where
  "strip_prefix [] s = Some s"
| "strip_prefix (p # ps) [] = None"
| "strip_prefix (p # ps) (c # cs) = (if p = c then strip_prefix ps cs else None)"

definition starts_with :: "string \<Rightarrow> string \<Rightarrow> bool" where
  "starts_with p s \<longleftrightarrow> strip_prefix p s \<noteq> None"

definition strip_suffix :: "string \<Rightarrow> string \<Rightarrow> string option" where
  "strip_suffix p s = map_option rev (strip_prefix (rev p) (rev s))"

definition ends_with :: "string \<Rightarrow> string \<Rightarrow> bool" where
  "ends_with p s \<longleftrightarrow> strip_suffix p s \<noteq> None"

lemma strip_prefix_Some_iff [str_simps]: "strip_prefix p s = Some r \<longleftrightarrow> s = p @ r"
  by (induction p s rule: strip_prefix.induct) auto

lemma strip_prefix_append [simp]: "strip_prefix p (p @ r) = Some r"
  by (simp add: strip_prefix_Some_iff)

lemma strip_prefix_None_iff: "strip_prefix p s = None \<longleftrightarrow> (\<forall>r. s \<noteq> p @ r)"
  by (metis not_Some_eq strip_prefix_Some_iff)

lemma starts_with_iff [str_simps]: "starts_with p s \<longleftrightarrow> (\<exists>r. s = p @ r)"
  by (auto simp: starts_with_def strip_prefix_Some_iff)

lemma starts_with_append [simp]: "starts_with p (p @ r)"
  by (auto simp: starts_with_iff)

lemma strip_suffix_Some_iff [str_simps]: "strip_suffix p s = Some r \<longleftrightarrow> s = r @ p"
  by (auto simp: strip_suffix_def strip_prefix_Some_iff) (metis rev_append rev_rev_ident)+

lemma ends_with_iff [str_simps]: "ends_with p s \<longleftrightarrow> (\<exists>r. s = r @ p)"
  by (auto simp: ends_with_def strip_suffix_Some_iff)

fun find_char :: "char \<Rightarrow> string \<Rightarrow> nat option" where
  "find_char c [] = None"
| "find_char c (x # xs) = (if x = c then Some 0 else map_option Suc (find_char c xs))"

fun split_once :: "char \<Rightarrow> string \<Rightarrow> (string \<times> string) option" where
  "split_once c [] = None"
| "split_once c (x # xs) =
     (if x = c then Some ([], xs)
      else map_option (\<lambda>(a, b). (x # a, b)) (split_once c xs))"

lemma find_char_Some_iff:
  "find_char c s = Some i \<longleftrightarrow> (\<exists>a b. s = a @ c # b \<and> c \<notin> set a \<and> i = length a)"
proof (induction s arbitrary: i)
  case (Cons x xs)
  show ?case
  proof (cases "x = c")
    case True
    then show ?thesis by (auto simp: Cons_eq_append_conv)
  next
    case False
    have "find_char c (x # xs) = Some i \<longleftrightarrow> (\<exists>j. i = Suc j \<and> find_char c xs = Some j)"
      using False by auto
    also have "\<dots> \<longleftrightarrow> (\<exists>a b. xs = a @ c # b \<and> c \<notin> set a \<and> i = Suc (length a))"
      by (auto simp: Cons.IH)
    also have "\<dots> \<longleftrightarrow> (\<exists>a b. x # xs = a @ c # b \<and> c \<notin> set a \<and> i = length a)" (is "?L \<longleftrightarrow> ?R")
    proof
      assume ?L
      then obtain a b where "xs = a @ c # b" "c \<notin> set a" "i = Suc (length a)" by blast
      then show ?R using False by (intro exI [of _ "x # a"] exI [of _ b]) simp
    next
      assume ?R
      then obtain a b where ab: "x # xs = a @ c # b" "c \<notin> set a" "i = length a" by blast
      with False obtain a' where "a = x # a'" by (cases a) auto
      with ab show ?L by (intro exI [of _ a'] exI [of _ b]) simp
    qed
    finally show ?thesis .
  qed
qed simp

lemma find_char_None_iff [simp]: "find_char c s = None \<longleftrightarrow> c \<notin> set s"
  by (induction s) auto

lemma find_char_absent [simp]: "c \<notin> set s \<Longrightarrow> find_char c s = None"
  by simp

lemma find_char_past:
  "c \<notin> set h \<Longrightarrow> find_char c (h @ s) = map_option (\<lambda>j. length h + j) (find_char c s)"
proof (induction h)
  case Nil
  then show ?case by (cases "find_char c s") simp_all
next
  case (Cons x h)
  then show ?case by (cases "find_char c s") auto
qed

lemma find_char_append [simp]: "c \<notin> set a \<Longrightarrow> find_char c (a @ c # b) = Some (length a)"
  by (auto simp: find_char_Some_iff)

lemma split_once_Some_iff: "split_once c s = Some (a, b) \<longleftrightarrow> s = a @ c # b \<and> c \<notin> set a"
  by (induction s arbitrary: a b) (auto simp: Cons_eq_append_conv)

lemma split_once_None_iff [simp]: "split_once c s = None \<longleftrightarrow> c \<notin> set s"
  by (induction s) auto

lemma split_once_absent [simp]: "c \<notin> set s \<Longrightarrow> split_once c s = None"
  by simp

lemma split_once_append [simp]: "c \<notin> set a \<Longrightarrow> split_once c (a @ c # b) = Some (a, b)"
  by (simp add: split_once_Some_iff)

text \<open>\<open>str::find\<close> with a string pattern: the byte offset of the first occurrence.\<close>

fun find_sub :: "string \<Rightarrow> string \<Rightarrow> nat option" where
  "find_sub p [] = (if p = [] then Some 0 else None)"
| "find_sub p (c # cs) =
     (if starts_with p (c # cs) then Some 0 else map_option Suc (find_sub p cs))"

definition contains_sub :: "string \<Rightarrow> string \<Rightarrow> bool" where
  "contains_sub p s \<longleftrightarrow> find_sub p s \<noteq> None"

lemma find_sub_SomeD: "find_sub p s = Some i \<Longrightarrow> \<exists>a b. s = a @ p @ b \<and> length a = i"
proof (induction s arbitrary: i)
  case Nil
  then show ?case by (auto split: if_splits)
next
  case (Cons c cs)
  show ?case
  proof (cases "starts_with p (c # cs)")
    case True
    with Cons.prems show ?thesis by (auto simp: starts_with_iff)
  next
    case False
    with Cons.prems obtain j where j: "find_sub p cs = Some j" "i = Suc j" by auto
    with Cons.IH obtain a b where "cs = a @ p @ b" "length a = j" by blast
    with j show ?thesis by (intro exI [of _ "c # a"] exI [of _ b]) simp
  qed
qed

lemma find_sub_None_iff: "find_sub p s = None \<longleftrightarrow> (\<nexists>a b. s = a @ p @ b)"
proof (induction s)
  case (Cons c cs)
  have "(\<exists>a b. c # cs = a @ p @ b) \<longleftrightarrow> starts_with p (c # cs) \<or> (\<exists>a b. cs = a @ p @ b)"
    by (auto simp: starts_with_iff) (metis append_Cons append_Nil list.exhaust list.inject)+
  with Cons.IH show ?case by auto
qed auto

section \<open>Splitting, joining, replacing, trimming\<close>

fun split_on :: "char \<Rightarrow> string \<Rightarrow> string list" where
  "split_on c [] = [[]]"
| "split_on c (x # xs) =
     (if x = c then [] # split_on c xs
      else (case split_on c xs of [] \<Rightarrow> [[x]] | w # ws \<Rightarrow> (x # w) # ws))"

fun join :: "string \<Rightarrow> string list \<Rightarrow> string" where
  "join sep [] = []"
| "join sep [w] = w"
| "join sep (w # v # ws) = w @ sep @ join sep (v # ws)"

lemma split_on_not_Nil [simp]: "split_on c s \<noteq> []"
  by (cases s) (auto split: list.splits)

lemma join_Cons: "ws \<noteq> [] \<Longrightarrow> join sep (w # ws) = w @ sep @ join sep ws"
  by (cases ws) auto

lemma join_split_on [simp]: "join [c] (split_on c s) = s"
proof (induction s)
  case (Cons x xs)
  obtain w ws where ws: "split_on c xs = w # ws"
    by (cases "split_on c xs") auto
  with Cons.IH show ?case by (cases ws) auto
qed simp

lemma split_on_no_sep: "w \<in> set (split_on c s) \<Longrightarrow> c \<notin> set w"
  by (induction s arbitrary: w) (auto split: if_splits list.splits)

lemma split_on_clean: "c \<notin> set s \<Longrightarrow> split_on c s = [s]"
  by (induction s) auto

lemma split_on_append: "c \<notin> set a \<Longrightarrow> split_on c (a @ c # b) = a # split_on c b"
  by (induction a) auto

lemma split_on_append_sep: "split_on c (a @ c # b) = split_on c a @ split_on c b"
  by (induction a) (auto split: list.splits)

lemma split_on_join:
  "ws \<noteq> [] \<Longrightarrow> (\<And>w. w \<in> set ws \<Longrightarrow> c \<notin> set w) \<Longrightarrow> split_on c (join [c] ws) = ws"
  by (induction "[c]" ws rule: join.induct) (auto simp: split_on_clean split_on_append)

lemma set_split_on: "w \<in> set (split_on c s) \<Longrightarrow> set w \<subseteq> set s"
  by (induction s arbitrary: w) (auto split: if_splits list.splits, blast+)

lemma hd_split_on: "hd (split_on c s) = takeWhile (\<lambda>x. x \<noteq> c) s"
  by (induction s) (auto split: list.splits)

text \<open>\<open>str::replace\<close>: non-overlapping occurrences, left to right; the empty pattern matches
  around every character.\<close>

function replace_sub :: "string \<Rightarrow> string \<Rightarrow> string \<Rightarrow> string" where
  "replace_sub p r s =
     (if p = [] then concat (map (\<lambda>c. r @ [c]) s) @ r
      else case s of [] \<Rightarrow> []
           | c # cs \<Rightarrow> (case strip_prefix p (c # cs) of
               Some rest \<Rightarrow> r @ replace_sub p r rest
             | None \<Rightarrow> c # replace_sub p r cs))"
  by pat_completeness auto
termination
  by (relation "measure (\<lambda>(p, r, s). length s)") (auto simp: strip_prefix_Some_iff Cons_eq_append_conv)

declare replace_sub.simps [simp del]

lemma replace_sub_Nil [simp]: "p \<noteq> [] \<Longrightarrow> replace_sub p r [] = []"
  by (subst replace_sub.simps) simp

lemma replace_sub_match: "p \<noteq> [] \<Longrightarrow> replace_sub p r (p @ s) = r @ replace_sub p r s"
  using strip_prefix_append [of p s]
  by (subst replace_sub.simps, cases "p @ s") (simp_all del: strip_prefix_append)

lemma replace_sub_skip:
  "p \<noteq> [] \<Longrightarrow> \<not> starts_with p (c # s) \<Longrightarrow> replace_sub p r (c # s) = c # replace_sub p r s"
  by (subst replace_sub.simps) (auto simp: starts_with_def)

lemma replace_sub_skip_append:
  assumes "p = x # p'" and "x \<notin> set a"
  shows "replace_sub p r (a @ s) = a @ replace_sub p r s"
  using assms(2)
proof (induction a)
  case (Cons y ys)
  then have "\<not> starts_with p (y # ys @ s)"
    using assms(1) by (auto simp: starts_with_def)
  with Cons assms(1) show ?case by (simp add: replace_sub_skip)
qed simp

definition trim_by :: "(char \<Rightarrow> bool) \<Rightarrow> string \<Rightarrow> string" where
  "trim_by P s = rev (dropWhile P (rev (dropWhile P s)))"

definition trim_end_by :: "(char \<Rightarrow> bool) \<Rightarrow> string \<Rightarrow> string" where
  "trim_end_by P s = rev (dropWhile P (rev s))"

lemma trim_by_id:
  "s = [] \<or> (\<not> P (hd s) \<and> \<not> P (last s)) \<Longrightarrow> trim_by P s = s"
  by (cases s rule: rev_cases) (auto simp: trim_by_def dropWhile_eq_Cons_conv hd_append
      dropWhile_append split: if_splits list.splits intro!: dropWhile_eq_self_iff [THEN iffD2])

lemma trim_by_ends:
  "trim_by P s \<noteq> [] \<Longrightarrow> \<not> P (hd (trim_by P s)) \<and> \<not> P (last (trim_by P s))"
proof -
  assume ne: "trim_by P s \<noteq> []"
  let ?t = "dropWhile P s"
  have last: "\<not> P (last (trim_by P s))"
    using ne by (metis hd_dropWhile last_rev rev.simps(1) rev_rev_ident trim_by_def)
  obtain z where z: "?t = trim_by P s @ z"
    by (metis append_Nil2 rev_append rev_rev_ident takeWhile_dropWhile_id trim_by_def)
  with ne have "?t \<noteq> []" "hd ?t = hd (trim_by P s)" by auto
  with last show ?thesis using hd_dropWhile by metis
qed

text \<open>
  \<open>str::trim\<close> strips the characters with Unicode's White_Space property; these are their
  UTF-8 encodings. Trimming the end strips the reversed encodings from the reversed text.
\<close>

definition white_space :: "string list" where
  "white_space =
     map (\<lambda>c. [c]) [CHR 0x20, CHR 0x09, CHR 0x0A, CHR 0x0B, CHR 0x0C, CHR 0x0D] @
     [[CHR 0xC2, CHR 0x85], [CHR 0xC2, CHR 0xA0], [CHR 0xE1, CHR 0x9A, CHR 0x80]] @
     map (\<lambda>c. [CHR 0xE2, CHR 0x80, c])
       [CHR 0x80, CHR 0x81, CHR 0x82, CHR 0x83, CHR 0x84, CHR 0x85, CHR 0x86, CHR 0x87,
        CHR 0x88, CHR 0x89, CHR 0x8A, CHR 0xA8, CHR 0xA9, CHR 0xAF] @
     [[CHR 0xE2, CHR 0x81, CHR 0x9F], [CHR 0xE3, CHR 0x80, CHR 0x80]]"

fun strip_any :: "string list \<Rightarrow> string \<Rightarrow> string option" where
  "strip_any [] s = None"
| "strip_any (p # ps) s = (case strip_prefix p s of Some r \<Rightarrow> Some r | None \<Rightarrow> strip_any ps s)"

function trim_start_any :: "string list \<Rightarrow> string \<Rightarrow> string" where
  "trim_start_any ps s =
     (case strip_any ps s of
        Some r \<Rightarrow> if length r < length s then trim_start_any ps r else s
      | None \<Rightarrow> s)"
  by pat_completeness auto
termination
  by (relation "measure (\<lambda>(ps, s). length s)") auto

declare trim_start_any.simps [simp del]

definition trim_start :: "string \<Rightarrow> string" where
  "trim_start s = trim_start_any white_space s"

definition trim_end :: "string \<Rightarrow> string" where
  "trim_end s = rev (trim_start_any (map rev white_space) (rev s))"

definition trim :: "string \<Rightarrow> string" where
  "trim s = trim_end (trim_start s)"

lemma strip_any_SomeD: "strip_any ps s = Some r \<Longrightarrow> \<exists>p \<in> set ps. s = p @ r"
  by (induction ps s rule: strip_any.induct) (auto split: option.splits simp: str_simps)

lemma trim_start_any_id: "(\<And>p r. p \<in> set ps \<Longrightarrow> s \<noteq> p @ r) \<Longrightarrow> trim_start_any ps s = s"
  by (subst trim_start_any.simps) (auto split: option.splits dest!: strip_any_SomeD)

lemma trim_start_any_suffix: "\<exists>w. s = w @ trim_start_any ps s"
proof (induction ps s rule: trim_start_any.induct)
  case (1 ps s)
  show ?case
  proof (cases "strip_any ps s")
    case (Some r)
    then obtain p where "s = p @ r" by (blast dest: strip_any_SomeD)
    show ?thesis
    proof (cases "length r < length s")
      case True
      with "1.IH" [OF Some] obtain w where "r = w @ trim_start_any ps r" by blast
      with \<open>s = p @ r\<close> have "s = (p @ w) @ trim_start_any ps r" by simp
      moreover have "trim_start_any ps s = trim_start_any ps r"
        by (subst trim_start_any.simps) (simp add: Some True)
      ultimately show ?thesis by (metis append_assoc)
    qed (subst trim_start_any.simps, simp add: Some)
  qed (subst trim_start_any.simps, simp)
qed

lemma set_trim_start: "set (trim_start s) \<subseteq> set s"
  unfolding trim_start_def by (metis trim_start_any_suffix set_append Un_upper2)

lemma set_trim_end: "set (trim_end s) \<subseteq> set s"
  unfolding trim_end_def by (metis trim_start_any_suffix set_append Un_upper2 set_rev)

lemma set_trim: "set (trim s) \<subseteq> set s"
  unfolding trim_def using set_trim_end set_trim_start by blast

definition white_space_byte :: "char \<Rightarrow> bool" where
  "white_space_byte c \<longleftrightarrow> c \<in> set (map hd white_space @ map last white_space)"

lemma white_space_ends:
  "p \<in> set white_space \<Longrightarrow> p \<noteq> [] \<and> white_space_byte (hd p) \<and> white_space_byte (last p)"
  by (auto simp: white_space_byte_def) (simp add: white_space_def)

lemma trim_id_ends:
  assumes "s \<noteq> []" and "\<not> white_space_byte (hd s)" and "\<not> white_space_byte (last s)"
  shows "trim s = s"
proof -
  have "s \<noteq> p @ r" if "p \<in> set white_space" for p r
    using white_space_ends [OF that] assms(2) by (metis hd_append2)
  then have "trim_start s = s" unfolding trim_start_def by (rule trim_start_any_id)
  moreover have "rev s \<noteq> q @ r" if "q \<in> set (map rev white_space)" for q r
  proof
    assume "rev s = q @ r"
    then have "s = rev r @ rev q" by (metis rev_append rev_rev_ident)
    moreover have "rev q \<in> set white_space" using that by auto
    ultimately show False using white_space_ends [of "rev q"] assms(3) by (metis last_appendR)
  qed
  then have "trim_start_any (map rev white_space) (rev s) = rev s" by (rule trim_start_any_id)
  ultimately show ?thesis by (simp add: trim_def trim_end_def)
qed

lemma trim_id: "(\<And>c. c \<in> set s \<Longrightarrow> \<not> white_space_byte c) \<Longrightarrow> trim s = s"
proof (cases "s = []")
  case True
  have "trim_start_any ps [] = []" for ps
    by (subst trim_start_any.simps) (simp split: option.split)
  then show ?thesis by (simp add: True trim_def trim_start_def trim_end_def)
qed (simp add: trim_id_ends)

section \<open>Decimal numbers\<close>

definition digit_char :: "nat \<Rightarrow> char" where
  "digit_char d = char_of (48 + d)"

definition char_digit :: "char \<Rightarrow> nat" where
  "char_digit c = of_char c - 48"

fun show_nat :: "nat \<Rightarrow> string" where
  "show_nat n = (if n < 10 then [digit_char n] else show_nat (n div 10) @ [digit_char (n mod 10)])"

declare show_nat.simps [simp del]

definition read_nat :: "string \<Rightarrow> nat" where
  "read_nat s = foldl (\<lambda>n c. 10 * n + char_digit c) 0 s"

lemma digit_char_props:
  "d < 10 \<Longrightarrow> is_digit (digit_char d) \<and> char_digit (digit_char d) = d"
  by (simp add: is_digit_nat digit_char_def char_digit_def take_bit_eq_mod)

lemma show_nat_not_Nil [simp]: "show_nat n \<noteq> []"
  by (subst show_nat.simps) simp

lemma show_nat_digits: "c \<in> set (show_nat n) \<Longrightarrow> is_digit c"
proof (induction n rule: show_nat.induct)
  case (1 n)
  then show ?case
    by (cases "n < 10") (auto simp: show_nat.simps [of n] digit_char_props)
qed

lemma read_show_nat [simp]: "read_nat (show_nat n) = n"
proof (induction n rule: show_nat.induct)
  case (1 n)
  show ?case
  proof (cases "n < 10")
    case True
    then show ?thesis by (subst show_nat.simps) (simp add: read_nat_def digit_char_props)
  next
    case False
    with 1 have "read_nat (show_nat (n div 10)) = n div 10" by simp
    with False show ?thesis
      by (subst show_nat.simps) (simp add: read_nat_def digit_char_props)
  qed
qed

lemma set_trim_by: "set (trim_by P s) \<subseteq> set s"
  by (auto simp: trim_by_def dest!: set_dropWhileD)

text \<open>The end of a line, and an ANSI SGR sequence with its parameters.\<close>

definition newline :: string where
  "newline = [CHR 0x0A]"

definition esc :: "string \<Rightarrow> string" where
  "esc params = [CHR 0x1B] @ ''['' @ params @ ''m''"

definition spaces :: "nat \<Rightarrow> string" where
  "spaces n = replicate n CHR '' ''"

end
