(* ===== verification/Delimited.thy ===== *)
theory Delimited
  imports Cli_Prelude "HOL-Library.Word"
begin

unbundle bit_operations_syntax

text \<open>
  Length-delimited messages: the two readers of variable-length integers
  (crates/axl-runtime/src/engine/bazel/stream/util.rs and crates/starbuf-types/src/delimited.rs),
  the iterator over delimited messages (delimited.rs) and the sink that writes them (\<open>spawn_file\<close> of
  engine/bazel/sink/execlog.rs). Bytes are 8-bit words. The message codec of \<open>prost\<close> is a
  parameter; its length prefix is the documented little-endian base-128 encoding, \<open>leb128\<close> below.
\<close>

section \<open>Reading a length\<close>

type_synonym byte = "8 word"

definition more_bit :: "byte \<Rightarrow> bool" where
  "more_bit b \<longleftrightarrow> b AND 128 \<noteq> 0"

definition low_bits :: "byte \<Rightarrow> 64 word" where
  "low_bits b = ucast (b AND 127)"

datatype varint = Length "64 word" "byte list" | OutOfBytes "byte list" | VarintOverflow

text \<open>The bytes after an overflow are read up to the end of the integer.\<close>

fun drain_varint :: "byte \<Rightarrow> byte list \<Rightarrow> byte list \<Rightarrow> varint \<times> byte list" where
  "drain_varint b raw [] = (if more_bit b then OutOfBytes raw else VarintOverflow, [])"
| "drain_varint b raw (c # cs) =
     (if more_bit b then drain_varint c (raw @ [c]) cs else (VarintOverflow, c # cs))"

fun varint_loop :: "64 word \<Rightarrow> nat \<Rightarrow> byte list \<Rightarrow> byte list \<Rightarrow> varint \<times> byte list" where
  "varint_loop result shift raw [] = (OutOfBytes raw, [])"
| "varint_loop result shift raw (b # bs) =
     (if shift = 63 \<and> b \<noteq> 0 \<and> b \<noteq> 1 then drain_varint b (raw @ [b]) bs
      else (let result' = result OR push_bit shift (low_bits b)
        in if \<not> more_bit b then (Length result' (raw @ [b]), bs)
           else varint_loop result' (shift + 7) (raw @ [b]) bs))"

definition read_varint :: "byte list \<Rightarrow> varint \<times> byte list" where
  "read_varint bs = varint_loop 0 0 [] bs"

text \<open>The second reader: the end of the input before the first byte is not an error, and a tenth byte
  is not checked.\<close>

datatype delimiter = EndOfInput | MessageLength "64 word" | InputError

fun delimiter_loop :: "64 word \<Rightarrow> nat \<Rightarrow> byte list \<Rightarrow> delimiter \<times> byte list" where
  "delimiter_loop result shift [] = (if shift = 0 then EndOfInput else InputError, [])"
| "delimiter_loop result shift (b # bs) =
     (let result' = result OR push_bit shift (ucast (b AND 127))
      in if b AND 128 = 0 then (MessageLength result', bs)
         else if shift + 7 \<ge> 64 then (InputError, bs)
         else delimiter_loop result' (shift + 7) bs)"

definition read_delimiter :: "byte list \<Rightarrow> delimiter \<times> byte list" where
  "read_delimiter bs = delimiter_loop 0 0 bs"

section \<open>Lengths are read back\<close>

function leb128 :: "nat \<Rightarrow> byte list" where
  "leb128 n = (if n < 128 then [of_nat n] else of_nat (n mod 128 + 128) # leb128 (n div 128))"
  by pat_completeness auto
termination by (relation "measure id") auto

declare leb128.simps [simp del]

lemma byte_bits:
  assumes "n < 128"
  shows "\<not> more_bit (of_nat n)" and "more_bit (of_nat (n + 128))"
    and "low_bits (of_nat n) = of_nat n" and "low_bits (of_nat (n + 128)) = of_nat n"
proof -
  have "\<forall>n \<in> set [0..<128]. \<not> more_bit (of_nat n) \<and> more_bit (of_nat (n + 128)) \<and>
      low_bits (of_nat n) = of_nat n \<and> low_bits (of_nat (n + 128)) = of_nat n"
    unfolding more_bit_def low_bits_def by code_simp
  then show "\<not> more_bit (of_nat n)" and "more_bit (of_nat (n + 128))"
    and "low_bits (of_nat n) = of_nat n" and "low_bits (of_nat (n + 128)) = of_nat n"
    using assms by (simp_all del: of_nat_add)
qed

lemma or_push:
  fixes r l :: "64 word"
  assumes "unat r < 2 ^ s" and "unat l * 2 ^ s < 2 ^ 64" and "s < 64"
  shows "unat (r OR push_bit s l) = unat r + unat l * 2 ^ s"
proof -
  have "take_bit s r = r"
    by (simp add: word_unat_eq_iff unsigned_take_bit_eq assms(1) take_bit_nat_eq_self)
  then have lt: "bit r n \<Longrightarrow> n < s" for n by (metis bit_take_bit_iff)
  have "\<not> bit r n \<or> \<not> bit (push_bit s l) n" for n by (auto simp: bit_simps dest: lt)
  then have "r OR push_bit s l = r + push_bit s l" by (simp add: disjunctive_add)
  moreover have push: "unat (push_bit s l) = unat l * 2 ^ s"
  proof -
    have "unat (push_bit s l) = take_bit 64 (push_bit s (unat l))"
      by (simp add: unsigned_push_bit_eq)
    then show ?thesis using assms(2) by (simp add: push_bit_eq_mult take_bit_nat_eq_self)
  qed
  moreover have "unat r + unat l * 2 ^ s < 2 ^ 64"
  proof -
    have "unat l * 2 ^ s < 2 ^ (64 - s) * 2 ^ s" using assms(2,3) by (simp flip: power_add)
    then have "unat l + 1 \<le> 2 ^ (64 - s)" by simp
    then have "(unat l + 1) * 2 ^ s \<le> 2 ^ (64 - s) * 2 ^ s" by (rule mult_le_mono1)
    then have "(unat l + 1) * 2 ^ s \<le> 2 ^ 64" using assms(3) by (simp flip: power_add)
    then show ?thesis using assms(1) by (simp add: algebra_simps)
  qed
  ultimately show ?thesis using unat_add_lem [of r "push_bit s l"] by simp
qed

lemma low_bits_unat: "n < 128 \<Longrightarrow> unat (of_nat n :: 64 word) = n"
  by (simp add: unsigned_of_nat take_bit_nat_eq_self)

lemma leb128_step:
  fixes r :: "64 word"
  assumes "unat r < 2 ^ s" and "unat r + n * 2 ^ s < 2 ^ 64" and "s < 64" and "d = n mod 128"
  shows "unat (r OR push_bit s (of_nat d)) = unat r + d * 2 ^ s"
    and "unat (r OR push_bit s (of_nat d)) + (n div 128) * 2 ^ (s + 7) = unat r + n * 2 ^ s"
    and "unat (r OR push_bit s (of_nat d)) < 2 ^ (s + 7)"
proof -
  have d: "d < 128" "unat (of_nat d :: 64 word) = d" using assms(4) low_bits_unat by simp_all
  have split: "n = d + 128 * (n div 128)" using assms(4) by simp
  have "d \<le> n" using assms(4) by simp
  then have "d * 2 ^ s \<le> n * 2 ^ s" by (rule mult_le_mono1)
  then have "d * 2 ^ s < 2 ^ 64" using assms(2) by linarith
  then have *: "unat (r OR push_bit s (of_nat d)) = unat r + d * 2 ^ s"
    using or_push [of r s "of_nat d"] assms(1-3) d by simp
  then show "unat (r OR push_bit s (of_nat d)) = unat r + d * 2 ^ s" .
  have "n * 2 ^ s = d * 2 ^ s + (n div 128) * 2 ^ (s + 7)"
    by (subst split) (simp add: power_add algebra_simps)
  then show "unat (r OR push_bit s (of_nat d)) + (n div 128) * 2 ^ (s + 7) = unat r + n * 2 ^ s"
    using * by simp
  have le: "d * 2 ^ s \<le> 127 * 2 ^ s" using d(1) by (intro mult_le_mono1) simp
  have p: "(2 :: nat) ^ (s + 7) = 128 * 2 ^ s" by (simp add: power_add)
  show "unat (r OR push_bit s (of_nat d)) < 2 ^ (s + 7)"
    unfolding * p using assms(1) le by linarith
qed

lemma varint_loop_leb128:
  assumes "unat r < 2 ^ s" and "unat r + n * 2 ^ s < 2 ^ 64" and "s \<in> {0, 7, 14, 21, 28, 35, 42, 49, 56, 63}"
  shows "varint_loop r s raw (leb128 n @ rest) = (Length (of_nat (unat r + n * 2 ^ s)) (raw @ leb128 n), rest)"
  using assms
proof (induction n arbitrary: r s raw rule: leb128.induct)
  case (1 n)
  let ?d = "n mod 128"
  let ?r = "r OR push_bit s (of_nat ?d)"
  have "s < 64" using "1.prems"(3) by auto
  note step = leb128_step [OF "1.prems"(1,2) this refl]
  have last: "s = 63 \<Longrightarrow> n < 2" using "1.prems"(2) by (cases "n < 2") auto
  show ?case
  proof (cases "n < 128")
    case True
    then have d: "?d = n" and b: "leb128 n = [of_nat n]" by (simp_all add: leb128.simps [of n])
    have "s = 63 \<Longrightarrow> of_nat n = (0 :: byte) \<or> of_nat n = (1 :: byte)"
      using last by (auto simp: less_2_cases_iff)
    then have "varint_loop r s raw (leb128 n @ rest) = (Length (r OR push_bit s (of_nat n)) (raw @ [of_nat n]), rest)"
      using byte_bits(1,3) [OF True] by (auto simp: b Let_def)
    then show ?thesis
      using step(1) unfolding d by (metis b of_nat_unat ucast_id)
  next
    case False
    then have s: "s \<noteq> 63" "s + 7 \<in> {0, 7, 14, 21, 28, 35, 42, 49, 56, 63}"
      using last "1.prems"(3) by auto
    have b: "leb128 n = of_nat (?d + 128) # leb128 (n div 128)"
      using False by (simp only: leb128.simps [of n] if_False)
    have "varint_loop r s raw (leb128 n @ rest) =
        varint_loop ?r (s + 7) (raw @ [of_nat (?d + 128)]) (leb128 (n div 128) @ rest)"
      using byte_bits(2,4) [of ?d] s(1) by (simp add: b Let_def del: of_nat_add)
    also have "\<dots> = (Length (of_nat (unat r + n * 2 ^ s)) (raw @ leb128 n), rest)"
      using "1.IH" [OF False step(3) _ s(2)] step(2) "1.prems"(2) by (simp add: b)
    finally show ?thesis .
  qed
qed

lemma delimiter_loop_leb128:
  assumes "unat r < 2 ^ s" and "unat r + n * 2 ^ s < 2 ^ 64" and "s \<in> {0, 7, 14, 21, 28, 35, 42, 49, 56, 63}"
  shows "delimiter_loop r s (leb128 n @ rest) = (MessageLength (of_nat (unat r + n * 2 ^ s)), rest)"
  using assms
proof (induction n arbitrary: r s rule: leb128.induct)
  case (1 n)
  let ?d = "n mod 128"
  let ?r = "r OR push_bit s (of_nat ?d)"
  have "s < 64" using "1.prems"(3) by auto
  note step = leb128_step [OF "1.prems"(1,2) this refl]
  note bits = byte_bits [unfolded more_bit_def low_bits_def not_not]
  show ?case
  proof (cases "n < 128")
    case True
    then have d: "?d = n" and b: "leb128 n = [of_nat n]" by (simp_all add: leb128.simps [of n])
    have "delimiter_loop r s (leb128 n @ rest) = (MessageLength (r OR push_bit s (of_nat n)), rest)"
      using bits(1,3) [OF True] by (simp add: b Let_def)
    then show ?thesis
      using step(1) unfolding d by (metis of_nat_unat ucast_id)
  next
    case False
    have "s \<noteq> 63" using "1.prems"(2) False by auto
    then have s: "s + 7 < 64" "s + 7 \<in> {0, 7, 14, 21, 28, 35, 42, 49, 56, 63}"
      using "1.prems"(3) by auto
    have b: "leb128 n = of_nat (?d + 128) # leb128 (n div 128)"
      using False by (simp only: leb128.simps [of n] if_False)
    have "delimiter_loop r s (leb128 n @ rest) = delimiter_loop ?r (s + 7) (leb128 (n div 128) @ rest)"
      using bits(2,4) [of ?d] s(1) by (simp add: b Let_def del: of_nat_add)
    also have "\<dots> = (MessageLength (of_nat (unat r + n * 2 ^ s)), rest)"
      using "1.IH" [OF False step(3) _ s(2)] step(2) "1.prems"(2) by simp
    finally show ?thesis .
  qed
qed

text \<open>C37. Both readers of a length read what is written: the base-128 encoding of any number below
  \<open>2 ^ 64\<close>, whatever follows it, is read as that number, the first reader also returns the bytes it
  read, and both leave what follows.\<close>

theorem length_roundtrip:
  assumes "n < 2 ^ 64"
  shows "read_varint (leb128 n @ rest) = (Length (of_nat n) (leb128 n), rest) \<and>
    read_delimiter (leb128 n @ rest) = (MessageLength (of_nat n), rest)"
  using varint_loop_leb128 [of 0 0 n "[]" rest] delimiter_loop_leb128 [of 0 0 n rest] assms
  by (simp add: read_varint_def read_delimiter_def)

theorem length_roundtrip_witness:
  "read_varint (leb128 300 @ [7]) = (Length 300 [172, 2], [7])"
proof -
  have "leb128 300 = [172, 2]" by (simp add: leb128.simps)
  then show ?thesis using length_roundtrip [of 300 "[7]"] by simp
qed

text \<open>On a tenth byte that does not fit the readers differ: one reports an overflow, the other drops
  the bits that do not fit and goes on with a wrong length.\<close>

lemma tenth_byte_differs:
  "read_varint (replicate 9 128 @ [2]) = (VarintOverflow, []) \<and>
   read_delimiter (replicate 9 128 @ [2]) = (MessageLength 0, [])"
  unfolding read_varint_def read_delimiter_def by code_simp

section \<open>Iterating over messages\<close>

datatype 'm iter_step = Item 'm | Stop | CapacityPanic

definition ISIZE_MAX :: nat where
  "ISIZE_MAX = 2 ^ 63 - 1"

text \<open>\<open>iter_next\<close> on a source whose remaining bytes are \<open>bs\<close>. A length above \<open>isize::MAX\<close> makes the
  allocation of the buffer panic.\<close>

definition iter_next :: "(byte list \<Rightarrow> 'm option) \<Rightarrow> byte list \<Rightarrow> 'm iter_step \<times> byte list" where
  "iter_next dec bs =
     (case read_delimiter bs of
        (MessageLength n, rest) \<Rightarrow>
          if unat n > ISIZE_MAX then (CapacityPanic, rest)
          else if length rest < unat n then (Stop, [])
          else (case dec (take (unat n) rest) of
                  Some m \<Rightarrow> (Item m, drop (unat n) rest) | None \<Rightarrow> (Stop, drop (unat n) rest))
      | (_, rest) \<Rightarrow> (Stop, rest))"

text \<open>A loop over the iterator: the messages it sees, and whether it ends in a panic.\<close>

function iterate :: "(byte list \<Rightarrow> 'm option) \<Rightarrow> byte list \<Rightarrow> 'm list \<times> bool" where
  "iterate dec bs =
     (case iter_next dec bs of
        (Item m, rest) \<Rightarrow>
          if length rest < length bs then (let (ms, panicked) = iterate dec rest in (m # ms, panicked))
          else ([m], False)
      | (Stop, _) \<Rightarrow> ([], False)
      | (CapacityPanic, _) \<Rightarrow> ([], True))"
  by pat_completeness auto
termination
  by (relation "measure (\<lambda>(dec, bs). length bs)") auto

declare iterate.simps [simp del]

lemma delimiter_loop_shorter:
  "delimiter_loop r s bs = (MessageLength n, rest) \<Longrightarrow> length rest < length bs"
proof (induction r s bs rule: delimiter_loop.induct)
  case (2 r s b bs)
  then show ?case by (auto simp: Let_def split: if_splits)
qed (simp split: if_splits)

lemma iter_next_shorter: "iter_next dec bs = (Item m, rest) \<Longrightarrow> length rest < length bs"
  using delimiter_loop_shorter [of 0 0 bs]
  by (force simp: iter_next_def read_delimiter_def split: prod.splits delimiter.splits if_splits option.splits)

text \<open>The guard in the definition of \<open>iterate\<close> is never needed.\<close>

lemma iterate_Item:
  "iter_next dec bs = (Item m, rest) \<Longrightarrow>
   iterate dec bs = (m # fst (iterate dec rest), snd (iterate dec rest))"
  using iter_next_shorter [of dec bs m rest] by (subst iterate.simps) (simp add: split_def Let_def)

lemma iterate_Stop: "fst (iter_next dec bs) = Stop \<Longrightarrow> iterate dec bs = ([], False)"
  by (subst iterate.simps) (auto split: prod.splits)

definition delimited :: "('m \<Rightarrow> byte list) \<Rightarrow> 'm \<Rightarrow> byte list" where
  "delimited enc m = leb128 (length (enc m)) @ enc m"

lemma iter_next_delimited:
  assumes "length (enc m) \<le> ISIZE_MAX" and "dec (enc m) = Some m"
  shows "iter_next dec (delimited enc m @ rest) = (Item m, rest)"
proof -
  have "length (enc m) < 2 ^ 64" using assms(1) by (simp add: ISIZE_MAX_def)
  then have "read_delimiter (leb128 (length (enc m)) @ enc m @ rest) =
      (MessageLength (of_nat (length (enc m))), enc m @ rest)"
    "unat (of_nat (length (enc m)) :: 64 word) = length (enc m)"
    using delimiter_loop_leb128 [of 0 0 "length (enc m)" "enc m @ rest"]
    by (simp_all add: read_delimiter_def unsigned_of_nat take_bit_nat_eq_self)
  then show ?thesis using assms by (simp add: iter_next_def delimited_def)
qed

lemma iterate_delimited:
  assumes "\<And>m. m \<in> set ms \<Longrightarrow> length (enc m) \<le> ISIZE_MAX \<and> dec (enc m) = Some m"
    and "fst (iter_next dec rest) = Stop"
  shows "iterate dec (concat (map (delimited enc) ms) @ rest) = (ms, False)"
  using assms(1)
proof (induction ms)
  case (Cons m ms)
  then show ?case
    using iterate_Item [OF iter_next_delimited, of enc m dec "concat (map (delimited enc) ms) @ rest"]
    by simp
qed (simp add: iterate_Stop assms(2))

section \<open>Writing messages\<close>

text \<open>A \<open>BufWriter\<close> over a file: the bytes it holds back, those in the file, and the number of writes
  made; \<open>ok k\<close> says whether the \<open>k\<close>-th write to the file succeeds.\<close>

record buf_writer =
  bw_buf :: "byte list"
  bw_file :: "byte list"
  bw_writes :: nat

definition BUF_CAPACITY :: nat where
  "BUF_CAPACITY = 8192"

definition bw_new :: buf_writer where
  "bw_new = \<lparr>bw_buf = [], bw_file = [], bw_writes = 0\<rparr>"

definition bw_direct :: "(nat \<Rightarrow> bool) \<Rightarrow> byte list \<Rightarrow> buf_writer \<Rightarrow> bool \<times> buf_writer" where
  "bw_direct ok bs w =
     (ok (bw_writes w), w\<lparr>bw_file := (if ok (bw_writes w) then bw_file w @ bs else bw_file w),
        bw_writes := Suc (bw_writes w)\<rparr>)"

definition bw_flush :: "(nat \<Rightarrow> bool) \<Rightarrow> buf_writer \<Rightarrow> bool \<times> buf_writer" where
  "bw_flush ok w =
     (if bw_buf w = [] then (True, w)
      else (let (good, w') = bw_direct ok (bw_buf w) w
        in (good, if good then w'\<lparr>bw_buf := []\<rparr> else w')))"

definition bw_write_all :: "(nat \<Rightarrow> bool) \<Rightarrow> byte list \<Rightarrow> buf_writer \<Rightarrow> bool \<times> buf_writer" where
  "bw_write_all ok bs w =
     (let (good, w') = (if length (bw_buf w) + length bs > BUF_CAPACITY then bw_flush ok w else (True, w))
      in if \<not> good then (False, w')
         else if length bs \<ge> BUF_CAPACITY then bw_direct ok bs w'
         else (True, w'\<lparr>bw_buf := bw_buf w' @ bs\<rparr>))"

text \<open>Dropping the writer flushes it and ignores the result.\<close>

definition bw_drop :: "(nat \<Rightarrow> bool) \<Rightarrow> buf_writer \<Rightarrow> byte list" where
  "bw_drop ok w = bw_file (snd (bw_flush ok w))"

fun sink_writes :: "(nat \<Rightarrow> bool) \<Rightarrow> ('m \<Rightarrow> byte list) \<Rightarrow> 'm list \<Rightarrow> buf_writer \<Rightarrow> bool \<times> buf_writer" where
  "sink_writes ok enc [] w = (True, w)"
| "sink_writes ok enc (m # ms) w =
     (let (good, w') = bw_write_all ok (delimited enc m) w
      in if good then sink_writes ok enc ms w' else (False, w'))"

text \<open>The outcome of the thread that writes the received entries, and the file it leaves.\<close>

definition spawn_file ::
  "bool \<Rightarrow> (nat \<Rightarrow> bool) \<Rightarrow> ('m \<Rightarrow> byte list) \<Rightarrow> string \<Rightarrow> string \<Rightarrow> 'm list \<Rightarrow>
   (string + unit) \<times> byte list" where
  "spawn_file can_create ok enc path e entries =
     (if \<not> can_create
      then (Inl (''ExecLog: failed to create '' @ [CHR 0x27] @ path @ [CHR 0x27] @ '': '' @ e), [])
      else (let (good, w) = sink_writes ok enc entries bw_new
        in (if good then Inr ()
            else Inl (''ExecLog: write to '' @ [CHR 0x27] @ path @ [CHR 0x27] @ '' failed: '' @ e),
            bw_drop ok w)))"

definition bw_content :: "buf_writer \<Rightarrow> byte list" where
  "bw_content w = bw_file w @ bw_buf w"

lemma bw_write_all_ok:
  assumes "\<And>k. ok k"
  shows "\<exists>w'. bw_write_all ok bs w = (True, w') \<and> bw_content w' = bw_content w @ bs"
  using assms by (cases "bw_buf w") (auto simp: bw_write_all_def bw_flush_def bw_direct_def bw_content_def Let_def BUF_CAPACITY_def)

lemma sink_writes_ok:
  assumes "\<And>k. ok k"
  shows "\<exists>w'. sink_writes ok enc ms w = (True, w') \<and>
    bw_content w' = bw_content w @ concat (map (delimited enc) ms)"
proof (induction ms arbitrary: w)
  case (Cons m ms)
  obtain w' where "bw_write_all ok (delimited enc m) w = (True, w')"
    and "bw_content w' = bw_content w @ delimited enc m"
    using bw_write_all_ok [of ok, OF assms] by blast
  then show ?case using Cons.IH [of w'] by simp
qed simp

text \<open>What the execution log sink writes, the message iterator reads back: when the file can be
  created and no write fails, the sink succeeds and iterating over the bytes of the file gives the
  entries, all of them, in order, and stops without a panic.\<close>

theorem execlog_file_roundtrip:
  assumes "\<And>k. ok k"
    and "\<And>m. m \<in> set entries \<Longrightarrow> length (enc m) \<le> ISIZE_MAX \<and> dec (enc m) = Some m"
  shows "let (outcome, file) = spawn_file True ok enc path e entries
    in outcome = Inr () \<and> iterate dec file = (entries, False)"
proof -
  obtain w where w: "sink_writes ok enc entries bw_new = (True, w)"
    and c: "bw_content w = concat (map (delimited enc) entries)"
    using sink_writes_ok [of ok enc entries bw_new, OF assms(1)]
    by (auto simp: bw_content_def bw_new_def)
  have "bw_drop ok w = concat (map (delimited enc) entries) @ []"
    using c assms(1) by (auto simp: bw_drop_def bw_flush_def bw_direct_def bw_content_def)
  moreover have "fst (iter_next dec []) = Stop"
    by (simp add: iter_next_def read_delimiter_def)
  ultimately show ?thesis
    using w iterate_delimited [of entries enc dec "[]"] assms(2) by (simp add: spawn_file_def)
qed

theorem execlog_file_roundtrip_witness:
  "let (outcome, file) = spawn_file True (\<lambda>_. True) (\<lambda>m. m) ''out'' [] [[1, 2, 3], [], [9 :: byte]]
   in outcome = Inr () \<and> iterate Some file = ([[1, 2, 3], [], [9]], False)"
proof -
  have "length m \<le> ISIZE_MAX \<and> Some m = Some m" if "m \<in> set [[1, 2, 3], [], [9 :: byte]]" for m
    using that by (auto simp: ISIZE_MAX_def)
  from execlog_file_roundtrip [where entries = "[[1, 2, 3], [], [9 :: byte]]", OF TrueI this]
  show ?thesis by simp
qed

text \<open>When the only write is the one at the end, its failure goes unnoticed: the sink succeeds and the
  file is empty.\<close>

lemma last_write_failure_is_lost:
  "spawn_file True (\<lambda>_. False) (\<lambda>m. m) path e [[1, 2, 3 :: byte]] = (Inr (), [])"
  by (simp add: spawn_file_def bw_write_all_def bw_flush_def bw_direct_def bw_drop_def bw_new_def
      delimited_def leb128.simps BUF_CAPACITY_def)

text \<open>A file cut in the middle of a message reads as the messages before it, without a sign.\<close>

lemma cut_file_reads_as_shorter:
  "iterate Some [2, 10, 11, 3, 1] = ([[10, 11]], False)"
proof -
  have "fst (iter_next Some [3, 1 :: byte]) = Stop"
    by (simp add: iter_next_def read_delimiter_def ISIZE_MAX_def)
  then have "iterate Some (concat (map (delimited (\<lambda>m. m)) [[10, 11]]) @ [3, 1]) = ([[10, 11]], False)"
    by (intro iterate_delimited) (auto simp: ISIZE_MAX_def)
  then show ?thesis by (simp add: delimited_def leb128.simps)
qed

end
