(* ===== verification/File_Stream.thy ===== *)
theory File_Stream
  imports Delimited
begin

text \<open>
  Following a file that Bazel is still writing: the pipe and the streaming file
  (crates/galvanize/src/lib.rs), and the readers of the execution log and of the workspace log
  (crates/axl-runtime/src/engine/bazel/stream/execlog.rs and workspace_event.rs, with
  \<open>MultiTeeReader\<close> of util.rs). The file and its writer are a state on which the steps of the writer
  and of the reader interleave; decompression and the message codec are parameters.
\<close>

section \<open>Is the writer still there\<close>

text \<open>The answer of \<open>kill(pid, 0)\<close>: success, no such process, or another error.\<close>

datatype kill_probe = Signalled | NoSuchProcess | OtherErrno

definition is_pid_alive :: "kill_probe \<Rightarrow> bool \<Rightarrow> bool" where
  "is_pid_alive probe zombie =
     (case probe of Signalled \<Rightarrow> \<not> zombie | NoSuchProcess \<Rightarrow> False | OtherErrno \<Rightarrow> True)"

datatype read_error = BrokenPipe | UnexpectedEof | InvalidData | OtherKind

text \<open>\<open>fds\<close> are the open files of the process: \<open>None\<close> when its entry cannot be opened, an error when
  the list cannot be read, and per file an error, a path, or something without one.\<close>

fun any_fd :: "string \<Rightarrow> (read_error + string option) list \<Rightarrow> read_error + bool" where
  "any_fd path [] = Inr False"
| "any_fd path (Inl e # fds) = Inl OtherKind"
| "any_fd path (Inr target # fds) = (if target = Some path then Inr True else any_fd path fds)"

definition is_path_open_for_pid ::
  "bool \<Rightarrow> (read_error + (read_error + string option) list) option \<Rightarrow> string \<Rightarrow> read_error + bool" where
  "is_path_open_for_pid alive fds path =
     (if \<not> alive then Inr False
      else (case fds of
          None \<Rightarrow> Inr False
        | Some (Inl e) \<Rightarrow> Inl OtherKind
        | Some (Inr fs) \<Rightarrow> any_fd path fs))"

section \<open>Reading a pipe\<close>

datatype retry_policy = Never | IfOpenForPid

text \<open>The \<open>k\<close>-th read of the file gives \<open>reads k\<close>, the \<open>k\<close>-th question whether the writer has it open
  \<open>is_open k\<close>. A pipe that is asked for ever is \<open>None\<close>.\<close>

partial_function (option) read_if_open ::
  "(nat \<Rightarrow> read_error + byte list) \<Rightarrow> (nat \<Rightarrow> read_error + bool) \<Rightarrow> nat \<Rightarrow> (read_error + byte list) option" where
  "read_if_open reads is_open k =
     (case reads k of
        Inr bs \<Rightarrow>
          if bs = [] then
            (case is_open k of
               Inl e \<Rightarrow> Some (Inl e)
             | Inr op \<Rightarrow> Some (if op then Inr [] else Inl BrokenPipe))
          else Some (Inr bs)
      | Inl e \<Rightarrow>
          if e = UnexpectedEof then
            (case is_open k of
               Inl e' \<Rightarrow> Some (Inl e')
             | Inr op \<Rightarrow> if op then read_if_open reads is_open (k + 1) else Some (Inl BrokenPipe))
          else Some (Inl e))"

definition read_with_policy ::
  "retry_policy \<Rightarrow> (nat \<Rightarrow> read_error + byte list) \<Rightarrow> (nat \<Rightarrow> read_error + bool) \<Rightarrow>
   (read_error + byte list) option" where
  "read_with_policy policy reads is_open =
     (case policy of Never \<Rightarrow> Some (reads 0) | IfOpenForPid \<Rightarrow> read_if_open reads is_open 0)"

text \<open>Creating the pipe is idempotent: an existing path is not an error.\<close>

datatype mkfifo_answer = Created | Exists | MkfifoFailed

definition mkfifo :: "mkfifo_answer \<Rightarrow> bool" where
  "mkfifo r \<longleftrightarrow> r \<noteq> MkfifoFailed"

section \<open>Following a file\<close>

text \<open>Opening waits until the file exists, as long as the writer lives.\<close>

partial_function (option) open_streaming ::
  "(nat \<Rightarrow> bool) \<Rightarrow> (nat \<Rightarrow> bool) \<Rightarrow> nat \<Rightarrow> (read_error + nat) option" where
  "open_streaming present alive k =
     (if present k then Some (Inr k)
      else if \<not> alive k then Some (Inl BrokenPipe)
      else open_streaming present alive (k + 1))"

lemma open_streaming_waits:
  "\<forall>j < n. \<not> present (k + j) \<and> alive (k + j) \<Longrightarrow>
   open_streaming present alive k = open_streaming present alive (k + n)"
proof (induction n arbitrary: k)
  case (Suc n)
  have "\<not> present k" "alive k" using Suc.prems by (metis add_0_right zero_less_Suc)+
  moreover have "\<forall>j < n. \<not> present (k + 1 + j) \<and> alive (k + 1 + j)"
    using Suc.prems by (metis Suc_less_eq add_Suc_right add_Suc_shift Suc_eq_plus1)
  ultimately show ?case using Suc.IH [of "k + 1"] by (subst open_streaming.simps) simp
qed simp

text \<open>The state of a file that is written and followed: what has been written, how far the reader is,
  whether the writer has it open, and where the reader is. The reader reads; at the end of the file it
  asks whether the writer is still there; and it has ended when it was told no.\<close>

datatype reader_at = Reading | AtEof | Ended

record follow =
  fo_content :: "byte list"
  fo_pos :: nat
  fo_open :: bool
  fo_at :: reader_at
  fo_read :: "byte list"

definition follow_start :: follow where
  "follow_start = \<lparr>fo_content = [], fo_pos = 0, fo_open = True, fo_at = Reading, fo_read = []\<rparr>"

text \<open>With \<open>calm\<close> the writer does nothing between the reader's empty read and its question.\<close>

inductive follow_step :: "bool \<Rightarrow> follow \<Rightarrow> follow \<Rightarrow> bool" for calm where
  append: "fo_open s \<Longrightarrow> (calm \<longrightarrow> fo_at s \<noteq> AtEof) \<Longrightarrow>
    follow_step calm s (s\<lparr>fo_content := fo_content s @ bs\<rparr>)"
| close: "fo_open s \<Longrightarrow> follow_step calm s (s\<lparr>fo_open := False\<rparr>)"
| read: "fo_at s = Reading \<Longrightarrow> 0 < n \<Longrightarrow> fo_pos s + n \<le> length (fo_content s) \<Longrightarrow>
    follow_step calm s (s\<lparr>fo_pos := fo_pos s + n,
      fo_read := fo_read s @ take n (drop (fo_pos s) (fo_content s))\<rparr>)"
| empty_read: "fo_at s = Reading \<Longrightarrow> fo_pos s = length (fo_content s) \<Longrightarrow>
    follow_step calm s (s\<lparr>fo_at := AtEof\<rparr>)"
| ask: "fo_at s = AtEof \<Longrightarrow>
    follow_step calm s (s\<lparr>fo_at := (if fo_open s then Reading else Ended)\<rparr>)"

inductive_cases follow_stepE: "follow_step calm s t"

definition follow_reachable :: "bool \<Rightarrow> follow \<Rightarrow> bool" where
  "follow_reachable calm s \<longleftrightarrow> (follow_step calm)\<^sup>*\<^sup>* follow_start s"

definition follow_ok :: "bool \<Rightarrow> follow \<Rightarrow> bool" where
  "follow_ok calm s \<longleftrightarrow> fo_pos s \<le> length (fo_content s) \<and>
     fo_read s = take (fo_pos s) (fo_content s) \<and>
     (fo_at s = Ended \<longrightarrow> \<not> fo_open s) \<and>
     (calm \<and> fo_at s \<noteq> Reading \<longrightarrow> fo_pos s = length (fo_content s))"

lemma follow_ok_start: "follow_ok calm follow_start"
  by (simp add: follow_ok_def follow_start_def)

lemma follow_ok_step: "follow_step calm s t \<Longrightarrow> follow_ok calm s \<Longrightarrow> follow_ok calm t"
  by (erule follow_stepE; cases "fo_at s") (auto simp: follow_ok_def take_add)

lemma follow_ok_reachable: "follow_reachable calm s \<Longrightarrow> follow_ok calm s"
  unfolding follow_reachable_def
  by (induction rule: rtranclp_induct) (auto simp: follow_ok_start intro: follow_ok_step)


text \<open>Without that, the end of the file is lost: the writer writes its last bytes and closes the file
  between the reader's empty read and its question.\<close>

lemma follower_loses_the_end:
  "\<exists>s. follow_reachable False s \<and> fo_at s = Ended \<and> fo_content s = [7] \<and> fo_read s = []"
proof -
  let ?s1 = "follow_start\<lparr>fo_at := AtEof\<rparr>"
  let ?s2 = "?s1\<lparr>fo_content := [7]\<rparr>"
  let ?s3 = "?s2\<lparr>fo_open := False\<rparr>"
  let ?s4 = "?s3\<lparr>fo_at := Ended\<rparr>"
  have "follow_step False follow_start ?s1" by (rule empty_read) (simp_all add: follow_start_def)
  moreover have "follow_step False ?s1 (?s1\<lparr>fo_content := fo_content ?s1 @ [7]\<rparr>)"
    by (rule append) (simp_all add: follow_start_def)
  then have "follow_step False ?s1 ?s2" by (simp add: follow_start_def)
  moreover have "follow_step False ?s2 ?s3" by (rule close) (simp add: follow_start_def)
  moreover have "follow_step False ?s3 (?s3\<lparr>fo_at := (if fo_open ?s3 then Reading else Ended)\<rparr>)"
    by (rule ask) simp
  then have "follow_step False ?s3 ?s4" by simp
  ultimately have "(follow_step False)\<^sup>*\<^sup>* follow_start ?s4"
    by (meson converse_rtranclp_into_rtranclp rtranclp.rtrancl_refl)
  then show ?thesis by (intro exI [of _ ?s4]) (simp add: follow_reachable_def follow_start_def)
qed


section \<open>Decoding the stream\<close>

text \<open>A source is the bytes it will deliver and the error with which it ends. A result of the reading
  thread is success, an error, or the panic of an impossible allocation.\<close>

datatype stream_error = StreamIo read_error | ProstDecode | SendFailed

datatype stream_end = StreamDone | StreamFailed stream_error | StreamPanic

text \<open>One message: its bytes and what follows, or the end.\<close>

definition read_message ::
  "read_error \<Rightarrow> byte list \<Rightarrow> (byte list \<times> byte list) + stream_end" where
  "read_message eos bs =
     (case read_varint bs of
        (OutOfBytes _, _) \<Rightarrow> Inr (StreamFailed (StreamIo eos))
      | (VarintOverflow, _) \<Rightarrow> Inr (StreamFailed (StreamIo InvalidData))
      | (Length n _, rest) \<Rightarrow>
          if unat n > ISIZE_MAX then Inr StreamPanic
          else if length rest < unat n then Inr (StreamFailed (StreamIo eos))
          else Inl (take (unat n) rest, drop (unat n) rest))"

text \<open>The error \<open>BrokenPipe\<close> is the end of the stream.\<close>

definition at_end :: "stream_end \<Rightarrow> stream_end" where
  "at_end e = (if e = StreamFailed (StreamIo BrokenPipe) then StreamDone else e)"

lemma varint_loop_shorter:
  "varint_loop r s raw bs = (Length n raw', rest) \<Longrightarrow> length rest < length bs"
proof (induction r s raw bs rule: varint_loop.induct)
  case (2 r s raw b bs)
  have "drain_varint b raw'' cs \<noteq> (Length n raw', rest)" for b raw'' cs
    by (induction b raw'' cs rule: drain_varint.induct) auto
  then show ?case using 2 by (auto simp: Let_def split: if_splits)
qed simp

lemma read_message_shorter: "read_message eos bs = Inl (m, rest) \<Longrightarrow> length rest < length bs"
  using varint_loop_shorter [of 0 0 "[]" bs]
  by (force simp: read_message_def read_varint_def split: prod.splits varint.splits if_splits)

text \<open>The thread of \<open>WorkspaceEventStream\<close>: \<open>send_ok k\<close> says whether the \<open>k\<close>-th message can be sent.\<close>

function workspace_loop ::
  "(byte list \<Rightarrow> 'm option) \<Rightarrow> (nat \<Rightarrow> bool) \<Rightarrow> read_error \<Rightarrow> nat \<Rightarrow> byte list \<Rightarrow> 'm list \<times> stream_end" where
  "workspace_loop dec send_ok eos k bs =
     (case read_message eos bs of
        Inr e \<Rightarrow> ([], at_end e)
      | Inl (m, rest) \<Rightarrow>
          (case dec m of
             None \<Rightarrow> ([], StreamFailed ProstDecode)
           | Some event \<Rightarrow>
               if \<not> send_ok k then ([], StreamFailed SendFailed)
               else (let (sent, e) = workspace_loop dec send_ok eos (Suc k) rest in (event # sent, e))))"
  by pat_completeness auto
termination
  by (relation "measure (\<lambda>(dec, send_ok, eos, k, bs). length bs)") (auto dest: read_message_shorter)

declare workspace_loop.simps [simp del]

text \<open>The thread of \<open>ExecLogStream\<close>. With file sinks every entry is sent and the thread waits for
  room; without, an entry is dropped when there is none, and after the last receiver has gone entries
  are not decoded any more.\<close>

datatype try_send = TrySent | TryFull | TryClosed

function execlog_loop ::
  "(byte list \<Rightarrow> 'm option) \<Rightarrow> bool \<Rightarrow> (nat \<Rightarrow> bool) \<Rightarrow> (nat \<Rightarrow> try_send) \<Rightarrow> read_error \<Rightarrow> bool \<Rightarrow> nat \<Rightarrow>
   byte list \<Rightarrow> 'm list \<times> stream_end" where
  "execlog_loop dec has_file_sinks send_ok room eos has_readers k bs =
     (case read_message eos bs of
        Inr e \<Rightarrow> ([], at_end e)
      | Inl (m, rest) \<Rightarrow>
          if \<not> has_file_sinks \<and> \<not> has_readers
          then execlog_loop dec has_file_sinks send_ok room eos has_readers (Suc k) rest
          else (case dec m of
              None \<Rightarrow> ([], StreamFailed ProstDecode)
            | Some entry \<Rightarrow>
                if has_file_sinks then
                  (if \<not> send_ok k then ([], StreamFailed SendFailed)
                   else (let (sent, e) =
                       execlog_loop dec has_file_sinks send_ok room eos has_readers (Suc k) rest
                     in (entry # sent, e)))
                else
                  (let (sent, e) = execlog_loop dec has_file_sinks send_ok room eos
                       (room k \<noteq> TryClosed) (Suc k) rest
                   in (if room k = TrySent then entry # sent else sent, e))))"
  by pat_completeness auto
termination
  by (relation "measure (\<lambda>(dec, fs, send_ok, room, eos, r, k, bs). length bs)")
    (auto dest: read_message_shorter)

declare execlog_loop.simps [simp del]

text \<open>Joining the stream: the first failed sink decides, then the reader.\<close>

datatype sink_end = SinkDone | SinkError string | SinkPanicked

fun join_stream :: "sink_end list \<Rightarrow> stream_end \<Rightarrow> string + stream_end" where
  "join_stream [] reader = Inr reader"
| "join_stream (SinkDone # hs) reader = join_stream hs reader"
| "join_stream (SinkError e # hs) reader = Inl e"
| "join_stream (SinkPanicked # hs) reader = Inl ''execlog file sink panicked''"

text \<open>Copying what is read to other files: a failed write ends the read with an error, after the
  files before it have got the bytes.\<close>

fun tee_write :: "(nat \<Rightarrow> bool) \<Rightarrow> nat \<Rightarrow> byte list \<Rightarrow> byte list list \<Rightarrow> bool \<times> byte list list" where
  "tee_write ok i chunk [] = (True, [])"
| "tee_write ok i chunk (w # ws) =
     (if ok i then (let (good, ws') = tee_write ok (Suc i) chunk ws in (good, (w @ chunk) # ws'))
      else (False, w # ws))"

text \<open>Reading again until there are bytes or an error.\<close>

partial_function (option) retry_read ::
  "(nat \<Rightarrow> read_error + byte list) \<Rightarrow> nat \<Rightarrow> (read_error + byte list) option" where
  "retry_read reads k = (if reads k = Inr [] then retry_read reads (k + 1) else Some (reads k))"

lemma retry_read_result: "(\<forall>j < n. reads (k + j) = Inr []) \<Longrightarrow> reads (k + n) \<noteq> Inr [] \<Longrightarrow>
  retry_read reads k = Some (reads (k + n))"
proof (induction n arbitrary: k)
  case 0
  then show ?case by (subst retry_read.simps) simp
next
  case (Suc n)
  have "reads k = Inr []" using Suc.prems(1) by (metis add_0_right zero_less_Suc)
  moreover have "\<forall>j < n. reads (k + 1 + j) = Inr []"
    using Suc.prems(1) by (metis Suc_less_eq add_Suc_right add_Suc_shift Suc_eq_plus1)
  ultimately show ?case
    using Suc.IH [of "k + 1"] Suc.prems(2) by (subst retry_read.simps) simp
qed

lemma tee_write_ok:
  "(\<And>i. ok i) \<Longrightarrow> tee_write ok i chunk ws = (True, map (\<lambda>w. w @ chunk) ws)"
  by (induction ws arbitrary: i) auto

lemma read_message_delimited:
  assumes "length (enc m) \<le> ISIZE_MAX"
  shows "read_message eos (delimited enc m @ rest) = Inl (enc m, rest)"
proof -
  have "length (enc m) < 2 ^ 64" using assms by (simp add: ISIZE_MAX_def)
  then have "read_varint (leb128 (length (enc m)) @ enc m @ rest) =
      (Length (of_nat (length (enc m))) (leb128 (length (enc m))), enc m @ rest)"
    "unat (of_nat (length (enc m)) :: 64 word) = length (enc m)"
    using varint_loop_leb128 [of 0 0 "length (enc m)" "[]" "enc m @ rest"]
    by (simp_all add: read_varint_def unsigned_of_nat take_bit_nat_eq_self)
  then show ?thesis using assms by (simp add: read_message_def delimited_def)
qed

lemma read_message_Nil: "read_message eos [] = Inr (StreamFailed (StreamIo eos))"
  by (simp add: read_message_def read_varint_def)

lemma workspace_loop_delimited:
  assumes "\<And>m. m \<in> set ms \<Longrightarrow> length (enc m) \<le> ISIZE_MAX \<and> dec (enc m) = Some m" and "\<And>k. send_ok k"
  shows "workspace_loop dec send_ok eos k (concat (map (delimited enc) ms) @ rest) =
    (let (sent, e) = workspace_loop dec send_ok eos (k + length ms) rest in (ms @ sent, e))"
  using assms(1)
proof (induction ms arbitrary: k)
  case (Cons m ms)
  have "workspace_loop dec send_ok eos k (delimited enc m @ concat (map (delimited enc) ms) @ rest) =
      (let (sent, e) = workspace_loop dec send_ok eos (Suc k) (concat (map (delimited enc) ms) @ rest)
       in (m # sent, e))"
    using Cons.prems [of m] read_message_delimited [of enc m eos] assms(2)
    by (subst workspace_loop.simps) simp
  then show ?case using Cons by (simp add: split_def Let_def)
qed (simp add: split_def Let_def)

lemma execlog_loop_sinks:
  assumes "\<And>m. m \<in> set ms \<Longrightarrow> length (enc m) \<le> ISIZE_MAX \<and> dec (enc m) = Some m" and "\<And>k. send_ok k"
  shows "execlog_loop dec True send_ok room BrokenPipe r k (concat (map (delimited enc) ms)) =
    (ms, StreamDone)"
  using assms(1)
proof (induction ms arbitrary: k)
  case Nil
  show ?case by (subst execlog_loop.simps) (simp add: read_message_Nil at_end_def)
next
  case (Cons m ms)
  then show ?case
    using read_message_delimited [of enc m BrokenPipe] assms(2) [of k]
    by (subst execlog_loop.simps) simp
qed

text \<open>Without sinks the messages that arrive are those for which there was room, up to the moment at
  which the last receiver goes.\<close>

lemma execlog_loop_no_readers:
  assumes "\<And>m. m \<in> set ms \<Longrightarrow> length (enc m) \<le> ISIZE_MAX"
  shows "execlog_loop dec False send_ok room BrokenPipe False k (concat (map (delimited enc) ms)) =
    ([], StreamDone)"
  using assms
proof (induction ms arbitrary: k)
  case Nil
  show ?case by (subst execlog_loop.simps) (simp add: read_message_Nil at_end_def)
next
  case (Cons m ms)
  then show ?case
    using read_message_delimited [of enc m BrokenPipe] by (subst execlog_loop.simps) simp
qed

definition received :: "(nat \<Rightarrow> try_send) \<Rightarrow> nat \<Rightarrow> 'm list \<Rightarrow> 'm list" where
  "received room k ms = map fst (filter (\<lambda>(m, j). room j = TrySent \<and> (\<forall>i \<ge> k. i < j \<longrightarrow> room i \<noteq> TryClosed))
     (zip ms [k..<k + length ms]))"

lemma received_Nil [simp]: "received room k [] = []"
  by (simp add: received_def)

lemma received_Cons:
  "received room k (m # ms) =
     (if room k = TrySent then [m] else []) @ (if room k = TryClosed then [] else received room (Suc k) ms)"
proof -
  have "[k..<k + length (m # ms)] = k # [Suc k..<Suc k + length ms]" by (simp add: upt_rec)
  moreover have "filter (\<lambda>(m, j). room j = TrySent \<and> (\<forall>i \<ge> k. i < j \<longrightarrow> room i \<noteq> TryClosed))
      (zip ms [Suc k..<Suc k + length ms]) =
    (if room k = TryClosed then [] else filter (\<lambda>(m, j). room j = TrySent \<and>
      (\<forall>i \<ge> Suc k. i < j \<longrightarrow> room i \<noteq> TryClosed)) (zip ms [Suc k..<Suc k + length ms]))"
    (is "filter ?P ?z = _")
  proof (cases "room k = TryClosed")
    case True
    have "filter ?P ?z = []"
      using True by (auto simp: filter_empty_conv dest!: set_zip_rightD)
    then show ?thesis using True by simp
  next
    case False
    have "(\<forall>i \<ge> k. i < j \<longrightarrow> room i \<noteq> TryClosed) \<longleftrightarrow> (\<forall>i \<ge> Suc k. i < j \<longrightarrow> room i \<noteq> TryClosed)" for j
      using False by (metis Suc_leD Suc_leI le_neq_implies_less)
    then have "?P e = (case e of (m, j) \<Rightarrow> room j = TrySent \<and> (\<forall>i \<ge> Suc k. i < j \<longrightarrow> room i \<noteq> TryClosed))"
      if "e \<in> set ?z" for e
      by (cases e) simp
    then show ?thesis using False by (simp cong: filter_cong)
  qed
  ultimately show ?thesis by (auto simp: received_def)
qed

text \<open>C28. What a consumer of the execution log gets. With file sinks and a consumer that stays, every
  entry of the stream in order, and re-encoded to a file the same bytes as the stream had; without
  sinks exactly the entries for which there was room before the last receiver went; in both cases the
  thread ends well at the end of the stream.\<close>

theorem execlog_stream_delivers:
  assumes "\<And>m. m \<in> set ms \<Longrightarrow> length (enc m) \<le> ISIZE_MAX \<and> dec (enc m) = Some m" and "\<And>k. send_ok k"
    and "\<And>k. ok k" and "bytes = concat (map (delimited enc) ms)"
  shows "execlog_loop dec True send_ok room BrokenPipe True 0 bytes = (ms, StreamDone) \<and>
    spawn_file True ok enc path e ms = (Inr (), bytes) \<and>
    execlog_loop dec False send_ok room BrokenPipe True 0 bytes = (received room 0 ms, StreamDone)"
proof -
  have "execlog_loop dec False send_ok room BrokenPipe True k (concat (map (delimited enc) xs)) =
      (received room k xs, StreamDone)" if "set xs \<subseteq> set ms" for k xs
    using that
  proof (induction xs arbitrary: k)
    case Nil
    show ?case by (subst execlog_loop.simps) (simp add: read_message_Nil at_end_def)
  next
    case (Cons m xs)
    have m: "length (enc m) \<le> ISIZE_MAX" "dec (enc m) = Some m" using Cons.prems assms(1) by auto
    have xs: "\<And>x. x \<in> set xs \<Longrightarrow> length (enc x) \<le> ISIZE_MAX" using Cons.prems assms(1) by auto
    show ?case
      using m Cons.IH [of "Suc k"] Cons.prems read_message_delimited [of enc m BrokenPipe]
        execlog_loop_no_readers [of xs enc dec send_ok room "Suc k", OF xs]
      by (subst execlog_loop.simps) (auto simp: received_Cons)
  qed
  moreover obtain w where w: "sink_writes ok enc ms bw_new = (True, w)" and c: "bw_content w = bytes"
    using sink_writes_ok [of ok enc ms bw_new, OF assms(3)] assms(4)
    by (auto simp: bw_content_def bw_new_def)
  moreover have "bw_drop ok w = bytes"
    using c assms(3) by (auto simp: bw_drop_def bw_flush_def bw_direct_def bw_content_def)
  ultimately show ?thesis
    using execlog_loop_sinks [of ms enc dec send_ok, OF assms(1,2)] by (simp add: assms(4) spawn_file_def)
qed

text \<open>A stream that breaks in the middle of a message ends like one that does not: the part is
  dropped and the result is success.\<close>

lemma broken_message_is_dropped:
  "workspace_loop Some (\<lambda>_. True) BrokenPipe 0 [2, 10, 11, 3, 1] = ([[10, 11]], StreamDone)"
proof -
  have "workspace_loop Some (\<lambda>_. True) BrokenPipe 1 [3, 1 :: byte] = ([], StreamDone)"
    by (subst workspace_loop.simps)
      (simp add: read_message_def read_varint_def more_bit_def low_bits_def at_end_def ISIZE_MAX_def)
  then have "workspace_loop Some (\<lambda>_. True) BrokenPipe 0
      (concat (map (delimited (\<lambda>m. m)) [[10, 11]]) @ [3, 1]) = ([[10, 11]], StreamDone)"
    by (subst workspace_loop_delimited) (auto simp: ISIZE_MAX_def)
  then show ?thesis by (simp add: delimited_def leb128.simps)
qed

theorem execlog_stream_delivers_witness:
  "let room = (\<lambda>k. if k = 1 then TryFull else TrySent)
   in execlog_loop Some False (\<lambda>_. True) room BrokenPipe True 0 [1, 5, 0, 2, 6, 7 :: byte] =
     ([[5], [6, 7]], StreamDone)"
proof -
  define room where "room = (\<lambda>k :: nat. if k = 1 then TryFull else TrySent)"
  have m: "length m \<le> ISIZE_MAX \<and> Some m = Some m" if "m \<in> set [[5], [], [6, 7 :: byte]]" for m
    using that by (auto simp: ISIZE_MAX_def)
  have "received room 0 [[5], [], [6, 7 :: byte]] = [[5], [6, 7]]"
    by (simp add: received_Cons room_def)
  moreover have "concat (map (delimited (\<lambda>m. m)) [[5], [], [6, 7 :: byte]]) = [1, 5, 0, 2, 6, 7]"
    by (simp add: delimited_def leb128.simps)
  ultimately show ?thesis
    using execlog_stream_delivers [where ms = "[[5], [], [6, 7 :: byte]]" and enc = "\<lambda>m. m" and
        dec = Some and send_ok = "\<lambda>_. True" and room = room and ok = "\<lambda>_. True", OF m TrueI TrueI refl]
    unfolding Let_def room_def [symmetric] by simp
qed

end
