(* ===== verification/Utf8.thy ===== *)
theory Utf8
  imports Cli_Prelude
begin

text \<open>
  The characters of a string and UTF-8 validity: Rust's \<open>str::chars\<close>, \<open>str::from_utf8\<close> and
  \<open>String::from_utf8_lossy\<close> over byte lists.
\<close>

section \<open>Characters of a string\<close>

type_synonym rchar = string

definition utf8_cont :: "char \<Rightarrow> bool" where
  "utf8_cont c \<longleftrightarrow> CHR 0x80 \<le> c \<and> c \<le> CHR 0xBF"

function utf8_chars :: "string \<Rightarrow> rchar list" where
  "utf8_chars [] = []"
| "utf8_chars (b # bs) = (b # takeWhile utf8_cont bs) # utf8_chars (dropWhile utf8_cont bs)"
  by pat_completeness auto
termination
  by (relation "measure length") (auto simp: le_imp_less_Suc length_dropWhile_le)

lemma utf8_chars_ascii:
  "(\<And>b. b \<in> set s \<Longrightarrow> \<not> utf8_cont b) \<Longrightarrow> utf8_chars s = map (\<lambda>b. [b]) s"
proof (induction s)
  case (Cons b s)
  then have "takeWhile utf8_cont s = [] \<and> dropWhile utf8_cont s = s" by (cases s) auto
  with Cons show ?case by simp
qed simp

section \<open>Validity\<close>

text \<open>\<open>utf8_step\<close> looks at the first character of a byte string: its length and whether it is well
  formed. Of an ill-formed one the length is that of the part that is replaced at once.\<close>

definition between :: "char \<Rightarrow> char \<Rightarrow> char \<Rightarrow> bool" where
  "between lo hi c \<longleftrightarrow> lo \<le> c \<and> c \<le> hi"

definition second_byte :: "char \<Rightarrow> char \<Rightarrow> bool" where
  "second_byte b =
     (if b = CHR 0xE0 then between CHR 0xA0 CHR 0xBF
      else if b = CHR 0xED then between CHR 0x80 CHR 0x9F
      else if b = CHR 0xF0 then between CHR 0x90 CHR 0xBF
      else if b = CHR 0xF4 then between CHR 0x80 CHR 0x8F
      else utf8_cont)"

definition utf8_width :: "char \<Rightarrow> nat" where
  "utf8_width b =
     (if b \<le> CHR 0x7F then 1
      else if between CHR 0xC2 CHR 0xDF b then 2
      else if between CHR 0xE0 CHR 0xEF b then 3
      else if between CHR 0xF0 CHR 0xF4 b then 4 else 0)"

definition utf8_step :: "char \<Rightarrow> string \<Rightarrow> nat \<times> bool" where
  "utf8_step b bs =
     (let w = utf8_width b
      in if w = 0 then (1, False)
         else if w = 1 then (1, True)
         else (case bs of
                 [] \<Rightarrow> (1, False)
               | c # cs \<Rightarrow>
                   if \<not> second_byte b c then (1, False)
                   else (let more = length (takeWhile utf8_cont (take (w - 2) cs))
                         in (2 + more, more = w - 2))))"

lemma utf8_step_pos [simp]: "0 < fst (utf8_step b bs)"
  by (auto simp: utf8_step_def Let_def split: list.split)

text \<open>\<open>String::from_utf8_lossy\<close>.\<close>

function from_utf8_lossy :: "string \<Rightarrow> string" where
  "from_utf8_lossy [] = []"
| "from_utf8_lossy (b # bs) =
     (let (n, ok) = utf8_step b bs
      in (if ok then take n (b # bs) else [CHR 0xEF, CHR 0xBF, CHR 0xBD]) @
         from_utf8_lossy (drop n (b # bs)))"
  by pat_completeness auto
termination
proof (relation "measure length")
  fix b :: char and bs x n ok
  assume "x = utf8_step b bs" "(n, ok) = x"
  then have "0 < n" using utf8_step_pos [of b bs] by (metis fst_conv)
  then show "(drop n (b # bs), b # bs) \<in> measure length" by simp
qed simp

function valid_utf8 :: "string \<Rightarrow> bool" where
  "valid_utf8 [] = True"
| "valid_utf8 (b # bs) =
     (let (n, ok) = utf8_step b bs in ok \<and> valid_utf8 (drop n (b # bs)))"
  by pat_completeness auto
termination
proof (relation "measure length")
  fix b :: char and bs x n ok
  assume "x = utf8_step b bs" "(n, ok) = x"
  then have "0 < n" using utf8_step_pos [of b bs] by (metis fst_conv)
  then show "(drop n (b # bs), b # bs) \<in> measure length" by simp
qed simp

lemma lossy_valid: "valid_utf8 s \<Longrightarrow> from_utf8_lossy s = s"
proof (induction s rule: valid_utf8.induct)
  case (2 b bs)
  obtain n ok where step: "utf8_step b bs = (n, ok)" by fastforce
  have "ok" "valid_utf8 (drop n (b # bs))" using 2 step by auto
  then have "from_utf8_lossy (drop n (b # bs)) = drop n (b # bs)" using 2 step by auto
  then have "from_utf8_lossy (b # bs) = take n (b # bs) @ drop n (b # bs)"
    using step \<open>ok\<close> by (subst from_utf8_lossy.simps) simp
  then show ?case by (simp only: append_take_drop_id)
qed simp

lemma ascii_valid: "(\<And>b. b \<in> set s \<Longrightarrow> b \<le> CHR 0x7F) \<Longrightarrow> valid_utf8 s"
  by (induction s) (auto simp: utf8_step_def utf8_width_def Let_def)

end
