(* ===== verification/Glob.thy ===== *)
theory Glob
  imports Utf8
begin

text \<open>
  \<open>glob_match\<close> (crates/axl-runtime/src/engine/bazel/stream/redaction.rs): the iterative
  matcher with one backtracking point, and its correctness against the meaning of \<open>*\<close> and
  \<open>?\<close>. The code's indices into pattern and name are the suffixes they stand for;
  \<open>star\<close> holds the pattern after the last star and the name where that star began. A Rust
  \<open>char\<close> is the list of its UTF-8 bytes. Unicode lower-casing (\<open>str::to_lowercase\<close>) is the
  argument \<open>lc\<close>.
\<close>

section \<open>The matcher\<close>

function glob_loop ::
  "rchar list \<Rightarrow> rchar list \<Rightarrow> (rchar list \<times> rchar list) option \<Rightarrow> bool" where
  "glob_loop ps ns star =
     (if ns \<noteq> [] \<and> ps \<noteq> [] \<and> (hd ps = ''?'' \<or> hd ps = hd ns) then
        (if tl ns = [] then list_all (\<lambda>p. p = ''*'') (tl ps) else glob_loop (tl ps) (tl ns) star)
      else if ps \<noteq> [] \<and> hd ps = ''*'' then
        (if ns = [] then list_all (\<lambda>p. p = ''*'') (tl ps)
         else glob_loop (tl ps) ns (Some (tl ps, ns)))
      else (case star of
          Some (sps, sns) \<Rightarrow>
            (if tl sns = [] then list_all (\<lambda>p. p = ''*'') sps
             else glob_loop sps (tl sns) (Some (sps, tl sns)))
        | None \<Rightarrow> False))"
  by pat_completeness auto
termination
proof (relation "measures
    [\<lambda>(ps, ns, star). max (length ps) (case star of None \<Rightarrow> 0 | Some (sps, sns) \<Rightarrow> length sps),
     \<lambda>(ps, ns, star). case star of None \<Rightarrow> 0 | Some (sps, sns) \<Rightarrow> length sns,
     \<lambda>(ps, ns, star). length ps]", goal_cases)
  case (2 ps ns star)
  then show ?case by (cases ps; cases star) (auto simp: max_def)
next
  case (3 ps ns star)
  then show ?case by (cases ps; cases star) (auto simp: max_def)
next
  case (4 ps ns star x sps sns)
  then have "length (tl sns) < length sns" by (cases sns) auto
  with 4 show ?case by (auto simp: max_def)
qed simp

declare glob_loop.simps [simp del]

definition glob_match :: "(string \<Rightarrow> string) \<Rightarrow> string \<Rightarrow> string \<Rightarrow> bool" where
  "glob_match lc pattern name =
     glob_loop (utf8_chars (lc pattern)) (utf8_chars (lc name)) None"

section \<open>What a pattern means\<close>

fun glob_spec :: "rchar list \<Rightarrow> rchar list \<Rightarrow> bool" where
  "glob_spec [] ns = (ns = [])"
| "glob_spec (p # ps) ns =
     (if p = ''*'' then list_ex (\<lambda>k. glob_spec ps (drop k ns)) [0..<Suc (length ns)]
      else ns \<noteq> [] \<and> (p = ''?'' \<or> p = hd ns) \<and> glob_spec ps (tl ns))"

lemma glob_spec_star:
  "glob_spec (''*'' # ps) ns \<longleftrightarrow> (\<exists>k \<le> length ns. glob_spec ps (drop k ns))"
proof -
  have "set [0..<Suc (length ns)] = {k. k \<le> length ns}" by auto
  then show ?thesis by (simp only: glob_spec.simps list_ex_iff if_True simp_thms) auto
qed

lemma glob_spec_plain:
  "p \<noteq> ''*'' \<Longrightarrow> glob_spec (p # ps) ns \<longleftrightarrow>
   ns \<noteq> [] \<and> (p = ''?'' \<or> p = hd ns) \<and> glob_spec ps (tl ns)"
  by simp

declare glob_spec.simps(2) [simp del]

lemma glob_spec_empty: "glob_spec ps [] \<longleftrightarrow> list_all (\<lambda>p. p = ''*'') ps"
proof (induction ps)
  case (Cons p ps)
  then show ?case by (cases "p = ''*''") (auto simp: glob_spec_star glob_spec_plain)
qed simp

lemma glob_spec_star_more: "glob_spec (''*'' # ps) (drop k ns) \<Longrightarrow> glob_spec (''*'' # ps) ns"
proof -
  assume "glob_spec (''*'' # ps) (drop k ns)"
  then obtain j where "j \<le> length (drop k ns)" "glob_spec ps (drop j (drop k ns))"
    unfolding glob_spec_star by blast
  then show ?thesis
    unfolding glob_spec_star by (intro exI [of _ "min (j + k) (length ns)"]) (auto simp: min_def)
qed

lemma glob_spec_literal:
  "''*'' \<notin> set mid \<Longrightarrow> glob_spec (mid @ ps) ns \<Longrightarrow>
   length mid \<le> length ns \<and> glob_spec ps (drop (length mid) ns)"
proof (induction mid arbitrary: ns)
  case (Cons p mid)
  then have "p \<noteq> ''*''" by auto
  with Cons.prems(2) have ns: "ns \<noteq> []" "glob_spec (mid @ ps) (tl ns)"
    by (simp_all add: glob_spec_plain)
  from Cons.IH [OF _ ns(2)] Cons.prems(1)
  have "length mid \<le> length (tl ns) \<and> glob_spec ps (drop (length mid) (tl ns))"
    by (simp del: length_tl)
  with ns(1) show ?case by (cases ns) auto
qed simp

text \<open>What is still to be tried: the current position, or a later start of the last star.\<close>

definition retry_space :: "(rchar list \<times> rchar list) option \<Rightarrow> bool" where
  "retry_space star = (case star of
     None \<Rightarrow> False
   | Some (sps, sns) \<Rightarrow> (\<exists>k. 0 < k \<and> k \<le> length sns \<and> glob_spec sps (drop k sns)))"

lemma retry_space_step:
  assumes "sns \<noteq> []"
  shows "retry_space (Some (sps, sns)) \<longleftrightarrow>
    glob_spec sps (tl sns) \<or> retry_space (Some (sps, tl sns))" (is "?L \<longleftrightarrow> ?R")
proof
  obtain c cs where c: "sns = c # cs" using assms by (cases sns) auto
  show "?L \<Longrightarrow> ?R"
  proof -
    assume ?L
    then obtain k where k: "0 < k" "k \<le> length sns" "glob_spec sps (drop k sns)"
      by (auto simp: retry_space_def)
    then obtain j where "k = Suc j" by (cases k) auto
    with k c show ?R by (cases j) (auto simp: retry_space_def)
  qed
  show "?R \<Longrightarrow> ?L"
  proof (erule disjE)
    assume "glob_spec sps (tl sns)"
    with c show ?L by (auto simp: retry_space_def intro!: exI [of _ 1])
  next
    assume "retry_space (Some (sps, tl sns))"
    then obtain k where "0 < k" "k \<le> length cs" "glob_spec sps (drop k cs)"
      using c by (auto simp: retry_space_def)
    with c show ?L by (auto simp: retry_space_def intro!: exI [of _ "Suc k"])
  qed
qed

text \<open>The invariant of the loop: since the last star, literals matched one for one.\<close>

definition star_inv ::
  "rchar list \<Rightarrow> rchar list \<Rightarrow> (rchar list \<times> rchar list) option \<Rightarrow> bool" where
  "star_inv ps ns star \<longleftrightarrow> (case star of
     None \<Rightarrow> True
   | Some (sps, sns) \<Rightarrow>
       (\<exists>mid seg. sps = mid @ ps \<and> sns = seg @ ns \<and> length mid = length seg \<and> ''*'' \<notin> set mid))"

lemma retry_space_absorbed:
  assumes "star_inv (''*'' # ps) ns star" and "retry_space star"
  shows "glob_spec (''*'' # ps) ns"
proof -
  from assms obtain mid seg k where k: "glob_spec (mid @ ''*'' # ps) (drop k (seg @ ns))"
    and mid: "length mid = length seg" "''*'' \<notin> set mid"
    by (auto simp: star_inv_def retry_space_def split: option.splits prod.splits)
  have "drop (length mid) (drop k (seg @ ns)) = drop k (drop (length seg) (seg @ ns))"
    by (simp only: drop_drop mid(1) add.commute)
  moreover have "drop (length seg) (seg @ ns) = ns" by simp
  ultimately have "glob_spec (''*'' # ps) (drop k ns)"
    using glob_spec_literal [OF mid(2) k] by metis
  then show ?thesis by (rule glob_spec_star_more)
qed

lemma retry_space_exhausted:
  assumes "star_inv ps [] star" shows "\<not> retry_space star"
proof
  assume "retry_space star"
  with assms obtain mid seg k where k: "0 < k" "k \<le> length seg" "glob_spec (mid @ ps) (drop k seg)"
    and mid: "length mid = length seg" "''*'' \<notin> set mid"
    by (auto simp: star_inv_def retry_space_def split: option.splits prod.splits)
  from glob_spec_literal [OF mid(2) k(3)] mid(1) have "length seg \<le> length seg - k" by simp
  with k(1,2) show False by linarith
qed

section \<open>Correctness\<close>

definition char_step :: "rchar list \<Rightarrow> rchar list \<Rightarrow> bool" where
  "char_step ps ns \<longleftrightarrow> ns \<noteq> [] \<and> ps \<noteq> [] \<and> (hd ps = ''?'' \<or> hd ps = hd ns)"

definition star_step :: "rchar list \<Rightarrow> rchar list \<Rightarrow> bool" where
  "star_step ps ns \<longleftrightarrow> \<not> char_step ps ns \<and> ps \<noteq> [] \<and> hd ps = ''*''"

definition finish ::
  "rchar list \<Rightarrow> rchar list \<Rightarrow> (rchar list \<times> rchar list) option \<Rightarrow> bool" where
  "finish ps ns star = (if ns = [] then list_all (\<lambda>p. p = ''*'') ps else glob_loop ps ns star)"

lemma glob_loop_char: "char_step ps ns \<Longrightarrow> glob_loop ps ns star = finish (tl ps) (tl ns) star"
  by (subst glob_loop.simps) (simp add: char_step_def finish_def)

lemma glob_loop_star: "star_step ps ns \<Longrightarrow> glob_loop ps ns star = finish (tl ps) ns (Some (tl ps, ns))"
  by (subst glob_loop.simps) (auto simp: star_step_def char_step_def finish_def)

lemma glob_loop_retry:
  "\<not> char_step ps ns \<Longrightarrow> \<not> star_step ps ns \<Longrightarrow>
   glob_loop ps ns star = (case star of
     None \<Rightarrow> False | Some (sps, sns) \<Rightarrow> finish sps (tl sns) (Some (sps, tl sns)))"
  by (subst glob_loop.simps)
    (auto simp: star_step_def char_step_def finish_def split: option.split prod.split)

lemma glob_loop_cases [case_names char star retry]:
  assumes "\<And>ps ns star. char_step ps ns \<Longrightarrow> (tl ns \<noteq> [] \<Longrightarrow> P (tl ps) (tl ns) star) \<Longrightarrow> P ps ns star"
    and "\<And>ps ns star. star_step ps ns \<Longrightarrow> (ns \<noteq> [] \<Longrightarrow> P (tl ps) ns (Some (tl ps, ns))) \<Longrightarrow> P ps ns star"
    and "\<And>ps ns star. \<not> char_step ps ns \<Longrightarrow> \<not> star_step ps ns \<Longrightarrow>
      (\<And>sps sns. star = Some (sps, sns) \<Longrightarrow> tl sns \<noteq> [] \<Longrightarrow> P sps (tl sns) (Some (sps, tl sns))) \<Longrightarrow>
      P ps ns star"
  shows "P ps ns star"
proof (induction ps ns star rule: glob_loop.induct)
  case (1 ps ns star)
  consider "char_step ps ns" | "star_step ps ns" | "\<not> char_step ps ns" "\<not> star_step ps ns" by blast
  then show ?case
  proof cases
    case 1
    then show ?thesis using "1.IH"(1) assms(1) by (simp add: char_step_def)
  next
    case 2
    show ?thesis
    proof (rule assms(2) [OF 2])
      assume "ns \<noteq> []"
      with 2 "1.IH"(2) show "P (tl ps) ns (Some (tl ps, ns))"
        by (auto simp: star_step_def char_step_def)
    qed
  next
    case 3
    show ?thesis
    proof (rule assms(3) [OF 3])
      fix sps sns assume "star = Some (sps, sns)" "tl sns \<noteq> []"
      with 3 "1.IH"(3) [of "(sps, sns)" sps sns] show "P sps (tl sns) (Some (sps, tl sns))"
        by (simp add: star_step_def char_step_def)
    qed
  qed
qed

lemma char_step_spec:
  assumes "char_step ps ns"
  shows "glob_spec (tl ps) (tl ns) \<Longrightarrow> glob_spec ps ns"
    and "''*'' \<notin> set ns \<Longrightarrow> glob_spec ps ns \<Longrightarrow> glob_spec (tl ps) (tl ns)"
    and "''*'' \<notin> set ns \<Longrightarrow> star_inv ps ns star \<Longrightarrow> star_inv (tl ps) (tl ns) star"
proof -
  from assms obtain p ps' n ns' where c: "ps = p # ps'" "ns = n # ns'" "p = ''?'' \<or> p = n"
    by (cases ps; cases ns) (auto simp: char_step_def)
  show "glob_spec (tl ps) (tl ns) \<Longrightarrow> glob_spec ps ns"
    using c by (cases "p = ''*''") (auto simp: glob_spec_star glob_spec_plain intro!: exI [of _ 1])
  assume ns: "''*'' \<notin> set ns"
  with c have p: "p \<noteq> ''*''" by auto
  with c show "glob_spec ps ns \<Longrightarrow> glob_spec (tl ps) (tl ns)" by (simp add: glob_spec_plain)
  assume inv: "star_inv ps ns star"
  show "star_inv (tl ps) (tl ns) star"
  proof (cases star)
    case (Some s)
    with inv obtain sps sns mid seg where s: "s = (sps, sns)" "sps = mid @ ps" "sns = seg @ ns"
      "length mid = length seg" "''*'' \<notin> set mid"
      by (cases s) (auto simp: star_inv_def)
    with Some c p show ?thesis
      by (auto simp: star_inv_def intro!: exI [of _ "mid @ [p]"] exI [of _ "seg @ [n]"])
  qed (simp add: star_inv_def)
qed

text \<open>The loop never accepts more than the pattern means.\<close>

lemma glob_loop_sound:
  "star \<notin> range (\<lambda>sps. Some (sps, [])) \<Longrightarrow> glob_loop ps ns star \<Longrightarrow>
   glob_spec ps ns \<or> retry_space star"
proof (induction ps ns star rule: glob_loop_cases)
  case (char ps ns star)
  then have "glob_spec (tl ps) (tl ns) \<or> retry_space star"
    by (cases "tl ns = []") (simp_all add: glob_loop_char finish_def glob_spec_empty)
  with char_step_spec(1) [OF char(1)] show ?case by blast
next
  case (star ps ns star)
  then have c: "ps = ''*'' # tl ps" by (cases ps) (auto simp: star_step_def)
  show ?case
  proof (cases "ns = []")
    case True
    with star c have "glob_spec (tl ps) []" by (simp add: glob_loop_star finish_def glob_spec_empty)
    with True have "glob_spec (''*'' # tl ps) ns" by (simp add: glob_spec_star)
    with c show ?thesis by simp
  next
    case False
    with star have "glob_spec (tl ps) ns \<or> retry_space (Some (tl ps, ns))"
      by (auto simp: glob_loop_star finish_def)
    then have "glob_spec (''*'' # tl ps) ns"
      by (auto simp: glob_spec_star retry_space_def intro: exI [of _ 0])
    with c show ?thesis by simp
  qed
next
  case (retry ps ns star)
  then obtain sps sns where fin: "star = Some (sps, sns)" "finish sps (tl sns) (Some (sps, tl sns))"
    by (auto simp: glob_loop_retry split: option.splits)
  with retry.prems(1) have "sns \<noteq> []" by blast
  note s = fin(1) this fin(2)
  have "glob_spec sps (tl sns) \<or> retry_space (Some (sps, tl sns))"
  proof (cases "tl sns = []")
    case True
    with s(3) show ?thesis by (simp add: finish_def glob_spec_empty)
  next
    case False
    with s retry.IH [OF s(1) False] show ?thesis by (auto simp: finish_def)
  qed
  with retry_space_step [OF s(2)] s(1) show ?case by simp
qed

text \<open>It accepts all of it when the name has no star of its own.\<close>

definition loop_inv ::
  "rchar list \<Rightarrow> rchar list \<Rightarrow> (rchar list \<times> rchar list) option \<Rightarrow> bool" where
  "loop_inv ps ns star \<longleftrightarrow> ''*'' \<notin> set ns \<and> star_inv ps ns star \<and> (ns \<noteq> [] \<or> ps \<noteq> []) \<and>
     (case star of None \<Rightarrow> True | Some (sps, sns) \<Rightarrow> ''*'' \<notin> set sns \<and> sns \<noteq> [])"

lemma loop_inv_restart: "ns \<noteq> [] \<Longrightarrow> ''*'' \<notin> set ns \<Longrightarrow> loop_inv ps ns (Some (ps, ns))"
  by (simp add: loop_inv_def star_inv_def)

lemma glob_loop_complete:
  "loop_inv ps ns star \<Longrightarrow> glob_spec ps ns \<or> retry_space star \<Longrightarrow> glob_loop ps ns star"
proof (induction ps ns star rule: glob_loop_cases)
  case (char ps ns star)
  have ns: "''*'' \<notin> set ns" and inv: "star_inv (tl ps) (tl ns) star"
    using char.prems(1) char_step_spec(3) [OF char.hyps] by (simp_all add: loop_inv_def)
  have space: "glob_spec (tl ps) (tl ns) \<or> retry_space star"
    using char.prems(2) char_step_spec(2) [OF char.hyps ns] by blast
  show ?case
  proof (cases "tl ns = []")
    case True
    with inv have "\<not> retry_space star" by (simp add: retry_space_exhausted)
    with True space show ?thesis by (simp add: glob_loop_char [OF char.hyps] finish_def glob_spec_empty)
  next
    case False
    moreover have "''*'' \<notin> set (tl ns)" using ns by (cases ns) auto
    ultimately have "loop_inv (tl ps) (tl ns) star"
      using char.prems(1) inv by (simp add: loop_inv_def)
    with False space char.IH show ?thesis by (simp add: glob_loop_char [OF char.hyps] finish_def)
  qed
next
  case (star ps ns star)
  then have c: "ps = ''*'' # tl ps" by (cases ps) (auto simp: star_step_def)
  have spec: "glob_spec (''*'' # tl ps) ns"
    using star.prems c retry_space_absorbed [of "tl ps" ns star] by (auto simp: loop_inv_def)
  then obtain k where k: "k \<le> length ns" "glob_spec (tl ps) (drop k ns)"
    by (auto simp: glob_spec_star)
  show ?case
  proof (cases "ns = []")
    case True
    with k show ?thesis
      by (subst glob_loop_star [OF star.hyps]) (simp add: finish_def glob_spec_empty)
  next
    case False
    moreover have "''*'' \<notin> set ns" using star.prems(1) by (simp add: loop_inv_def)
    ultimately have "loop_inv (tl ps) ns (Some (tl ps, ns))" by (rule loop_inv_restart)
    moreover have "glob_spec (tl ps) ns \<or> retry_space (Some (tl ps, ns))"
      using k by (cases k) (auto simp: retry_space_def)
    ultimately show ?thesis
      using False star.IH by (simp add: glob_loop_star [OF star.hyps] finish_def)
  qed
next
  case (retry ps ns star)
  have "\<not> glob_spec ps ns"
  proof (cases ps)
    case Nil
    with retry.prems(1) show ?thesis by (simp add: loop_inv_def)
  next
    case (Cons p ps')
    with retry.hyps show ?thesis
      by (cases "p = ''*''") (auto simp: glob_spec_plain star_step_def char_step_def)
  qed
  with retry.prems obtain sps sns where s: "star = Some (sps, sns)" "sns \<noteq> []" "''*'' \<notin> set sns"
    "retry_space (Some (sps, sns))"
    by (auto simp: loop_inv_def retry_space_def split: option.splits)
  then have space: "glob_spec sps (tl sns) \<or> retry_space (Some (sps, tl sns))"
    by (simp add: retry_space_step)
  show ?case
  proof (cases "tl sns = []")
    case True
    with space have "glob_spec sps []" by (auto simp: retry_space_def)
    with True s(1) show ?thesis
      by (simp add: glob_loop_retry [OF retry.hyps] finish_def glob_spec_empty)
  next
    case False
    moreover have "''*'' \<notin> set (tl sns)" using s(3) by (cases sns) auto
    ultimately have "glob_loop sps (tl sns) (Some (sps, tl sns))"
      using retry.IH [OF s(1)] space loop_inv_restart by blast
    with False s(1) show ?thesis by (simp add: glob_loop_retry [OF retry.hyps] finish_def)
  qed
qed

section \<open>Property\<close>

text \<open>C16. The iterative matcher is right: what it accepts the pattern means (so a pattern never
  allows more than it says), and for a name without a literal \<open>*\<close> it accepts everything
  the pattern means, although it keeps only one backtracking point and stops as soon as the
  name is used up. The code calls it with non-empty patterns only.\<close>

theorem glob_match_correct:
  assumes "''*'' \<notin> set (utf8_chars (lc name))" and "lc pattern \<noteq> []"
  shows "glob_match lc pattern name \<longleftrightarrow> glob_spec (utf8_chars (lc pattern)) (utf8_chars (lc name))"
proof -
  have "utf8_chars (lc pattern) \<noteq> []" using assms(2) by (cases "lc pattern") auto
  with assms(1) have "loop_inv (utf8_chars (lc pattern)) (utf8_chars (lc name)) None"
    by (simp add: loop_inv_def star_inv_def)
  with glob_loop_complete [OF this] glob_loop_sound [of None] show ?thesis
    by (auto simp: glob_match_def retry_space_def)
qed

theorem glob_match_correct_witness:
  "glob_match (map to_lower) ''A*_?b'' ''axy_cB'' \<and> \<not> glob_match (map to_lower) ''A*_?'' ''axy_cB''"
proof -
  have name: "''*'' \<notin> set (utf8_chars (map to_lower ''axy_cB''))" by code_simp
  have eq: "map to_lower p \<noteq> [] \<Longrightarrow> glob_match (map to_lower) p ''axy_cB'' =
      glob_spec (utf8_chars (map to_lower p)) (utf8_chars (map to_lower ''axy_cB''))" for p
    using name by (rule glob_match_correct)
  show ?thesis by (subst eq, simp, subst eq, simp) code_simp
qed

end
