(* ===== verification/Redaction.thy ===== *)
theory Redaction
  imports Glob
begin

text \<open>
  Secret redaction of Build Event Protocol events and command lines
  (crates/axl-runtime/src/engine/bazel/stream/redaction.rs). A \<open>Cow\<close> is an option: \<open>None\<close>
  is \<open>Borrowed\<close>, the unchanged input. The \<open>&mut\<close> functions return the new value and
  whether it was modified. Of the generated protobuf types only the fields that are read or
  written appear; \<open>'x\<close> is the rest. JSON coding (\<open>serde_json\<close>) and Unicode lower-casing are
  the arguments \<open>json\<close> and \<open>lc\<close>.
\<close>

section \<open>Tables\<close>

definition REDACTED :: string where
  "REDACTED = ''<REDACTED>''"

definition header_option_names :: "string list" where
  "header_option_names =
     [''remote_header'', ''remote_cache_header'', ''remote_exec_header'',
      ''remote_downloader_header'', ''bes_header'']"

definition env_var_option_names :: "string list" where
  "env_var_option_names =
     [''action_env'', ''client_env'', ''host_action_env'', ''repo_env'', ''test_env'']"

definition known_git_repo_url_keys :: "string list" where
  "known_git_repo_url_keys =
     [''REPO_URL'', ''GIT_URL'', ''TRAVIS_REPO_SLUG'', ''BUILDKITE_REPO'', ''GIT_REPOSITORY_URL'',
      ''CIRCLE_REPOSITORY_URL'', ''GITHUB_REPOSITORY'', ''CI_REPOSITORY_URL'']"

definition explicit_command_line_key :: string where
  "explicit_command_line_key = ''EXPLICIT_COMMAND_LINE''"

definition default_allow_env :: "string list" where
  "default_allow_env =
     [''USER'', ''GITHUB_ACTOR'', ''BUILDKITE_BUILD_CREATOR'', ''GITLAB_USER_NAME'',
      ''CIRCLE_USERNAME'',
      ''GITHUB_REPOSITORY'', ''BUILDKITE_REPO'', ''TRAVIS_REPO_SLUG'', ''GIT_URL'',
      ''GIT_REPOSITORY_URL'', ''CI_REPOSITORY_URL'', ''REPO_URL'', ''CIRCLE_REPOSITORY_URL'',
      ''GITHUB_SHA'', ''CIRCLE_SHA1'', ''BUILDKITE_COMMIT'', ''TRAVIS_COMMIT'',
      ''BITRISE_GIT_COMMIT'', ''GIT_COMMIT'', ''VOLATILE_GIT_COMMIT'', ''CI_COMMIT_SHA'',
      ''COMMIT_SHA'',
      ''GITHUB_RUN_ID'', ''BUILDKITE_BUILD_URL'', ''BUILDKITE_JOB_ID'',
      ''GITHUB_HEAD_REF'', ''GITHUB_REF'', ''CIRCLE_BRANCH'', ''BUILDKITE_BRANCH'',
      ''TRAVIS_BRANCH'', ''BITRISE_GIT_BRANCH'', ''GIT_BRANCH'', ''CI_COMMIT_BRANCH'',
      ''CI_MERGE_REQUEST_SOURCE_BRANCH_NAME'',
      ''CI'', ''CI_RUNNER'']"

definition safe_env_values :: "string list" where
  "safe_env_values =
     ['''', ''0'', ''1'', ''true'', ''false'', ''True'', ''False'', ''TRUE'', ''FALSE'']"

section \<open>The allowlist\<close>

definition is_allowed_env :: "(string \<Rightarrow> string) \<Rightarrow> string \<Rightarrow> string list \<Rightarrow> bool" where
  "is_allowed_env lc name allow_env =
     list_ex (\<lambda>pat.
       if CHR ''*'' \<in> set pat \<or> CHR ''?'' \<in> set pat then glob_match lc pat name
       else eq_ignore_case pat name) allow_env"

definition allow_patterns :: "string \<Rightarrow> string list" where
  "allow_patterns v = filter (\<lambda>s. s \<noteq> []) (map trim (split_on CHR '','' v))"

definition parse_allow_env_flag :: "string \<Rightarrow> string list option" where
  "parse_allow_env_flag flag =
     (case strip_prefix ''--build_metadata='' flag of
        None \<Rightarrow> None
      | Some rest \<Rightarrow> (case split_once CHR ''='' rest of
            None \<Rightarrow> None
          | Some (key, v) \<Rightarrow>
              if \<not> eq_ignore_case key ''ALLOW_ENV'' then None else Some (allow_patterns v)))"

definition collect_allow_env :: "string list \<Rightarrow> string list" where
  "collect_allow_env flags =
     concat (map (\<lambda>f. case parse_allow_env_flag f of Some v \<Rightarrow> v | None \<Rightarrow> []) flags)"

definition effective_allow_env :: "string list \<Rightarrow> string list" where
  "effective_allow_env user_patterns = default_allow_env @ user_patterns"

section \<open>Values\<close>

definition strip_url_creds :: "string \<Rightarrow> string option" where
  "strip_url_creds s =
     (case find_sub ''://'' s of
        None \<Rightarrow> None
      | Some scheme_end \<Rightarrow>
          (let authority_start = scheme_end + 3;
               rest = drop authority_start s;
               authority_end = (case find_char CHR ''/'' rest of Some i \<Rightarrow> i | None \<Rightarrow> length rest);
               authority = take authority_end rest
           in case find_char CHR ''@'' authority of
                None \<Rightarrow> None
              | Some at \<Rightarrow> Some (take authority_start s @ REDACTED @ drop at rest)))"

definition redact_header_value :: "string \<Rightarrow> string" where
  "redact_header_value v =
     (case (find_char CHR ''='' v, find_char CHR '':'' v) of
        (None, None) \<Rightarrow> REDACTED
      | (Some i, None) \<Rightarrow> take i v @ [v ! i] @ REDACTED
      | (None, Some j) \<Rightarrow> take j v @ [v ! j] @ REDACTED
      | (Some i, Some j) \<Rightarrow> take (min i j) v @ [v ! min i j] @ REDACTED)"

text \<open>An owned new value puts the key back in front.\<close>

definition rejoin :: "string \<Rightarrow> string option \<Rightarrow> string option" where
  "rejoin key new_value = map_option (\<lambda>v. key @ ''='' @ v) new_value"

definition redact_env_value :: "(string \<Rightarrow> string) \<Rightarrow> string \<Rightarrow> string list \<Rightarrow> string option" where
  "redact_env_value lc v allow_env =
     (case find_char CHR ''='' v of
        None \<Rightarrow> strip_url_creds v
      | Some eq \<Rightarrow>
          (let key = take eq v; val = drop (eq + 1) v
           in if val \<in> set safe_env_values then None
              else if is_allowed_env lc key allow_env then rejoin key (strip_url_creds val)
              else if key \<in> set known_git_repo_url_keys then rejoin key (strip_url_creds val)
              else Some (key @ ''='' @ REDACTED)))"

section \<open>Flags\<close>

definition redact_flag :: "(string \<Rightarrow> string) \<Rightarrow> string \<Rightarrow> string list \<Rightarrow> string option" where
  "redact_flag lc arg allow_env =
     (if \<not> starts_with ''--'' arg then strip_url_creds arg
      else case find_char CHR ''='' arg of
        None \<Rightarrow> None
      | Some eq \<Rightarrow>
          (let name = drop 2 (take eq arg); v = drop (eq + 1) arg
           in if name \<in> set header_option_names
              then Some (''--'' @ name @ ''='' @ redact_header_value v)
              else if name \<in> set env_var_option_names
              then rejoin (''--'' @ name) (redact_env_value lc v allow_env)
              else rejoin (''--'' @ name) (strip_url_creds v)))"

definition redact_option_value ::
  "(string \<Rightarrow> string) \<Rightarrow> string \<Rightarrow> string \<Rightarrow> string list \<Rightarrow> string option" where
  "redact_option_value lc name v allow_env =
     (if name \<in> set header_option_names then Some (redact_header_value v)
      else if name \<in> set env_var_option_names then redact_env_value lc v allow_env
      else strip_url_creds v)"

definition into_owned :: "string \<Rightarrow> string option \<Rightarrow> string" where
  "into_owned s cow = (case cow of None \<Rightarrow> s | Some t \<Rightarrow> t)"

definition redact_command_args :: "(string \<Rightarrow> string) \<Rightarrow> string list \<Rightarrow> string list" where
  "redact_command_args lc args =
     (let allow_env = effective_allow_env (collect_allow_env args)
      in map (\<lambda>a. into_owned a (redact_flag lc a allow_env)) args)"

definition redactor :: "(string \<Rightarrow> string) \<Rightarrow> string list \<Rightarrow> string \<Rightarrow> string" where
  "redactor lc flags flag =
     into_owned flag (redact_flag lc flag (effective_allow_env (collect_allow_env flags)))"

section \<open>Events\<close>

record 'x cmd_option =
  option_name :: string
  option_value :: string
  combined_form :: string
  option_rest :: 'x

datatype 'x section_type = ChunkList "string list" | OptionList "'x cmd_option list"

type_synonym 'x cmd_sections = "('x \<times> 'x section_type option) list"

record options_parsed =
  startup_options :: "string list"
  explicit_startup_options :: "string list"
  cmd_line :: "string list"
  explicit_cmd_line :: "string list"

datatype ('x, 'o) payload =
    Started 'x string \<comment> \<open>the last field is \<open>options_description\<close>\<close>
  | UnstructuredCommandLine "string list"
  | StructuredCommandLine 'x "'x cmd_sections"
  | OptionsParsed 'x options_parsed
  | WorkspaceStatus "(string \<times> string) list"
  | BuildMetadata "(string \<times> string) list"
  | OtherPayload 'o

text \<open>A value with its \<open>modified\<close> flag; lists are modified when an element is.\<close>

definition redact_each :: "('a \<Rightarrow> 'a \<times> bool) \<Rightarrow> 'a list \<Rightarrow> 'a list \<times> bool" where
  "redact_each f xs = (map (fst \<circ> f) xs, list_ex (snd \<circ> f) xs)"

definition write_cow :: "string \<Rightarrow> string option \<Rightarrow> string \<times> bool" where
  "write_cow s cow = (into_owned s cow, cow \<noteq> None)"

definition redact_string_vec ::
  "(string \<Rightarrow> string) \<Rightarrow> string list \<Rightarrow> string list \<Rightarrow> string list \<times> bool" where
  "redact_string_vec lc v allow_env = redact_each (\<lambda>s. write_cow s (redact_flag lc s allow_env)) v"

definition redact_option ::
  "(string \<Rightarrow> string) \<Rightarrow> string list \<Rightarrow> 'x cmd_option \<Rightarrow> 'x cmd_option \<times> bool" where
  "redact_option lc allow_env opt =
     (let (v, m1) = write_cow (option_value opt)
            (redact_option_value lc (option_name opt) (option_value opt) allow_env);
          (c, m2) = write_cow (combined_form opt) (redact_flag lc (combined_form opt) allow_env)
      in (opt\<lparr>option_value := v, combined_form := c\<rparr>, m1 \<or> m2))"

definition redact_section ::
  "(string \<Rightarrow> string) \<Rightarrow> string list \<Rightarrow> 'x \<times> 'x section_type option \<Rightarrow>
   ('x \<times> 'x section_type option) \<times> bool" where
  "redact_section lc allow_env sec =
     (case snd sec of
        None \<Rightarrow> (sec, False)
      | Some (ChunkList chunk) \<Rightarrow>
          (let (chunk', m) = redact_string_vec lc chunk allow_env
           in ((fst sec, Some (ChunkList chunk')), m))
      | Some (OptionList opts) \<Rightarrow>
          (let (opts', m) = redact_each (redact_option lc allow_env) opts
           in ((fst sec, Some (OptionList opts')), m)))"

definition redact_command_line ::
  "(string \<Rightarrow> string) \<Rightarrow> 'x cmd_sections \<Rightarrow> string list \<Rightarrow> 'x cmd_sections \<times> bool" where
  "redact_command_line lc sections allow_env = redact_each (redact_section lc allow_env) sections"

definition option_allow_env :: "'x cmd_option \<Rightarrow> string list" where
  "option_allow_env opt =
     (case parse_allow_env_flag (combined_form opt) of Some v \<Rightarrow> v | None \<Rightarrow> []) @
     (if eq_ignore_case (option_name opt) ''build_metadata'' then
        (case split_once CHR ''='' (option_value opt) of
           Some (key, val) \<Rightarrow> if eq_ignore_case key ''ALLOW_ENV'' then allow_patterns val else []
         | None \<Rightarrow> [])
      else [])"

definition collect_allow_env_from_command_line :: "'x cmd_sections \<Rightarrow> string list" where
  "collect_allow_env_from_command_line sections =
     concat (map (\<lambda>sec. case snd sec of
         None \<Rightarrow> []
       | Some (ChunkList chunk) \<Rightarrow> collect_allow_env chunk
       | Some (OptionList opts) \<Rightarrow> concat (map option_allow_env opts)) sections)"

text \<open>\<open>from_str::<Vec<String>>\<close> and \<open>to_string\<close>, \<open>None\<close> for an error.\<close>

record json_api =
  json_parse :: "string \<Rightarrow> string list option"
  json_print :: "string list \<Rightarrow> string option"

text \<open>\<open>HashMap::get_mut\<close> and a write through the reference.\<close>

fun map_update :: "('k \<times> 'v) list \<Rightarrow> 'k \<Rightarrow> 'v \<Rightarrow> ('k \<times> 'v) list" where
  "map_update [] k v = []"
| "map_update ((k', v') # rest) k v =
     (if k' = k then (k, v) # rest else (k', v') # map_update rest k v)"

definition scrub_url_key ::
  "string \<Rightarrow> (string \<times> string) list \<times> bool \<Rightarrow> (string \<times> string) list \<times> bool" where
  "scrub_url_key key acc =
     (case map_of (fst acc) key of
        None \<Rightarrow> acc
      | Some v \<Rightarrow> (case strip_url_creds v of
            None \<Rightarrow> acc
          | Some s \<Rightarrow> (map_update (fst acc) key s, True)))"

definition redact_explicit_command_line ::
  "(string \<Rightarrow> string) \<Rightarrow> json_api \<Rightarrow> (string \<times> string) list \<times> bool \<Rightarrow> (string \<times> string) list \<times> bool" where
  "redact_explicit_command_line lc json acc =
     (case map_of (fst acc) explicit_command_line_key of
        None \<Rightarrow> acc
      | Some raw \<Rightarrow> (case json_parse json raw of
            None \<Rightarrow> acc
          | Some tokens \<Rightarrow>
              (let allow_env = effective_allow_env (collect_allow_env tokens);
                   (tokens', tokens_modified) = redact_string_vec lc tokens allow_env
               in if tokens_modified then
                    (case json_print json tokens' of
                       None \<Rightarrow> acc
                     | Some encoded \<Rightarrow>
                         (map_update (fst acc) explicit_command_line_key encoded, True))
                  else acc)))"

definition redact_metadata ::
  "(string \<Rightarrow> string) \<Rightarrow> json_api \<Rightarrow> (string \<times> string) list \<Rightarrow> (string \<times> string) list \<times> bool" where
  "redact_metadata lc json metadata =
     redact_explicit_command_line lc json
       (fold scrub_url_key known_git_repo_url_keys (metadata, False))"

definition redact_options_parsed ::
  "(string \<Rightarrow> string) \<Rightarrow> options_parsed \<Rightarrow> options_parsed \<times> bool" where
  "redact_options_parsed lc op =
     (let user_patterns =
            collect_allow_env (startup_options op) @ collect_allow_env (explicit_startup_options op) @
            collect_allow_env (cmd_line op) @ collect_allow_env (explicit_cmd_line op);
          allow_env = effective_allow_env user_patterns;
          (a, ma) = redact_string_vec lc (startup_options op) allow_env;
          (b, mb) = redact_string_vec lc (explicit_startup_options op) allow_env;
          (c, mc) = redact_string_vec lc (cmd_line op) allow_env;
          (d, md) = redact_string_vec lc (explicit_cmd_line op) allow_env
      in (\<lparr>startup_options = a, explicit_startup_options = b, cmd_line = c, explicit_cmd_line = d\<rparr>,
          ma \<or> mb \<or> mc \<or> md))"

definition redact_event ::
  "(string \<Rightarrow> string) \<Rightarrow> json_api \<Rightarrow> ('x, 'o) payload option \<Rightarrow> ('x, 'o) payload option \<times> bool" where
  "redact_event lc json event =
     (case event of
        None \<Rightarrow> (event, False)
      | Some (Started x options_description) \<Rightarrow>
          if options_description = [] then (event, False) else (Some (Started x []), True)
      | Some (UnstructuredCommandLine args) \<Rightarrow>
          apfst (\<lambda>a. Some (UnstructuredCommandLine a))
            (redact_string_vec lc args (effective_allow_env (collect_allow_env args)))
      | Some (StructuredCommandLine x sections) \<Rightarrow>
          apfst (\<lambda>s. Some (StructuredCommandLine x s))
            (redact_command_line lc sections
               (effective_allow_env (collect_allow_env_from_command_line sections)))
      | Some (OptionsParsed x op) \<Rightarrow>
          apfst (\<lambda>o'. Some (OptionsParsed x o')) (redact_options_parsed lc op)
      | Some (WorkspaceStatus items) \<Rightarrow>
          apfst (\<lambda>i. Some (WorkspaceStatus i))
            (redact_each (\<lambda>(k, v). apfst (Pair k) (write_cow v (strip_url_creds v))) items)
      | Some (BuildMetadata metadata) \<Rightarrow>
          apfst (\<lambda>m. Some (BuildMetadata m)) (redact_metadata lc json metadata)
      | Some (OtherPayload x) \<Rightarrow> (event, False))"

section \<open>Shape of the results\<close>

lemma find_sub_prefix:
  "find_sub p s = Some n \<Longrightarrow> p \<noteq> [] \<Longrightarrow> find_sub p (take (n + length p) s @ x) = Some n"
proof (induction s arbitrary: n)
  case (Cons c cs)
  show ?case
  proof (cases "starts_with p (c # cs)")
    case True
    then obtain r where r: "c # cs = p @ r" by (auto simp: starts_with_iff)
    have n: "n = 0" using Cons.prems(1) True by simp
    obtain p0 ps where p: "p = p0 # ps" using Cons.prems(2) by (cases p) auto
    have "find_sub p (p @ x) = Some 0" using p starts_with_append [of p x] by simp
    then show ?thesis using n r by simp
  next
    case False
    with Cons.prems obtain m where m: "find_sub p cs = Some m" "n = Suc m" by auto
    then obtain u v where uv: "cs = u @ p @ v" "length u = m" by (blast dest: find_sub_SomeD)
    have no: "\<not> starts_with p (c # take (m + length p) cs @ x)"
    proof
      assume "starts_with p (c # take (m + length p) cs @ x)"
      then have "take (length p) (c # take (m + length p) cs @ x) = p"
        by (auto simp: starts_with_iff)
      moreover have "take (length p) (c # take (m + length p) cs @ x) = take (length p) (c # cs)"
        using uv by (cases "length p") (auto simp: take_Suc_Cons min_def)
      ultimately have "c # cs = p @ drop (length p) (c # cs)" by (metis append_take_drop_id)
      then have "starts_with p (c # cs)" by (metis starts_with_append)
      with False show False ..
    qed
    have "n + length p = Suc (m + length p)" using m by simp
    then show ?thesis using no Cons.IH [OF m(1) Cons.prems(2)] m(2) by simp
  qed
qed (simp split: if_splits)

lemma strip_url_creds_SomeD:
  assumes "strip_url_creds s = Some t"
  obtains n c tail where "find_sub ''://'' s = Some n" "drop (n + 3) s = c @ CHR ''@'' # tail"
    "CHR ''@'' \<notin> set c" "CHR ''/'' \<notin> set c" "t = take (n + 3) s @ REDACTED @ CHR ''@'' # tail"
proof -
  from assms obtain n where n: "find_sub ''://'' s = Some n"
    by (auto simp: strip_url_creds_def split: option.splits)
  define rest where "rest = drop (n + 3) s"
  define e where "e = (case find_char CHR ''/'' rest of Some i \<Rightarrow> i | None \<Rightarrow> length rest)"
  from assms n obtain at where at: "find_char CHR ''@'' (take e rest) = Some at"
    "t = take (n + 3) s @ REDACTED @ drop at rest"
    by (auto simp: strip_url_creds_def Let_def rest_def e_def split: option.splits)
  then obtain c b where c: "take e rest = c @ CHR ''@'' # b" "CHR ''@'' \<notin> set c" "at = length c"
    by (auto simp: find_char_Some_iff)
  have slash: "CHR ''/'' \<notin> set (take e rest)"
  proof (cases "find_char CHR ''/'' rest")
    case None
    then show ?thesis by (auto dest: in_set_takeD)
  next
    case (Some i)
    then obtain a b' where "rest = a @ CHR ''/'' # b'" "CHR ''/'' \<notin> set a" "i = length a"
      by (auto simp: find_char_Some_iff)
    with Some show ?thesis by (simp add: e_def)
  qed
  have rest: "rest = c @ CHR ''@'' # (b @ drop e rest)"
    using append_take_drop_id [of e rest] c(1) by simp
  then have dr: "drop at rest = CHR ''@'' # (b @ drop e rest)"
    using c(3) by (metis append_eq_conv_conj)
  have nc: "CHR ''/'' \<notin> set c" using slash c(1) by simp
  show ?thesis
    by (rule that [OF n rest [unfolded rest_def] c(2) nc])
      (simp only: at(2) dr [unfolded rest_def] rest_def)
qed

lemma strip_url_creds_eq:
  assumes "find_sub ''://'' s = Some n" and "drop (n + 3) s = c @ CHR ''@'' # tail"
    and "CHR ''@'' \<notin> set c" and "CHR ''/'' \<notin> set c"
  shows "strip_url_creds s = Some (take (n + 3) s @ REDACTED @ CHR ''@'' # tail)"
proof -
  define rest where "rest = drop (n + 3) s"
  have rest: "rest = c @ CHR ''@'' # tail" using assms(2) by (simp add: rest_def)
  define e where "e = (case find_char CHR ''/'' rest of Some i \<Rightarrow> i | None \<Rightarrow> length rest)"
  have "length c < e"
  proof (cases "find_char CHR ''/'' rest")
    case None
    then have "e = length rest" unfolding e_def by (simp only: option.case)
    then show ?thesis by (simp add: rest)
  next
    case (Some i)
    then obtain a b where ab: "rest = a @ CHR ''/'' # b" "i = length a"
      by (auto simp: find_char_Some_iff)
    have "length c < length a"
    proof (rule ccontr)
      assume "\<not> length c < length a"
      then have "(c @ CHR ''@'' # tail) ! length a \<in> set (c @ [CHR ''@''])"
        by (auto simp: nth_append)
      moreover have "(c @ CHR ''@'' # tail) ! length a = CHR ''/''"
        using ab rest by (metis nth_append_length)
      ultimately show False using assms(4) by simp
    qed
    with Some ab show ?thesis by (simp add: e_def)
  qed
  then obtain k where "e = length c + Suc k" by (metis less_iff_Suc_add add_Suc_right)
  then have "take e rest = c @ CHR ''@'' # take k tail" by (simp add: rest)
  then have "find_char CHR ''@'' (take e rest) = Some (length c)" using assms(3) by simp
  then show ?thesis
    unfolding strip_url_creds_def assms(1) Let_def option.case rest_def [symmetric]
      e_def [symmetric]
    by (simp add: rest)
qed

text \<open>Each scrubbing function leaves its own results alone.\<close>

definition settles :: "(string \<Rightarrow> string option) \<Rightarrow> bool" where
  "settles f \<longleftrightarrow> (\<forall>v w. f v = Some w \<longrightarrow> into_owned w (f w) = w)"

lemma settlesI: "(\<And>v w. f v = Some w \<Longrightarrow> f w = None \<or> f w = Some w) \<Longrightarrow> settles f"
  by (force simp: settles_def into_owned_def split: option.splits)

lemma settlesD: "settles f \<Longrightarrow> f v = Some w \<Longrightarrow> f w = None \<or> f w = Some w"
  unfolding settles_def into_owned_def by (cases "f w") fastforce+

lemma strip_url_creds_again: "strip_url_creds s = Some t \<Longrightarrow> strip_url_creds t = Some t"
proof (erule strip_url_creds_SomeD)
  fix n c tail
  assume n: "find_sub ''://'' s = Some n" and t: "t = take (n + 3) s @ REDACTED @ CHR ''@'' # tail"
  from n have len: "n + 3 \<le> length s" by (auto dest!: find_sub_SomeD)
  then have take: "take (n + 3) t = take (n + 3) s" and
    drop: "drop (n + 3) t = REDACTED @ CHR ''@'' # tail" by (simp_all add: t)
  have "find_sub ''://'' t = Some n"
    using find_sub_prefix [OF n, of "REDACTED @ CHR ''@'' # tail"]
    by (simp add: t numeral_3_eq_3)
  from strip_url_creds_eq [OF this drop]
  have "strip_url_creds t = Some (take (n + 3) t @ REDACTED @ CHR ''@'' # tail)"
    by (simp add: REDACTED_def)
  then show "strip_url_creds t = Some t" unfolding take by (simp only: t)
qed

lemma settles_strip_url_creds: "settles strip_url_creds"
  by (rule settlesI) (blast dest: strip_url_creds_again)

lemma settles_rejoin:
  assumes "settles f" and "\<And>v. g (k @ ''='' @ v) = rejoin k (f v)" and "rejoin k (f v) = Some w"
  shows "g w = None \<or> g w = Some w"
proof -
  from assms(3) obtain w' where "f v = Some w'" "w = k @ ''='' @ w'" by (auto simp: rejoin_def)
  with assms(1,2) settlesD [of f v w'] show ?thesis by (auto simp: rejoin_def)
qed

lemma redact_header_value_split:
  "CHR ''='' \<notin> set h \<Longrightarrow> CHR '':'' \<notin> set h \<Longrightarrow> sep = CHR ''='' \<or> sep = CHR '':'' \<Longrightarrow>
   redact_header_value (h @ sep # v) = h @ sep # REDACTED"
  by (cases "find_char CHR ''='' v"; cases "find_char CHR '':'' v")
    (auto simp: redact_header_value_def find_char_past simp del: find_char_None_iff)

lemma redact_header_value_whole:
  "CHR ''='' \<notin> set v \<Longrightarrow> CHR '':'' \<notin> set v \<Longrightarrow> redact_header_value v = REDACTED"
  by (simp add: redact_header_value_def)

lemma first_of_two:
  obtains "c \<notin> set v" "d \<notin> set v"
  | h sep rest where "v = h @ sep # rest" "sep = c \<or> sep = d" "c \<notin> set h" "d \<notin> set h"
proof (cases "\<exists>x \<in> set v. x = c \<or> x = d")
  case True
  then show ?thesis using that(2) split_list_first_propE [OF True] by metis
qed (use that(1) in blast)

lemma redact_header_value_idem: "redact_header_value (redact_header_value v) = redact_header_value v"
proof (rule first_of_two [of "CHR ''=''" v "CHR '':''"])
  assume "CHR ''='' \<notin> set v" "CHR '':'' \<notin> set v"
  then show ?thesis by (simp add: redact_header_value_whole) (simp add: REDACTED_def redact_header_value_whole)
next
  fix h sep rest assume "v = h @ sep # rest" "sep = CHR ''='' \<or> sep = CHR '':''"
    "CHR ''='' \<notin> set h" "CHR '':'' \<notin> set h"
  then show ?thesis by (simp add: redact_header_value_split)
qed

lemma redact_env_value_shape:
  "CHR ''='' \<notin> set key \<Longrightarrow>
   redact_env_value lc (key @ CHR ''='' # val) allow_env =
     (if val \<in> set safe_env_values then None
      else if is_allowed_env lc key allow_env then rejoin key (strip_url_creds val)
      else if key \<in> set known_git_repo_url_keys then rejoin key (strip_url_creds val)
      else Some (key @ ''='' @ REDACTED))"
  by (simp add: redact_env_value_def Let_def)

lemma redact_flag_shape:
  "CHR ''='' \<notin> set name \<Longrightarrow>
   redact_flag lc (''--'' @ name @ CHR ''='' # v) allow_env =
     (if name \<in> set header_option_names
      then Some (''--'' @ name @ ''='' @ redact_header_value v)
      else if name \<in> set env_var_option_names
      then rejoin (''--'' @ name) (redact_env_value lc v allow_env)
      else rejoin (''--'' @ name) (strip_url_creds v))"
  by (simp add: redact_flag_def Let_def starts_with_def)

lemma redacted_not_safe: "REDACTED \<notin> set safe_env_values"
  by (simp add: REDACTED_def safe_env_values_def)

lemma set_strip_url_creds: "strip_url_creds s = Some t \<Longrightarrow> set t \<subseteq> set s \<union> set REDACTED"
proof (erule strip_url_creds_SomeD)
  fix n c tail
  assume d: "drop (n + 3) s = c @ CHR ''@'' # tail"
    and t: "t = take (n + 3) s @ REDACTED @ CHR ''@'' # tail"
  have "set (CHR ''@'' # tail) \<subseteq> set (drop (n + 3) s)" by (simp only: d set_append) blast
  then show "set t \<subseteq> set s \<union> set REDACTED"
    unfolding t set_append using set_drop_subset [of "n + 3" s] set_take_subset [of "n + 3" s] by blast
qed

lemma rejoin_SomeD: "rejoin k c = Some w \<Longrightarrow> \<exists>w'. c = Some w' \<and> w = k @ ''='' @ w'"
  by (auto simp: rejoin_def)

lemma settles_redact_env_value: "settles (\<lambda>v. redact_env_value lc v allow_env)"
proof (rule settlesI)
  fix v w assume red: "redact_env_value lc v allow_env = Some w"
  show "redact_env_value lc w allow_env = None \<or> redact_env_value lc w allow_env = Some w"
  proof (cases "split_once CHR ''='' v")
    case None
    then have v: "CHR ''='' \<notin> set v" by simp
    with red have strip: "strip_url_creds v = Some w" by (simp add: redact_env_value_def)
    with v set_strip_url_creds have "CHR ''='' \<notin> set w" by (fastforce simp: REDACTED_def)
    with strip_url_creds_again [OF strip] show ?thesis by (simp add: redact_env_value_def)
  next
    case (Some kv)
    then obtain key val where kv: "v = key @ CHR ''='' # val" "CHR ''='' \<notin> set key"
      by (cases kv) (auto simp: split_once_Some_iff)
    let ?open = "is_allowed_env lc key allow_env \<or> key \<in> set known_git_repo_url_keys"
    show ?thesis
    proof (cases ?open)
      case True
      with red kv have "rejoin key (strip_url_creds val) = Some w"
        by (auto simp: redact_env_value_shape split: if_splits)
      then obtain val' where "strip_url_creds val = Some val'" and w: "w = key @ CHR ''='' # val'"
        by (auto dest: rejoin_SomeD)
      then have "strip_url_creds val' = Some val'" by (blast dest: strip_url_creds_again)
      with True kv(2) show ?thesis unfolding w by (auto simp: redact_env_value_shape rejoin_def)
    next
      case False
      with red kv have w: "w = key @ CHR ''='' # REDACTED"
        by (auto simp: redact_env_value_shape split: if_splits)
      show ?thesis unfolding w using False kv(2) redacted_not_safe
        by (simp add: redact_env_value_shape)
    qed
  qed
qed

lemma flag_shapes:
  obtains "\<not> starts_with ''--'' arg"
  | "starts_with ''--'' arg" "CHR ''='' \<notin> set arg"
  | name v where "arg = ''--'' @ name @ CHR ''='' # v" "CHR ''='' \<notin> set name"
proof (cases "starts_with ''--'' arg \<and> CHR ''='' \<in> set arg")
  case True
  then obtain r where r: "arg = ''--'' @ r" by (auto simp: starts_with_iff)
  with True obtain name v where "split_once CHR ''='' r = Some (name, v)"
    by (cases "split_once CHR ''='' r") auto
  with r show ?thesis using that(3) [of name v] by (simp add: split_once_Some_iff)
qed (use that(1,2) in blast)

lemma settles_value_flag:
  assumes "settles f" and "CHR ''='' \<notin> set name" and "rejoin (''--'' @ name) (f v) = Some w"
    and "\<And>v. redact_flag lc (''--'' @ name @ CHR ''='' # v) allow_env = rejoin (''--'' @ name) (f v)"
  shows "redact_flag lc w allow_env = None \<or> redact_flag lc w allow_env = Some w"
proof -
  from assms(3) obtain w' where w: "f v = Some w'" "w = ''--'' @ name @ CHR ''='' # w'"
    by (auto dest: rejoin_SomeD)
  show ?thesis
    using settlesD [OF assms(1) w(1)] unfolding w(2) assms(4) by (auto simp: rejoin_def)
qed

lemma settles_redact_flag: "settles (\<lambda>arg. redact_flag lc arg allow_env)"
proof (rule settlesI)
  fix arg w assume red: "redact_flag lc arg allow_env = Some w"
  show "redact_flag lc w allow_env = None \<or> redact_flag lc w allow_env = Some w"
  proof (rule flag_shapes [of arg])
    assume pos: "\<not> starts_with ''--'' arg"
    with red have strip: "strip_url_creds arg = Some w" by (simp add: redact_flag_def)
    then obtain n tail where n: "find_sub ''://'' arg = Some n"
      "w = take (n + 3) arg @ REDACTED @ CHR ''@'' # tail" by (rule strip_url_creds_SomeD) blast
    then have "n + 3 \<le> length arg" by (auto dest!: find_sub_SomeD)
    then have "take 2 w = take 2 arg" by (simp add: n(2))
    then have "\<not> starts_with ''--'' w" using pos
      by (metis append_eq_conv_conj append_take_drop_id length_Cons list.size(3) numeral_2_eq_2
          starts_with_iff)
    then show ?thesis using strip_url_creds_again [OF strip] by (simp add: redact_flag_def)
  next
    assume "starts_with ''--'' arg" "CHR ''='' \<notin> set arg"
    with red show ?thesis by (simp add: redact_flag_def)
  next
    fix name v assume arg: "arg = ''--'' @ name @ CHR ''='' # v" and name: "CHR ''='' \<notin> set name"
    note shape = redact_flag_shape [OF name, of lc _ allow_env]
    consider "name \<in> set header_option_names"
      | "name \<notin> set header_option_names" "name \<in> set env_var_option_names"
      | "name \<notin> set header_option_names" "name \<notin> set env_var_option_names" by blast
    then show ?thesis
    proof cases
      case 1
      with red have w: "w = ''--'' @ name @ CHR ''='' # redact_header_value v"
        unfolding arg shape by simp
      show ?thesis unfolding w shape using 1 by (simp add: redact_header_value_idem)
    next
      case 2
      with red have "rejoin (''--'' @ name) (redact_env_value lc v allow_env) = Some w"
        unfolding arg shape by simp
      with 2 show ?thesis
        by (intro settles_value_flag [OF settles_redact_env_value name]) (simp_all only: shape if_False if_True)
    next
      case 3
      with red have "rejoin (''--'' @ name) (strip_url_creds v) = Some w" unfolding arg shape by simp
      with 3 show ?thesis
        by (intro settles_value_flag [OF settles_strip_url_creds name]) (simp_all only: shape if_False)
    qed
  qed
qed

section \<open>Flags that differ in a secret only\<close>

inductive secret_variant ::
  "(string \<Rightarrow> string) \<Rightarrow> string list \<Rightarrow> string \<Rightarrow> string \<Rightarrow> bool" for lc allow_env where
  same: "secret_variant lc allow_env a a"
| header:
    "name \<in> set header_option_names \<Longrightarrow> CHR ''='' \<notin> set h \<Longrightarrow> CHR '':'' \<notin> set h \<Longrightarrow>
     sep = CHR ''='' \<or> sep = CHR '':'' \<Longrightarrow>
     secret_variant lc allow_env (''--'' @ name @ CHR ''='' # h @ sep # s1)
       (''--'' @ name @ CHR ''='' # h @ sep # s2)"
| env:
    "name \<in> set env_var_option_names \<Longrightarrow> CHR ''='' \<notin> set key \<Longrightarrow>
     \<not> is_allowed_env lc key allow_env \<Longrightarrow> key \<notin> set known_git_repo_url_keys \<Longrightarrow>
     s1 \<notin> set safe_env_values \<Longrightarrow> s2 \<notin> set safe_env_values \<Longrightarrow>
     secret_variant lc allow_env (''--'' @ name @ CHR ''='' # key @ CHR ''='' # s1)
       (''--'' @ name @ CHR ''='' # key @ CHR ''='' # s2)"
| url:
    "name \<notin> set header_option_names \<Longrightarrow> name \<notin> set env_var_option_names \<Longrightarrow>
     name \<noteq> ''build_metadata'' \<Longrightarrow> CHR ''='' \<notin> set name \<Longrightarrow> CHR '':'' \<notin> set scheme \<Longrightarrow>
     CHR ''@'' \<notin> set s1 \<union> set s2 \<Longrightarrow> CHR ''/'' \<notin> set s1 \<union> set s2 \<Longrightarrow>
     secret_variant lc allow_env (''--'' @ name @ CHR ''='' # scheme @ ''://'' @ s1 @ CHR ''@'' # rest)
       (''--'' @ name @ CHR ''='' # scheme @ ''://'' @ s2 @ CHR ''@'' # rest)"

lemma option_names_plain:
  "name \<in> set header_option_names \<Longrightarrow> CHR ''='' \<notin> set name \<and> name \<noteq> ''build_metadata''"
  "name \<in> set env_var_option_names \<Longrightarrow>
     CHR ''='' \<notin> set name \<and> name \<noteq> ''build_metadata'' \<and> name \<notin> set header_option_names"
  by (auto simp: header_option_names_def env_var_option_names_def)

lemma parse_allow_env_flag_other:
  assumes "CHR ''='' \<notin> set name" and "name \<noteq> ''build_metadata''"
  shows "parse_allow_env_flag (''--'' @ name @ CHR ''='' # v) = None"
proof -
  have "strip_prefix ''--build_metadata='' (''--'' @ name @ CHR ''='' # v) = None"
  proof (rule ccontr)
    assume "\<not> ?thesis"
    then obtain r where "name @ CHR ''='' # v = ''build_metadata'' @ CHR ''='' # r"
      by (auto simp: strip_prefix_Some_iff)
    then have "split_once CHR ''='' (name @ CHR ''='' # v) =
        split_once CHR ''='' (''build_metadata'' @ CHR ''='' # r)" by simp
    moreover have "split_once CHR ''='' (''build_metadata'' @ CHR ''='' # r) = Some (''build_metadata'', r)"
      by (rule split_once_append) simp
    ultimately show False using assms by simp
  qed
  then show ?thesis by (simp add: parse_allow_env_flag_def)
qed

lemma secret_variant_parse:
  "secret_variant lc allow_env a b \<Longrightarrow> parse_allow_env_flag a = parse_allow_env_flag b"
proof (induction rule: secret_variant.induct)
  case (header name h sep s1 s2)
  then show ?case using option_names_plain(1) [OF header(1)] by (metis parse_allow_env_flag_other)
next
  case (env name key s1 s2)
  then show ?case using option_names_plain(2) [OF env(1)] by (metis parse_allow_env_flag_other)
next
  case (url name scheme s1 s2 rest)
  then show ?case by (metis parse_allow_env_flag_other)
qed simp

lemma find_scheme:
  assumes "CHR '':'' \<notin> set scheme"
  shows "find_sub ''://'' (scheme @ ''://'' @ r) = Some (length scheme)"
  using assms by (induction scheme) (auto simp: starts_with_def)

lemma strip_url_creds_scheme:
  assumes "CHR '':'' \<notin> set scheme" and "CHR ''@'' \<notin> set c" and "CHR ''/'' \<notin> set c"
  shows "strip_url_creds (scheme @ ''://'' @ c @ CHR ''@'' # rest) =
    Some (scheme @ ''://'' @ REDACTED @ CHR ''@'' # rest)"
proof -
  let ?s = "scheme @ ''://'' @ c @ CHR ''@'' # rest"
  have "drop (length scheme + 3) ?s = c @ CHR ''@'' # rest"
    and take: "take (length scheme + 3) ?s = scheme @ ''://''" by simp_all
  from strip_url_creds_eq [OF find_scheme [OF assms(1)] this(1) assms(2,3)] take
  show ?thesis by (simp only: append_assoc)
qed

lemma secret_variant_redact:
  "secret_variant lc allow_env a b \<Longrightarrow>
   into_owned a (redact_flag lc a allow_env) = into_owned b (redact_flag lc b allow_env)"
proof (induction rule: secret_variant.induct)
  case (header name h sep s1 s2)
  have name: "CHR ''='' \<notin> set name" using option_names_plain(1) [OF header(1)] by simp
  show ?case
    unfolding redact_flag_shape [OF name] redact_header_value_split [OF header(2-4)]
    by (simp only: header(1) if_True into_owned_def option.case)
next
  case (env name key s1 s2)
  have name: "CHR ''='' \<notin> set name" "name \<notin> set header_option_names"
    using option_names_plain(2) [OF env(1)] by simp_all
  show ?case
    unfolding redact_flag_shape [OF name(1)] redact_env_value_shape [OF env(2)]
    by (simp only: env name if_True if_False into_owned_def rejoin_def option.map option.case)
next
  case (url name scheme s1 s2 rest)
  have "strip_url_creds (scheme @ ''://'' @ s @ CHR ''@'' # rest) =
      Some (scheme @ ''://'' @ REDACTED @ CHR ''@'' # rest)" if "s = s1 \<or> s = s2" for s
    using url that by (intro strip_url_creds_scheme) auto
  then show ?case
    unfolding redact_flag_shape [OF url(4)]
    by (simp only: url if_False into_owned_def rejoin_def option.map option.case simp_thms)
qed simp

lemma collect_allow_env_variant:
  "list_all2 (secret_variant lc allow_env) xs ys \<Longrightarrow> collect_allow_env xs = collect_allow_env ys"
  by (induction rule: list_all2_induct) (auto simp: collect_allow_env_def dest: secret_variant_parse)

section \<open>Unmodified means unchanged\<close>

lemma write_cow_unmodified: "\<not> snd (write_cow s c) \<Longrightarrow> fst (write_cow s c) = s"
  by (simp add: write_cow_def into_owned_def)

lemma redact_each_unmodified:
  assumes "\<And>x. x \<in> set xs \<Longrightarrow> \<not> snd (f x) \<Longrightarrow> fst (f x) = x" and "\<not> snd (redact_each f xs)"
  shows "fst (redact_each f xs) = xs"
  using assms by (simp add: redact_each_def list_ex_iff map_idI)

lemma redact_string_vec_unmodified:
  "\<not> snd (redact_string_vec lc v allow_env) \<Longrightarrow> fst (redact_string_vec lc v allow_env) = v"
  unfolding redact_string_vec_def by (rule redact_each_unmodified) (rule write_cow_unmodified)

lemma redact_option_unmodified:
  "\<not> snd (redact_option lc allow_env opt) \<Longrightarrow> fst (redact_option lc allow_env opt) = opt"
  using write_cow_unmodified [of "option_value opt"] write_cow_unmodified [of "combined_form opt"]
  by (simp add: redact_option_def case_prod_unfold Let_def)

lemma redact_section_unmodified:
  "\<not> snd (redact_section lc allow_env sec) \<Longrightarrow> fst (redact_section lc allow_env sec) = sec"
proof (cases "snd sec")
  case (Some st)
  assume "\<not> snd (redact_section lc allow_env sec)"
  with Some show ?thesis
    using redact_string_vec_unmodified
      redact_each_unmodified [of _ "redact_option lc allow_env", OF redact_option_unmodified]
    by (cases st; cases sec) (auto simp: redact_section_def case_prod_unfold Let_def)
qed (simp add: redact_section_def)

lemma redact_command_line_unmodified:
  "\<not> snd (redact_command_line lc sections allow_env) \<Longrightarrow>
   fst (redact_command_line lc sections allow_env) = sections"
  unfolding redact_command_line_def by (rule redact_each_unmodified) (rule redact_section_unmodified)

lemma scrub_url_key_modified: "snd acc \<Longrightarrow> snd (scrub_url_key key acc)"
  by (auto simp: scrub_url_key_def split: option.splits)

lemma fold_scrub_modified: "snd acc \<Longrightarrow> snd (fold scrub_url_key keys acc)"
proof (induction keys arbitrary: acc)
  case (Cons key keys)
  then show ?case using scrub_url_key_modified [OF Cons.prems] by simp
qed simp

lemma fold_scrub_unmodified:
  "\<not> snd (fold scrub_url_key keys acc) \<Longrightarrow> fold scrub_url_key keys acc = acc"
proof (induction keys arbitrary: acc)
  case (Cons key keys)
  then have "\<not> snd (scrub_url_key key acc)" using fold_scrub_modified by fastforce
  then have "scrub_url_key key acc = acc" by (auto simp: scrub_url_key_def split: option.splits)
  with Cons show ?case by simp
qed simp

lemma redact_explicit_unmodified:
  "\<not> snd (redact_explicit_command_line lc json acc) \<Longrightarrow>
   redact_explicit_command_line lc json acc = acc"
  by (auto simp: redact_explicit_command_line_def Let_def split: option.splits prod.splits if_splits)

lemma redact_metadata_unmodified:
  "\<not> snd (redact_metadata lc json m) \<Longrightarrow> fst (redact_metadata lc json m) = m"
  unfolding redact_metadata_def
  by (metis fst_conv fold_scrub_unmodified redact_explicit_unmodified)

lemma redact_options_parsed_unmodified:
  "\<not> snd (redact_options_parsed lc op) \<Longrightarrow> fst (redact_options_parsed lc op) = op"
  using redact_string_vec_unmodified
  by (simp add: redact_options_parsed_def case_prod_unfold Let_def)

section \<open>Properties\<close>

text \<open>C4. Non-interference: two command lines that differ only in secrets, that is in the value
  of a request header, in the value of an environment variable that is neither allowlisted
  nor a safe literal, or in the user information of a URL, are redacted to the same text, so
  nothing of the secret survives in it. The allowlist in force is the one collected from the
  command line itself.\<close>

theorem redacted_args_hide_secrets:
  assumes "list_all2 (secret_variant lc (effective_allow_env (collect_allow_env xs))) xs ys"
  shows "redact_command_args lc xs = redact_command_args lc ys"
proof -
  have "map (\<lambda>a. into_owned a (redact_flag lc a allow_env)) xs =
      map (\<lambda>a. into_owned a (redact_flag lc a allow_env)) ys"
    if "list_all2 (secret_variant lc allow_env) xs ys" for allow_env
    using that by (induction rule: list_all2_induct) (auto dest: secret_variant_redact)
  from this [OF assms] show ?thesis
    unfolding redact_command_args_def Let_def collect_allow_env_variant [OF assms, symmetric] .
qed

theorem redacted_args_hide_secrets_witness:
  "redact_command_args (map to_lower) [''--remote_header=Authorization: Bearer t0k3n''] =
   redact_command_args (map to_lower) [''--remote_header=Authorization: x'']"
proof (rule redacted_args_hide_secrets)
  show "list_all2 (secret_variant (map to_lower) (effective_allow_env
      (collect_allow_env [''--remote_header=Authorization: Bearer t0k3n''])))
    [''--remote_header=Authorization: Bearer t0k3n''] [''--remote_header=Authorization: x'']"
    using secret_variant.header [of "''remote_header''" "''Authorization''" "CHR '':''" "map to_lower"
      "effective_allow_env (collect_allow_env [''--remote_header=Authorization: Bearer t0k3n''])"
      "'' Bearer t0k3n''" "'' x''"]
    by (simp add: header_option_names_def)
qed

text \<open>Redaction is idempotent: a flag that went through the redactor once is not changed by
  it again, whatever mixture of header, environment, URL and plain flags it is, so scrubbing
  an already scrubbed command line or rc option is harmless.\<close>

theorem redactor_idempotent:
  "redactor lc flags (redactor lc flags flag) = redactor lc flags flag"
  using settles_redact_flag [of lc "effective_allow_env (collect_allow_env flags)"]
  by (cases "redact_flag lc flag (effective_allow_env (collect_allow_env flags))")
    (simp_all add: redactor_def settles_def into_owned_def)

text \<open>An event for which \<open>redact_event\<close> returns false is unchanged, for every payload kind,
  so a caller that skips re-encoding it forwards exactly the redacted event.\<close>

theorem redact_event_false_unchanged:
  assumes "\<not> snd (redact_event lc json event)"
  shows "fst (redact_event lc json event) = event"
proof (cases event)
  case (Some payload)
  with assms show ?thesis
  proof (cases payload)
    case (Started x d)
    with assms Some show ?thesis by (simp add: redact_event_def split: if_splits)
  next
    case (UnstructuredCommandLine args)
    with assms Some show ?thesis by (simp add: redact_event_def redact_string_vec_unmodified)
  next
    case (StructuredCommandLine x sections)
    with assms Some show ?thesis by (simp add: redact_event_def redact_command_line_unmodified)
  next
    case (OptionsParsed x op)
    with assms Some show ?thesis by (simp add: redact_event_def redact_options_parsed_unmodified)
  next
    case (WorkspaceStatus items)
    have "fst (redact_each (\<lambda>(k, v). apfst (Pair k) (write_cow v (strip_url_creds v))) items) = items"
    proof (rule redact_each_unmodified)
      show "\<not> snd (redact_each (\<lambda>(k, v). apfst (Pair k) (write_cow v (strip_url_creds v))) items)"
        using assms Some WorkspaceStatus by (simp add: redact_event_def)
    qed (auto simp: write_cow_unmodified split: prod.splits)
    with Some WorkspaceStatus show ?thesis by (simp add: redact_event_def)
  next
    case (BuildMetadata m)
    with assms Some show ?thesis by (simp add: redact_event_def redact_metadata_unmodified)
  next
    case (OtherPayload x)
    with Some show ?thesis by (simp add: redact_event_def)
  qed
qed (simp add: redact_event_def)

definition no_json :: json_api where
  "no_json = \<lparr>json_parse = (\<lambda>_. None), json_print = (\<lambda>_. None)\<rparr>"

theorem redact_event_false_unchanged_witness:
  "fst (redact_event (map to_lower) no_json
     (Some (WorkspaceStatus [(''BUILD_SCM'', ''https://host/x'')]) :: (nat, nat) payload option)) =
   Some (WorkspaceStatus [(''BUILD_SCM'', ''https://host/x'')])"
  by (rule redact_event_false_unchanged)
    (simp add: redact_event_def redact_each_def write_cow_def strip_url_creds_def starts_with_def)

text \<open>A password that contains \<open>@\<close> leaves its tail, and only the first URL of a value is
  scrubbed.\<close>

lemma url_password_tail_leaks:
  "strip_url_creds ''https://user:p@ss@host/x'' = Some ''https://<REDACTED>@ss@host/x''"
  "strip_url_creds ''https://a/,https://user:pw@host'' = None"
  by (simp_all add: strip_url_creds_def starts_with_def REDACTED_def)

end
