(* ===== verification/Broadcaster.thy ===== *)
theory Broadcaster
  imports Cli_Prelude
begin

text \<open>
  The event broadcaster (crates/axl-runtime/src/engine/bazel/stream/broadcaster.rs). Every
  method runs under the broadcaster's mutex, so an execution is a sequence of whole
  operations. A subscription's channel is a cell of \<open>bc_chans\<close>, named by the number of the
  subscriber; the two fields of a \<open>Subscriber\<close> are dropped one after the other, the receiver
  first, and other operations may come between.
\<close>

section \<open>State\<close>

type_synonym 'a sub_filter = "('a \<Rightarrow> bool) option"

record 'a chan =
  ch_queue :: "'a list"
  ch_connected :: bool \<comment> \<open>a sender exists\<close>
  ch_rx :: bool \<comment> \<open>the receiver exists\<close>
  ch_token :: bool \<comment> \<open>\<open>alive.strong_count() > 0\<close>\<close>

record 'a broadcaster =
  bc_subs :: "(nat \<times> 'a sub_filter) list"
  bc_closed :: bool
  bc_chans :: "nat \<Rightarrow> 'a chan"
  bc_next :: nat

definition new_chan :: "bool \<Rightarrow> 'a chan" where
  "new_chan connected =
     \<lparr>ch_queue = [], ch_connected = connected, ch_rx = True, ch_token = True\<rparr>"

definition bc_new :: "'a broadcaster" where
  "bc_new =
     \<lparr>bc_subs = [], bc_closed = False,
      bc_chans = (\<lambda>_. \<lparr>ch_queue = [], ch_connected = False, ch_rx = False, ch_token = False\<rparr>),
      bc_next = 0\<rparr>"

section \<open>Operations\<close>

definition disconnected :: "'a chan" where
  "disconnected = new_chan False"

definition subscribe_filtered :: "'a sub_filter \<Rightarrow> 'a broadcaster \<Rightarrow> nat \<times> 'a broadcaster" where
  "subscribe_filtered f b =
     (let i = bc_next b
      in if bc_closed b then
           (i, b\<lparr>bc_chans := (bc_chans b)(i := disconnected), bc_next := i + 1\<rparr>)
         else
           (i, b\<lparr>bc_subs := bc_subs b @ [(i, f)],
                 bc_chans := (bc_chans b)(i := new_chan True), bc_next := i + 1\<rparr>))"

definition subscribe :: "'a broadcaster \<Rightarrow> nat \<times> 'a broadcaster" where
  "subscribe b = subscribe_filtered None b"

definition accepts :: "'a sub_filter \<Rightarrow> 'a \<Rightarrow> bool" where
  "accepts f e = (case f of None \<Rightarrow> True | Some p \<Rightarrow> p e)"

text \<open>The \<open>retain\<close> loop. A subscription that is not retained drops its sender.\<close>

fun retain_send ::
  "'a \<Rightarrow> (nat \<times> 'a sub_filter) list \<Rightarrow> (nat \<Rightarrow> 'a chan) \<Rightarrow>
   (nat \<times> 'a sub_filter) list \<times> (nat \<Rightarrow> 'a chan)" where
  "retain_send e [] cs = ([], cs)"
| "retain_send e ((i, f) # subs) cs =
     (if \<not> ch_token (cs i) then
        retain_send e subs (cs(i := (cs i)\<lparr>ch_connected := False\<rparr>))
      else if \<not> accepts f e then apfst (Cons (i, f)) (retain_send e subs cs)
      else if ch_rx (cs i) then
        apfst (Cons (i, f))
          (retain_send e subs (cs(i := (cs i)\<lparr>ch_queue := ch_queue (cs i) @ [e]\<rparr>)))
      else retain_send e subs (cs(i := (cs i)\<lparr>ch_connected := False\<rparr>)))"

definition send :: "'a \<Rightarrow> 'a broadcaster \<Rightarrow> 'a broadcaster" where
  "send e b =
     (let (subs, cs) = retain_send e (bc_subs b) (bc_chans b)
      in b\<lparr>bc_subs := subs, bc_chans := cs\<rparr>)"

definition close :: "'a broadcaster \<Rightarrow> 'a broadcaster" where
  "close b =
     b\<lparr>bc_closed := True, bc_subs := [],
       bc_chans := (\<lambda>i. if i \<in> fst ` set (bc_subs b)
         then (bc_chans b i)\<lparr>ch_connected := False\<rparr> else bc_chans b i)\<rparr>"

datatype 'a recv_result = Received 'a | Disconnected | WouldBlock

definition try_recv :: "nat \<Rightarrow> 'a broadcaster \<Rightarrow> 'a recv_result \<times> 'a broadcaster" where
  "try_recv i b =
     (let c = bc_chans b i
      in case ch_queue c of
           e # rest \<Rightarrow> (Received e, b\<lparr>bc_chans := (bc_chans b)(i := c\<lparr>ch_queue := rest\<rparr>)\<rparr>)
         | [] \<Rightarrow> (if ch_connected c then WouldBlock else Disconnected, b))"

definition drop_rx :: "nat \<Rightarrow> 'a broadcaster \<Rightarrow> 'a broadcaster" where
  "drop_rx i b = b\<lparr>bc_chans := (bc_chans b)(i := (bc_chans b i)\<lparr>ch_queue := [], ch_rx := False\<rparr>)\<rparr>"

definition drop_token :: "nat \<Rightarrow> 'a broadcaster \<Rightarrow> 'a broadcaster" where
  "drop_token i b = b\<lparr>bc_chans := (bc_chans b)(i := (bc_chans b i)\<lparr>ch_token := False\<rparr>)\<rparr>"

section \<open>Executions\<close>

datatype 'a op = is_Subscribe: Subscribe "'a sub_filter" | Send 'a | is_Close: Close | Recv nat | DropRx nat | DropToken nat

text \<open>The second component collects what each subscriber has received. A subscriber that was
  dropped receives nothing any more; its token goes after its receiver.\<close>

definition exec ::
  "'a op \<Rightarrow> 'a broadcaster \<times> (nat \<Rightarrow> 'a list) \<Rightarrow> 'a broadcaster \<times> (nat \<Rightarrow> 'a list)" where
  "exec x bg =
     (let (b, got) = bg
      in case x of
           Subscribe f \<Rightarrow> (snd (subscribe_filtered f b), got)
         | Send e \<Rightarrow> (send e b, got)
         | Close \<Rightarrow> (close b, got)
         | Recv i \<Rightarrow>
             if ch_rx (bc_chans b i) then
               (case try_recv i b of
                  (Received e, b') \<Rightarrow> (b', got(i := got i @ [e]))
                | _ \<Rightarrow> (b, got))
             else (b, got)
         | DropRx i \<Rightarrow> (drop_rx i b, got)
         | DropToken i \<Rightarrow> (if ch_rx (bc_chans b i) then b else drop_token i b, got))"

definition run :: "'a op list \<Rightarrow> 'a broadcaster \<times> (nat \<Rightarrow> 'a list)" where
  "run ops = fold exec ops (bc_new, \<lambda>_. [])"

section \<open>The specification\<close>

text \<open>A subscription is a filter that is in force from its operation on; every event sent before
  the close is appended to the log of each filter in force that accepts it.\<close>

record 'a pubsub =
  ps_next :: nat
  ps_closed :: bool
  ps_filter :: "nat \<Rightarrow> 'a sub_filter option"
  ps_log :: "nat \<Rightarrow> 'a list"

definition spec_exec :: "'a op \<Rightarrow> 'a pubsub \<Rightarrow> 'a pubsub" where
  "spec_exec x p =
     (case x of
        Subscribe f \<Rightarrow>
          p\<lparr>ps_next := ps_next p + 1,
            ps_filter := (ps_filter p)(ps_next p := if ps_closed p then None else Some f)\<rparr>
      | Send e \<Rightarrow>
          if ps_closed p then p
          else p\<lparr>ps_log := (\<lambda>i. case ps_filter p i of
              Some f \<Rightarrow> ps_log p i @ (if accepts f e then [e] else []) | None \<Rightarrow> ps_log p i)\<rparr>
      | Close \<Rightarrow> p\<lparr>ps_closed := True\<rparr>
      | _ \<Rightarrow> p)"

definition spec_run :: "'a op list \<Rightarrow> 'a pubsub" where
  "spec_run ops = fold spec_exec ops
     \<lparr>ps_next = 0, ps_closed = False, ps_filter = (\<lambda>_. None), ps_log = (\<lambda>_. [])\<rparr>"

section \<open>The simulation\<close>

definition deliver :: "'a \<Rightarrow> 'a sub_filter \<Rightarrow> 'a chan \<Rightarrow> 'a chan" where
  "deliver e f c =
     (if \<not> ch_token c then c\<lparr>ch_connected := False\<rparr>
      else if \<not> accepts f e then c
      else if ch_rx c then c\<lparr>ch_queue := ch_queue c @ [e]\<rparr>
      else c\<lparr>ch_connected := False\<rparr>)"

definition retained :: "'a \<Rightarrow> 'a sub_filter \<Rightarrow> 'a chan \<Rightarrow> bool" where
  "retained e f c \<longleftrightarrow> ch_token c \<and> (accepts f e \<longrightarrow> ch_rx c)"

lemma retain_send_step:
  "retain_send e ((i, f) # subs) cs =
     (if retained e f (cs i) then apfst (Cons (i, f)) else id)
       (retain_send e subs (cs(i := deliver e f (cs i))))"
  by (simp add: retained_def deliver_def fun_upd_idem)

lemma retain_send_eq:
  "distinct (map fst subs) \<Longrightarrow>
   retain_send e subs cs =
     (filter (\<lambda>(i, f). retained e f (cs i)) subs,
      \<lambda>j. case map_of subs j of None \<Rightarrow> cs j | Some f \<Rightarrow> deliver e f (cs j))"
proof (induction subs arbitrary: cs)
  case (Cons s subs)
  obtain i f where s: "s = (i, f)" by (cases s)
  have fresh: "i \<notin> fst ` set subs" using Cons.prems s by simp
  have same: "filter (\<lambda>(j, g). retained e g ((cs(i := c)) j)) subs =
      filter (\<lambda>(j, g). retained e g (cs j)) subs" for c
  proof (intro filter_cong refl)
    fix x assume "x \<in> set subs"
    then have "fst x \<noteq> i" using fresh by auto
    then show "(case x of (j, g) \<Rightarrow> retained e g ((cs(i := c)) j)) =
        (case x of (j, g) \<Rightarrow> retained e g (cs j))" by (cases x) simp
  qed
  have none: "map_of subs i = None" using fresh by (simp add: map_of_eq_None_iff)
  have IH: "retain_send e subs (cs(i := c)) =
      (filter (\<lambda>(j, g). retained e g (cs j)) subs,
       \<lambda>j. case map_of subs j of None \<Rightarrow> (cs(i := c)) j | Some g \<Rightarrow> deliver e g (cs j))" for c
  proof -
    have d: "distinct (map fst subs)" using Cons.prems s by simp
    have "(case map_of subs j of None \<Rightarrow> (cs(i := c)) j | Some g \<Rightarrow> deliver e g ((cs(i := c)) j)) =
        (case map_of subs j of None \<Rightarrow> (cs(i := c)) j | Some g \<Rightarrow> deliver e g (cs j))" for j
      using none by (cases "j = i") (simp_all split: option.split)
    then show ?thesis by (simp only: Cons.IH [OF d] same)
  qed
  have "(case map_of subs j of None \<Rightarrow> (cs(i := deliver e f (cs i))) j
        | Some g \<Rightarrow> deliver e g (cs j)) =
      (case map_of (s # subs) j of None \<Rightarrow> cs j | Some g \<Rightarrow> deliver e g (cs j))" for j
    using none s by (cases "j = i") (simp_all split: option.split)
  then show ?case
    by (simp add: retain_send_step s IH del: retain_send.simps fun_upd_apply)
qed simp

text \<open>What relates the broadcaster to the specification.\<close>

definition bc_sim :: "'a broadcaster \<Rightarrow> (nat \<Rightarrow> 'a list) \<Rightarrow> 'a pubsub \<Rightarrow> bool" where
  "bc_sim b got p \<longleftrightarrow>
     ps_next p = bc_next b \<and> ps_closed p = bc_closed b \<and> distinct (map fst (bc_subs b)) \<and>
     fst ` set (bc_subs b) \<subseteq> {..<bc_next b} \<and> (bc_closed b \<longrightarrow> bc_subs b = []) \<and>
     (\<forall>i \<ge> bc_next b. ps_filter p i = None \<and> ps_log p i = [] \<and> got i = [] \<and> \<not> ch_rx (bc_chans b i)) \<and>
     (\<not> bc_closed b \<longrightarrow> (\<forall>i < bc_next b. ps_filter p i \<noteq> None)) \<and>
     (\<forall>i. ch_connected (bc_chans b i) \<longleftrightarrow> i \<in> fst ` set (bc_subs b)) \<and>
     (\<forall>i. ch_rx (bc_chans b i) \<longrightarrow> ch_token (bc_chans b i) \<and>
        got i @ ch_queue (bc_chans b i) = ps_log p i \<and>
        (\<not> bc_closed b \<longrightarrow> map_of (bc_subs b) i = ps_filter p i))"

lemma bc_sim_init:
  "bc_sim bc_new (\<lambda>_. [])
     \<lparr>ps_next = 0, ps_closed = False, ps_filter = (\<lambda>_. None), ps_log = (\<lambda>_. [])\<rparr>"
  by (simp add: bc_sim_def bc_new_def)

lemma bc_sim_subscribe:
  assumes "bc_sim b got p"
  shows "bc_sim (snd (subscribe_filtered f b)) got (spec_exec (Subscribe f) p)"
proof -
  let ?n = "bc_next b"
  have new: "?n \<notin> fst ` set (bc_subs b)" and m: "map_of (bc_subs b) ?n = None"
    using assms by (auto simp: bc_sim_def map_of_eq_None_iff)
  have below: "fst ` set (bc_subs b) \<subseteq> {..<Suc ?n}"
    using assms by (auto simp: bc_sim_def)
  have other: "i \<noteq> ?n \<Longrightarrow> map_of (bc_subs b @ [(?n, f)]) i = map_of (bc_subs b) i" for i
    by (simp add: map_add_def split: option.split)
  have here: "([?n \<mapsto> f] ++ map_of (bc_subs b)) ?n = Some f"
    using m by (simp add: map_add_def)
  show ?thesis
    using assms new m below other here
    by (simp add: bc_sim_def subscribe_filtered_def spec_exec_def new_chan_def disconnected_def Let_def)
qed

lemma map_of_retain:
  "distinct (map fst subs) \<Longrightarrow> map_of (filter (\<lambda>(j, f). Q j f) subs) i =
     (case map_of subs i of Some f \<Rightarrow> if Q i f then Some f else None | None \<Rightarrow> None)"
proof (induction subs)
  case (Cons x subs)
  then have "fst x = i \<Longrightarrow> map_of subs i = None" by (auto simp: map_of_eq_None_iff)
  with Cons show ?case by (cases x) (auto split: option.split)
qed simp

lemma deliver_simps [simp]:
  "ch_rx (deliver e f c) = ch_rx c" "ch_token (deliver e f c) = ch_token c"
  "ch_connected (deliver e f c) = (ch_connected c \<and> retained e f c)"
  by (auto simp: deliver_def retained_def)

lemma bc_sim_send:
  assumes "bc_sim b got p"
  shows "bc_sim (send e b) got (spec_exec (Send e) p)"
proof (cases "bc_closed b")
  case True
  then show ?thesis using assms by (simp add: bc_sim_def send_def spec_exec_def)
next
  case False
  let ?kept = "filter (\<lambda>(i, f). retained e f (bc_chans b i)) (bc_subs b)"
  let ?cs = "\<lambda>j. case map_of (bc_subs b) j of None \<Rightarrow> bc_chans b j
      | Some f \<Rightarrow> deliver e f (bc_chans b j)"
  have dist: "distinct (map fst (bc_subs b))" using assms by (simp add: bc_sim_def)
  have eq: "send e b = b\<lparr>bc_subs := ?kept, bc_chans := ?cs\<rparr>"
    by (simp add: send_def retain_send_eq [OF dist])
  have dk: "distinct (map fst ?kept)" using dist by (rule distinct_map_filter)
  have mk: "map_of ?kept i = (case map_of (bc_subs b) i of None \<Rightarrow> None
      | Some f \<Rightarrow> if retained e f (bc_chans b i) then Some f else None)" for i
    by (simp add: map_of_retain [OF dist] cong: option.case_cong)
  have conn: "ch_connected (?cs i) \<longleftrightarrow> i \<in> fst ` set ?kept" for i
  proof -
    have "ch_connected (bc_chans b i) \<longleftrightarrow> map_of (bc_subs b) i \<noteq> None"
      using assms by (simp add: bc_sim_def map_of_eq_None_iff)
    moreover have "i \<in> fst ` set ?kept \<longleftrightarrow> map_of ?kept i \<noteq> None"
      by (simp only: map_of_eq_None_iff) simp
    ultimately show ?thesis unfolding mk by (simp split: option.split)
  qed
  have rx [simp]: "ch_rx (?cs i) = ch_rx (bc_chans b i)" for i
    by (simp split: option.split)
  have alive: "ch_token (?cs i) \<and> got i @ ch_queue (?cs i) = ps_log (spec_exec (Send e) p) i \<and>
      map_of ?kept i = ps_filter p i" if "ch_rx (bc_chans b i)" for i
    using assms that False unfolding mk
    by (auto simp: bc_sim_def spec_exec_def deliver_def retained_def split: option.splits)
  have fresh: "ps_filter p i = None \<and> ps_log (spec_exec (Send e) p) i = [] \<and> got i = [] \<and>
      \<not> ch_rx (bc_chans b i)" if "bc_next b \<le> i" for i
    using assms that by (simp add: bc_sim_def spec_exec_def)
  have below: "fst ` set ?kept \<subseteq> {..<bc_next b}"
    using assms unfolding bc_sim_def by (meson filter_is_subset image_mono subset_trans)
  have same: "ps_next (spec_exec (Send e) p) = bc_next b"
      "ps_closed (spec_exec (Send e) p) = bc_closed b"
      "ps_filter (spec_exec (Send e) p) = ps_filter p"
    using assms by (simp_all add: bc_sim_def spec_exec_def)
  have known: "\<forall>i < bc_next b. ps_filter p i \<noteq> None"
    using assms False by (simp add: bc_sim_def)
  show ?thesis
    unfolding eq bc_sim_def
    using dk below conn alive fresh same False rx known by simp
qed

lemma bc_sim_close:
  "bc_sim b got p \<Longrightarrow> bc_sim (close b) got (spec_exec Close p)"
  by (auto simp: bc_sim_def close_def spec_exec_def)

lemma bc_sim_recv:
  assumes "bc_sim b got p" "ch_queue (bc_chans b i) = e # rest" "ch_rx (bc_chans b i)"
  shows "bc_sim (b\<lparr>bc_chans := (bc_chans b)(i := (bc_chans b i)\<lparr>ch_queue := rest\<rparr>)\<rparr>)
    (got(i := got i @ [e])) p"
proof -
  have "i < bc_next b" using assms by (auto simp: bc_sim_def not_le [symmetric])
  moreover have "got i @ e # rest = ps_log p i"
    using assms by (metis bc_sim_def)
  ultimately show ?thesis using assms by (simp add: bc_sim_def)
qed

lemma bc_sim_drop_rx: "bc_sim b got p \<Longrightarrow> bc_sim (drop_rx i b) got p"
  by (simp add: bc_sim_def drop_rx_def)

lemma bc_sim_drop_token:
  "bc_sim b got p \<Longrightarrow> \<not> ch_rx (bc_chans b i) \<Longrightarrow> bc_sim (drop_token i b) got p"
  by (simp add: bc_sim_def drop_token_def)

text \<open>One operation of the broadcaster is one operation of the specification.\<close>

lemma exec_simulates:
  assumes "bc_sim b got p"
  shows "bc_sim (fst (exec x (b, got))) (snd (exec x (b, got))) (spec_exec x p)"
proof (cases x)
  case (Subscribe f)
  then show ?thesis using bc_sim_subscribe [OF assms] by (simp add: exec_def)
next
  case (Send e)
  then show ?thesis using bc_sim_send [OF assms] by (simp add: exec_def)
next
  case Close
  then show ?thesis using bc_sim_close [OF assms] by (simp add: exec_def)
next
  case (Recv i)
  have p: "spec_exec x p = p" using Recv by (simp add: spec_exec_def)
  show ?thesis
  proof (cases "ch_queue (bc_chans b i)")
    case Nil
    then show ?thesis using assms Recv p by (simp add: exec_def try_recv_def)
  next
    case (Cons e rest)
    then show ?thesis using assms Recv p bc_sim_recv [OF assms Cons]
      by (simp add: exec_def try_recv_def Let_def)
  qed
next
  case (DropRx i)
  then show ?thesis using bc_sim_drop_rx [OF assms] by (simp add: exec_def spec_exec_def)
next
  case (DropToken i)
  then show ?thesis using assms bc_sim_drop_token [OF assms] by (simp add: exec_def spec_exec_def)
qed

lemma run_simulates: "bc_sim (fst (run ops)) (snd (run ops)) (spec_run ops)"
proof (induction ops rule: rev_induct)
  case Nil
  then show ?case using bc_sim_init by (simp add: run_def spec_run_def)
next
  case (snoc x ops)
  then show ?case using exec_simulates [OF snoc.IH, of x] by (simp add: run_def spec_run_def)
qed

section \<open>What a subscriber sees\<close>

text \<open>The events a subscription with filter \<open>f\<close> is promised by the operations after it.\<close>

fun promised :: "'a sub_filter \<Rightarrow> 'a op list \<Rightarrow> 'a list" where
  "promised f [] = []"
| "promised f (x # xs) =
     (case x of
        Close \<Rightarrow> []
      | Send e \<Rightarrow> (if accepts f e then [e] else []) @ promised f xs
      | _ \<Rightarrow> promised f xs)"

lemma spec_open:
  "\<forall>x \<in> set ops. \<not> is_Close x \<Longrightarrow>
   \<not> ps_closed (spec_run ops) \<and> ps_next (spec_run ops) = length (filter is_Subscribe ops)"
proof (induction ops rule: rev_induct)
  case (snoc x ops)
  then show ?case by (cases x) (auto simp: spec_run_def spec_exec_def)
qed (simp add: spec_run_def)

lemma spec_closed: "ps_closed (spec_run ops) \<longleftrightarrow> list_ex is_Close ops"
proof (induction ops rule: rev_induct)
  case (snoc x ops)
  then show ?case by (cases x) (auto simp: spec_run_def spec_exec_def)
qed (simp add: spec_run_def)

lemma fold_closed:
  "ps_closed p \<Longrightarrow> ps_log (fold spec_exec post p) = ps_log p \<and> ps_closed (fold spec_exec post p)"
proof (induction post arbitrary: p)
  case (Cons x post)
  then have "ps_closed (spec_exec x p) \<and> ps_log (spec_exec x p) = ps_log p"
    by (cases x) (auto simp: spec_exec_def)
  then show ?case using Cons.IH [of "spec_exec x p"] by simp
qed simp

lemma fold_promised:
  "ps_filter p i = Some f \<Longrightarrow> i < ps_next p \<Longrightarrow> \<not> ps_closed p \<Longrightarrow>
   ps_log (fold spec_exec post p) i = ps_log p i @ promised f post"
proof (induction post arbitrary: p)
  case (Cons x post)
  show ?case
  proof (cases x)
    case Close
    then have "ps_closed (spec_exec x p)" "ps_log (spec_exec x p) = ps_log p"
      by (simp_all add: spec_exec_def)
    then show ?thesis using fold_closed [of "spec_exec x p" post] Close by simp
  next
    case (Subscribe g)
    then show ?thesis using Cons.prems Cons.IH [of "spec_exec x p"] by (simp add: spec_exec_def)
  next
    case (Send e)
    then show ?thesis using Cons.prems Cons.IH [of "spec_exec x p"] by (simp add: spec_exec_def)
  qed (use Cons.prems Cons.IH [of "spec_exec x p"] in \<open>simp_all add: spec_exec_def\<close>)
qed simp

lemma alive_head:
  assumes "bc_sim b got p" "ch_rx (bc_chans b i)"
  shows "fst (try_recv i b) =
    (case drop (length (got i)) (ps_log p i) of e # _ \<Rightarrow> Received e
     | [] \<Rightarrow> if ps_closed p then Disconnected else WouldBlock)"
proof -
  have split: "ps_log p i = got i @ ch_queue (bc_chans b i)" and i: "i < bc_next b"
    using assms by (auto simp: bc_sim_def not_le [symmetric])
  have conn: "ch_connected (bc_chans b i) \<longleftrightarrow> \<not> ps_closed p"
  proof (cases "bc_closed b")
    case True
    then show ?thesis using assms by (simp add: bc_sim_def)
  next
    case False
    then have "map_of (bc_subs b) i \<noteq> None" using assms i by (simp add: bc_sim_def)
    then have "i \<in> fst ` set (bc_subs b)" by (simp add: map_of_eq_None_iff)
    then show ?thesis using assms False by (simp add: bc_sim_def)
  qed
  show ?thesis by (simp add: split try_recv_def conn Let_def split: list.split)
qed

text \<open>C17. A subscriber gets exactly the events it is entitled to: what it has taken, followed by what
  is queued for it, is the list of events sent between its subscription and the close that its
  filter accepts, in order, whatever the other subscribers do. A receive never blocks once the
  broadcaster is closed, and reports the disconnection only after the last event.\<close>

theorem subscriber_sees_promised:
  assumes "\<forall>x \<in> set pre. \<not> is_Close x" and "i = length (filter is_Subscribe pre)"
    and "run (pre @ Subscribe f # post) = (b, got)" and "ch_rx (bc_chans b i)"
  shows "got i @ ch_queue (bc_chans b i) = promised f post \<and>
    fst (try_recv i b) =
      (case drop (length (got i)) (promised f post) of e # _ \<Rightarrow> Received e
       | [] \<Rightarrow> if list_ex is_Close post then Disconnected else WouldBlock)"
proof -
  let ?ops = "pre @ Subscribe f # post"
  have sim: "bc_sim b got (spec_run ?ops)" using run_simulates [of ?ops] assms(3) by simp
  have op: "\<not> ps_closed (spec_run pre)" "ps_next (spec_run pre) = i"
    using spec_open [OF assms(1)] assms(2) by auto
  have "bc_sim (fst (run pre)) (snd (run pre)) (spec_run pre)" by (rule run_simulates)
  then have "ps_log (spec_run pre) i = []" using op by (simp add: bc_sim_def)
  then have log: "ps_log (spec_run ?ops) i = promised f post"
    using fold_promised [of "spec_exec (Subscribe f) (spec_run pre)" i f post] op
    by (simp add: spec_run_def spec_exec_def)
  have "ps_closed (spec_run ?ops) \<longleftrightarrow> list_ex is_Close post"
    using assms(1) by (auto simp: spec_closed list_ex_iff)
  then show ?thesis using sim alive_head [OF sim assms(4)] log assms(4) by (simp add: bc_sim_def)
qed

definition sample_ops :: "nat op list" where
  "sample_ops = [Send 3, Send 4, Recv 0, Send 6, Close, Send 8]"

theorem subscriber_sees_promised_witness:
  "snd (run ([] @ Subscribe (Some even) # sample_ops)) 0 = [4] \<and>
   fst (try_recv 0 (fst (run ([] @ Subscribe (Some even) # sample_ops)))) = Received 6"
proof -
  let ?r = "run ([] @ Subscribe (Some even) # sample_ops)"
  note ev = run_def sample_ops_def exec_def subscribe_filtered_def send_def close_def try_recv_def
    bc_new_def new_chan_def accepts_def Let_def
  have got: "snd ?r 0 = [4]" by (simp add: ev)
  have "ch_rx (bc_chans (fst ?r) 0)" by (simp add: ev)
  then show ?thesis
    using subscriber_sees_promised [of "[]" 0 "Some even" sample_ops "fst ?r" "snd ?r"] got
    by (simp add: sample_ops_def accepts_def)
qed

text \<open>A closed broadcaster stays silent: sending and closing again change nothing, nobody
  remains subscribed, and whoever subscribes late is disconnected at once.\<close>

theorem closed_is_final:
  assumes "list_ex is_Close ops" and "b = fst (run ops)"
  shows "bc_subs b = [] \<and> send e b = b \<and> close b = b \<and>
    fst (try_recv (fst (subscribe_filtered f b)) (snd (subscribe_filtered f b))) = Disconnected"
proof -
  have "bc_sim b (snd (run ops)) (spec_run ops)" using run_simulates [of ops] assms(2) by simp
  then have "bc_closed b" "bc_subs b = []" using assms(1) by (auto simp: bc_sim_def spec_closed)
  then show ?thesis
    by (simp add: send_def close_def subscribe_filtered_def disconnected_def new_chan_def
        try_recv_def Let_def)
qed

theorem closed_is_final_witness:
  "send 7 (fst (run [Subscribe None, Send (1::nat), Close])) =
     fst (run [Subscribe None, Send (1::nat), Close])"
  using closed_is_final [of "[Subscribe None, Send (1::nat), Close]" _ 7] by simp

end
