(* ===== verification/Build_Events.thy ===== *)
theory Build_Events
  imports File_Stream Redaction Broadcaster
begin

text \<open>
  The reader of the build event stream (crates/axl-runtime/src/engine/bazel/stream/build_event.rs,
  with \<open>MultiWriter\<close> of util.rs) and the kinds of its events (\<open>payload_discriminant\<close> and
  \<open>event_kind_in\<close> of engine/bazel/build.rs). One thread reads delimited events from a pipe, redacts
  each, mirrors it into the file sinks, and sends it to the broadcaster; when Bazel announces a
  retry it keeps the pipe open and starts the files afresh. The message codec is a parameter.
\<close>

section \<open>Events\<close>

text \<open>The payloads that redaction leaves alone; of \<open>Finished\<close> the reader looks at the exit code.\<close>

datatype 'x other_payload =
    Progress 'x | Aborted 'x | Fetch 'x | Configuration 'x | Expanded 'x | Configured 'x | Action 'x
  | NamedSetOfFiles 'x | Completed 'x | TestResult 'x | TestSummary 'x | TargetSummary 'x
  | Finished "int option" 'x | BuildToolLogs 'x | BuildMetrics 'x | WorkspaceInfo 'x
  | ConvenienceSymlinksIdentified 'x | ExecRequest 'x | TestProgress 'x

record 'x build_event =
  be_payload :: "('x, 'x other_payload) payload option"
  be_last :: bool
  be_rest :: 'x

primrec other_discriminant :: "'x other_payload \<Rightarrow> int" where
  "other_discriminant (Progress x) = 3"
| "other_discriminant (Aborted x) = 4"
| "other_discriminant (Fetch x) = 17"
| "other_discriminant (Configuration x) = 19"
| "other_discriminant (Expanded x) = 6"
| "other_discriminant (Configured x) = 7"
| "other_discriminant (Action x) = 8"
| "other_discriminant (NamedSetOfFiles x) = 15"
| "other_discriminant (Completed x) = 9"
| "other_discriminant (TestResult x) = 10"
| "other_discriminant (TestSummary x) = 20"
| "other_discriminant (TargetSummary x) = 26"
| "other_discriminant (Finished c x) = 11"
| "other_discriminant (BuildToolLogs x) = 21"
| "other_discriminant (BuildMetrics x) = 22"
| "other_discriminant (WorkspaceInfo x) = 25"
| "other_discriminant (ConvenienceSymlinksIdentified x) = 27"
| "other_discriminant (ExecRequest x) = 28"
| "other_discriminant (TestProgress x) = 30"

primrec payload_discriminant :: "('x, 'x other_payload) payload \<Rightarrow> int" where
  "payload_discriminant (Started x d) = 5"
| "payload_discriminant (UnstructuredCommandLine a) = 12"
| "payload_discriminant (StructuredCommandLine x s) = 13"
| "payload_discriminant (OptionsParsed x p) = 14"
| "payload_discriminant (WorkspaceStatus i) = 16"
| "payload_discriminant (BuildMetadata m) = 24"
| "payload_discriminant (OtherPayload p) = other_discriminant p"

definition event_kind_in :: "'x build_event \<Rightarrow> int list \<Rightarrow> bool" where
  "event_kind_in ev kinds =
     (case be_payload ev of None \<Rightarrow> False | Some p \<Rightarrow> payload_discriminant p \<in> set kinds)"

text \<open>A \<open>Finished\<close> with the exit code of \<open>REMOTE_CACHE_EVICTED\<close> announces a retry.\<close>

definition announces_retry :: "'x build_event \<Rightarrow> bool" where
  "announces_retry ev =
     (case be_payload ev of Some (OtherPayload (Finished (Some c) x)) \<Rightarrow> c = 39 | _ \<Rightarrow> False)"

definition is_started :: "'x build_event \<Rightarrow> bool" where
  "is_started ev = (case be_payload ev of Some (Started x d) \<Rightarrow> True | _ \<Rightarrow> False)"

section \<open>Writing to all file sinks\<close>

text \<open>\<open>ok i k\<close>: whether the \<open>k\<close>-th write to the \<open>i\<close>-th file succeeds. The first failure ends the round.\<close>

fun multi_write_all ::
  "(nat \<Rightarrow> nat \<Rightarrow> bool) \<Rightarrow> nat \<Rightarrow> byte list \<Rightarrow> buf_writer list \<Rightarrow> bool \<times> buf_writer list" where
  "multi_write_all ok i bs [] = (True, [])"
| "multi_write_all ok i bs (w # ws) =
     (let (good, w') = bw_write_all (ok i) bs w
      in if good then apsnd (Cons w') (multi_write_all ok (Suc i) bs ws) else (False, w' # ws))"

fun multi_flush :: "(nat \<Rightarrow> nat \<Rightarrow> bool) \<Rightarrow> nat \<Rightarrow> buf_writer list \<Rightarrow> bool \<times> buf_writer list" where
  "multi_flush ok i [] = (True, [])"
| "multi_flush ok i (w # ws) =
     (let (good, w') = bw_flush (ok i) w
      in if good then apsnd (Cons w') (multi_flush ok (Suc i) ws) else (False, w' # ws))"

section \<open>The state of the reader\<close>

text \<open>The outside of the reader: the codec, the Unicode and JSON functions of redaction, whether the
  files of a generation can be created (the error otherwise), whether a write succeeds (generation,
  file, number), and the kind of a failed write.\<close>

record 'x bes_env =
  env_dec :: "byte list \<Rightarrow> 'x build_event option"
  env_enc :: "'x build_event \<Rightarrow> byte list"
  env_lower :: "string \<Rightarrow> string"
  env_json :: json_api
  env_create :: "nat \<Rightarrow> string option"
  env_write_ok :: "nat \<Rightarrow> nat \<Rightarrow> nat \<Rightarrow> bool"
  env_write_error :: "read_error \<times> string"
  env_show :: "stream_error \<Rightarrow> string"

text \<open>\<open>bs_signal\<close> is the result with which the signals of the file sinks were completed: every signal
  is completed with the same results in the same order, and the first one counts.\<close>

record 'x bes =
  bs_out :: "buf_writer list"
  bs_gen :: nat
  bs_retry :: bool
  bs_sent :: "'x build_event list"
  bs_closed :: bool
  bs_signal :: "(string + unit) option"

definition signal_complete :: "string + unit \<Rightarrow> (string + unit) option \<Rightarrow> (string + unit) option" where
  "signal_complete result sig = (case sig of None \<Rightarrow> Some result | Some r \<Rightarrow> Some r)"

definition complete_signals :: "string + unit \<Rightarrow> 'x bes \<Rightarrow> 'x bes" where
  "complete_signals result st = st\<lparr>bs_signal := signal_complete result (bs_signal st)\<rparr>"

definition redacted :: "'x bes_env \<Rightarrow> 'x build_event \<Rightarrow> 'x build_event" where
  "redacted env ev = ev\<lparr>be_payload := fst (redact_event (env_lower env) (env_json env) (be_payload ev))\<rparr>"

definition write_out :: "'x bes_env \<Rightarrow> byte list \<Rightarrow> 'x bes \<Rightarrow> bool \<times> 'x bes" where
  "write_out env bs st =
     (let (good, ws) = multi_write_all (env_write_ok env (bs_gen st)) 0 bs (bs_out st)
      in (good, st\<lparr>bs_out := ws\<rparr>))"

text \<open>The bytes that the files get for an event: its own when it was not modified.\<close>

definition mirror :: "'x bes_env \<Rightarrow> byte list \<Rightarrow> byte list \<Rightarrow> 'x build_event \<Rightarrow> 'x bes \<Rightarrow> bool \<times> 'x bes" where
  "mirror env raw body ev st =
     (if snd (redact_event (env_lower env) (env_json env) (be_payload ev))
      then write_out env (delimited (env_enc env) (redacted env ev)) st
      else (let (good, st') = write_out env raw st in if good then write_out env body st' else (False, st')))"

text \<open>Opening the files of a generation, the error of the first that cannot be created.\<close>

definition open_file_sinks :: "'x bes_env \<Rightarrow> nat \<Rightarrow> nat \<Rightarrow> string option" where
  "open_file_sinks env g n = (if n = 0 then None else env_create env g)"

text \<open>One event, with what remains of the input, or the error.\<close>

definition read_event ::
  "'x bes_env \<Rightarrow> byte list \<Rightarrow> 'x bes \<Rightarrow> ('x build_event \<times> byte list + stream_end \<times> byte list) \<times> 'x bes" where
  "read_event env bs st =
     (case read_message BrokenPipe bs of
        Inr e \<Rightarrow> (Inr (e, []), st)
      | Inl (body, rest) \<Rightarrow>
          (case env_dec env body of
             None \<Rightarrow> (Inr (StreamFailed ProstDecode, rest), st)
           | Some ev \<Rightarrow>
               (let raw = take (length bs - length rest - length body) bs;
                    (good, st') = mirror env raw body ev st
                in (if good then Inl (redacted env ev, rest)
                    else Inr (StreamFailed (StreamIo (fst (env_write_error env))), rest), st'))))"

section \<open>The loop\<close>

text \<open>The end of the stream: close, flush, and tell the file sinks.\<close>

definition finish_stream :: "'x bes_env \<Rightarrow> 'x bes \<Rightarrow> stream_end \<times> 'x bes" where
  "finish_stream env st =
     (let (good, ws) = multi_flush (env_write_ok env (bs_gen st)) 0 (bs_out st);
          st' = st\<lparr>bs_closed := True, bs_out := ws\<rparr>
      in if good then (StreamDone, complete_signals (Inr ()) st')
         else (StreamFailed (StreamIo (fst (env_write_error env))),
               complete_signals (Inl (''flush failed: '' @ snd (env_write_error env))) st'))"

text \<open>Before a retry the files are flushed and created anew; the result of the flush is ignored.\<close>

definition reopen_sinks :: "'x bes_env \<Rightarrow> 'x bes \<Rightarrow> (stream_end \<times> 'x bes) + 'x bes" where
  "reopen_sinks env st =
     (let (_, ws) = multi_flush (env_write_ok env (bs_gen st)) 0 (bs_out st);
          g = Suc (bs_gen st)
      in case open_file_sinks env g (length ws) of
           Some e \<Rightarrow> Inl (StreamFailed (StreamIo OtherKind),
             (complete_signals (Inl (''failed to reopen file sink(s) for retry: '' @ e)) (st\<lparr>bs_out := ws\<rparr>))
               \<lparr>bs_closed := True\<rparr>)
         | None \<Rightarrow> Inr (st\<lparr>bs_out := map (\<lambda>_. bw_new) ws, bs_gen := g\<rparr>))"

definition after_event :: "'x bes_env \<Rightarrow> 'x build_event \<Rightarrow> 'x bes \<Rightarrow> (stream_end \<times> 'x bes) + 'x bes" where
  "after_event env ev st =
     (case (if announces_retry ev then reopen_sinks env (st\<lparr>bs_retry := True\<rparr>)
            else if is_started ev then Inr (st\<lparr>bs_retry := False\<rparr>) else Inr st) of
        Inl r \<Rightarrow> Inl r
      | Inr st1 \<Rightarrow>
          (let st2 = st1\<lparr>bs_sent := bs_sent st1 @ [ev]\<rparr>
           in if be_last ev \<and> \<not> bs_retry st2 then Inl (finish_stream env st2) else Inr st2))"

text \<open>What the reader finds when the pipe has no writer: the client is gone; the client lives and the
  pipe still has no writer at the next read; or the client lives and a new writer sends these bytes
  before it, too, leaves.\<close>

datatype gap = ClientGone | StillQuiet | Reconnected "byte list"

primrec gap_size :: "gap \<Rightarrow> nat" where
  "gap_size ClientGone = 1"
| "gap_size StillQuiet = 1"
| "gap_size (Reconnected bs) = Suc (length bs)"

lemma read_event_rest:
  "read_event env bs st = (Inl (ev, rest), st1) \<Longrightarrow> length rest < length bs"
  "read_event env bs st = (Inr (e, rest), st1) \<Longrightarrow> length rest \<le> length bs"
  by (auto simp: read_event_def Let_def dest!: read_message_shorter
      split: sum.splits option.splits prod.splits if_splits)

text \<open>\<open>None\<close>: the reader still waits for a retry.\<close>

function bes_loop ::
  "'x bes_env \<Rightarrow> byte list \<Rightarrow> gap list \<Rightarrow> 'x bes \<Rightarrow> stream_end option \<times> 'x bes" where
  "bes_loop env bs gaps st =
     (case read_event env bs st of
        (Inl (ev, rest), st1) \<Rightarrow>
          (case after_event env ev st1 of
             Inl (e, st2) \<Rightarrow> (Some e, st2)
           | Inr st2 \<Rightarrow> bes_loop env rest gaps st2)
      | (Inr (e, rest), st1) \<Rightarrow>
          (case e of
             StreamFailed err \<Rightarrow>
               if err = StreamIo BrokenPipe then
                 (if \<not> bs_retry st1 then apfst Some (finish_stream env st1)
                  else (case gaps of
                      [] \<Rightarrow> (None, st1)
                    | ClientGone # gs \<Rightarrow> apfst Some (finish_stream env st1)
                    | StillQuiet # gs \<Rightarrow> bes_loop env rest gs st1
                    | Reconnected bs' # gs \<Rightarrow> bes_loop env (rest @ bs') gs st1))
               else (Some e, (complete_signals (Inl (''BES read error: '' @ env_show env err)) st1)
                       \<lparr>bs_closed := True\<rparr>)
           | _ \<Rightarrow> (Some e, st1)))"
  by pat_completeness auto
termination
  by (relation "measure (\<lambda>(env, bs, gaps, st). length bs + sum_list (map gap_size gaps))")
    (auto dest: read_event_rest(1) [OF sym] read_event_rest(2) [OF sym])

declare bes_loop.simps [simp del]

text \<open>The whole thread, for \<open>n\<close> file sinks. \<open>piped\<close> says whether the pipe could be opened.\<close>

definition bes_start :: "nat \<Rightarrow> 'x bes" where
  "bes_start n = \<lparr>bs_out = replicate n bw_new, bs_gen = 0, bs_retry = False, bs_sent = [],
     bs_closed = False, bs_signal = None\<rparr>"

definition bes_thread ::
  "'x bes_env \<Rightarrow> nat \<Rightarrow> bool \<Rightarrow> byte list \<Rightarrow> gap list \<Rightarrow> stream_end option \<times> 'x bes" where
  "bes_thread env n piped bs gaps =
     (case open_file_sinks env 0 n of
        Some e \<Rightarrow> (Some (StreamFailed (StreamIo OtherKind)),
          complete_signals (Inl (''failed to open file sink(s): '' @ e)) (bes_start n))
      | None \<Rightarrow>
          if \<not> piped then (Some (StreamFailed (StreamIo OtherKind)), bes_start n)
          else bes_loop env bs gaps (bes_start n))"

text \<open>Joining the thread consumes its result; a second join finds none, and a panic is passed on.\<close>

definition join_bes :: "stream_end option \<Rightarrow> (stream_end + unit) option" where
  "join_bes handle =
     (case handle of
        None \<Rightarrow> Some (Inr ())
      | Some StreamDone \<Rightarrow> Some (Inr ())
      | Some StreamPanic \<Rightarrow> None
      | Some e \<Rightarrow> Some (Inl e))"

section \<open>Every end is announced\<close>

text \<open>What holds between two steps of the loop, and at its end.\<close>

definition bes_running :: "'x bes \<Rightarrow> bool" where
  "bes_running st \<longleftrightarrow> \<not> bs_closed st \<and> bs_signal st = None"

definition bes_ended :: "stream_end option \<Rightarrow> 'x bes \<Rightarrow> bool" where
  "bes_ended r st \<longleftrightarrow>
     (case r of
        None \<Rightarrow> bes_running st \<and> bs_retry st
      | Some StreamPanic \<Rightarrow> bes_running st
      | Some StreamDone \<Rightarrow> bs_closed st \<and> bs_signal st = Some (Inr ())
      | Some (StreamFailed e) \<Rightarrow> bs_closed st \<and> (\<exists>msg. bs_signal st = Some (Inl msg)))"

lemma complete_signals_fields [simp]:
  "bs_closed (complete_signals r st) = bs_closed st" "bs_sent (complete_signals r st) = bs_sent st"
  "bs_out (complete_signals r st) = bs_out st" "bs_retry (complete_signals r st) = bs_retry st"
  "bs_gen (complete_signals r st) = bs_gen st"
  "bs_signal (complete_signals r st) = signal_complete r (bs_signal st)"
  by (simp_all add: complete_signals_def)

lemma write_out_fields:
  "write_out env bs st = (good, st') \<Longrightarrow>
   bs_closed st' = bs_closed st \<and> bs_signal st' = bs_signal st \<and> bs_retry st' = bs_retry st \<and>
   bs_sent st' = bs_sent st \<and> bs_gen st' = bs_gen st"
  by (auto simp: write_out_def split: prod.splits)

lemma mirror_fields:
  "mirror env raw body ev st = (good, st') \<Longrightarrow>
   bs_closed st' = bs_closed st \<and> bs_signal st' = bs_signal st \<and> bs_retry st' = bs_retry st \<and>
   bs_sent st' = bs_sent st \<and> bs_gen st' = bs_gen st"
  by (auto simp: mirror_def dest!: write_out_fields split: if_splits prod.splits)

lemma read_event_fields:
  "read_event env bs st = (r, st') \<Longrightarrow>
   bs_closed st' = bs_closed st \<and> bs_signal st' = bs_signal st \<and> bs_retry st' = bs_retry st \<and>
   bs_sent st' = bs_sent st \<and> bs_gen st' = bs_gen st"
  by (auto simp: read_event_def Let_def dest!: mirror_fields
      split: sum.splits option.splits prod.splits)

lemma finish_stream_ended:
  "finish_stream env st = (e, st') \<Longrightarrow> bes_running st \<Longrightarrow>
   bes_ended (Some e) st' \<and> bs_sent st' = bs_sent st"
  by (auto simp: finish_stream_def bes_ended_def bes_running_def signal_complete_def Let_def
      split: prod.splits if_splits)

lemma reopen_sinks_cases:
  assumes "bes_running st"
  shows "case reopen_sinks env st of
      Inl (e, st') \<Rightarrow> bes_ended (Some e) st' \<and> bs_sent st' = bs_sent st
    | Inr st' \<Rightarrow> bes_running st' \<and> bs_sent st' = bs_sent st \<and> bs_retry st' = bs_retry st"
  using assms by (auto simp: reopen_sinks_def bes_ended_def bes_running_def signal_complete_def
      split: prod.splits option.splits)

lemma after_event_cases:
  assumes "bes_running st"
  shows "case after_event env ev st of
      Inl (e, st') \<Rightarrow> bes_ended (Some e) st' \<and> (bs_sent st' = bs_sent st \<or> bs_sent st' = bs_sent st @ [ev])
    | Inr st' \<Rightarrow> bes_running st' \<and> bs_sent st' = bs_sent st @ [ev]"
proof -
  have "bes_running (st\<lparr>bs_retry := b\<rparr>)" for b using assms by (simp add: bes_running_def)
  then show ?thesis
    using assms reopen_sinks_cases [of "st\<lparr>bs_retry := True\<rparr>" env]
    by (auto simp: after_event_def Let_def bes_running_def dest!: finish_stream_ended
        split: sum.splits prod.splits if_splits)
qed

lemma read_event_error:
  "read_event env bs st = (Inr (e, rest), st') \<Longrightarrow> e = StreamPanic \<or> (\<exists>err. e = StreamFailed err)"
  by (auto simp: read_event_def read_message_def Let_def
      split: sum.splits option.splits prod.splits if_splits varint.splits)

text \<open>A proof rule for the loop: \<open>I\<close> holds before every read, \<open>Q\<close> at the end.\<close>

lemma bes_loop_event:
  "read_event env bs st = (Inl (ev, rest), st1) \<Longrightarrow>
   bes_loop env bs gaps st = (case after_event env ev st1 of
       Inl (e, st2) \<Rightarrow> (Some e, st2) | Inr st2 \<Rightarrow> bes_loop env rest gaps st2)"
  by (subst bes_loop.simps) simp

lemma bes_loop_error:
  "read_event env bs st = (Inr (StreamFailed err, rest), st1) \<Longrightarrow> err \<noteq> StreamIo BrokenPipe \<Longrightarrow>
   bes_loop env bs gaps st = (Some (StreamFailed err),
     (complete_signals (Inl (''BES read error: '' @ env_show env err)) st1)\<lparr>bs_closed := True\<rparr>)"
  "read_event env bs st = (Inr (StreamPanic, rest), st1) \<Longrightarrow>
   bes_loop env bs gaps st = (Some StreamPanic, st1)"
  by (subst bes_loop.simps, simp)+

lemma bes_loop_broken:
  "read_event env bs st = (Inr (StreamFailed (StreamIo BrokenPipe), rest), st1) \<Longrightarrow>
   bes_loop env bs gaps st =
     (if \<not> bs_retry st1 then apfst Some (finish_stream env st1)
      else (case gaps of
          [] \<Rightarrow> (None, st1)
        | ClientGone # gs \<Rightarrow> apfst Some (finish_stream env st1)
        | StillQuiet # gs \<Rightarrow> bes_loop env rest gs st1
        | Reconnected bs' # gs \<Rightarrow> bes_loop env (rest @ bs') gs st1))"
  by (subst bes_loop.simps) simp

lemma bes_loop_rule:
  assumes step: "\<And>bs st ev rest st1 st2. I st \<Longrightarrow> read_event env bs st = (Inl (ev, rest), st1) \<Longrightarrow>
      after_event env ev st1 = Inr st2 \<Longrightarrow> I st2"
    and stop: "\<And>bs st ev rest st1 e st2. I st \<Longrightarrow> read_event env bs st = (Inl (ev, rest), st1) \<Longrightarrow>
      after_event env ev st1 = Inl (e, st2) \<Longrightarrow> Q (Some e) st2"
    and again: "\<And>bs st rest st1. I st \<Longrightarrow> bs_retry st1 \<Longrightarrow>
      read_event env bs st = (Inr (StreamFailed (StreamIo BrokenPipe), rest), st1) \<Longrightarrow> I st1 \<and> Q None st1"
    and finish: "\<And>bs st rest st1. I st \<Longrightarrow>
      read_event env bs st = (Inr (StreamFailed (StreamIo BrokenPipe), rest), st1) \<Longrightarrow>
      Q (Some (fst (finish_stream env st1))) (snd (finish_stream env st1))"
    and fail: "\<And>bs st rest st1 err. I st \<Longrightarrow> read_event env bs st = (Inr (StreamFailed err, rest), st1) \<Longrightarrow>
      err \<noteq> StreamIo BrokenPipe \<Longrightarrow>
      Q (Some (StreamFailed err))
        ((complete_signals (Inl (''BES read error: '' @ env_show env err)) st1)\<lparr>bs_closed := True\<rparr>)"
    and panic: "\<And>bs st rest st1. I st \<Longrightarrow> read_event env bs st = (Inr (StreamPanic, rest), st1) \<Longrightarrow>
      Q (Some StreamPanic) st1"
    and start: "I st"
  shows "Q (fst (bes_loop env bs gaps st)) (snd (bes_loop env bs gaps st))"
  using start
proof (induction "length bs + sum_list (map gap_size gaps)" arbitrary: bs gaps st rule: less_induct)
  case less
  obtain r st1 where r: "read_event env bs st = (r, st1)" by fastforce
  show ?case
  proof (cases r)
    case (Inl a)
    obtain ev rest where a: "a = (ev, rest)" by fastforce
    have "length rest < length bs" using read_event_rest(1) r Inl a by blast
    then show ?thesis
      using less.hyps [of rest gaps] step [OF less.prems] stop [OF less.prems] r Inl a
      by (auto simp: bes_loop_event split: sum.splits)
  next
    case (Inr b)
    obtain e rest where b: "b = (e, rest)" by fastforce
    have len: "length rest \<le> length bs" using read_event_rest(2) r Inr b by blast
    consider "e = StreamPanic" | err where "e = StreamFailed err" "err \<noteq> StreamIo BrokenPipe"
      | "e = StreamFailed (StreamIo BrokenPipe)" "\<not> bs_retry st1"
      | "e = StreamFailed (StreamIo BrokenPipe)" "bs_retry st1"
      using read_event_error [of env bs st e rest st1] r Inr b by auto
    then show ?thesis
    proof cases
      case 1
      then show ?thesis using panic [OF less.prems] r Inr b by (simp add: bes_loop_error)
    next
      case 2
      then show ?thesis using fail [OF less.prems] r Inr b by (simp add: bes_loop_error)
    next
      case 3
      then show ?thesis using finish [OF less.prems] r Inr b by (simp add: bes_loop_broken)
    next
      case 4
      then have broken: "read_event env bs st = (Inr (StreamFailed (StreamIo BrokenPipe), rest), st1)"
        using r Inr b by simp
      note I = again [OF less.prems 4(2) broken]
      have more: "Q (fst (bes_loop env (rest @ bs') gs st1)) (snd (bes_loop env (rest @ bs') gs st1))"
        if "gaps = g # gs" "length bs' < gap_size g" for g gs bs'
        using less.hyps [of "rest @ bs'" gs] I len that by simp
      show ?thesis
      proof (cases gaps)
        case Nil
        then show ?thesis using 4(2) I by (simp add: bes_loop_broken [OF broken])
      next
        case (Cons g gs)
        show ?thesis
        proof (cases g)
          case ClientGone
          then show ?thesis
            using 4(2) Cons finish [OF less.prems broken] by (simp add: bes_loop_broken [OF broken])
        next
          case StillQuiet
          then show ?thesis
            using 4(2) Cons more [of g gs "[]"] by (simp add: bes_loop_broken [OF broken])
        next
          case (Reconnected bs')
          then show ?thesis
            using 4(2) Cons more [of g gs bs'] by (simp add: bes_loop_broken [OF broken])
        qed
      qed
    qed
  qed
qed

lemma bes_loop_ended:
  assumes "bes_running st"
  shows "bes_ended (fst (bes_loop env bs gaps st)) (snd (bes_loop env bs gaps st))"
proof (rule bes_loop_rule [where I = bes_running and Q = bes_ended])
  fix bs st ev rest st1 st2
  assume "bes_running st" "read_event env bs st = (Inl (ev, rest), st1)"
  then have "bes_running st1" by (auto simp: bes_running_def dest!: read_event_fields)
  from after_event_cases [OF this, where env = env and ev = ev]
  show "after_event env ev st1 = Inr st2 \<Longrightarrow> bes_running st2"
    and "after_event env ev st1 = Inl (e, st2) \<Longrightarrow> bes_ended (Some e) st2" for e
    by auto
next
  fix bs st rest st1
  assume run: "bes_running st"
    and "read_event env bs st = (Inr (StreamFailed (StreamIo BrokenPipe), rest), st1)"
  then have "bes_running st1" by (auto simp: bes_running_def dest!: read_event_fields)
  then show "bes_ended (Some (fst (finish_stream env st1))) (snd (finish_stream env st1))"
    and "bs_retry st1 \<Longrightarrow> bes_running st1 \<and> bes_ended None st1"
    using finish_stream_ended [of env st1] by (auto simp: bes_ended_def)
qed (use assms in \<open>auto simp: bes_ended_def bes_running_def signal_complete_def dest!: read_event_fields\<close>)

text \<open>Only redacted events are sent, whatever fails.\<close>

definition only_redacted :: "'x bes_env \<Rightarrow> 'x bes \<Rightarrow> bool" where
  "only_redacted env st \<longleftrightarrow> set (bs_sent st) \<subseteq> range (redacted env)"

lemma read_event_redacted: "read_event env bs st = (Inl (ev, rest), st1) \<Longrightarrow> ev \<in> range (redacted env)"
  by (auto simp: read_event_def Let_def split: sum.splits option.splits prod.splits if_splits)

lemma after_event_sent:
  "case after_event env ev st of
     Inl (e, st') \<Rightarrow> bs_sent st' = bs_sent st \<or> bs_sent st' = bs_sent st @ [ev]
   | Inr st' \<Rightarrow> bs_sent st' = bs_sent st @ [ev]"
  by (simp add: after_event_def reopen_sinks_def finish_stream_def split_def Let_def split: option.split)

lemma bes_loop_redacted:
  assumes "only_redacted env st"
  shows "only_redacted env (snd (bes_loop env bs gaps st))"
proof (rule bes_loop_rule [where I = "only_redacted env" and Q = "\<lambda>_. only_redacted env"])
  fix bs st ev rest st1 e st2
  assume I: "only_redacted env st" and r: "read_event env bs st = (Inl (ev, rest), st1)"
  have sent: "bs_sent st1 = bs_sent st" "ev \<in> range (redacted env)"
    using read_event_fields [OF r] read_event_redacted [OF r] by simp_all
  show "after_event env ev st1 = Inr st2 \<Longrightarrow> only_redacted env st2"
    and "after_event env ev st1 = Inl (e, st2) \<Longrightarrow> only_redacted env st2"
    using I sent after_event_sent [where env = env and ev = ev and st = st1] by (auto simp: only_redacted_def)
next
  fix bs st rest st1
  assume "only_redacted env st"
    and "read_event env bs st = (Inr (StreamFailed (StreamIo BrokenPipe), rest), st1)"
  then show "only_redacted env (snd (finish_stream env st1))"
    by (auto simp: only_redacted_def finish_stream_def Let_def split: prod.splits dest!: read_event_fields)
qed (use assms in \<open>auto simp: only_redacted_def dest!: read_event_fields\<close>)


section \<open>What the reader implements\<close>

text \<open>The events that have been sent and those that the files hold, with the retry that is expected;
  and the pipe as the events of the attempts and the gaps between them. \<open>True\<close>: the stream has ended.\<close>

record 'x bes_view =
  vw_sent :: "'x build_event list"
  vw_file :: "'x build_event list"
  vw_retry :: bool

datatype 'x event_gap = Gone | Quiet | Attempt "'x build_event list"

definition view_event :: "'x build_event \<Rightarrow> 'x bes_view \<Rightarrow> 'x bes_view" where
  "view_event ev v =
     v\<lparr>vw_sent := vw_sent v @ [ev],
       vw_file := (if announces_retry ev then [] else vw_file v @ [ev]),
       vw_retry := (announces_retry ev \<or> vw_retry v \<and> \<not> is_started ev)\<rparr>"

fun view_events :: "'x build_event list \<Rightarrow> 'x bes_view \<Rightarrow> bool \<times> 'x bes_view" where
  "view_events [] v = (False, v)"
| "view_events (ev # evs) v =
     (let v' = view_event ev v
      in if be_last ev \<and> \<not> vw_retry v' then (True, v') else view_events evs v')"

fun view_gaps :: "'x event_gap list \<Rightarrow> bool \<times> 'x bes_view \<Rightarrow> bool \<times> 'x bes_view" where
  "view_gaps gaps (True, v) = (True, v)"
| "view_gaps gaps (False, v) =
     (if \<not> vw_retry v then (True, v)
      else (case gaps of
          [] \<Rightarrow> (False, v)
        | Gone # gs \<Rightarrow> (True, v)
        | Quiet # gs \<Rightarrow> view_gaps gs (False, v)
        | Attempt evs # gs \<Rightarrow> view_gaps gs (view_events evs v)))"

definition encode_events :: "'x bes_env \<Rightarrow> 'x build_event list \<Rightarrow> byte list" where
  "encode_events env evs = concat (map (delimited (env_enc env)) evs)"

primrec encode_gap :: "'x bes_env \<Rightarrow> 'x event_gap \<Rightarrow> gap" where
  "encode_gap env Gone = ClientGone"
| "encode_gap env Quiet = StillQuiet"
| "encode_gap env (Attempt evs) = Reconnected (encode_events env evs)"

primrec gap_events :: "'x event_gap \<Rightarrow> 'x build_event list" where
  "gap_events Gone = []"
| "gap_events Quiet = []"
| "gap_events (Attempt evs) = evs"

definition codec_ok :: "'x bes_env \<Rightarrow> 'x build_event \<Rightarrow> bool" where
  "codec_ok env ev \<longleftrightarrow> length (env_enc env ev) \<le> ISIZE_MAX \<and> env_dec env (env_enc env ev) = Some ev"

definition disk_ok :: "'x bes_env \<Rightarrow> bool" where
  "disk_ok env \<longleftrightarrow> (\<forall>g i k. env_write_ok env g i k) \<and> (\<forall>g. env_create env g = None)"

definition shows_view :: "'x bes_env \<Rightarrow> nat \<Rightarrow> 'x bes \<Rightarrow> 'x bes_view \<Rightarrow> bool" where
  "shows_view env n st v \<longleftrightarrow>
     bs_sent st = map (redacted env) (vw_sent v) \<and>
     (\<forall>w \<in> set (bs_out st). bw_content w = encode_events env (map (redacted env) (vw_file v))) \<and>
     bs_retry st = vw_retry v \<and> length (bs_out st) = n"

text \<open>Redaction keeps the kind of an event.\<close>

lemma redact_event_None [simp]: "redact_event lc json None = (None, False)"
  by (simp add: redact_event_def)

lemma redact_event_Some:
  "\<exists>q. fst (redact_event lc json (Some p)) = Some q \<and> payload_discriminant q = payload_discriminant p \<and>
     (\<forall>x. p = OtherPayload x \<longrightarrow> q = p)"
  by (cases p) (auto simp: redact_event_def)

lemma started_discriminant: "payload_discriminant p = 5 \<longleftrightarrow> (\<exists>x d. p = Started x d)"
proof -
  have "other_discriminant q \<noteq> 5" for q :: "'x other_payload" by (cases q) simp_all
  then show ?thesis by (cases p) simp_all
qed

lemma is_started_payload: "is_started ev \<longleftrightarrow> map_option payload_discriminant (be_payload ev) = Some 5"
  by (auto simp: is_started_def started_discriminant split: option.splits payload.splits)

lemma announces_payload:
  "announces_retry ev \<longleftrightarrow> (\<exists>x. be_payload ev = Some (OtherPayload (Finished (Some 39) x)))"
  by (auto simp: announces_retry_def split: option.splits payload.splits other_payload.splits)

lemma other_discriminant_range: "other_discriminant q \<notin> {5, 12, 13, 14, 16, 24}"
  by (cases q) simp_all

lemma redacted_kind [simp]:
  "map_option payload_discriminant (be_payload (redacted env ev)) =
     map_option payload_discriminant (be_payload ev)"
  "be_payload (redacted env ev) = Some (OtherPayload q) \<longleftrightarrow> be_payload ev = Some (OtherPayload q)"
  "be_last (redacted env ev) = be_last ev"
proof -
  show "map_option payload_discriminant (be_payload (redacted env ev)) =
      map_option payload_discriminant (be_payload ev)"
  proof (cases "be_payload ev")
    case (Some p)
    then show ?thesis
      using redact_event_Some [of "env_lower env" "env_json env" p] by (auto simp: redacted_def)
  qed (simp add: redacted_def)
  show "be_payload (redacted env ev) = Some (OtherPayload q) \<longleftrightarrow> be_payload ev = Some (OtherPayload q)"
  proof (cases "be_payload ev")
    case (Some p)
    obtain r where r: "be_payload (redacted env ev) = Some r"
      "payload_discriminant r = payload_discriminant p" "\<forall>x. p = OtherPayload x \<longrightarrow> r = p"
      using redact_event_Some [of "env_lower env" "env_json env" p] Some by (auto simp: redacted_def)
    have "payload_discriminant r = payload_discriminant p \<Longrightarrow> r = OtherPayload q \<Longrightarrow> \<exists>x. p = OtherPayload x"
      using other_discriminant_range [of q] by (cases p) auto
    then show ?thesis using Some r by auto
  qed (simp add: redacted_def)
  show "be_last (redacted env ev) = be_last ev" by (simp add: redacted_def)
qed

lemma redacted_flow [simp]:
  "announces_retry (redacted env ev) = announces_retry ev"
  "is_started (redacted env ev) = is_started ev"
  by (simp_all add: announces_payload is_started_payload)

lemma event_kind_in_redacted:
  fixes env :: "'x bes_env"
  shows "event_kind_in (redacted env ev) kinds = event_kind_in ev kinds"
proof -
  have "event_kind_in ev kinds \<longleftrightarrow> (\<exists>k \<in> set kinds. map_option payload_discriminant (be_payload ev) = Some k)"
    for ev :: "'x build_event"
    by (auto simp: event_kind_in_def split: option.splits)
  then show ?thesis by (simp only: redacted_kind)
qed

section \<open>The refinement\<close>

lemma multi_write_all_ok:
  assumes "\<And>i k. ok i k"
  shows "\<exists>ws'. multi_write_all ok i bs ws = (True, ws') \<and>
    map bw_content ws' = map (\<lambda>w. bw_content w @ bs) ws"
proof (induction ws arbitrary: i)
  case (Cons w ws)
  obtain w' where "bw_write_all (ok i) bs w = (True, w')" "bw_content w' = bw_content w @ bs"
    using bw_write_all_ok [of "ok i"] assms by blast
  then show ?case using Cons.IH [of "Suc i"] by auto
qed simp

lemma multi_flush_ok:
  assumes "\<And>i k. ok i k"
  shows "\<exists>ws'. multi_flush ok i ws = (True, ws') \<and> map bw_content ws' = map bw_content ws \<and>
    (\<forall>w \<in> set ws'. bw_buf w = [])"
proof (induction ws arbitrary: i)
  case (Cons w ws)
  obtain ws' where ws': "multi_flush ok (Suc i) ws = (True, ws')"
    "map bw_content ws' = map bw_content ws" "\<forall>w \<in> set ws'. bw_buf w = []"
    using Cons.IH [of "Suc i"] by blast
  obtain w' where "bw_flush (ok i) w = (True, w')" "bw_content w' = bw_content w" "bw_buf w' = []"
    using assms by (cases "bw_buf w = []") (auto simp: bw_flush_def bw_direct_def bw_content_def)
  then show ?case using ws' by simp
qed simp

lemma write_out_ok:
  assumes "disk_ok env"
  shows "\<exists>ws. write_out env bs st = (True, st\<lparr>bs_out := ws\<rparr>) \<and>
    map bw_content ws = map (\<lambda>w. bw_content w @ bs) (bs_out st)"
  using multi_write_all_ok [of "env_write_ok env (bs_gen st)" 0 bs "bs_out st"] assms
  by (auto simp: write_out_def disk_ok_def)

lemma redacted_unmodified:
  "\<not> snd (redact_event (env_lower env) (env_json env) (be_payload ev)) \<Longrightarrow> redacted env ev = ev"
  by (simp add: redacted_def redact_event_false_unchanged)

lemma mirror_ok:
  assumes "disk_ok env"
  shows "\<exists>ws. mirror env (leb128 (length (env_enc env ev))) (env_enc env ev) ev st =
      (True, st\<lparr>bs_out := ws\<rparr>) \<and>
    map bw_content ws = map (\<lambda>w. bw_content w @ delimited (env_enc env) (redacted env ev)) (bs_out st)"
proof (cases "snd (redact_event (env_lower env) (env_json env) (be_payload ev))")
  case True
  then show ?thesis using write_out_ok [OF assms] by (simp add: mirror_def)
next
  case False
  obtain ws where ws: "write_out env (leb128 (length (env_enc env ev))) st = (True, st\<lparr>bs_out := ws\<rparr>)"
    "map bw_content ws = map (\<lambda>w. bw_content w @ leb128 (length (env_enc env ev))) (bs_out st)"
    using write_out_ok [OF assms] by blast
  obtain ws' where ws': "write_out env (env_enc env ev) (st\<lparr>bs_out := ws\<rparr>) =
      (True, st\<lparr>bs_out := ws\<rparr>\<lparr>bs_out := ws'\<rparr>)"
    "map bw_content ws' = map (\<lambda>w. bw_content w @ env_enc env ev) ws"
    using write_out_ok [OF assms, of "env_enc env ev" "st\<lparr>bs_out := ws\<rparr>"] by auto
  have "map bw_content ws' = map (\<lambda>c. c @ env_enc env ev) (map bw_content ws)"
    using ws'(2) by simp
  then have content: "map bw_content ws' =
      map (\<lambda>w. bw_content w @ delimited (env_enc env) (redacted env ev)) (bs_out st)"
    by (simp add: ws(2) redacted_unmodified [OF False] delimited_def)
  have "mirror env (leb128 (length (env_enc env ev))) (env_enc env ev) ev st = (True, st\<lparr>bs_out := ws'\<rparr>)"
    using False ws(1) ws'(1) by (simp add: mirror_def)
  with content show ?thesis by blast
qed

lemma read_event_delimited:
  assumes "disk_ok env" and "codec_ok env ev"
  shows "\<exists>ws. read_event env (delimited (env_enc env) ev @ rest) st =
      (Inl (redacted env ev, rest), st\<lparr>bs_out := ws\<rparr>) \<and>
    map bw_content ws = map (\<lambda>w. bw_content w @ delimited (env_enc env) (redacted env ev)) (bs_out st)"
proof -
  obtain ws where "mirror env (leb128 (length (env_enc env ev))) (env_enc env ev) ev st =
      (True, st\<lparr>bs_out := ws\<rparr>)"
    "map bw_content ws = map (\<lambda>w. bw_content w @ delimited (env_enc env) (redacted env ev)) (bs_out st)"
    using mirror_ok [OF assms(1)] by blast
  moreover have "take (length (delimited (env_enc env) ev @ rest) - length rest - length (env_enc env ev))
      (delimited (env_enc env) ev @ rest) = leb128 (length (env_enc env ev))"
    by (simp add: delimited_def)
  ultimately show ?thesis
    using read_message_delimited [of "env_enc env" ev BrokenPipe rest] assms(2)
    by (auto simp: read_event_def codec_ok_def)
qed

lemma multi_flush_length: "length (snd (multi_flush ok i ws)) = length ws"
  by (induction ws arbitrary: i) (simp_all add: split_def Let_def)

lemma map_content_all:
  "map bw_content ws = map (\<lambda>w. f (bw_content w)) us \<Longrightarrow> \<forall>u \<in> set us. bw_content u = c \<Longrightarrow>
   \<forall>w \<in> set ws. bw_content w = f c"
  by (metis (mono_tags, lifting) image_eqI image_iff list.set_map)

lemma read_event_view:
  assumes "disk_ok env" and "codec_ok env ev" and "shows_view env n st v"
  shows "\<exists>st1. read_event env (delimited (env_enc env) ev @ rest) st = (Inl (redacted env ev, rest), st1) \<and>
    shows_view env n st1 (v\<lparr>vw_file := vw_file v @ [ev]\<rparr>)"
proof -
  obtain ws where ws: "read_event env (delimited (env_enc env) ev @ rest) st =
      (Inl (redacted env ev, rest), st\<lparr>bs_out := ws\<rparr>)"
    "map bw_content ws = map (\<lambda>w. bw_content w @ delimited (env_enc env) (redacted env ev)) (bs_out st)"
    using read_event_delimited [OF assms(1,2)] by blast
  have "\<forall>w \<in> set ws. bw_content w =
      encode_events env (map (redacted env) (vw_file v)) @ delimited (env_enc env) (redacted env ev)"
    using assms(3) map_content_all [OF ws(2)] by (simp add: shows_view_def)
  moreover have "length ws = length (bs_out st)" using ws(2) by (metis length_map)
  ultimately show ?thesis using ws(1) assms(3) by (auto simp: shows_view_def encode_events_def)
qed

lemma finish_stream_view:
  assumes "disk_ok env" and "shows_view env n st v" and "bes_running st"
  shows "\<exists>st'. finish_stream env st = (StreamDone, st') \<and> shows_view env n st' v \<and>
    (\<forall>w \<in> set (bs_out st'). bw_buf w = [])"
proof -
  have "env_write_ok env (bs_gen st) i k" for i k using assms(1) by (simp add: disk_ok_def)
  from multi_flush_ok [of "env_write_ok env (bs_gen st)", OF this]
  obtain ws where ws: "multi_flush (env_write_ok env (bs_gen st)) 0 (bs_out st) = (True, ws)"
    "map bw_content ws = map bw_content (bs_out st)" "\<forall>w \<in> set ws. bw_buf w = []" by blast
  have "\<forall>w \<in> set ws. bw_content w = encode_events env (map (redacted env) (vw_file v))"
    using assms(2) map_content_all [OF ws(2)] by (simp add: shows_view_def)
  moreover have "length ws = length (bs_out st)" using ws(2) by (metis length_map)
  moreover have "finish_stream env st =
      (StreamDone, complete_signals (Inr ()) (st\<lparr>bs_closed := True, bs_out := ws\<rparr>))"
    using ws(1) by (simp add: finish_stream_def)
  ultimately show ?thesis using ws(3) assms(2) by (simp add: shows_view_def)
qed

lemma after_event_view:
  assumes "disk_ok env" and "shows_view env n st (v\<lparr>vw_file := vw_file v @ [ev]\<rparr>)" and "bes_running st"
  shows "case after_event env (redacted env ev) st of
      Inl (e, st') \<Rightarrow> be_last ev \<and> \<not> vw_retry (view_event ev v) \<and> e = StreamDone \<and>
        shows_view env n st' (view_event ev v) \<and> (\<forall>w \<in> set (bs_out st'). bw_buf w = [])
    | Inr st' \<Rightarrow> \<not> (be_last ev \<and> \<not> vw_retry (view_event ev v)) \<and>
        shows_view env n st' (view_event ev v) \<and> bes_running st'"
proof -
  have excl: "announces_retry ev \<Longrightarrow> \<not> is_started ev"
    by (auto simp: announces_payload is_started_def)
  have opened: "open_file_sinks env g n = None" for g n
    using assms(1) by (simp add: open_file_sinks_def disk_ok_def)
  have "\<exists>st1. (if announces_retry ev then reopen_sinks env (st\<lparr>bs_retry := True\<rparr>)
        else if is_started ev then Inr (st\<lparr>bs_retry := False\<rparr>) else Inr st) = Inr st1 \<and>
      shows_view env n (st1\<lparr>bs_sent := bs_sent st1 @ [redacted env ev]\<rparr>) (view_event ev v) \<and>
      bes_running st1"
  proof (cases "announces_retry ev")
    case True
    then show ?thesis
      using assms(2,3) excl
      by (auto simp: reopen_sinks_def opened shows_view_def view_event_def bes_running_def
          encode_events_def bw_content_def bw_new_def multi_flush_length split_def Let_def)
  next
    case False
    then show ?thesis
      using assms(2,3) by (cases "is_started ev") (auto simp: shows_view_def view_event_def bes_running_def)
  qed
  then obtain st1 where st1: "(if announces_retry ev then reopen_sinks env (st\<lparr>bs_retry := True\<rparr>)
        else if is_started ev then Inr (st\<lparr>bs_retry := False\<rparr>) else Inr st) = Inr st1"
    "shows_view env n (st1\<lparr>bs_sent := bs_sent st1 @ [redacted env ev]\<rparr>) (view_event ev v)"
    "bes_running st1" by blast
  let ?st2 = "st1\<lparr>bs_sent := bs_sent st1 @ [redacted env ev]\<rparr>"
  have run: "bes_running ?st2" using st1(3) by (simp add: bes_running_def)
  have retry: "bs_retry st1 = vw_retry (view_event ev v)" using st1(2) by (simp add: shows_view_def)
  show ?thesis
    using st1 run retry finish_stream_view [OF assms(1) st1(2) run]
    by (auto simp: after_event_def Let_def)
qed

lemma bes_loop_events:
  assumes "disk_ok env" and "\<forall>ev \<in> set evs. codec_ok env ev" and "shows_view env n st v"
    and "bes_running st"
  shows "case view_events evs v of
      (True, v') \<Rightarrow> \<exists>st'. bes_loop env (encode_events env evs) gaps st = (Some StreamDone, st') \<and>
        shows_view env n st' v' \<and> (\<forall>w \<in> set (bs_out st'). bw_buf w = [])
    | (False, v') \<Rightarrow> \<exists>st'. bes_loop env (encode_events env evs) gaps st = bes_loop env [] gaps st' \<and>
        shows_view env n st' v' \<and> bes_running st'"
  using assms(2-4)
proof (induction evs arbitrary: st v)
  case Nil
  then show ?case by (auto simp: encode_events_def)
next
  case (Cons ev evs)
  obtain st1 where st1: "read_event env (delimited (env_enc env) ev @ encode_events env evs) st =
      (Inl (redacted env ev, encode_events env evs), st1)"
    "shows_view env n st1 (v\<lparr>vw_file := vw_file v @ [ev]\<rparr>)"
    using read_event_view [OF assms(1) _ Cons.prems(2), of ev "encode_events env evs"] Cons.prems(1)
    by auto
  have "bes_running st1"
    using read_event_fields [OF st1(1)] Cons.prems(3) by (simp add: bes_running_def)
  note after = after_event_view [OF assms(1) st1(2) this]
  have loop: "bes_loop env (encode_events env (ev # evs)) gaps st =
      (case after_event env (redacted env ev) st1 of
         Inl (e, st2) \<Rightarrow> (Some e, st2) | Inr st2 \<Rightarrow> bes_loop env (encode_events env evs) gaps st2)"
    using bes_loop_event [OF st1(1)] by (simp add: encode_events_def)
  show ?case
  proof (cases "after_event env (redacted env ev) st1")
    case (Inl r)
    then show ?thesis using after loop by (cases r) (auto simp: Let_def)
  next
    case (Inr st2)
    then have on: "view_events (ev # evs) v = view_events evs (view_event ev v)"
      "bes_loop env (encode_events env (ev # evs)) gaps st = bes_loop env (encode_events env evs) gaps st2"
      "shows_view env n st2 (view_event ev v)" "bes_running st2"
      using after loop by (auto simp: Let_def)
    show ?thesis unfolding on(1,2) using Cons.IH [OF _ on(3,4)] Cons.prems(1) by simp
  qed
qed

lemma bes_loop_gaps:
  assumes "disk_ok env" and "\<forall>g \<in> set gaps. \<forall>ev \<in> set (gap_events g). codec_ok env ev"
    and "shows_view env n st v" and "bes_running st"
  shows "\<exists>st'. bes_loop env [] (map (encode_gap env) gaps) st =
      (if fst (view_gaps gaps (False, v)) then Some StreamDone else None, st') \<and>
    shows_view env n st' (snd (view_gaps gaps (False, v))) \<and>
    (fst (view_gaps gaps (False, v)) \<longrightarrow> (\<forall>w \<in> set (bs_out st'). bw_buf w = []))"
  using assms(2-4)
proof (induction gaps arbitrary: st v)
  have broken: "read_event env [] st = (Inr (StreamFailed (StreamIo BrokenPipe), []), st)" for st
    by (simp add: read_event_def read_message_Nil)
  have retry: "bs_retry st = vw_retry v" if "shows_view env n st v" for st v
    using that by (simp add: shows_view_def)
  {
    case Nil
    then show ?case
      using bes_loop_broken [OF broken] retry [OF Nil(2)] finish_stream_view [OF assms(1) Nil(2,3)] by auto
  next
    case (Cons g gaps)
    note fin = finish_stream_view [OF assms(1) Cons.prems(2,3)]
    show ?case
    proof (cases "vw_retry v")
      case False
      then show ?thesis using bes_loop_broken [OF broken] retry [OF Cons.prems(2)] fin by auto
    next
      case True
      show ?thesis
      proof (cases g)
        case Gone
        then show ?thesis
          using bes_loop_broken [OF broken] retry [OF Cons.prems(2)] fin True by auto
      next
        case Quiet
        then show ?thesis
          using bes_loop_broken [OF broken] retry [OF Cons.prems(2)] True Cons.IH [of st v] Cons.prems
          by simp
      next
        case (Attempt evs)
        have "\<forall>ev \<in> set evs. codec_ok env ev" using Cons.prems(1) Attempt by simp
        note evs = bes_loop_events [OF assms(1) this Cons.prems(2,3),
            where gaps = "map (encode_gap env) gaps"]
        have loop: "bes_loop env [] (map (encode_gap env) (g # gaps)) st =
            bes_loop env (encode_events env evs) (map (encode_gap env) gaps) st"
          using bes_loop_broken [OF broken] retry [OF Cons.prems(2)] True Attempt by simp
        obtain ended v' where v': "view_events evs v = (ended, v')" by fastforce
        show ?thesis
        proof (cases ended)
          case True
          then show ?thesis using evs loop v' Attempt \<open>vw_retry v\<close> by auto
        next
          case False
          then obtain st' where "bes_loop env [] (map (encode_gap env) (g # gaps)) st =
              bes_loop env [] (map (encode_gap env) gaps) st'"
            and "shows_view env n st' v'" and "bes_running st'"
            using evs loop v' by auto
          then show ?thesis using Cons.IH [of st' v'] Cons.prems(1) v' False Attempt \<open>vw_retry v\<close> by simp
        qed
      qed
    qed
  }
qed


section \<open>At concrete inputs\<close>

definition sample_event :: "(nat, nat other_payload) payload option \<Rightarrow> bool \<Rightarrow> nat build_event" where
  "sample_event p l = \<lparr>be_payload = p, be_last = l, be_rest = 0\<rparr>"

definition sample_started :: "nat build_event" where
  "sample_started = sample_event (Some (Started 0 ''--bes_header=a=b'')) False"

definition sample_evicted :: "nat build_event" where
  "sample_evicted = sample_event (Some (OtherPayload (Finished (Some 39) 0))) False"

definition sample_metrics :: "bool \<Rightarrow> nat build_event" where
  "sample_metrics l = sample_event (Some (OtherPayload (BuildMetrics 0))) l"

definition sample_bes_env :: "nat bes_env" where
  "sample_bes_env = \<lparr>
     env_dec = (\<lambda>bs. if bs = [1] then Some sample_started else if bs = [2] then Some sample_evicted
       else if bs = [3] then Some (sample_metrics False) else Some (sample_metrics True)),
     env_enc = (\<lambda>ev. if ev = sample_started then [1] else if ev = sample_evicted then [2]
       else if ev = sample_metrics False then [3] else if ev = sample_metrics True then [4] else [5]),
     env_lower = (\<lambda>s. s), env_json = no_json, env_create = (\<lambda>_. None),
     env_write_ok = (\<lambda>_ _ _. True), env_write_error = (OtherKind, []), env_show = (\<lambda>_. [])\<rparr>"

lemmas sample_defs = sample_event_def sample_started_def sample_evicted_def sample_metrics_def

lemma sample_env_ok:
  "disk_ok sample_bes_env" "codec_ok sample_bes_env sample_started"
  "codec_ok sample_bes_env sample_evicted" "codec_ok sample_bes_env (sample_metrics l)"
  by (cases l; simp add: disk_ok_def codec_ok_def sample_bes_env_def sample_defs ISIZE_MAX_def)+

lemma sample_redacted:
  "redacted sample_bes_env sample_started = sample_event (Some (Started 0 [])) False"
  "redacted sample_bes_env sample_evicted = sample_evicted"
  "redacted sample_bes_env (sample_metrics l) = sample_metrics l"
  by (simp_all add: redacted_def redact_event_def sample_defs)

lemma sample_flow:
  "announces_retry sample_evicted" "\<not> announces_retry sample_started"
  "\<not> announces_retry (sample_metrics l)" "\<not> is_started sample_evicted" "is_started sample_started"
  "\<not> is_started (sample_metrics l)" "\<not> be_last sample_started" "\<not> be_last sample_evicted"
  "be_last (sample_metrics l) = l"
  by (simp_all add: announces_retry_def is_started_def sample_defs)


text \<open>When no retry follows the announcement, the file sinks report success with an empty file.\<close>

lemma evicted_build_leaves_empty_file:
  "view_gaps [Gone] (view_events [sample_started, sample_evicted] \<lparr>vw_sent = [], vw_file = [], vw_retry = False\<rparr>) =
     (True, \<lparr>vw_sent = [sample_started, sample_evicted], vw_file = [], vw_retry = True\<rparr>)"
  by (simp add: view_event_def sample_flow)

text \<open>What the first attempt sends after its announcement stays in front of the retry.\<close>

lemma retry_file_starts_with_old_events:
  "view_gaps [Attempt [sample_started, sample_metrics True]]
     (view_events [sample_evicted, sample_metrics False] \<lparr>vw_sent = [], vw_file = [], vw_retry = False\<rparr>) =
   (True, \<lparr>vw_sent = [sample_evicted, sample_metrics False, sample_started, sample_metrics True],
     vw_file = [sample_metrics False, sample_started, sample_metrics True], vw_retry = False\<rparr>)"
  by (simp add: view_event_def sample_flow)

text \<open>The two early returns of the thread tell not everybody: a file that cannot be created leaves the
  broadcaster open, a pipe that cannot be opened leaves the file sinks without a result, too.\<close>

lemma early_returns_strand_readers:
  "env_create env 0 = Some e \<Longrightarrow> \<not> bs_closed (snd (bes_thread env (Suc n) piped bs gaps))"
  "env_create env 0 = None \<Longrightarrow> \<not> bs_closed (snd (bes_thread env n False bs gaps)) \<and>
     bs_signal (snd (bes_thread env n False bs gaps)) = None"
  by (simp_all add: bes_thread_def open_file_sinks_def bes_start_def)


end
