(* ===== verification/Names.thy ===== *)
theory Names
  imports Glob
begin

text \<open>
  Names of tasks, features, traits, arguments and commands
  (crates/axl-runtime/src/engine/names.rs). Unicode case mapping is the argument \<open>lc\<close>
  (\<open>str::to_lowercase\<close>) or \<open>uc\<close> (\<open>char::to_uppercase\<close>); error texts are the constructors of
  \<open>name_error\<close>, one per message of the code.
\<close>

section \<open>Conversions\<close>

definition camel_split :: "char option \<Rightarrow> char \<Rightarrow> string \<Rightarrow> bool" where
  "camel_split prev c cs \<longleftrightarrow> is_upper c \<and>
     (case prev of
        None \<Rightarrow> False
      | Some p \<Rightarrow> is_lower p \<or> is_digit p \<or>
          (is_upper p \<and> (case cs of [] \<Rightarrow> False | n # _ \<Rightarrow> is_lower n)))"

fun camel_loop ::
  "(string \<Rightarrow> string) \<Rightarrow> char option \<Rightarrow> string \<Rightarrow> string \<Rightarrow> string list \<Rightarrow> string list" where
  "camel_loop lc prev [] current ws = (if current \<noteq> [] then ws @ [lc current] else ws)"
| "camel_loop lc prev (c # cs) current ws =
     (if camel_split prev c cs \<and> current \<noteq> []
      then camel_loop lc (Some c) cs [c] (ws @ [lc current])
      else camel_loop lc (Some c) cs (current @ [c]) ws)"

definition camel_to_kebab_words :: "(string \<Rightarrow> string) \<Rightarrow> string \<Rightarrow> string list" where
  "camel_to_kebab_words lc s = (if s = [] then [] else camel_loop lc None s [] [])"

definition to_command_name :: "(string \<Rightarrow> string) \<Rightarrow> string \<Rightarrow> string" where
  "to_command_name lc var_name =
     join ''-'' (filter (\<lambda>w. w \<noteq> [])
       (concat (map (camel_to_kebab_words lc) (split_on CHR ''_'' var_name))))"

definition capitalize :: "(rchar \<Rightarrow> string) \<Rightarrow> string \<Rightarrow> string" where
  "capitalize uc seg =
     (case utf8_chars seg of [] \<Rightarrow> [] | first # rest \<Rightarrow> uc first @ concat rest)"

fun split_pred :: "(char \<Rightarrow> bool) \<Rightarrow> string \<Rightarrow> string list" where
  "split_pred P [] = [[]]"
| "split_pred P (x # xs) =
     (if P x then [] # split_pred P xs
      else (case split_pred P xs of [] \<Rightarrow> [[x]] | w # ws \<Rightarrow> (x # w) # ws))"

definition to_display_name :: "(rchar \<Rightarrow> string) \<Rightarrow> string \<Rightarrow> string" where
  "to_display_name uc name =
     join '' '' (map (capitalize uc)
       (filter (\<lambda>seg. seg \<noteq> []) (split_pred (\<lambda>c. c = CHR ''_'' \<or> c = CHR ''-'') name)))"

definition camel_to_display_name ::
  "(string \<Rightarrow> string) \<Rightarrow> (rchar \<Rightarrow> string) \<Rightarrow> string \<Rightarrow> string" where
  "camel_to_display_name lc uc camel =
     join '' '' (map (capitalize uc) (camel_to_kebab_words lc camel))"

section \<open>Validation\<close>

datatype name_error =
    EmptyName
  | OnlyUnderscore
  | BadStart
  | BadChar rchar
  | EndsWithDash
  | ConsecutiveDashes

fun check_chars :: "(rchar \<Rightarrow> bool) \<Rightarrow> rchar list \<Rightarrow> name_error + unit" where
  "check_chars ok [] = Inr ()"
| "check_chars ok (c # cs) = (if \<not> ok c then Inl (BadChar c) else check_chars ok cs)"

definition ascii_char :: "(char \<Rightarrow> bool) \<Rightarrow> rchar \<Rightarrow> bool" where
  "ascii_char P c \<longleftrightarrow> (case c of [b] \<Rightarrow> P b | _ \<Rightarrow> False)"

definition validate_type_name :: "string \<Rightarrow> name_error + unit" where
  "validate_type_name name =
     (case utf8_chars name of
        [] \<Rightarrow> Inl EmptyName
      | c # cs \<Rightarrow>
          if \<not> ascii_char is_upper c then Inl BadStart else check_chars (ascii_char is_alnum) cs)"

definition validate_trait_name :: "string \<Rightarrow> name_error + unit" where
  "validate_trait_name name =
     (let after_underscore = (case strip_prefix ''_'' name of Some r \<Rightarrow> r | None \<Rightarrow> name)
      in if after_underscore = [] then Inl OnlyUnderscore
         else (case utf8_chars after_underscore of
             [] \<Rightarrow> Inl EmptyName
           | c # cs \<Rightarrow>
               if \<not> ascii_char is_upper c then Inl BadStart
               else check_chars (ascii_char is_alnum) cs))"

definition validate_arg_name :: "string \<Rightarrow> name_error + unit" where
  "validate_arg_name name =
     (case utf8_chars name of
        [] \<Rightarrow> Inl EmptyName
      | c # cs \<Rightarrow>
          if \<not> ascii_char is_lower c then Inl BadStart
          else check_chars (ascii_char (\<lambda>b. is_lower b \<or> is_digit b \<or> b = CHR ''_'')) cs)"

definition validate_command_name :: "string \<Rightarrow> name_error + unit" where
  "validate_command_name name =
     (case utf8_chars name of
        [] \<Rightarrow> Inl EmptyName
      | c # cs \<Rightarrow>
          if \<not> ascii_char is_lower c then Inl BadStart
          else (case check_chars (ascii_char (\<lambda>b. is_lower b \<or> is_digit b \<or> b = CHR ''-'')) cs of
              Inl e \<Rightarrow> Inl e
            | Inr _ \<Rightarrow>
                if ends_with ''-'' name then Inl EndsWithDash
                else if contains_sub ''--'' name then Inl ConsecutiveDashes
                else Inr ()))"

section \<open>ASCII names\<close>

lemma ascii_not_cont:
  "is_alnum b \<Longrightarrow> \<not> utf8_cont b" "\<not> utf8_cont CHR ''_''" "\<not> utf8_cont CHR ''-''"
  by (auto simp: is_alnum_def is_upper_nat is_lower_nat is_digit_nat utf8_cont_def char_le_nat)

lemma concat_utf8_chars: "concat (utf8_chars s) = s"
  by (induction s rule: utf8_chars.induct) (simp_all add: takeWhile_dropWhile_id)

lemma check_chars_Inr: "check_chars ok cs = Inr () \<longleftrightarrow> list_all ok cs"
  by (induction cs) auto

lemma utf8_chars_all:
  "list_all (ascii_char P) (utf8_chars s) \<Longrightarrow>
   utf8_chars s = map (\<lambda>b. [b]) s \<and> list_all P s"
proof -
  assume all: "list_all (ascii_char P) (utf8_chars s)"
  then have "list_all (\<lambda>c. \<exists>b. c = [b] \<and> P b) (utf8_chars s)"
    by (rule list.pred_mono_strong) (auto simp: ascii_char_def split: list.splits)
  then have single: "\<And>c. c \<in> set (utf8_chars s) \<Longrightarrow> \<exists>b. c = [b] \<and> P b" by (simp add: list_all_iff)
  define bs where "bs = map hd (utf8_chars s)"
  have split: "map (\<lambda>b. [b]) bs = utf8_chars s"
    unfolding bs_def map_map
  proof (rule map_idI)
    fix c assume "c \<in> set (utf8_chars s)"
    then obtain b where "c = [b]" using single by blast
    then show "((\<lambda>b. [b]) \<circ> hd) c = c" by simp
  qed
  have all_P: "P b" if "b \<in> set bs" for b
  proof -
    from that obtain c where c: "c \<in> set (utf8_chars s)" "b = hd c" by (auto simp: bs_def)
    with single obtain b' where "c = [b']" "P b'" by blast
    with c(2) show ?thesis by simp
  qed
  have "concat (map (\<lambda>b. [b]) bs) = bs" by simp
  then have "s = bs" unfolding split concat_utf8_chars .
  with split all_P show ?thesis by (simp add: list_all_iff)
qed

lemma ascii_char_mono: "ascii_char P c \<Longrightarrow> (\<And>b. P b \<Longrightarrow> Q b) \<Longrightarrow> ascii_char Q c"
  by (auto simp: ascii_char_def split: list.splits)

lemma utf8_chars_Cons_all:
  assumes "utf8_chars s = c # cs" and "ascii_char P c" and "list_all (ascii_char Q) cs"
    and "\<And>b. P b \<Longrightarrow> R b" and "\<And>b. Q b \<Longrightarrow> R b"
  shows "s \<noteq> [] \<and> P (hd s) \<and> list_all R s"
proof -
  have "ascii_char R c" using assms(2,4) by (rule ascii_char_mono)
  moreover have "list_all (ascii_char R) cs"
    using assms(3) by (rule list.pred_mono_strong) (blast intro: ascii_char_mono assms(5))
  ultimately have "list_all (ascii_char R) (utf8_chars s)" by (simp add: assms(1))
  from utf8_chars_all [OF this] assms(1) have s: "map (\<lambda>b. [b]) s = c # cs" "list_all R s" by auto
  then obtain b bs where "s = b # bs" "c = [b]" by (cases s) auto
  with s(2) assms(2) show ?thesis by (simp add: ascii_char_def)
qed

definition ident_tail :: "char \<Rightarrow> char \<Rightarrow> bool" where
  "ident_tail sep b \<longleftrightarrow> is_alnum b \<or> b = sep"

definition command_char :: "char \<Rightarrow> bool" where
  "command_char b \<longleftrightarrow> is_lower b \<or> is_digit b \<or> b = CHR ''-''"

lemma command_char_ascii: "command_char b \<Longrightarrow> \<not> utf8_cont b"
  using ascii_not_cont by (auto simp: command_char_def is_alnum_def)

lemma validate_command_name_Inr:
  "validate_command_name s = Inr () \<longleftrightarrow>
   s \<noteq> [] \<and> is_lower (hd s) \<and> list_all command_char (tl s) \<and> \<not> ends_with ''-'' s \<and>
   \<not> contains_sub ''--'' s" (is "?L \<longleftrightarrow> ?R")
proof
  assume ?R
  then obtain b bs where s: "s = b # bs" "is_lower b" "list_all command_char bs"
    by (cases s) auto
  then have "\<And>x. x \<in> set s \<Longrightarrow> \<not> utf8_cont x"
    using ascii_not_cont(1) command_char_ascii by (auto simp: list_all_iff is_alnum_def)
  then have chars: "utf8_chars s = map (\<lambda>b. [b]) s" by (rule utf8_chars_ascii)
  have "list_all (ascii_char (\<lambda>b. is_lower b \<or> is_digit b \<or> b = CHR ''-'')) (map (\<lambda>b. [b]) bs)"
    using s(3) by (auto simp: list_all_iff ascii_char_def command_char_def)
  then have "check_chars (ascii_char (\<lambda>b. is_lower b \<or> is_digit b \<or> b = CHR ''-''))
      (map (\<lambda>b. [b]) bs) = Inr ()" by (simp only: check_chars_Inr)
  with \<open>?R\<close> s(1,2) chars show ?L by (simp add: validate_command_name_def ascii_char_def)
next
  assume ?L
  then obtain c cs where c: "utf8_chars s = c # cs" "ascii_char is_lower c"
    "check_chars (ascii_char (\<lambda>b. is_lower b \<or> is_digit b \<or> b = CHR ''-'')) cs = Inr ()"
    "\<not> ends_with ''-'' s" "\<not> contains_sub ''--'' s"
    by (auto simp: validate_command_name_def split: list.splits if_splits sum.splits)
  from c(2) obtain b where b: "c = [b]" "is_lower b" by (auto simp: ascii_char_def split: list.splits)
  have "list_all (ascii_char command_char) (utf8_chars s)"
    using c b by (simp add: check_chars_Inr command_char_def [abs_def] ascii_char_def)
  with utf8_chars_all c(1) b(1) have "map (\<lambda>b. [b]) s = [b] # cs" "list_all command_char s"
    by fastforce+
  with b(2) c(4,5) show ?R by (cases s) auto
qed

lemma validate_arg_name_InrD:
  assumes "validate_arg_name s = Inr ()"
  shows "s \<noteq> [] \<and> is_lower (hd s) \<and> list_all (ident_tail CHR ''_'') s"
proof -
  from assms obtain c cs where c: "utf8_chars s = c # cs" "ascii_char is_lower c"
    "list_all (ascii_char (\<lambda>b. is_lower b \<or> is_digit b \<or> b = CHR ''_'')) cs"
    by (auto simp: validate_arg_name_def check_chars_Inr split: list.splits if_splits)
  then show ?thesis
    by (rule utf8_chars_Cons_all) (auto simp: ident_tail_def is_alnum_def)
qed

lemma validate_type_name_InrD:
  assumes "validate_type_name s = Inr ()"
  shows "s \<noteq> [] \<and> is_upper (hd s) \<and> list_all (ident_tail CHR ''_'') s"
proof -
  from assms obtain c cs where c: "utf8_chars s = c # cs" "ascii_char is_upper c"
    "list_all (ascii_char is_alnum) cs"
    by (auto simp: validate_type_name_def check_chars_Inr split: list.splits if_splits)
  then show ?thesis
    by (rule utf8_chars_Cons_all) (auto simp: ident_tail_def is_alnum_def)
qed

section \<open>The words of a name\<close>

text \<open>\<open>str::to_lowercase\<close> on ASCII letters and digits.\<close>

definition ascii_lowers :: "(string \<Rightarrow> string) \<Rightarrow> bool" where
  "ascii_lowers lc \<longleftrightarrow> (\<forall>s. list_all (ident_tail CHR ''-'') s \<longrightarrow> lc s = map to_lower s)"

lemma camel_loop_parts:
  "\<exists>parts. camel_loop lc prev cs current ws = ws @ map lc parts \<and> concat parts = current @ cs \<and>
     [] \<notin> set parts"
proof (induction lc prev cs current ws rule: camel_loop.induct)
  case (1 lc prev current ws)
  show ?case by (rule exI [of _ "if current = [] then [] else [current]"]) simp
next
  case (2 lc prev c cs current ws)
  show ?case
  proof (cases "camel_split prev c cs \<and> current \<noteq> []")
    case True
    from "2.IH"(1) [OF this] obtain parts where
      "camel_loop lc (Some c) cs [c] (ws @ [lc current]) = (ws @ [lc current]) @ map lc parts"
      "concat parts = [c] @ cs" "[] \<notin> set parts" by blast
    with True show ?thesis by (intro exI [of _ "current # parts"]) auto
  next
    case False
    from "2.IH"(2) [OF this] obtain parts where
      "camel_loop lc (Some c) cs (current @ [c]) ws = ws @ map lc parts"
      "concat parts = (current @ [c]) @ cs" "[] \<notin> set parts" by blast
    with False show ?thesis by (intro exI [of _ parts]) (simp only: camel_loop.simps if_False, simp)
  qed
qed

lemma camel_loop_no_upper:
  "list_all (\<lambda>b. \<not> is_upper b) cs \<Longrightarrow>
   camel_loop lc prev cs current ws = (if current @ cs \<noteq> [] then ws @ [lc (current @ cs)] else ws)"
  by (induction cs arbitrary: prev current) (auto simp: camel_split_def)

lemma concat_split_on: "concat (split_on c s) = filter (\<lambda>x. x \<noteq> c) s"
  by (induction s) (auto split: list.splits)

lemma ident_ascii_lowers:
  "ascii_lowers lc \<Longrightarrow> set p \<subseteq> {b. is_alnum b} \<Longrightarrow> lc p = map to_lower p"
  by (auto simp: ascii_lowers_def list_all_iff ident_tail_def)

lemma to_lower_alnum: "is_alnum b \<Longrightarrow> is_lower (to_lower b) \<or> is_digit (to_lower b)"
  using is_lower_to_lower [of b] to_lower_id [of b]
  by (cases "is_upper b") (auto simp: is_alnum_def)

lemma camel_words:
  assumes "ascii_lowers lc" and "set seg \<subseteq> {b. is_alnum b}"
  shows "concat (camel_to_kebab_words lc seg) = map to_lower seg"
    and "[] \<notin> set (camel_to_kebab_words lc seg)"
proof -
  obtain parts where parts: "camel_to_kebab_words lc seg = map lc parts" "concat parts = seg"
    "[] \<notin> set parts"
    using camel_loop_parts [of lc None seg "[]" "[]"]
    by (cases "seg = []") (auto simp: camel_to_kebab_words_def)
  have low: "lc p = map to_lower p" if "p \<in> set parts" for p
  proof (rule ident_ascii_lowers [OF assms(1)])
    have "set p \<subseteq> set seg" using that parts(2) by auto
    with assms(2) show "set p \<subseteq> {b. is_alnum b}" by (rule subset_trans [rotated])
  qed
  then have "camel_to_kebab_words lc seg = map (map to_lower) parts" by (simp add: parts(1))
  then show "concat (camel_to_kebab_words lc seg) = map to_lower seg"
    using parts(2) by (metis map_concat)
  show "[] \<notin> set (camel_to_kebab_words lc seg)" using parts low by auto
qed

definition name_words :: "(string \<Rightarrow> string) \<Rightarrow> string \<Rightarrow> string list" where
  "name_words lc s =
     filter (\<lambda>w. w \<noteq> []) (concat (map (camel_to_kebab_words lc) (split_on CHR ''_'' s)))"

lemma concat_concat_map: "concat (concat (map f xs)) = concat (map (\<lambda>x. concat (f x)) xs)"
  by (induction xs) auto

lemma concat_filter_nonempty: "concat (filter (\<lambda>w. w \<noteq> []) ws) = concat ws"
  by (induction ws) auto

lemma concat_name_words:
  assumes "ascii_lowers lc" and "list_all (ident_tail CHR ''_'') s"
  shows "concat (name_words lc s) = map to_lower (filter (\<lambda>b. b \<noteq> CHR ''_'') s)"
proof -
  have alnum: "set seg \<subseteq> {b. is_alnum b}" if "seg \<in> set (split_on CHR ''_'' s)" for seg
    using that assms(2) split_on_no_sep [OF that] set_split_on [OF that]
    by (fastforce simp: list_all_iff ident_tail_def)
  have "concat (name_words lc s) = concat (map (\<lambda>seg. concat (camel_to_kebab_words lc seg)) (split_on CHR ''_'' s))"
    by (simp only: name_words_def concat_filter_nonempty concat_concat_map)
  also have "\<dots> = concat (map (map to_lower) (split_on CHR ''_'' s))"
    by (intro arg_cong [where f = concat] map_cong refl camel_words(1) [OF assms(1) alnum])
  also have "\<dots> = map to_lower (concat (split_on CHR ''_'' s))" by (simp add: map_concat)
  finally show ?thesis by (simp add: concat_split_on)
qed

section \<open>Joining words with dashes\<close>

definition no_double_dash :: "string \<Rightarrow> bool" where
  "no_double_dash s \<longleftrightarrow> successively (\<lambda>x y. \<not> (x = CHR ''-'' \<and> y = CHR ''-'')) s"

lemma contains_double_dash: "contains_sub ''--'' s \<Longrightarrow> \<not> no_double_dash s"
proof -
  assume "contains_sub ''--'' s"
  then obtain a b where "s = a @ ''--'' @ b"
    by (auto simp: contains_sub_def find_sub_None_iff dest: find_sub_SomeD)
  then show ?thesis by (simp add: no_double_dash_def successively_append_iff)
qed

lemma no_dash_no_double: "CHR ''-'' \<notin> set w \<Longrightarrow> no_double_dash w"
  unfolding no_double_dash_def by (induction w rule: induct_list012) auto

lemma join_words:
  "ws \<noteq> [] \<Longrightarrow> (\<And>w. w \<in> set ws \<Longrightarrow> w \<noteq> [] \<and> CHR ''-'' \<notin> set w) \<Longrightarrow>
   no_double_dash (join ''-'' ws) \<and> join ''-'' ws \<noteq> [] \<and> hd (join ''-'' ws) = hd (hd ws) \<and>
   last (join ''-'' ws) \<noteq> CHR ''-''"
proof (induction "''-''" ws rule: join.induct)
  case (2 w)
  then have "w \<noteq> []" "CHR ''-'' \<notin> set w" by auto
  then show ?case using last_in_set [of w] by (auto simp: no_dash_no_double simp del: last_in_set)
next
  case (3 w v ws)
  then have IH: "no_double_dash (join ''-'' (v # ws))" "join ''-'' (v # ws) \<noteq> []"
    "hd (join ''-'' (v # ws)) = hd v" "last (join ''-'' (v # ws)) \<noteq> CHR ''-''" by simp_all
  have w: "w \<noteq> []" "CHR ''-'' \<notin> set w" and v: "hd v \<noteq> CHR ''-''"
    using "3.prems"(2) [of w] "3.prems"(2) [of v] by (auto dest: hd_in_set)
  then have "last w \<noteq> CHR ''-''" using last_in_set by metis
  with w v IH show ?case
    using no_dash_no_double [OF w(2)]
    by (simp add: no_double_dash_def successively_append_iff successively_Cons)
qed simp

lemma set_join: "set (join ''-'' ws) \<subseteq> insert CHR ''-'' (\<Union> (set ` set ws))"
  by (induction "''-''" ws rule: join.induct) auto

lemma ident_to_command_valid:
  assumes lc: "ascii_lowers lc" and s: "s \<noteq> []" "is_lower (hd s) \<or> is_upper (hd s)"
    and ident: "list_all (ident_tail CHR ''_'') s"
  shows "validate_command_name (to_command_name lc s) = Inr ()"
proof -
  let ?ws = "name_words lc s"
  have cat: "concat ?ws = map to_lower (filter (\<lambda>b. b \<noteq> CHR ''_'') s)"
    by (rule concat_name_words [OF lc ident])
  have head: "hd s \<noteq> CHR ''_''" using s(2) by (auto simp: is_lower_nat is_upper_nat)
  with s(1) obtain rest where rest: "concat ?ws = to_lower (hd s) # rest"
    unfolding cat by (cases s) auto
  then have ne: "?ws \<noteq> []" by auto
  have chars: "is_lower b \<or> is_digit b" if "w \<in> set ?ws" "b \<in> set w" for w b
  proof -
    from that have "b \<in> set (concat ?ws)" by auto
    then obtain a where "a \<in> set s" "a \<noteq> CHR ''_''" "b = to_lower a" by (auto simp: cat)
    with ident have "is_alnum a" by (auto simp: list_all_iff ident_tail_def)
    with \<open>b = to_lower a\<close> to_lower_alnum show ?thesis by blast
  qed
  have dash: "\<not> is_lower CHR ''-''" "\<not> is_digit CHR ''-''" by (simp_all add: is_lower_nat is_digit_nat)
  have words: "w \<noteq> [] \<and> CHR ''-'' \<notin> set w" if "w \<in> set ?ws" for w
    using that chars dash by (auto simp: name_words_def)
  note joined = join_words [OF ne words]
  have cmd: "to_command_name lc s = join ''-'' ?ws" by (simp add: to_command_name_def name_words_def)
  have "hd (hd ?ws) = to_lower (hd s)"
    using rest ne words by (cases ?ws; cases "hd ?ws") auto
  then have hd_low: "is_lower (hd (join ''-'' ?ws))"
    using joined s(2) is_lower_to_lower to_lower_id
    by (metis is_lower_nat is_upper_nat linorder_not_le numeral_le_iff order_trans
        semiring_norm(69) semiring_norm(71))
  have "command_char b" if "b \<in> set (join ''-'' ?ws)" for b
    using that set_join [of ?ws] chars by (auto simp: command_char_def)
  then have "list_all command_char (tl (join ''-'' ?ws))"
    unfolding list_all_iff using list.set_sel(2) joined by metis
  moreover have "\<not> ends_with ''-'' (join ''-'' ?ws)" using joined by (auto simp: ends_with_iff)
  moreover have "\<not> contains_sub ''--'' (join ''-'' ?ws)" using joined contains_double_dash by blast
  ultimately show ?thesis using joined hd_low by (simp add: validate_command_name_Inr cmd)
qed

section \<open>Properties\<close>

text \<open>Every argument or type name that the runtime accepts converts to a command name that it
  accepts too: \<open>to_command_name\<close> of a valid \<open>snake_case\<close> or \<open>CamelCase\<close> name starts with a
  lower-case letter, has only lower-case letters, digits and dashes, no trailing dash and no
  two dashes in a row, however underscores, digits and runs of capitals are mixed.\<close>

theorem command_name_of_valid_name:
  assumes "ascii_lowers lc"
    and "validate_arg_name name = Inr () \<or> validate_type_name name = Inr ()"
  shows "validate_command_name (to_command_name lc name) = Inr ()"
  using assms(2) validate_arg_name_InrD [of name] validate_type_name_InrD [of name]
  by (intro ident_to_command_valid [OF assms(1)]) auto

theorem command_name_of_valid_name_witness:
  "validate_command_name (to_command_name (map to_lower) ''S3Upload'') = Inr () \<and>
   to_command_name (map to_lower) ''S3Upload'' = ''s3-upload''"
proof
  have "ascii_lowers (map to_lower)" by (simp add: ascii_lowers_def)
  moreover have "validate_type_name ''S3Upload'' = Inr ()" by code_simp
  ultimately show "validate_command_name (to_command_name (map to_lower) ''S3Upload'') = Inr ()"
    by (intro command_name_of_valid_name) simp_all
  show "to_command_name (map to_lower) ''S3Upload'' = ''s3-upload''" by code_simp
qed

text \<open>Command names are fixed points: converting a valid command name again changes nothing,
  so conversion is stable however often a name passes through it.\<close>

theorem to_command_name_fixed_point:
  assumes "ascii_lowers lc" and "validate_command_name name = Inr ()"
  shows "to_command_name lc name = name"
proof -
  from assms(2) have name: "name \<noteq> []" "is_lower (hd name)" "list_all command_char (tl name)"
    by (simp_all add: validate_command_name_Inr)
  then have all: "list_all command_char name" by (cases name) (auto simp: command_char_def)
  have no_us: "CHR ''_'' \<notin> set name" and no_up: "list_all (\<lambda>b. \<not> is_upper b) name"
    using all by (auto simp: list_all_iff command_char_def is_lower_nat is_digit_nat is_upper_nat)
  have "lc name = map to_lower name"
    using assms(1) all by (auto simp: ascii_lowers_def list_all_iff ident_tail_def command_char_def
        is_alnum_def)
  also have "\<dots> = name"
    using no_up by (intro map_idI) (simp add: list_all_iff to_lower_id)
  finally have "camel_to_kebab_words lc name = [name]"
    using name(1) camel_loop_no_upper [OF no_up] by (simp add: camel_to_kebab_words_def)
  then show ?thesis using name(1) by (simp add: to_command_name_def split_on_clean [OF no_us])
qed

theorem to_command_name_fixed_point_witness:
  "to_command_name (map to_lower) ''ci-build2'' = ''ci-build2''"
proof (rule to_command_name_fixed_point)
  show "ascii_lowers (map to_lower)" by (simp add: ascii_lowers_def)
  show "validate_command_name ''ci-build2'' = Inr ()" by code_simp
qed

end
