(* ===== verification/Rust_Path.thy ===== *)
theory Rust_Path
  imports Cli_Prelude
begin

text \<open>
  \<open>std::path::Path\<close> on a Unix host, as far as the crates use it: component-wise equality,
  \<open>join\<close>, \<open>strip_prefix\<close>. A path is the string it was made from; two paths are equal when
  their components are, so repeated and trailing separators and inner \<open>.\<close> do not count.
\<close>

datatype path_component = RootDir | CurDir | ParentDir | NormalComp string

definition name_component :: "string \<Rightarrow> path_component" where
  "name_component w = (if w = ''..'' then ParentDir else NormalComp w)"

lemma name_component_simps [simp]:
  "name_component w \<noteq> RootDir" "name_component w \<noteq> CurDir"
  "RootDir \<noteq> name_component w" "CurDir \<noteq> name_component w"
  "name_component v = name_component w \<longleftrightarrow> v = w"
  by (simp_all add: name_component_def)

definition path_components :: "string \<Rightarrow> path_component list" where
  "path_components p =
     (let pieces = split_on (CHR ''/'') p;
          clean = (\<lambda>ps. map name_component (filter (\<lambda>w. w \<noteq> [] \<and> w \<noteq> ''.'') ps))
      in if starts_with ''/'' p then RootDir # clean pieces
         else if hd pieces = ''.'' then CurDir # clean (tl pieces)
         else clean pieces)"

definition path_eq :: "string \<Rightarrow> string \<Rightarrow> bool" where
  "path_eq p q \<longleftrightarrow> path_components p = path_components q"

definition path_join :: "string \<Rightarrow> string \<Rightarrow> string" where
  "path_join base rel =
     (if starts_with ''/'' rel then rel
      else if base = [] \<or> last base = CHR ''/'' then base @ rel
      else base @ ''/'' @ rel)"

fun strip_components ::
  "path_component list \<Rightarrow> path_component list \<Rightarrow> path_component list option" where
  "strip_components [] cs = Some cs"
| "strip_components (b # bs) [] = None"
| "strip_components (b # bs) (c # cs) = (if b = c then strip_components bs cs else None)"

text \<open>\<open>p.strip_prefix(base)\<close> is the rest of \<open>p\<close>'s text: separators and \<open>.\<close> at its ends are
  trimmed, inner ones stay. An empty \<open>base\<close> leaves the front alone.\<close>

definition blank_piece :: "string \<Rightarrow> bool" where
  "blank_piece w \<longleftrightarrow> w = [] \<or> w = ''.''"

fun skip_names :: "nat \<Rightarrow> string list \<Rightarrow> string list" where
  "skip_names 0 ps = ps"
| "skip_names (Suc n) [] = []"
| "skip_names (Suc n) (w # ps) = (if blank_piece w then skip_names (Suc n) ps else skip_names n ps)"

definition drop_trailing_blank :: "string list \<Rightarrow> string list" where
  "drop_trailing_blank ps = rev (dropWhile blank_piece (rev ps))"

definition path_strip_prefix :: "string \<Rightarrow> string \<Rightarrow> string option" where
  "path_strip_prefix base p =
     (let bs = path_components base;
          pieces = split_on (CHR ''/'') p
      in if strip_components bs (path_components p) = None then None
         else if bs = [] then
           Some (if list_all blank_piece pieces
                 then (if starts_with ''/'' p then ''/'' else if starts_with ''.'' p then ''.'' else [])
                 else join ''/'' (drop_trailing_blank pieces))
         else
           (let names = length (filter (\<lambda>c. c \<noteq> RootDir \<and> c \<noteq> CurDir) bs)
            in Some (join ''/''
                 (drop_trailing_blank (dropWhile blank_piece (skip_names names pieces))))))"

lemma strip_components_Some_iff: "strip_components bs cs = Some r \<longleftrightarrow> cs = bs @ r"
  by (induction bs cs rule: strip_components.induct) auto

lemma path_eq_refl [simp]: "path_eq p p"
  by (simp add: path_eq_def)

lemma path_eq_sym: "path_eq p q \<Longrightarrow> path_eq q p"
  by (simp add: path_eq_def)

lemma path_components_root: "starts_with ''/'' p \<longleftrightarrow> RootDir \<in> set (path_components p)"
  by (auto simp: path_components_def Let_def)

lemma path_eq_absolute: "path_eq p q \<Longrightarrow> starts_with ''/'' p = starts_with ''/'' q"
  by (simp add: path_eq_def path_components_root)

lemma path_join_absolute: "starts_with ''/'' rel \<Longrightarrow> path_join base rel = rel"
  by (simp add: path_join_def)

section \<open>Paths as components\<close>

text \<open>A \<open>PathBuf\<close> as the list of its components, which is what Rust's equality and hashing of
  paths look at; \<open>path_text\<close> writes it out again.\<close>

type_synonym path = "path_component list"

definition is_normal :: "path_component \<Rightarrow> bool" where
  "is_normal c \<longleftrightarrow> (case c of NormalComp _ \<Rightarrow> True | _ \<Rightarrow> False)"

definition path_pop :: "path \<Rightarrow> path" where
  "path_pop p = (if p = [] \<or> last p = RootDir then p else butlast p)"

definition path_parent :: "path \<Rightarrow> path option" where
  "path_parent p = (if p = [] \<or> last p = RootDir then None else Some (butlast p))"

definition path_push :: "path \<Rightarrow> path \<Rightarrow> path" where
  "path_push base rel =
     (case rel of
        RootDir # _ \<Rightarrow> rel
      | CurDir # cs \<Rightarrow> if base = [] then rel else base @ cs
      | _ \<Rightarrow> base @ rel)"

primrec component_text :: "path_component \<Rightarrow> string" where
  "component_text RootDir = []"
| "component_text CurDir = ''.''"
| "component_text ParentDir = ''..''"
| "component_text (NormalComp s) = s"

definition path_text :: "path \<Rightarrow> string" where
  "path_text p = (if p = [RootDir] then ''/'' else join ''/'' (map component_text p))"

end
