(* ===== verification/Cli_Args.thy ===== *)
theory Cli_Args
  imports Names Rust_Path "HOL-Library.AList" "HOL-Library.Word"
begin

text \<open>
  Arguments of tasks and features: their declaration (crates/axl-runtime/src/engine/arg.rs), the
  \<open>Arguments\<close> store (engine/arguments.rs), and the bridge to the command line
  (crates/aspect-cli/src/cmd.rs): the clap configuration of an argument, how command line,
  \<open>config.axl\<close> and declared defaults are merged, and what \<open>aspect describe\<close> says about an
  argument. Clap is what \<open>matches\<close> holds after parsing; a Starlark value that is none of the
  modelled kinds is a \<open>SOther\<close>, and rendering one as text is an argument.
\<close>

section \<open>Values\<close>

datatype 'v star =
    SNone
  | SBool bool
  | SInt int
  | SStr string
  | SList "'v star list"
  | SOther 'v

definition i32_range :: "int \<Rightarrow> bool" where
  "i32_range i \<longleftrightarrow> - (2 ^ 31) \<le> i \<and> i < 2 ^ 31"

definition u32_range :: "int \<Rightarrow> bool" where
  "u32_range i \<longleftrightarrow> 0 \<le> i \<and> i < 2 ^ 32"

text \<open>\<open>T::unpack_value\<close> of the four element types and of lists of them.\<close>

fun unpack_string :: "'v star \<Rightarrow> string option" where
  "unpack_string (SStr s) = Some s"
| "unpack_string _ = None"

fun unpack_bool :: "'v star \<Rightarrow> bool option" where
  "unpack_bool (SBool b) = Some b"
| "unpack_bool _ = None"

fun unpack_i32 :: "'v star \<Rightarrow> 32 word option" where
  "unpack_i32 (SInt i) = (if i32_range i then Some (word_of_int i) else None)"
| "unpack_i32 _ = None"

fun unpack_u32 :: "'v star \<Rightarrow> 32 word option" where
  "unpack_u32 (SInt i) = (if u32_range i then Some (word_of_int i) else None)"
| "unpack_u32 _ = None"

definition unpack_list :: "('v star \<Rightarrow> 'a option) \<Rightarrow> 'v star \<Rightarrow> 'a list option" where
  "unpack_list f v = (case v of SList xs \<Rightarrow> those (map f xs) | _ \<Rightarrow> None)"

section \<open>Declaring arguments\<close>

record flag_meta =
  fm_required :: bool
  fm_short :: "string option"
  fm_long :: "string option"
  fm_description :: "string option"

datatype 'v arg =
    StringArg flag_meta string "string list option" "string option"
  | BooleanArg flag_meta bool
  | IntArg flag_meta "32 word"
  | UIntArg flag_meta "32 word"
  | PositionalArg "32 word" "32 word" "string list option" "string option"
  | TrailingVarArgs "string option"
  | StringListArg flag_meta "string list"
  | BooleanListArg flag_meta "bool list"
  | IntListArg flag_meta "32 word list"
  | UIntListArg flag_meta "32 word list"
  | CustomArg "'v star option" "'v star option" "string option"

primrec arg_meta :: "'v arg \<Rightarrow> flag_meta option" where
  "arg_meta (StringArg fm _ _ _) = Some fm"
| "arg_meta (BooleanArg fm _) = Some fm"
| "arg_meta (IntArg fm _) = Some fm"
| "arg_meta (UIntArg fm _) = Some fm"
| "arg_meta (PositionalArg _ _ _ _) = None"
| "arg_meta (TrailingVarArgs _) = None"
| "arg_meta (StringListArg fm _) = Some fm"
| "arg_meta (BooleanListArg fm _) = Some fm"
| "arg_meta (IntListArg fm _) = Some fm"
| "arg_meta (UIntListArg fm _) = Some fm"
| "arg_meta (CustomArg _ _ _) = None"

definition is_required :: "'v arg \<Rightarrow> bool" where
  "is_required a = (case arg_meta a of Some fm \<Rightarrow> fm_required fm | None \<Rightarrow> False)"

definition is_cli_exposed :: "'v arg \<Rightarrow> bool" where
  "is_cli_exposed a \<longleftrightarrow> (case a of CustomArg _ _ _ \<Rightarrow> False | _ \<Rightarrow> True)"

definition long_override :: "'v arg \<Rightarrow> string option" where
  "long_override a = Option.bind (arg_meta a) fm_long"

datatype 'v arg_error =
    WrongType string string "'v star"
  | NotAllowed string string "string list"
  | BadTypeExpression
  | TypeMismatch string "'v star"
  | TrailingDefault string

definition typed ::
  "string \<Rightarrow> string \<Rightarrow> 'v star \<Rightarrow> 'a option \<Rightarrow> 'v arg_error + 'a" where
  "typed arg_name expected v r =
     (case r of Some x \<Rightarrow> Inr x | None \<Rightarrow> Inl (WrongType arg_name expected v))"

text \<open>\<open>type_check t v\<close> is \<open>TypeCompiled::new(t)\<close> with \<open>matches(v)\<close>, \<open>frozen v\<close> says whether
  \<open>unpack_frozen\<close> succeeds.\<close>

fun with_default ::
  "('v star \<Rightarrow> 'v star \<Rightarrow> bool option) \<Rightarrow> ('v star \<Rightarrow> bool) \<Rightarrow> string \<Rightarrow> 'v star \<Rightarrow> 'v arg \<Rightarrow>
   'v arg_error + 'v arg" where
  "with_default tc frozen n v (StringArg fm d vals bare) =
     (case typed n ''string'' v (unpack_string v) of
        Inl e \<Rightarrow> Inl e
      | Inr s \<Rightarrow>
          (case vals of
             Some allowed \<Rightarrow>
               if s \<notin> set allowed then Inl (NotAllowed n s allowed)
               else Inr (StringArg fm s vals bare)
           | None \<Rightarrow> Inr (StringArg fm s vals bare)))"
| "with_default tc frozen n v (BooleanArg fm d) =
     map_sum id (BooleanArg fm) (typed n ''boolean'' v (unpack_bool v))"
| "with_default tc frozen n v (IntArg fm d) =
     map_sum id (IntArg fm) (typed n ''int'' v (unpack_i32 v))"
| "with_default tc frozen n v (UIntArg fm d) =
     map_sum id (UIntArg fm) (typed n ''uint'' v (unpack_u32 v))"
| "with_default tc frozen n v (PositionalArg lo hi d desc) =
     map_sum id (\<lambda>xs. PositionalArg lo hi (Some xs) desc)
       (typed n ''positional'' v (unpack_list unpack_string v))"
| "with_default tc frozen n v (TrailingVarArgs desc) = Inl (TrailingDefault n)"
| "with_default tc frozen n v (StringListArg fm d) =
     map_sum id (StringListArg fm) (typed n ''string_list'' v (unpack_list unpack_string v))"
| "with_default tc frozen n v (BooleanListArg fm d) =
     map_sum id (BooleanListArg fm) (typed n ''boolean_list'' v (unpack_list unpack_bool v))"
| "with_default tc frozen n v (IntListArg fm d) =
     map_sum id (IntListArg fm) (typed n ''int_list'' v (unpack_list unpack_i32 v))"
| "with_default tc frozen n v (UIntListArg fm d) =
     map_sum id (UIntListArg fm) (typed n ''uint_list'' v (unpack_list unpack_u32 v))"
| "with_default tc frozen n v (CustomArg ty d desc) =
     (let next = Inr (CustomArg ty (if frozen v then Some v else None) desc)
      in case ty of
           None \<Rightarrow> next
         | Some t \<Rightarrow>
             (case tc t v of
                None \<Rightarrow> Inl BadTypeExpression
              | Some False \<Rightarrow> Inl (TypeMismatch n v)
              | Some True \<Rightarrow> next))"

datatype decl_error =
    RequiredAndDefault
  | ShortNotOneChar
  | BareNotAllowed string
  | InvalidLong string

definition valid_segment :: "string \<Rightarrow> bool" where
  "valid_segment seg \<longleftrightarrow>
     (case utf8_chars seg of
        [] \<Rightarrow> False
      | c # cs \<Rightarrow> ascii_char is_lower c \<and>
          list_all (ascii_char
            (\<lambda>b. is_lower b \<or> is_digit b \<or> b = CHR ''-'' \<or> b = CHR ''_'')) cs)"

definition validated_long :: "string option \<Rightarrow> decl_error + string option" where
  "validated_long long =
     (case long of
        None \<Rightarrow> Inr None
      | Some s \<Rightarrow>
          (let valid = (case split_once CHR '':'' s of
                 None \<Rightarrow> valid_segment s
               | Some (p, q) \<Rightarrow> valid_segment p \<and> valid_segment q)
           in if valid then Inr (Some s) else Inl (InvalidLong s)))"

text \<open>The checks that every flag constructor makes before it looks at \<open>long\<close>.\<close>

definition check_flag :: "bool \<Rightarrow> bool \<Rightarrow> string option \<Rightarrow> decl_error + unit" where
  "check_flag required has_default short =
     (if required \<and> has_default then Inl RequiredAndDefault
      else (case short of
          Some s \<Rightarrow> if length s \<noteq> 1 then Inl ShortNotOneChar else Inr ()
        | None \<Rightarrow> Inr ()))"

definition declare_flag ::
  "flag_meta \<Rightarrow> bool \<Rightarrow> (flag_meta \<Rightarrow> 'v arg) \<Rightarrow> decl_error + 'v arg" where
  "declare_flag fm has_default build =
     (case check_flag (fm_required fm) has_default (fm_short fm) of
        Inl e \<Rightarrow> Inl e
      | Inr _ \<Rightarrow> (case validated_long (fm_long fm) of Inl e \<Rightarrow> Inl e | Inr _ \<Rightarrow> Inr (build fm)))"

definition args_string ::
  "flag_meta \<Rightarrow> string option \<Rightarrow> string list option \<Rightarrow> string option \<Rightarrow> decl_error + 'v arg" where
  "args_string fm dflt vals bare =
     (case check_flag (fm_required fm) (dflt \<noteq> None) (fm_short fm) of
        Inl e \<Rightarrow> Inl e
      | Inr _ \<Rightarrow>
          (case (case (bare, vals) of
                   (Some b, Some allowed) \<Rightarrow>
                     if b \<notin> set allowed then Inl (BareNotAllowed b) else Inr ()
                 | _ \<Rightarrow> Inr ()) of
             Inl e \<Rightarrow> Inl e
           | Inr _ \<Rightarrow>
               (case validated_long (fm_long fm) of
                  Inl e \<Rightarrow> Inl e
                | Inr _ \<Rightarrow>
                    Inr (StringArg fm (case dflt of Some d \<Rightarrow> d | None \<Rightarrow> []) vals bare))))"

definition args_string_list ::
  "flag_meta \<Rightarrow> string list option \<Rightarrow> decl_error + 'v arg" where
  "args_string_list fm dflt =
     declare_flag fm (dflt \<noteq> None)
       (\<lambda>fm. StringListArg fm (case dflt of Some d \<Rightarrow> d | None \<Rightarrow> []))"

definition args_boolean :: "flag_meta \<Rightarrow> bool option \<Rightarrow> decl_error + 'v arg" where
  "args_boolean fm dflt =
     declare_flag fm (dflt \<noteq> None) (\<lambda>fm. BooleanArg fm (dflt = Some True))"

definition args_boolean_list ::
  "flag_meta \<Rightarrow> bool list option \<Rightarrow> decl_error + 'v arg" where
  "args_boolean_list fm dflt =
     declare_flag fm (dflt \<noteq> None)
       (\<lambda>fm. BooleanListArg fm (case dflt of Some d \<Rightarrow> d | None \<Rightarrow> []))"

definition args_int :: "flag_meta \<Rightarrow> 32 word option \<Rightarrow> decl_error + 'v arg" where
  "args_int fm dflt =
     declare_flag fm (dflt \<noteq> None) (\<lambda>fm. IntArg fm (case dflt of Some d \<Rightarrow> d | None \<Rightarrow> 0))"

definition args_int_list ::
  "flag_meta \<Rightarrow> 32 word list option \<Rightarrow> decl_error + 'v arg" where
  "args_int_list fm dflt =
     declare_flag fm (dflt \<noteq> None)
       (\<lambda>fm. IntListArg fm (case dflt of Some d \<Rightarrow> d | None \<Rightarrow> []))"

definition args_uint :: "flag_meta \<Rightarrow> 32 word option \<Rightarrow> decl_error + 'v arg" where
  "args_uint fm dflt =
     declare_flag fm (dflt \<noteq> None) (\<lambda>fm. UIntArg fm (case dflt of Some d \<Rightarrow> d | None \<Rightarrow> 0))"

definition args_uint_list ::
  "flag_meta \<Rightarrow> 32 word list option \<Rightarrow> decl_error + 'v arg" where
  "args_uint_list fm dflt =
     declare_flag fm (dflt \<noteq> None)
       (\<lambda>fm. UIntListArg fm (case dflt of Some d \<Rightarrow> d | None \<Rightarrow> []))"

section \<open>The argument store\<close>

text \<open>A \<open>SmallMap\<close> keeps the order in which its keys were inserted, as \<open>AList.update\<close> does.\<close>

record 'v arguments =
  args_entries :: "(string \<times> 'v star) list"
  args_explicit :: "string set"
  args_valid :: "string list option"

definition arguments_new :: "'v arguments" where
  "arguments_new = \<lparr>args_entries = [], args_explicit = {}, args_valid = None\<rparr>"

definition arguments_with_schema :: "string list \<Rightarrow> 'v arguments" where
  "arguments_with_schema ks = \<lparr>args_entries = [], args_explicit = {}, args_valid = Some ks\<rparr>"

definition arguments_insert :: "string \<Rightarrow> 'v star \<Rightarrow> 'v arguments \<Rightarrow> 'v arguments" where
  "arguments_insert k v a = a\<lparr>args_entries := AList.update k v (args_entries a)\<rparr>"

definition arguments_get :: "'v arguments \<Rightarrow> string \<Rightarrow> 'v star option" where
  "arguments_get a k = map_of (args_entries a) k"

definition mark_explicit :: "string \<Rightarrow> 'v arguments \<Rightarrow> 'v arguments" where
  "mark_explicit k a = a\<lparr>args_explicit := insert k (args_explicit a)\<rparr>"

definition is_explicit_key :: "'v arguments \<Rightarrow> string \<Rightarrow> bool" where
  "is_explicit_key a k \<longleftrightarrow> k \<in> args_explicit a"

text \<open>The error lists the valid names.\<close>

definition set_attr :: "string \<Rightarrow> 'v star \<Rightarrow> 'v arguments \<Rightarrow> string list + 'v arguments" where
  "set_attr attribute v a =
     (case args_valid a of
        Some valid \<Rightarrow>
          if attribute \<notin> set valid then Inl (sort valid) else Inr (arguments_insert attribute v a)
      | None \<Rightarrow> Inr (arguments_insert attribute v a))"

lemma arguments_get_insert [simp]:
  "arguments_get (arguments_insert k v a) l = (if l = k then Some v else arguments_get a l)"
  by (simp add: arguments_get_def arguments_insert_def update_conv')

lemma arguments_get_simps [simp]:
  "arguments_get arguments_new k = None" "arguments_get (mark_explicit l a) k = arguments_get a k"
  "is_explicit_key (mark_explicit l a) k \<longleftrightarrow> k = l \<or> is_explicit_key a k"
  "is_explicit_key (arguments_insert l v a) k \<longleftrightarrow> is_explicit_key a k"
  "\<not> is_explicit_key arguments_new k"
  by (simp_all add: arguments_get_def mark_explicit_def is_explicit_key_def arguments_insert_def
      arguments_new_def)

section \<open>Keys and flags\<close>

datatype scope = TaskScope | FeatureScope string

definition kebab :: "string \<Rightarrow> string" where
  "kebab name = map (\<lambda>c. if c = CHR ''_'' then CHR ''-'' else c) name"

definition prefixed :: "string \<Rightarrow> string \<Rightarrow> string" where
  "prefixed pre name = (if pre = [] then kebab name else pre @ '':'' @ kebab name)"

definition clap_id :: "scope \<Rightarrow> string \<Rightarrow> 'v arg \<Rightarrow> string" where
  "clap_id sc name a =
     (case sc of
        TaskScope \<Rightarrow> name
      | FeatureScope pre \<Rightarrow>
          (case long_override a of Some lo \<Rightarrow> lo | None \<Rightarrow> prefixed pre name))"

definition long_flag :: "scope \<Rightarrow> string \<Rightarrow> 'v arg \<Rightarrow> string" where
  "long_flag sc name a =
     (case long_override a of
        Some lo \<Rightarrow> lo
      | None \<Rightarrow> (case sc of TaskScope \<Rightarrow> kebab name | FeatureScope pre \<Rightarrow> prefixed pre name))"

section \<open>Numbers as text\<close>

definition show_int :: "int \<Rightarrow> string" where
  "show_int i = (if i < 0 then ''-'' @ show_nat (nat (- i)) else show_nat (nat i))"

text \<open>\<open>str::parse\<close> of a signed or an unsigned integer type with the given range.\<close>

definition read_digits :: "string \<Rightarrow> int option" where
  "read_digits s = (if s \<noteq> [] \<and> list_all is_digit s then Some (int (read_nat s)) else None)"

definition parse_signed :: "int \<Rightarrow> int \<Rightarrow> string \<Rightarrow> int option" where
  "parse_signed lo hi s =
     (case (case s of
              [] \<Rightarrow> None
            | c # cs \<Rightarrow>
                if c = CHR ''-'' then map_option uminus (read_digits cs)
                else if c = CHR ''+'' then read_digits cs else read_digits s) of
        Some i \<Rightarrow> if lo \<le> i \<and> i \<le> hi then Some i else None
      | None \<Rightarrow> None)"

definition parse_unsigned :: "int \<Rightarrow> string \<Rightarrow> int option" where
  "parse_unsigned hi s =
     (case (case s of [] \<Rightarrow> None | c # cs \<Rightarrow> if c = CHR ''+'' then read_digits cs else read_digits s) of
        Some i \<Rightarrow> if i \<le> hi then Some i else None
      | None \<Rightarrow> None)"

definition parse_i64 :: "string \<Rightarrow> int option" where
  "parse_i64 = parse_signed (- (2 ^ 63)) (2 ^ 63 - 1)"

definition parse_i32 :: "string \<Rightarrow> 32 word option" where
  "parse_i32 s = map_option word_of_int (parse_signed (- (2 ^ 31)) (2 ^ 31 - 1) s)"

definition parse_u32 :: "string \<Rightarrow> 32 word option" where
  "parse_u32 s = map_option word_of_int (parse_unsigned (2 ^ 32 - 1) s)"

lemma read_digits_show_nat [simp]: "read_digits (show_nat n) = Some (int n)"
  using show_nat_digits by (auto simp: read_digits_def list_all_iff)

lemma show_nat_first: "\<exists>c cs. show_nat n = c # cs \<and> c \<noteq> CHR ''-'' \<and> c \<noteq> CHR ''+''"
  using show_nat_digits [of _ n] show_nat_not_Nil [of n]
  by (cases "show_nat n") (fastforce simp: is_digit_nat)+

lemma parse_signed_show_int:
  assumes "lo \<le> i" and "i \<le> hi"
  shows "parse_signed lo hi (show_int i) = Some i"
proof (cases "i < 0")
  case True
  with assms show ?thesis by (simp add: parse_signed_def show_int_def)
next
  case False
  moreover from show_nat_first [of "nat i"] obtain c cs where
    "show_nat (nat i) = c # cs" "c \<noteq> CHR ''-''" "c \<noteq> CHR ''+''" by blast
  moreover have "read_digits (c # cs) = Some i"
    using False calculation(2) read_digits_show_nat [of "nat i"] by simp
  ultimately show ?thesis using assms by (simp add: parse_signed_def show_int_def)
qed

section \<open>The clap configuration\<close>

datatype value_kind = VString | VChoice "string list" | VBool | VI32 | VU32

text \<open>\<open>ca_num_args\<close> is a range of which the upper end may be open; the help heading and the
  hiding of an argument are set by the caller.\<close>

record clap_arg =
  ca_id :: string
  ca_long :: "string option"
  ca_value_name :: string
  ca_short :: "char option"
  ca_help :: "string option"
  ca_required :: bool
  ca_append :: bool
  ca_kind :: value_kind
  ca_defaults :: "string list"
  ca_num_args :: "(nat \<times> nat option) option"
  ca_require_equals :: bool
  ca_default_missing :: "string option"
  ca_hyphen_values :: bool
  ca_last :: bool
  ca_hidden :: bool

definition short_char :: "string option \<Rightarrow> char option" where
  "short_char short = map_option hd short"

definition show_bool :: "bool \<Rightarrow> string" where
  "show_bool b = (if b then ''true'' else ''false'')"

definition clap_flag :: "string \<Rightarrow> string \<Rightarrow> flag_meta \<Rightarrow> value_kind \<Rightarrow> string list \<Rightarrow> clap_arg" where
  "clap_flag cid long fm kind defaults =
     \<lparr>ca_id = cid, ca_long = Some long, ca_value_name = long, ca_short = short_char (fm_short fm),
      ca_help = fm_description fm, ca_required = fm_required fm, ca_append = False, ca_kind = kind,
      ca_defaults = defaults, ca_num_args = None, ca_require_equals = False,
      ca_default_missing = None, ca_hyphen_values = False, ca_last = False, ca_hidden = False\<rparr>"

definition clap_positional :: "string \<Rightarrow> string option \<Rightarrow> nat \<times> nat option \<Rightarrow> string list \<Rightarrow> clap_arg" where
  "clap_positional cid desc bounds defaults =
     \<lparr>ca_id = cid, ca_long = None, ca_value_name = cid, ca_short = None, ca_help = desc,
      ca_required = False, ca_append = False, ca_kind = VString, ca_defaults = defaults,
      ca_num_args = Some bounds, ca_require_equals = False, ca_default_missing = None,
      ca_hyphen_values = False, ca_last = False, ca_hidden = False\<rparr>"

text \<open>\<open>Arg::Custom\<close> is \<open>unreachable!\<close> in the code: \<open>None\<close> is that panic.\<close>

definition arg_to_clap :: "scope \<Rightarrow> string \<Rightarrow> 'v arg \<Rightarrow> clap_arg option" where
  "arg_to_clap sc name a =
     (let cid = clap_id sc name a; long = long_flag sc name a
      in case a of
           StringArg fm d vals bare \<Rightarrow>
             (let it = clap_flag cid long fm (case vals of Some vs \<Rightarrow> VChoice vs | None \<Rightarrow> VString) [d]
              in Some (case bare of
                    Some b \<Rightarrow> it\<lparr>ca_num_args := Some (0, Some 1), ca_require_equals := True,
                      ca_default_missing := Some b\<rparr>
                  | None \<Rightarrow> it))
         | BooleanArg fm d \<Rightarrow>
             Some ((clap_flag cid long fm VBool [show_bool d])\<lparr>ca_num_args := Some (0, Some 1),
               ca_require_equals := True, ca_default_missing := Some ''true''\<rparr>)
         | IntArg fm d \<Rightarrow> Some (clap_flag cid long fm VI32 [show_int (sint d)])
         | UIntArg fm d \<Rightarrow> Some (clap_flag cid long fm VU32 [show_int (uint d)])
         | PositionalArg lo hi d desc \<Rightarrow>
             Some (clap_positional cid desc (unat lo, Some (unat hi))
               (case d of Some xs \<Rightarrow> xs | None \<Rightarrow> []))
         | TrailingVarArgs desc \<Rightarrow>
             Some ((clap_positional cid desc (0, None) [])\<lparr>ca_hyphen_values := True, ca_last := True\<rparr>)
         | StringListArg fm d \<Rightarrow> Some ((clap_flag cid long fm VString d)\<lparr>ca_append := True\<rparr>)
         | BooleanListArg fm d \<Rightarrow>
             Some ((clap_flag cid long fm VBool (map show_bool d))\<lparr>ca_append := True,
               ca_num_args := Some (0, Some 1), ca_default_missing := Some ''true''\<rparr>)
         | IntListArg fm d \<Rightarrow>
             Some ((clap_flag cid long fm VI32 (map (show_int \<circ> sint) d))\<lparr>ca_append := True\<rparr>)
         | UIntListArg fm d \<Rightarrow>
             Some ((clap_flag cid long fm VU32 (map (show_int \<circ> uint) d))\<lparr>ca_append := True\<rparr>)
         | CustomArg _ _ _ \<Rightarrow> None)"

definition is_list_arg :: "'v arg \<Rightarrow> bool" where
  "is_list_arg a \<longleftrightarrow> (case a of
     StringListArg _ _ \<Rightarrow> True | BooleanListArg _ _ \<Rightarrow> True | IntListArg _ _ \<Rightarrow> True
   | UIntListArg _ _ \<Rightarrow> True | TrailingVarArgs _ \<Rightarrow> True | _ \<Rightarrow> False)"

definition with_override :: "clap_arg \<Rightarrow> 'v arg \<Rightarrow> string list \<Rightarrow> clap_arg" where
  "with_override ca a over =
     (if is_list_arg a then ca\<lparr>ca_defaults := over\<rparr>
      else (case over of v # _ \<Rightarrow> ca\<lparr>ca_defaults := [v]\<rparr> | [] \<Rightarrow> ca))\<lparr>ca_required := False\<rparr>"

section \<open>Merging\<close>

datatype clap_value = CStr string | CBool bool | CI32 "32 word" | CU32 "32 word"

primrec cstr :: "clap_value \<Rightarrow> string option" where
  "cstr (CStr s) = Some s" | "cstr (CBool _) = None" | "cstr (CI32 _) = None" | "cstr (CU32 _) = None"

primrec cbool :: "clap_value \<Rightarrow> bool option" where
  "cbool (CStr _) = None" | "cbool (CBool b) = Some b" | "cbool (CI32 _) = None" | "cbool (CU32 _) = None"

primrec ci32 :: "clap_value \<Rightarrow> 32 word option" where
  "ci32 (CStr _) = None" | "ci32 (CBool _) = None" | "ci32 (CI32 w) = Some w" | "ci32 (CU32 _) = None"

primrec cu32 :: "clap_value \<Rightarrow> 32 word option" where
  "cu32 (CStr _) = None" | "cu32 (CBool _) = None" | "cu32 (CI32 _) = None" | "cu32 (CU32 w) = Some w"

text \<open>\<open>ArgMatches\<close> of the deepest subcommand: the values of an id and whether its source is the
  command line. A value of another type than the one asked for, where clap panics, is skipped.\<close>

record matches =
  ma_values :: "string \<Rightarrow> clap_value list option"
  ma_on_cli :: "string \<Rightarrow> bool"

definition get_many :: "(clap_value \<Rightarrow> 'a option) \<Rightarrow> string \<Rightarrow> matches \<Rightarrow> 'a list" where
  "get_many f key m = List.map_filter f (case ma_values m key of Some vs \<Rightarrow> vs | None \<Rightarrow> [])"

definition get_one :: "(clap_value \<Rightarrow> 'a option) \<Rightarrow> 'a \<Rightarrow> string \<Rightarrow> matches \<Rightarrow> 'a" where
  "get_one f d key m = (case get_many f key m of v # _ \<Rightarrow> v | [] \<Rightarrow> d)"

definition clap_to_value :: "'v arg \<Rightarrow> string \<Rightarrow> matches \<Rightarrow> 'v star option" where
  "clap_to_value a key m =
     (case a of
        CustomArg _ _ _ \<Rightarrow> None
      | StringArg _ _ _ _ \<Rightarrow> Some (SStr (get_one cstr [] key m))
      | IntArg _ _ \<Rightarrow> Some (SInt (sint (get_one ci32 0 key m)))
      | UIntArg _ _ \<Rightarrow> Some (SInt (uint (get_one cu32 0 key m)))
      | BooleanArg _ _ \<Rightarrow> Some (SBool (get_one cbool False key m))
      | PositionalArg _ _ _ _ \<Rightarrow> Some (SList (map SStr (get_many cstr key m)))
      | TrailingVarArgs _ \<Rightarrow> Some (SList (map SStr (get_many cstr key m)))
      | StringListArg _ _ \<Rightarrow> Some (SList (map SStr (get_many cstr key m)))
      | BooleanListArg _ _ \<Rightarrow> Some (SList (map SBool (get_many cbool key m)))
      | IntListArg _ _ \<Rightarrow> Some (SList (map (SInt \<circ> sint) (get_many ci32 key m)))
      | UIntListArg _ _ \<Rightarrow> Some (SList (map (SInt \<circ> uint) (get_many cu32 key m))))"

type_synonym 'v schema = "(string \<times> 'v arg) list"

definition merge_one :: "scope \<Rightarrow> matches \<Rightarrow> string \<times> 'v arg \<Rightarrow> 'v arguments \<Rightarrow> 'v arguments" where
  "merge_one sc m = (\<lambda>(name, a) args.
     case a of
       CustomArg _ d _ \<Rightarrow> arguments_insert name (case d of Some v \<Rightarrow> v | None \<Rightarrow> SNone) args
     | _ \<Rightarrow>
         (let key = clap_id sc name a;
              args = (case clap_to_value a key m of
                        Some v \<Rightarrow> arguments_insert name v args | None \<Rightarrow> args)
          in if ma_on_cli m key then mark_explicit name args else args))"

definition user_explicit :: "scope \<Rightarrow> 'v schema \<Rightarrow> matches \<Rightarrow> string \<Rightarrow> bool" where
  "user_explicit sc sch m k =
     (case map_of sch k of
        Some a \<Rightarrow> is_cli_exposed a \<and> ma_on_cli m (clap_id sc k a)
      | None \<Rightarrow> False)"

text \<open>\<open>overrides\<close> is \<open>None\<close> when the value is not an \<open>Arguments\<close>.\<close>

definition merge_args ::
  "'v schema \<Rightarrow> 'v arguments option \<Rightarrow> matches \<Rightarrow> scope \<Rightarrow> 'v arguments" where
  "merge_args sch overrides m sc =
     (let args = fold (merge_one sc m) sch arguments_new
      in case overrides of
           None \<Rightarrow> args
         | Some ov \<Rightarrow>
             fold (\<lambda>(k, v) args. if user_explicit sc sch m k then args else arguments_insert k v args)
               (args_entries ov) args)"

text \<open>What an argument is before the overrides: the declared default of a custom argument, else what
  clap reports.\<close>

definition base_value :: "scope \<Rightarrow> matches \<Rightarrow> string \<Rightarrow> 'v arg \<Rightarrow> 'v star" where
  "base_value sc m name a =
     (case clap_to_value a (clap_id sc name a) m of
        Some v \<Rightarrow> v
      | None \<Rightarrow> (case a of CustomArg _ (Some v) _ \<Rightarrow> v | _ \<Rightarrow> SNone))"

lemma clap_to_value_None: "clap_to_value a key m = None \<longleftrightarrow> \<not> is_cli_exposed a"
  by (cases a) (simp_all add: clap_to_value_def is_cli_exposed_def)

lemma merge_one_get [simp]:
  "arguments_get (merge_one sc m (name, a) args) k =
     (if k = name then Some (base_value sc m name a) else arguments_get args k)"
  by (cases a) (simp_all add: merge_one_def base_value_def clap_to_value_def Let_def split: option.split)

lemma merge_one_explicit [simp]:
  "is_explicit_key (merge_one sc m (name, a) args) k \<longleftrightarrow>
     is_explicit_key args k \<or> k = name \<and> is_cli_exposed a \<and> ma_on_cli m (clap_id sc name a)"
  by (cases a) (auto simp: merge_one_def clap_to_value_def is_cli_exposed_def Let_def)

lemma merge_schema_get:
  assumes "distinct (map fst sch)"
  shows "arguments_get (fold (merge_one sc m) sch args) k =
    (case map_of sch k of Some a \<Rightarrow> Some (base_value sc m k a) | None \<Rightarrow> arguments_get args k)"
  using assms
proof (induction sch arbitrary: args)
  case (Cons e sch)
  then have "map_of sch (fst e) = None" by (simp add: map_of_eq_None_iff)
  with Cons show ?case by (cases e) (auto split: option.split)
qed simp

lemma merge_schema_explicit:
  assumes "distinct (map fst sch)"
  shows "is_explicit_key (fold (merge_one sc m) sch args) k \<longleftrightarrow>
    is_explicit_key args k \<or> user_explicit sc sch m k"
  using assms
proof (induction sch arbitrary: args)
  case (Cons e sch)
  then have "map_of sch (fst e) = None" by (simp add: map_of_eq_None_iff)
  with Cons show ?case by (cases e) (auto simp: user_explicit_def split: option.split)
qed (simp add: user_explicit_def)

lemma overrides_get:
  assumes "distinct (map fst kvs)"
  shows "arguments_get
      (fold (\<lambda>(k, v) args. if P k then args else arguments_insert k v args) kvs args) k =
    (if P k then arguments_get args k
     else case map_of kvs k of Some v \<Rightarrow> Some v | None \<Rightarrow> arguments_get args k)"
  using assms
proof (induction kvs arbitrary: args)
  case (Cons e kvs)
  then have "map_of kvs (fst e) = None" by (simp add: map_of_eq_None_iff)
  with Cons show ?case by (cases e) (auto split: option.split)
qed simp

lemma overrides_explicit [simp]:
  "is_explicit_key (fold (\<lambda>(k, v) args. if P k then args else arguments_insert k v args) kvs args) k
     \<longleftrightarrow> is_explicit_key args k"
proof (induction kvs arbitrary: args)
  case (Cons e kvs)
  then show ?case by (cases e) simp
qed simp

definition arguments_wf :: "'v arguments \<Rightarrow> bool" where
  "arguments_wf a \<longleftrightarrow> distinct (map fst (args_entries a))"

lemma arguments_wf_simps [simp]:
  "arguments_wf arguments_new" "arguments_wf (arguments_with_schema ks)"
  "arguments_wf a \<Longrightarrow> arguments_wf (arguments_insert k v a)"
  "arguments_wf (mark_explicit k a) = arguments_wf a"
  by (simp_all add: arguments_wf_def arguments_new_def arguments_with_schema_def
      arguments_insert_def mark_explicit_def distinct_update)

lemma merge_args_get:
  assumes "distinct (map fst sch)" and "arguments_wf ov"
  shows "arguments_get (merge_args sch (Some ov) m sc) k =
    (if user_explicit sc sch m k \<or> arguments_get ov k = None
     then map_option (base_value sc m k) (map_of sch k)
     else arguments_get ov k)"
proof -
  have "distinct (map fst (args_entries ov))" using assms(2) by (simp add: arguments_wf_def)
  then show ?thesis
    using merge_schema_get [OF assms(1), of sc m arguments_new k]
    by (cases "map_of (args_entries ov) k"; cases "map_of sch k")
      (simp_all add: merge_args_def overrides_get arguments_get_def [of ov])
qed

section \<open>Describing an argument\<close>

datatype json =
  JNull | JBool bool | JInt int | JStr string | JArr "json list" | JObj "(string \<times> json) list"

definition jopt :: "('a \<Rightarrow> json) \<Rightarrow> 'a option \<Rightarrow> json" where
  "jopt f x = (case x of Some y \<Rightarrow> f y | None \<Rightarrow> JNull)"

definition jstrs :: "string list \<Rightarrow> json" where
  "jstrs xs = JArr (map JStr xs)"

fun jset :: "string \<Rightarrow> json \<Rightarrow> json \<Rightarrow> json" where
  "jset k v (JObj fs) = JObj (AList.update k v fs)"
| "jset k v j = j"

fun jget :: "string \<Rightarrow> json \<Rightarrow> json option" where
  "jget k (JObj fs) = map_of fs k"
| "jget k j = None"

definition type_text :: "'v arg \<Rightarrow> string" where
  "type_text a =
     (case a of
        StringArg _ _ _ _ \<Rightarrow> ''string'' | BooleanArg _ _ \<Rightarrow> ''boolean'' | IntArg _ _ \<Rightarrow> ''int''
      | UIntArg _ _ \<Rightarrow> ''uint'' | StringListArg _ _ \<Rightarrow> ''string_list''
      | BooleanListArg _ _ \<Rightarrow> ''boolean_list'' | IntListArg _ _ \<Rightarrow> ''int_list''
      | UIntListArg _ _ \<Rightarrow> ''uint_list'' | PositionalArg _ _ _ _ \<Rightarrow> ''positional''
      | TrailingVarArgs _ \<Rightarrow> ''trailing_var_args'' | CustomArg _ _ _ \<Rightarrow> ''custom'')"

definition default_json :: "'v arg \<Rightarrow> json" where
  "default_json a =
     (case a of
        StringArg _ d _ _ \<Rightarrow> JStr d
      | BooleanArg _ d \<Rightarrow> JBool d
      | IntArg _ d \<Rightarrow> JInt (sint d)
      | UIntArg _ d \<Rightarrow> JInt (uint d)
      | StringListArg _ d \<Rightarrow> jstrs d
      | BooleanListArg _ d \<Rightarrow> JArr (map JBool d)
      | IntListArg _ d \<Rightarrow> JArr (map (JInt \<circ> sint) d)
      | UIntListArg _ d \<Rightarrow> JArr (map (JInt \<circ> uint) d)
      | PositionalArg _ _ d _ \<Rightarrow> jopt jstrs d
      | TrailingVarArgs _ \<Rightarrow> JNull
      | CustomArg _ _ _ \<Rightarrow> JNull)"

definition arg_description :: "'v arg \<Rightarrow> string option" where
  "arg_description a =
     (case a of
        PositionalArg _ _ _ desc \<Rightarrow> desc | TrailingVarArgs desc \<Rightarrow> desc | CustomArg _ _ desc \<Rightarrow> desc
      | _ \<Rightarrow> Option.bind (arg_meta a) fm_description)"

definition describe_arg :: "scope \<Rightarrow> string \<Rightarrow> 'v arg \<Rightarrow> json" where
  "describe_arg sc name a =
     (let flag = (case a of
            PositionalArg _ _ _ _ \<Rightarrow> None
          | TrailingVarArgs _ \<Rightarrow> None
          | _ \<Rightarrow> Some (''--'' @ long_flag sc name a));
          (required, minimum, maximum) = (case a of
            PositionalArg lo hi _ _ \<Rightarrow> (1 \<le> lo, JInt (uint lo), JInt (uint hi))
          | _ \<Rightarrow> (is_required a, JNull, JNull))
      in JObj
        [(''name'', JStr name), (''type'', JStr (type_text a)), (''flag'', jopt JStr flag),
         (''short'', jopt (\<lambda>s. JStr (''-'' @ s)) (Option.bind (arg_meta a) fm_short)),
         (''required'', JBool required), (''minimum'', minimum), (''maximum'', maximum),
         (''default'', default_json a),
         (''allowed_values'', (case a of StringArg _ _ vals _ \<Rightarrow> jopt jstrs vals | _ \<Rightarrow> JNull)),
         (''description'', jopt JStr (arg_description a))])"

definition int_json :: "string \<Rightarrow> json" where
  "int_json v = (case parse_i64 v of Some n \<Rightarrow> JInt n | None \<Rightarrow> JStr v)"

definition override_as_default :: "'v arg \<Rightarrow> string list \<Rightarrow> json" where
  "override_as_default a over =
     (case a of
        StringListArg _ _ \<Rightarrow> jstrs over
      | PositionalArg _ _ _ _ \<Rightarrow> jstrs over
      | BooleanListArg _ _ \<Rightarrow> JArr (map (\<lambda>v. JBool (v = ''true'')) over)
      | IntListArg _ _ \<Rightarrow> JArr (map int_json over)
      | UIntListArg _ _ \<Rightarrow> JArr (map int_json over)
      | _ \<Rightarrow>
          (case over of
             [] \<Rightarrow> JNull
           | first # _ \<Rightarrow>
               (case a of
                  BooleanArg _ _ \<Rightarrow> JBool (first = ''true'')
                | IntArg _ _ \<Rightarrow> int_json first
                | UIntArg _ _ \<Rightarrow> int_json first
                | _ \<Rightarrow> JStr first)))"

text \<open>\<open>text v\<close> is Starlark's \<open>str\<close> of a value that is neither a string nor a Boolean nor an integer.\<close>

definition stringify_value :: "('v star \<Rightarrow> string) \<Rightarrow> 'v star \<Rightarrow> string" where
  "stringify_value txt v =
     (case v of SStr s \<Rightarrow> s | SBool b \<Rightarrow> show_bool b | SInt i \<Rightarrow> show_int i | _ \<Rightarrow> txt v)"

definition stringify_override :: "('v star \<Rightarrow> string) \<Rightarrow> 'v star \<Rightarrow> string list" where
  "stringify_override txt v =
     (case v of SList xs \<Rightarrow> map (stringify_value txt) xs | _ \<Rightarrow> [stringify_value txt v])"

definition stringify_overrides ::
  "('v star \<Rightarrow> string) \<Rightarrow> 'v arguments option \<Rightarrow> (string \<times> string list) list" where
  "stringify_overrides txt overrides =
     (case overrides of
        None \<Rightarrow> []
      | Some ov \<Rightarrow> map (\<lambda>(k, v). (k, stringify_override txt v)) (args_entries ov))"

definition describe_with_override ::
  "scope \<Rightarrow> (string \<times> string list) list \<Rightarrow> string \<Rightarrow> 'v arg \<Rightarrow> json" where
  "describe_with_override sc overrides name a =
     (let described = describe_arg sc name a
      in case map_of overrides name of
           None \<Rightarrow> described
         | Some over \<Rightarrow>
             jset ''default_from_config'' (JBool True)
               (jset ''default'' (override_as_default a over) described))"

section \<open>What is described is what runs\<close>

text \<open>Clap gives an argument that is not on the command line its default values, parsed by its value
  parser, and no values when it has no defaults.\<close>

definition clap_parse :: "value_kind \<Rightarrow> string \<Rightarrow> clap_value option" where
  "clap_parse kind s =
     (case kind of
        VString \<Rightarrow> Some (CStr s)
      | VChoice vs \<Rightarrow> if s \<in> set vs then Some (CStr s) else None
      | VBool \<Rightarrow> if s = ''true'' then Some (CBool True)
          else if s = ''false'' then Some (CBool False) else None
      | VI32 \<Rightarrow> map_option CI32 (parse_i32 s)
      | VU32 \<Rightarrow> map_option CU32 (parse_u32 s))"

definition clap_supplies :: "clap_arg \<Rightarrow> matches \<Rightarrow> bool" where
  "clap_supplies ca m \<longleftrightarrow> \<not> ma_on_cli m (ca_id ca) \<and>
     (if ca_defaults ca = [] then ma_values m (ca_id ca) = None
      else \<exists>vs. those (map (clap_parse (ca_kind ca)) (ca_defaults ca)) = Some vs \<and>
        ma_values m (ca_id ca) = Some vs)"

text \<open>The values a \<open>config.axl\<close> author is meant to assign to an argument.\<close>

definition fits :: "'v arg \<Rightarrow> 'v star \<Rightarrow> bool" where
  "fits a v =
     (case a of
        StringArg _ _ _ _ \<Rightarrow> unpack_string v \<noteq> None
      | BooleanArg _ _ \<Rightarrow> unpack_bool v \<noteq> None
      | IntArg _ _ \<Rightarrow> unpack_i32 v \<noteq> None
      | UIntArg _ _ \<Rightarrow> unpack_u32 v \<noteq> None
      | PositionalArg _ _ _ _ \<Rightarrow> unpack_list unpack_string v \<noteq> None
      | TrailingVarArgs _ \<Rightarrow> unpack_list unpack_string v \<noteq> None
      | StringListArg _ _ \<Rightarrow> unpack_list unpack_string v \<noteq> None
      | BooleanListArg _ _ \<Rightarrow> unpack_list unpack_bool v \<noteq> None
      | IntListArg _ _ \<Rightarrow> unpack_list unpack_i32 v \<noteq> None
      | UIntListArg _ _ \<Rightarrow> unpack_list unpack_u32 v \<noteq> None
      | CustomArg _ _ _ \<Rightarrow> True)"

fun star_json :: "'v star \<Rightarrow> json" where
  "star_json SNone = JNull"
| "star_json (SBool b) = JBool b"
| "star_json (SInt i) = JInt i"
| "star_json (SStr s) = JStr s"
| "star_json (SList xs) = JArr (map star_json xs)"
| "star_json (SOther _) = JNull"

lemma those_None_iff: "those (map f xs) \<noteq> None \<longleftrightarrow> (\<forall>x \<in> set xs. f x \<noteq> None)"
  by (induction xs) (auto split: option.splits)

lemma those_map_Some: "those (map (\<lambda>x. Some (g x)) xs) = Some (map g xs)"
  by (induction xs) simp_all

lemma int_json_show_int: "i32_range i \<or> u32_range i \<Longrightarrow> int_json (show_int i) = JInt i"
  by (auto simp: int_json_def parse_i64_def i32_range_def u32_range_def parse_signed_show_int)

lemma unpack_int_SomeD:
  "unpack_i32 v \<noteq> None \<Longrightarrow> \<exists>i. v = SInt i \<and> i32_range i"
  "unpack_u32 v \<noteq> None \<Longrightarrow> \<exists>i. v = SInt i \<and> u32_range i"
  "unpack_string v \<noteq> None \<Longrightarrow> \<exists>s. v = SStr s"
  "unpack_bool v \<noteq> None \<Longrightarrow> \<exists>b. v = SBool b"
  by (cases v; auto split: if_splits)+

lemma unpack_list_SomeD:
  "unpack_list f v \<noteq> None \<Longrightarrow> \<exists>xs. v = SList xs \<and> (\<forall>x \<in> set xs. f x \<noteq> None)"
  using those_None_iff [of f] by (cases v) (auto simp: unpack_list_def)

lemma show_bool_inverse [simp]: "(show_bool b = ''true'') = b"
  by (simp add: show_bool_def)

lemma list_override_value:
  assumes "unpack_list f v \<noteq> None" and "\<And>ws. override_as_default a ws = JArr (map g ws)"
    and "\<And>x. f x \<noteq> None \<Longrightarrow> g (stringify_value txt x) = star_json x"
  shows "override_as_default a (stringify_override txt v) = star_json v"
proof -
  obtain xs where "v = SList xs" "\<forall>x \<in> set xs. f x \<noteq> None"
    using unpack_list_SomeD [OF assms(1)] by blast
  then show ?thesis using assms(2,3) by (simp add: stringify_override_def)
qed

lemma stringify_unpacked:
  "unpack_string v \<noteq> None \<Longrightarrow> JStr (stringify_value txt v) = star_json v"
  "unpack_bool v \<noteq> None \<Longrightarrow> JBool (stringify_value txt v = ''true'') = star_json v"
  "unpack_i32 v \<noteq> None \<Longrightarrow> int_json (stringify_value txt v) = star_json v"
  "unpack_u32 v \<noteq> None \<Longrightarrow> int_json (stringify_value txt v) = star_json v"
  by (drule unpack_int_SomeD, force simp: stringify_value_def int_json_show_int)+

lemma override_as_default_value:
  assumes "fits a v" and "is_cli_exposed a" and "\<And>d. a \<noteq> TrailingVarArgs d"
  shows "override_as_default a (stringify_override txt v) = star_json v"
proof -
  have scalar: "stringify_override txt v = [stringify_value txt v]"
    if "f v \<noteq> None" "\<And>xs. f (SList xs) = None" for f :: "'a star \<Rightarrow> 'b option"
    using that by (cases v) (auto simp: stringify_override_def)
  show ?thesis
  proof (cases a)
    case (StringListArg fm d)
    with assms(1) show ?thesis
      by (intro list_override_value [of unpack_string v a JStr])
        (auto simp: fits_def override_as_default_def jstrs_def stringify_unpacked)
  next
    case (BooleanListArg fm d)
    with assms(1) show ?thesis
      by (intro list_override_value [of unpack_bool v a "\<lambda>v. JBool (v = ''true'')"])
        (auto simp: fits_def override_as_default_def stringify_unpacked)
  next
    case (IntListArg fm d)
    with assms(1) show ?thesis
      by (intro list_override_value [of unpack_i32 v a int_json])
        (auto simp: fits_def override_as_default_def stringify_unpacked)
  next
    case (UIntListArg fm d)
    with assms(1) show ?thesis
      by (intro list_override_value [of unpack_u32 v a int_json])
        (auto simp: fits_def override_as_default_def stringify_unpacked)
  next
    case (PositionalArg lo hi d desc)
    with assms(1) show ?thesis
      by (intro list_override_value [of unpack_string v a JStr])
        (auto simp: fits_def override_as_default_def jstrs_def stringify_unpacked)
  next
    case (StringArg fm d vals bare)
    with assms(1) scalar [of unpack_string] show ?thesis
      by (auto simp: fits_def override_as_default_def stringify_unpacked)
  next
    case (BooleanArg fm d)
    with assms(1) scalar [of unpack_bool] show ?thesis
      by (auto simp: fits_def override_as_default_def stringify_unpacked)
  next
    case (IntArg fm d)
    with assms(1) scalar [of unpack_i32] show ?thesis
      by (auto simp: fits_def override_as_default_def stringify_unpacked)
  next
    case (UIntArg fm d)
    with assms(1) scalar [of unpack_u32] show ?thesis
      by (auto simp: fits_def override_as_default_def stringify_unpacked)
  qed (use assms(2,3) in \<open>auto simp: is_cli_exposed_def\<close>)
qed

lemma parse_i32_show [simp]: "parse_i32 (show_int (sint w)) = Some w"
  using sint_range_size [of w] by (simp add: parse_i32_def parse_signed_show_int word_size)

lemma parse_u32_show [simp]: "parse_u32 (show_int (uint w)) = Some w"
proof -
  obtain c cs where "show_nat (nat (uint w)) = c # cs" "c \<noteq> CHR ''+''"
    using show_nat_first by blast
  moreover from this have "read_digits (c # cs) = Some (uint w)"
    using read_digits_show_nat [of "nat (uint w)"] by simp
  ultimately show ?thesis
    using uint_range_size [of w]
    by (simp add: parse_u32_def parse_unsigned_def show_int_def word_size)
qed

lemma clap_values_of:
  assumes "clap_supplies ca m" and "ca_defaults ca = map h ds"
    and "\<And>d. d \<in> set ds \<Longrightarrow> clap_parse (ca_kind ca) (h d) \<noteq> None \<Longrightarrow>
      clap_parse (ca_kind ca) (h d) = Some (g d)"
  shows "ma_values m (ca_id ca) = (if ds = [] then None else Some (map g ds))"
proof (cases "ds = []")
  case False
  then obtain vs where vs: "those (map (clap_parse (ca_kind ca)) (ca_defaults ca)) = Some vs"
    "ma_values m (ca_id ca) = Some vs"
    using assms(1,2) by (auto simp: clap_supplies_def)
  then have "those (map (\<lambda>d. clap_parse (ca_kind ca) (h d)) ds) \<noteq> None"
    by (simp add: assms(2) comp_def)
  then have "clap_parse (ca_kind ca) (h d) \<noteq> None" if "d \<in> set ds" for d
    using that by (simp only: those_None_iff) simp
  then have "map (\<lambda>d. clap_parse (ca_kind ca) (h d)) ds = map (\<lambda>d. Some (g d)) ds"
    using assms(3) by simp
  with vs(1) have "vs = map g ds" by (simp add: assms(2) comp_def those_map_Some)
  with vs(2) False show ?thesis by simp
qed (use assms(1,2) in \<open>simp add: clap_supplies_def\<close>)

lemma get_many_values:
  assumes "ma_values m key = (if ds = [] then None else Some (map g ds))"
    and "\<And>d. f (g d) = Some (k d)"
  shows "get_many f key m = map k ds"
  using assms by (auto simp: get_many_def map_filter_def comp_def)

lemma base_value_default:
  assumes "arg_to_clap sc name a = Some ca" and "clap_supplies ca m"
    and "\<And>lo hi desc. a \<noteq> PositionalArg lo hi None desc" and "\<And>d. a \<noteq> TrailingVarArgs d"
  shows "star_json (base_value sc m name a) = default_json a"
proof -
  note [simp] = base_value_def clap_to_value_def default_json_def jstrs_def jopt_def get_one_def
    arg_to_clap_def Let_def clap_flag_def clap_positional_def comp_def
  note supplied = clap_values_of [OF assms(2)]
  have cid: "ca_id ca = clap_id sc name a"
    using assms(1) by (cases a) (auto split: option.splits)
  show ?thesis
  proof (cases a)
    case (StringArg fm d vals bare)
    have ca: "ca_defaults ca = [d]" "ca_kind ca = VString \<or> (\<exists>vs. ca_kind ca = VChoice vs)"
      using assms(1) StringArg by (auto split: option.splits)
    then have "clap_parse (ca_kind ca) d \<noteq> None \<Longrightarrow> clap_parse (ca_kind ca) d = Some (CStr d)"
      by (auto simp: clap_parse_def split: if_splits)
    with ca(1) have "ma_values m (ca_id ca) = Some [CStr d]"
      using supplied [of "\<lambda>x. x" "[d]" CStr] by simp
    then show ?thesis using StringArg cid get_many_values [of m "ca_id ca" "[d]" CStr cstr] by simp
  next
    case (BooleanArg fm d)
    have "ma_values m (ca_id ca) = Some [CBool d]"
      using supplied [of show_bool "[d]" CBool] assms(1) BooleanArg
      by (auto simp: clap_parse_def show_bool_def split: if_splits)
    then show ?thesis using BooleanArg cid get_many_values [of m "ca_id ca" "[d]" CBool cbool] by simp
  next
    case (IntArg fm d)
    have "ma_values m (ca_id ca) = Some [CI32 d]"
      using supplied [of "\<lambda>w. show_int (sint w)" "[d]" CI32] assms(1) IntArg
      by (auto simp: clap_parse_def)
    then show ?thesis using IntArg cid get_many_values [of m "ca_id ca" "[d]" CI32 ci32] by simp
  next
    case (UIntArg fm d)
    have "ma_values m (ca_id ca) = Some [CU32 d]"
      using supplied [of "\<lambda>w. show_int (uint w)" "[d]" CU32] assms(1) UIntArg
      by (auto simp: clap_parse_def)
    then show ?thesis using UIntArg cid get_many_values [of m "ca_id ca" "[d]" CU32 cu32] by simp
  next
    case (PositionalArg lo hi d desc)
    with assms(3) [of lo hi desc] obtain xs where xs: "d = Some xs" by auto
    have "get_many cstr (ca_id ca) m = xs"
      using supplied [of "\<lambda>x. x" xs CStr] assms(1) PositionalArg xs
        get_many_values [of m "ca_id ca" xs CStr cstr "\<lambda>x. x"] by (auto simp: clap_parse_def)
    then show ?thesis using PositionalArg cid xs by simp
  next
    case (StringListArg fm d)
    have "get_many cstr (ca_id ca) m = d"
      using supplied [of "\<lambda>x. x" d CStr] assms(1) StringListArg
        get_many_values [of m "ca_id ca" d CStr cstr "\<lambda>x. x"] by (auto simp: clap_parse_def)
    then show ?thesis using StringListArg cid by simp
  next
    case (BooleanListArg fm d)
    have "get_many cbool (ca_id ca) m = d"
      using supplied [of show_bool d CBool] assms(1) BooleanListArg
        get_many_values [of m "ca_id ca" d CBool cbool "\<lambda>x. x"]
      by (auto simp: clap_parse_def show_bool_def)
    then show ?thesis using BooleanListArg cid by simp
  next
    case (IntListArg fm d)
    have "get_many ci32 (ca_id ca) m = d"
      using supplied [of "\<lambda>w. show_int (sint w)" d CI32] assms(1) IntListArg
        get_many_values [of m "ca_id ca" d CI32 ci32 "\<lambda>x. x"] by (auto simp: clap_parse_def)
    then show ?thesis using IntListArg cid by simp
  next
    case (UIntListArg fm d)
    have "get_many cu32 (ca_id ca) m = d"
      using supplied [of "\<lambda>w. show_int (uint w)" d CU32] assms(1) UIntListArg
        get_many_values [of m "ca_id ca" d CU32 cu32 "\<lambda>x. x"] by (auto simp: clap_parse_def)
    then show ?thesis using UIntListArg cid by simp
  qed (use assms(1,4) in auto)
qed

section \<open>Properties\<close>

text \<open>C14. The value a task or feature runs with: a flag that the user typed wins, else what
  \<open>config.axl\<close> assigned, else what clap reports or the declared default of a config-only argument;
  and exactly the typed flags count as explicit. This holds whatever clap reports, and for
  arguments of every kind.\<close>

theorem merge_args_precedence:
  assumes "distinct (map fst sch)" and "arguments_wf ov" and "map_of sch k = Some a"
  shows "arguments_get (merge_args sch (Some ov) m sc) k =
      (if is_cli_exposed a \<and> ma_on_cli m (clap_id sc k a) then clap_to_value a (clap_id sc k a) m
       else (case arguments_get ov k of
           Some v \<Rightarrow> Some v
         | None \<Rightarrow> (case a of
               CustomArg _ d _ \<Rightarrow> Some (case d of Some v \<Rightarrow> v | None \<Rightarrow> SNone)
             | _ \<Rightarrow> clap_to_value a (clap_id sc k a) m))) \<and>
    (is_explicit_key (merge_args sch (Some ov) m sc) k \<longleftrightarrow>
      is_cli_exposed a \<and> ma_on_cli m (clap_id sc k a))"
proof -
  have "Some (base_value sc m k a) = (case a of
       CustomArg _ d _ \<Rightarrow> Some (case d of Some v \<Rightarrow> v | None \<Rightarrow> SNone)
     | _ \<Rightarrow> clap_to_value a (clap_id sc k a) m)"
    by (cases a) (simp_all add: base_value_def clap_to_value_def split: option.split)
  moreover have "\<not> is_cli_exposed a \<longleftrightarrow> clap_to_value a (clap_id sc k a) m = None"
    by (simp add: clap_to_value_None)
  ultimately have "arguments_get (merge_args sch (Some ov) m sc) k =
      (if is_cli_exposed a \<and> ma_on_cli m (clap_id sc k a) then clap_to_value a (clap_id sc k a) m
       else (case arguments_get ov k of
           Some v \<Rightarrow> Some v
         | None \<Rightarrow> (case a of
               CustomArg _ d _ \<Rightarrow> Some (case d of Some v \<Rightarrow> v | None \<Rightarrow> SNone)
             | _ \<Rightarrow> clap_to_value a (clap_id sc k a) m)))"
    using assms
    by (auto simp: merge_args_get user_explicit_def base_value_def split: option.split)
  moreover have "is_explicit_key (merge_args sch (Some ov) m sc) k \<longleftrightarrow>
      is_cli_exposed a \<and> ma_on_cli m (clap_id sc k a)"
    using assms merge_schema_explicit [OF assms(1), of sc m arguments_new k]
    by (simp add: merge_args_def user_explicit_def)
  ultimately show ?thesis by blast
qed

theorem merge_args_precedence_witness:
  "let retries = IntArg \<lparr>fm_required = False, fm_short = None, fm_long = None,
         fm_description = None\<rparr> 1;
       ov = arguments_new\<lparr>args_entries := [(''retries'', SInt 2 :: unit star)]\<rparr>;
       m = \<lparr>ma_values = (\<lambda>_. Some [CI32 3]), ma_on_cli = (\<lambda>k. k = ''f:retries'')\<rparr>
   in arguments_get (merge_args [(''retries'', retries)] (Some ov) m TaskScope) ''retries'' =
        Some (SInt 2) \<and>
      arguments_get (merge_args [(''retries'', retries)] (Some ov) m (FeatureScope ''f'')) ''retries'' =
        Some (SInt 3)"
proof -
  let ?fm = "\<lparr>fm_required = False, fm_short = None, fm_long = None, fm_description = None\<rparr>"
  let ?sch = "[(''retries'', IntArg ?fm 1 :: unit arg)]"
  let ?ov = "arguments_new\<lparr>args_entries := [(''retries'', SInt 2 :: unit star)]\<rparr>"
  let ?m = "\<lparr>ma_values = (\<lambda>_. Some [CI32 3]), ma_on_cli = (\<lambda>k. k = ''f:retries'')\<rparr>"
  have "clap_id TaskScope ''retries'' (IntArg ?fm 1 :: unit arg) = ''retries''"
    "clap_id (FeatureScope ''f'') ''retries'' (IntArg ?fm 1 :: unit arg) = ''f:retries''"
    "sint (3 :: 32 word) = 3"
    by code_simp+
  moreover have "arguments_get ?ov ''retries'' = Some (SInt 2)" by (simp add: arguments_get_def)
  ultimately show ?thesis
    using merge_args_precedence [of ?sch ?ov "''retries''" "IntArg ?fm 1" ?m TaskScope]
      merge_args_precedence [of ?sch ?ov "''retries''" "IntArg ?fm 1" ?m "FeatureScope ''f''"]
    by (simp add: arguments_wf_def is_cli_exposed_def clap_to_value_def get_one_def get_many_def
        map_filter_def Let_def)
qed

text \<open>C21. \<open>aspect describe\<close> tells the truth: the default it prints for an argument is the value the
  task or feature runs with when the user does not pass the flag, whether that default is
  declared or comes from \<open>config.axl\<close>, and with its own type. (A positional without a default and
  trailing arguments have none to print.)\<close>

theorem described_default_is_effective:
  assumes "distinct (map fst sch)" and "map_of sch k = Some a" and "arguments_wf ov"
    and "arg_to_clap sc k a = Some ca" and "clap_supplies ca m"
    and "\<And>v. arguments_get ov k = Some v \<Longrightarrow> fits a v"
    and "\<And>lo hi desc. arguments_get ov k = None \<Longrightarrow> a \<noteq> PositionalArg lo hi None desc"
    and "\<And>d. a \<noteq> TrailingVarArgs d"
  shows "jget ''default'' (describe_with_override sc (stringify_overrides txt (Some ov)) k a) =
    map_option star_json (arguments_get (merge_args sch (Some ov) m sc) k)"
proof -
  have cid: "ca_id ca = clap_id sc k a"
    using assms(4) by (cases a)
      (auto simp: arg_to_clap_def clap_flag_def clap_positional_def Let_def split: option.splits)
  have exposed: "is_cli_exposed a"
    using assms(4) by (cases a) (auto simp: arg_to_clap_def is_cli_exposed_def)
  have over: "map_of (stringify_overrides txt (Some ov)) k =
      map_option (stringify_override txt) (arguments_get ov k)"
    by (simp add: stringify_overrides_def arguments_get_def map_of_map)
  have "\<not> user_explicit sc sch m k"
    using assms(2,5) by (simp add: user_explicit_def clap_supplies_def cid)
  then have merged: "arguments_get (merge_args sch (Some ov) m sc) k =
      (case arguments_get ov k of Some v \<Rightarrow> Some v | None \<Rightarrow> Some (base_value sc m k a))"
    using merge_args_get [OF assms(1,3), of m sc k] assms(2) by (auto split: option.split)
  have plain: "jget ''default'' (describe_arg sc k a) = Some (default_json a)"
    by (simp add: describe_arg_def Let_def split: prod.split)
  have set: "jget ''default'' (jset ''default_from_config'' y (jset ''default'' x (describe_arg sc k a)))
      = Some x" for x y
    by (simp add: describe_arg_def Let_def update_conv' split: prod.split)
  show ?thesis
  proof (cases "arguments_get ov k")
    case None
    then show ?thesis
      using base_value_default [OF assms(4,5)] assms(7,8) over merged plain
      by (simp add: describe_with_override_def)
  next
    case (Some v)
    then show ?thesis
      using override_as_default_value [OF assms(6) exposed assms(8)] over merged set
      by (simp add: describe_with_override_def)
  qed
qed

theorem described_default_is_effective_witness:
  "let fm = \<lparr>fm_required = False, fm_short = None, fm_long = None, fm_description = None\<rparr>;
       jobs = IntListArg fm [1, 2];
       m = \<lparr>ma_values = (\<lambda>_. Some [CI32 1, CI32 2]), ma_on_cli = (\<lambda>_. False)\<rparr>;
       merged = merge_args [(''jobs'', jobs)] (Some (arguments_new :: unit arguments)) m TaskScope
   in arguments_get merged ''jobs'' = Some (SList [SInt 1, SInt 2]) \<and>
      jget ''default'' (describe_with_override TaskScope
        (stringify_overrides (\<lambda>_. []) (Some (arguments_new :: unit arguments))) ''jobs'' jobs) =
        map_option star_json (arguments_get merged ''jobs'')"
proof -
  let ?fm = "\<lparr>fm_required = False, fm_short = None, fm_long = None, fm_description = None\<rparr>"
  let ?a = "IntListArg ?fm [1, 2] :: unit arg"
  let ?m = "\<lparr>ma_values = (\<lambda>_. Some [CI32 1, CI32 2]), ma_on_cli = (\<lambda>_. False)\<rparr>"
  let ?ca = "(clap_flag ''jobs'' ''jobs'' ?fm VI32 [''1'', ''2''])\<lparr>ca_append := True\<rparr>"
  have ca: "arg_to_clap TaskScope ''jobs'' ?a = Some ?ca" by code_simp
  have "parse_i32 ''1'' = Some 1" "parse_i32 ''2'' = Some 2" by code_simp+
  then have sup: "clap_supplies ?ca ?m"
    by (simp add: clap_supplies_def clap_flag_def clap_parse_def)
  have "jget ''default'' (describe_with_override TaskScope
        (stringify_overrides (\<lambda>_. []) (Some (arguments_new :: unit arguments))) ''jobs'' ?a) =
      map_option star_json (arguments_get (merge_args [(''jobs'', ?a)] (Some arguments_new) ?m TaskScope) ''jobs'')"
    by (rule described_default_is_effective [OF _ _ _ ca sup]) simp_all
  moreover have "sint (1 :: 32 word) = 1" "sint (2 :: 32 word) = 2" by code_simp+
  then have "arguments_get (merge_args [(''jobs'', ?a)] (Some arguments_new) ?m TaskScope) ''jobs'' =
      Some (SList [SInt 1, SInt 2])"
    by (simp add: merge_args_get user_explicit_def base_value_def clap_to_value_def get_many_def
        map_filter_def)
  ultimately show ?thesis by (simp add: Let_def)
qed

text \<open>For trailing arguments it does not: the task gets the whole list of the override, the
  description shows its first element.\<close>

lemma trailing_override_is_misdescribed:
  "let a = TrailingVarArgs None :: unit arg;
       ov = arguments_new\<lparr>args_entries := [(''rest'', SList [SStr ''a'', SStr ''b''])]\<rparr>;
       m = \<lparr>ma_values = (\<lambda>_. None), ma_on_cli = (\<lambda>_. False)\<rparr>
   in arguments_get (merge_args [(''rest'', a)] (Some ov) m TaskScope) ''rest'' =
        Some (SList [SStr ''a'', SStr ''b'']) \<and>
      jget ''default'' (describe_with_override TaskScope (stringify_overrides (\<lambda>_. []) (Some ov))
        ''rest'' a) = Some (JStr ''a'')"
  by (simp add: merge_args_get arguments_wf_def user_explicit_def is_cli_exposed_def
      arguments_get_def [of "arguments_new\<lparr>args_entries := _\<rparr>"] Let_def
      stringify_overrides_def describe_with_override_def describe_arg_def
      stringify_override_def stringify_value_def override_as_default_def)

end
