(* ===== verification/Task_Name.thy ===== *)
theory Task_Name
  imports Names Rust_Path
begin

text \<open>
  The name of a task run (crates/axl-runtime/src/ci.rs, and the naming part of \<open>Cmd::dispatch\<close> in
  crates/aspect-cli/src/cmd.rs): explicit names, names derived from the CI job, and how runs on
  one machine keep the derived names apart with marker files. The environment is the function
  \<open>get\<close>; the directory of markers is the set of the names that exist there, and \<open>fails\<close> says for
  which names the file system reports an error other than \<open>AlreadyExists\<close>.
\<close>

section \<open>CI hosts\<close>

type_synonym env = "string \<Rightarrow> string option"

definition CI_MARKERS :: "string list" where
  "CI_MARKERS = [''CI'', ''BUILDKITE'', ''GITHUB_ACTIONS'', ''CIRCLECI'', ''GITLAB_CI'']"

definition is_ci_from :: "(string \<Rightarrow> bool) \<Rightarrow> bool" where
  "is_ci_from present = list_ex present CI_MARKERS"

type_synonym var_table = "(string \<times> string list) list"

definition CI_JOB_NAME_VARS :: var_table where
  "CI_JOB_NAME_VARS =
     [(''GITHUB_ACTIONS'', [''GITHUB_JOB'']),
      (''BUILDKITE'', [''BUILDKITE_STEP_KEY'', ''BUILDKITE_LABEL'']),
      (''CIRCLECI'', [''CIRCLE_JOB'']),
      (''GITLAB_CI'', [''CI_JOB_NAME''])]"

definition CI_SHARD_INDEX_VARS :: var_table where
  "CI_SHARD_INDEX_VARS =
     [(''BUILDKITE'', [''BUILDKITE_PARALLEL_JOB'']), (''CIRCLECI'', [''CIRCLE_NODE_INDEX''])]"

definition CI_RUN_SCOPE_VARS :: var_table where
  "CI_RUN_SCOPE_VARS =
     [(''GITHUB_ACTIONS'', [''GITHUB_RUN_ID'', ''GITHUB_RUN_ATTEMPT'']),
      (''BUILDKITE'', [''BUILDKITE_BUILD_ID'']),
      (''CIRCLECI'', [''CIRCLE_WORKFLOW_ID'']),
      (''GITLAB_CI'', [''CI_PIPELINE_ID''])]"

definition blank_text :: "string \<Rightarrow> bool" where
  "blank_text s \<longleftrightarrow> trim s = []"

fun first_value :: "env \<Rightarrow> string list \<Rightarrow> string option" where
  "first_value get [] = None"
| "first_value get (v # vs) =
     (case get v of
        Some x \<Rightarrow> if blank_text x then first_value get vs else Some x
      | None \<Rightarrow> first_value get vs)"

fun first_present_value :: "var_table \<Rightarrow> env \<Rightarrow> string option" where
  "first_present_value [] get = None"
| "first_present_value ((marker, vars) # rest) get =
     (if get marker = None then first_present_value rest get else first_value get vars)"

text \<open>The loop of \<open>sanitize_name\<close>. The bytes of a non-ASCII character are no letters, digits or
  underscores, so that going through the bytes is going through the characters.\<close>

definition name_char :: "char \<Rightarrow> bool" where
  "name_char c \<longleftrightarrow> is_alnum c \<or> c = CHR ''_''"

fun sanitize_loop :: "string \<Rightarrow> bool \<Rightarrow> string \<Rightarrow> string" where
  "sanitize_loop out pending_dash [] = out"
| "sanitize_loop out pending_dash (c # cs) =
     (if name_char c
      then sanitize_loop ((if pending_dash \<and> out \<noteq> [] then out @ ''-'' else out) @ [c]) False cs
      else sanitize_loop out True cs)"

definition sanitize_name :: "string \<Rightarrow> string option" where
  "sanitize_name raw =
     (let out = sanitize_loop [] False raw in if out = [] then None else Some out)"

definition ci_job_name :: "env \<Rightarrow> string option" where
  "ci_job_name get =
     (case Option.bind (first_present_value CI_JOB_NAME_VARS get) sanitize_name of
        None \<Rightarrow> None
      | Some job \<Rightarrow>
          (case Option.bind (first_present_value CI_SHARD_INDEX_VARS get) sanitize_name of
             Some shard \<Rightarrow> Some (job @ ''-'' @ shard)
           | None \<Rightarrow> Some job))"

fun scope_of :: "var_table \<Rightarrow> env \<Rightarrow> string option" where
  "scope_of [] get = None"
| "scope_of ((marker, vars) # rest) get =
     (if get marker = None then scope_of rest get
      else sanitize_name
        (join ''-'' (filter (\<lambda>s. \<not> blank_text s) (List.map_filter get vars))))"

definition run_scope :: "env \<Rightarrow> string option" where
  "run_scope get = scope_of CI_RUN_SCOPE_VARS get"

definition nonempty_var :: "env \<Rightarrow> string \<Rightarrow> string option" where
  "nonempty_var get v = (case get v of Some x \<Rightarrow> if x = [] then None else Some x | None \<Rightarrow> None)"

definition dedup_dir :: "string \<Rightarrow> env \<Rightarrow> string" where
  "dedup_dir temp_dir get =
     (let base = (case nonempty_var get ''ASPECT_WORKFLOWS_RUNNER_JOB_TMPDIR'' of
            Some d \<Rightarrow> d
          | None \<Rightarrow> (case nonempty_var get ''RUNNER_TEMP'' of
              Some d \<Rightarrow> d
            | None \<Rightarrow> (case nonempty_var get ''TMPDIR'' of Some d \<Rightarrow> d | None \<Rightarrow> temp_dir)));
          scope = (case run_scope get of Some s \<Rightarrow> s | None \<Rightarrow> ''local'')
      in path_join (path_join base ''aspect-task-names'') scope)"

section \<open>Reserving a name\<close>

datatype claim_result = Won | Taken | Error

definition claim :: "(string \<Rightarrow> bool) \<Rightarrow> string \<Rightarrow> string set \<Rightarrow> claim_result \<times> string set" where
  "claim fails candidate taken =
     (if fails candidate then (Error, taken)
      else if candidate \<in> taken then (Taken, taken)
      else (Won, insert candidate taken))"

definition MAX_NAME_PROBE :: nat where
  "MAX_NAME_PROBE = 1000"

definition candidate :: "string \<Rightarrow> nat \<Rightarrow> string" where
  "candidate base n = (if n = 1 then base else base @ ''-'' @ show_nat n)"

text \<open>A process that reserves a name is at a probe or has finished; one step is one claim, which
  the file system makes atomic. The flag of \<open>Reserved\<close> says whether the marker is its own.\<close>

datatype reserving = Probing string nat | Reserved string bool

definition probe_step :: "(string \<Rightarrow> bool) \<Rightarrow> reserving \<Rightarrow> string set \<Rightarrow> reserving \<times> string set" where
  "probe_step fails r taken =
     (case r of
        Reserved name won \<Rightarrow> (r, taken)
      | Probing base n \<Rightarrow>
          if n > MAX_NAME_PROBE then (Reserved base False, taken)
          else (case claim fails (candidate base n) taken of
              (Won, taken') \<Rightarrow> (Reserved (candidate base n) True, taken')
            | (Taken, taken') \<Rightarrow> (Probing base (n + 1), taken')
            | (Error, taken') \<Rightarrow> (Reserved base False, taken')))"

function reserve_from :: "(string \<Rightarrow> bool) \<Rightarrow> string \<Rightarrow> nat \<Rightarrow> string set \<Rightarrow> string \<times> string set" where
  "reserve_from fails base n taken =
     (if n > MAX_NAME_PROBE then (base, taken)
      else (case claim fails (candidate base n) taken of
          (Won, taken') \<Rightarrow> (candidate base n, taken')
        | (Taken, taken') \<Rightarrow> reserve_from fails base (n + 1) taken'
        | (Error, taken') \<Rightarrow> (base, taken')))"
  by pat_completeness auto
termination
  by (relation "measure (\<lambda>(_, _, n, _). MAX_NAME_PROBE + 1 - n)") auto

declare reserve_from.simps [simp del]

definition reserve_task_name ::
  "(string \<Rightarrow> bool) \<Rightarrow> string \<Rightarrow> string set \<Rightarrow> string \<times> string set" where
  "reserve_task_name fails base taken = reserve_from fails base 1 taken"

text \<open>The directory may fail to be created; then nothing is claimed.\<close>

definition reserve_task_name_in_tmpdir ::
  "bool \<Rightarrow> (string \<Rightarrow> bool) \<Rightarrow> string \<Rightarrow> string set \<Rightarrow> string \<times> string set" where
  "reserve_task_name_in_tmpdir dir_ok fails base taken =
     (if \<not> dir_ok then (base, taken) else reserve_task_name fails base taken)"

record auto_task_name =
  at_name :: string
  at_meaningful :: bool

definition auto_task_name_for ::
  "env \<Rightarrow> bool \<Rightarrow> (string \<Rightarrow> bool) \<Rightarrow> string \<Rightarrow> string \<Rightarrow> string set \<Rightarrow> auto_task_name \<times> string set" where
  "auto_task_name_for get dir_ok fails kind fallback_suffix taken =
     (case ci_job_name get of
        Some job \<Rightarrow>
          (let (name, taken') =
             reserve_task_name_in_tmpdir dir_ok fails (kind @ ''-'' @ job) taken
           in (\<lparr>at_name = name, at_meaningful = True\<rparr>, taken'))
      | None \<Rightarrow> (\<lparr>at_name = kind @ ''-'' @ fallback_suffix, at_meaningful = False\<rparr>, taken))"

section \<open>Choosing the name of a run\<close>

definition task_name_char :: "char \<Rightarrow> bool" where
  "task_name_char c \<longleftrightarrow> is_alnum c \<or> c = CHR ''_'' \<or> c = CHR ''-''"

definition parse_task_name :: "string \<Rightarrow> string + string" where
  "parse_task_name s =
     (if list_all (ascii_char task_name_char) (utf8_chars s) then Inr s
      else Inl ([CHR 0x27] @ s @ [CHR 0x27] @
        '' contains invalid characters (allowed: A-Za-z0-9, _, -)''))"

text \<open>What the command line of a run says about its name, as clap has parsed it.\<close>

record name_flags =
  nf_task_name :: "string option"
  nf_task_key :: "string option"

definition given :: "string option \<Rightarrow> string option" where
  "given v = (case v of Some s \<Rightarrow> if s = [] then None else Some s | None \<Rightarrow> None)"

definition dispatch_task_name ::
  "env \<Rightarrow> bool \<Rightarrow> (string \<Rightarrow> bool) \<Rightarrow> name_flags \<Rightarrow> string \<Rightarrow> string \<Rightarrow> string set \<Rightarrow>
   auto_task_name \<times> string set" where
  "dispatch_task_name get dir_ok fails nf kind random_suffix taken =
     (case (case given (nf_task_name nf) of Some n \<Rightarrow> Some n | None \<Rightarrow> given (nf_task_key nf)) of
        Some name \<Rightarrow> (\<lparr>at_name = name, at_meaningful = True\<rparr>, taken)
      | None \<Rightarrow> auto_task_name_for get dir_ok fails kind random_suffix taken)"

section \<open>Sanitized names\<close>

definition name_words_of :: "string \<Rightarrow> string list" where
  "name_words_of raw = filter (\<lambda>w. w \<noteq> []) (split_pred (\<lambda>c. \<not> name_char c) raw)"

lemma split_pred_not_Nil [simp]: "split_pred P s \<noteq> []"
  by (cases s) (auto split: list.splits)

abbreviation dashed :: "string list \<Rightarrow> string" where
  "dashed ws \<equiv> concat (map (Cons CHR ''-'') ws)"

lemma join_dashed: "join ''-'' (w # ws) = w @ dashed ws"
  by (induction ws arbitrary: w) auto

lemma sanitize_loop_started:
  "out \<noteq> [] \<Longrightarrow> sanitize_loop out True cs = out @ dashed (name_words_of cs) \<and>
   sanitize_loop out False cs = out @ hd (split_pred (\<lambda>c. \<not> name_char c) cs) @
     dashed (filter (\<lambda>w. w \<noteq> []) (tl (split_pred (\<lambda>c. \<not> name_char c) cs)))"
proof (induction cs arbitrary: out)
  case (Cons c cs)
  obtain w ws where "split_pred (\<lambda>c. \<not> name_char c) cs = w # ws"
    by (meson list.exhaust split_pred_not_Nil)
  then show ?case
    using Cons.IH [of "out @ [c]"] Cons.IH [of "out @ ''-'' @ [c]"] Cons.IH [of out] Cons.prems
    by (auto simp: name_words_of_def)
qed (simp add: name_words_of_def)

lemma sanitize_loop_empty: "sanitize_loop [] pd cs = join ''-'' (name_words_of cs)"
proof (induction cs arbitrary: pd)
  case (Cons c cs)
  obtain w ws where s: "split_pred (\<lambda>c. \<not> name_char c) cs = w # ws"
    by (meson list.exhaust split_pred_not_Nil)
  show ?case
  proof (cases "name_char c")
    case True
    then have "name_words_of (c # cs) = (c # w) # filter (\<lambda>w. w \<noteq> []) ws"
      by (simp add: name_words_of_def s)
    with True show ?thesis
      using sanitize_loop_started [of "[c]" cs] s by (simp add: join_dashed del: join.simps)
  next
    case False
    then show ?thesis using Cons.IH by (simp add: name_words_of_def)
  qed
qed (simp add: name_words_of_def)

lemma sanitize_name_words:
  "sanitize_name raw =
     (if name_words_of raw = [] then None else Some (join ''-'' (name_words_of raw)))"
proof -
  have "join ''-'' ws = [] \<longleftrightarrow> ws = []" if "[] \<notin> set ws" for ws
    using that by (cases ws) (auto simp: join_dashed simp del: join.simps(2,3))
  moreover have "[] \<notin> set (name_words_of raw)" by (simp add: name_words_of_def)
  ultimately show ?thesis by (simp add: sanitize_name_def sanitize_loop_empty)
qed

lemma split_pred_clean: "w \<in> set (split_pred P s) \<Longrightarrow> x \<in> set w \<Longrightarrow> \<not> P x"
proof (induction s arbitrary: w)
  case (Cons y s)
  then show ?case by (cases "split_pred P s") (fastforce split: if_splits)+
qed simp

lemma sanitize_name_chars:
  assumes "sanitize_name raw = Some s"
  shows "s \<noteq> [] \<and> list_all task_name_char s \<and> hd s \<noteq> CHR ''-'' \<and> last s \<noteq> CHR ''-''"
proof -
  let ?ws = "name_words_of raw"
  from assms have s: "?ws \<noteq> []" "s = join ''-'' ?ws"
    by (auto simp: sanitize_name_words split: if_splits)
  have w: "w \<noteq> [] \<and> (\<forall>x \<in> set w. name_char x)" if "w \<in> set ?ws" for w
    using that split_pred_clean by (fastforce simp: name_words_of_def)
  have "\<not> name_char CHR ''-''"
    by (simp add: name_char_def is_alnum_def is_lower_nat is_upper_nat is_digit_nat)
  then have nd: "w \<noteq> [] \<and> CHR ''-'' \<notin> set w" if "w \<in> set ?ws" for w using w [OF that] by auto
  note j = join_words [OF s(1) nd]
  have "list_all task_name_char s"
    using set_join [of ?ws] w by (auto simp: list_all_iff s(2) task_name_char_def name_char_def)
  moreover have "hd (hd ?ws) \<noteq> CHR ''-''" using nd [of "hd ?ws"] s(1) by (metis hd_in_set)
  ultimately show ?thesis using j by (simp add: s(2))
qed


lemma task_name_char_ascii: "task_name_char c \<Longrightarrow> \<not> utf8_cont c"
  using ascii_not_cont by (auto simp: task_name_char_def)

lemma parse_task_name_Inr: "parse_task_name s = Inr t \<longleftrightarrow> t = s \<and> list_all task_name_char s"
proof -
  have "list_all (ascii_char task_name_char) (utf8_chars s) \<longleftrightarrow> list_all task_name_char s"
  proof
    assume "list_all task_name_char s"
    moreover from this have "utf8_chars s = map (\<lambda>b. [b]) s"
      using task_name_char_ascii by (intro utf8_chars_ascii) (auto simp: list_all_iff)
    ultimately show "list_all (ascii_char task_name_char) (utf8_chars s)"
      by (auto simp: list_all_iff ascii_char_def)
  qed (use utf8_chars_all in blast)
  then show ?thesis by (auto simp: parse_task_name_def)
qed

lemma candidate_chars:
  assumes "base \<noteq> []" and "list_all task_name_char base"
  shows "candidate base n \<noteq> [] \<and> list_all task_name_char (candidate base n)"
proof -
  have "list_all task_name_char (show_nat n)"
    using show_nat_digits by (auto simp: list_all_iff task_name_char_def is_alnum_def)
  moreover have "task_name_char CHR ''-''" by (simp add: task_name_char_def)
  ultimately show ?thesis using assms by (simp add: candidate_def)
qed

section \<open>Reservations\<close>

lemma reserve_from_name:
  "fst (reserve_from fails base n taken) \<in> insert base (range (candidate base))"
proof (induction fails base n taken rule: reserve_from.induct)
  case (1 fails base n taken)
  show ?case
    by (subst reserve_from.simps) (use 1 in \<open>auto simp: claim_def split: if_splits\<close>)
qed

lemma reserve_from_wins:
  assumes "\<And>c. \<not> fails c" and "n \<le> k" and "k \<le> MAX_NAME_PROBE" and "candidate base k \<notin> taken"
  shows "\<exists>name. reserve_from fails base n taken = (name, insert name taken) \<and> name \<notin> taken"
  using assms(2)
proof (induction n rule: inc_induct)
  case base
  show ?case by (subst reserve_from.simps) (use assms in \<open>simp add: claim_def\<close>)
next
  case (step n)
  then have n: "\<not> n > MAX_NAME_PROBE" using assms(3) by simp
  show ?case
  proof (cases "candidate base n \<in> taken")
    case True
    with n have "reserve_from fails base n taken = reserve_from fails base (Suc n) taken"
      by (subst reserve_from.simps) (simp add: claim_def assms(1))
    with step.IH show ?thesis by simp
  next
    case False
    with n show ?thesis by (subst reserve_from.simps) (simp add: claim_def assms(1))
  qed
qed

lemma inj_candidate: "inj_on (candidate base) {1..MAX_NAME_PROBE}"
proof -
  have "show_nat m = show_nat n \<Longrightarrow> m = n" for m n by (metis read_show_nat)
  then show ?thesis by (auto simp: inj_on_def candidate_def split: if_splits)
qed

lemma free_candidate:
  assumes "finite taken" and "card taken < MAX_NAME_PROBE"
  obtains k where "1 \<le> k" "k \<le> MAX_NAME_PROBE" "candidate base k \<notin> taken"
proof -
  have "\<not> candidate base ` {1..MAX_NAME_PROBE} \<subseteq> taken"
  proof
    assume "candidate base ` {1..MAX_NAME_PROBE} \<subseteq> taken"
    then have "card {1..MAX_NAME_PROBE} \<le> card taken"
      using assms(1) inj_candidate by (metis card_image card_mono)
    with assms(2) show False by simp
  qed
  then obtain k where "k \<in> {1..MAX_NAME_PROBE}" "candidate base k \<notin> taken" by blast
  then show thesis by (intro that [of k]) auto
qed

text \<open>Any number of processes reserve names in the same directory: in each step one of them makes
  its next claim.\<close>

inductive reservations ::
  "(string \<Rightarrow> bool) \<Rightarrow> string list \<Rightarrow> string set \<Rightarrow> reserving list \<Rightarrow> string set \<Rightarrow> bool"
  for fails bases taken0 where
  start: "reservations fails bases taken0 (map (\<lambda>b. Probing b 1) bases) taken0"
| claims: "reservations fails bases taken0 ps taken \<Longrightarrow> i < length ps \<Longrightarrow>
    probe_step fails (ps ! i) taken = (r, taken') \<Longrightarrow>
    reservations fails bases taken0 (ps[i := r]) taken'"

definition owned :: "reserving \<Rightarrow> string set" where
  "owned r = (case r of Reserved name True \<Rightarrow> {name} | _ \<Rightarrow> {})"

lemma probe_step_owned:
  assumes "probe_step fails r taken = (r', taken')"
  shows "owned r' = owned r \<and> taken' = taken \<or>
    owned r = {} \<and> owned r' \<inter> taken = {} \<and> taken' = taken \<union> owned r'"
  using assms
  by (cases r)
    (auto simp: probe_step_def claim_def owned_def split: if_splits bool.splits)

text \<open>The bases, candidates and markers of the processes.\<close>

definition reserving_ok :: "string \<Rightarrow> reserving \<Rightarrow> bool" where
  "reserving_ok base r \<longleftrightarrow> (case r of
     Probing b n \<Rightarrow> b = base \<and> 1 \<le> n
   | Reserved name won \<Rightarrow> name \<in> insert base (range (candidate base)))"

lemma probe_step_ok: "reserving_ok base r \<Longrightarrow> reserving_ok base (fst (probe_step fails r taken))"
  by (auto simp: probe_step_def claim_def reserving_ok_def split: reserving.splits if_splits)

text \<open>The loop of one process is the iteration of its steps.\<close>

lemma reserve_from_steps:
  "\<exists>k won. ((\<lambda>(r, t). probe_step fails r t) ^^ k) (Probing base n, taken) =
     (Reserved (fst (reserve_from fails base n taken)) won, snd (reserve_from fails base n taken))"
proof (induction fails base n taken rule: reserve_from.induct)
  case (1 fails base n taken)
  let ?step = "\<lambda>(r, t). probe_step fails r t"
  show ?case
  proof (cases "n > MAX_NAME_PROBE \<or> fails (candidate base n) \<or> candidate base n \<notin> taken")
    case True
    then show ?thesis
      by (intro exI [of _ 1], subst (1 2) reserve_from.simps) (auto simp: probe_step_def claim_def)
  next
    case False
    then have rec: "reserve_from fails base n taken = reserve_from fails base (n + 1) taken"
      by (subst reserve_from.simps) (simp add: claim_def)
    from False have one: "?step (Probing base n, taken) = (Probing base (n + 1), taken)"
      by (simp add: probe_step_def claim_def)
    from 1 [of Taken taken] False obtain k won where
      "(?step ^^ k) (Probing base (n + 1), taken) =
       (Reserved (fst (reserve_from fails base (n + 1) taken)) won,
        snd (reserve_from fails base (n + 1) taken))"
      by (auto simp: claim_def)
    then have "(?step ^^ Suc k) (Probing base n, taken) =
       (Reserved (fst (reserve_from fails base n taken)) won, snd (reserve_from fails base n taken))"
      by (simp only: funpow_Suc_right comp_apply one rec)
    then show ?thesis by blast
  qed
qed

lemma reservations_invariant:
  assumes "reservations fails bases taken0 ps taken"
  shows "length ps = length bases \<and> taken0 \<subseteq> taken \<and>
    (\<forall>i < length ps. reserving_ok (bases ! i) (ps ! i) \<and>
      owned (ps ! i) \<subseteq> taken \<and> owned (ps ! i) \<inter> taken0 = {} \<and>
      (\<forall>j < length ps. i \<noteq> j \<longrightarrow> owned (ps ! i) \<inter> owned (ps ! j) = {}))"
  using assms
proof (induction rule: reservations.induct)
  case start
  show ?case by (simp add: owned_def reserving_ok_def)
next
  case (claims ps taken i r taken')
  have ok: "reserving_ok (bases ! i) r"
    using claims.IH claims.hyps(2,3) probe_step_ok [of "bases ! i" "ps ! i" fails taken] by simp
  consider "owned r = owned (ps ! i)" "taken' = taken"
    | "owned r \<inter> taken = {}" "taken' = taken \<union> owned r"
    using probe_step_owned [OF claims.hyps(3)] by blast
  then show ?case
  proof cases
    case 1
    have "owned (ps[i := r] ! j) = owned (ps ! j)" if "j < length ps" for j
      using that 1(1) by (cases "i = j") auto
    moreover have "reserving_ok (bases ! j) (ps[i := r] ! j)" if "j < length ps" for j
      using that claims.IH ok by (cases "i = j") auto
    ultimately show ?thesis using claims.IH 1(2) by simp
  next
    case 2
    have "reserving_ok (bases ! j) (ps[i := r] ! j)" if "j < length ps" for j
      using that claims.IH ok by (cases "i = j") auto
    moreover have "owned (ps[i := r] ! j) \<subseteq> taken' \<and> owned (ps[i := r] ! j) \<inter> taken0 = {}"
      if "j < length ps" for j using that claims.IH 2 by (cases "i = j") auto
    moreover have "owned (ps[i := r] ! j) \<inter> owned (ps[i := r] ! k) = {}"
      if jk: "j < length ps" "k < length ps" "j \<noteq> k" for j k
    proof -
      have "owned (ps ! j) \<inter> owned (ps ! k) = {}" "owned (ps ! j) \<subseteq> taken" "owned (ps ! k) \<subseteq> taken"
        using claims.IH jk by simp_all
      then show ?thesis using jk 2(1) by (cases "i = j"; cases "i = k") auto
    qed
    ultimately show ?thesis using claims.IH 2(2) by auto
  qed
qed

section \<open>Properties\<close>

text \<open>C30. However the claims of concurrent runs on one machine interleave, two runs that own a marker
  have different names, and no run takes a name that was taken before; a run that finds fewer
  than a thousand names taken and no file system error does get one of its own.\<close>

theorem reserved_names_distinct:
  assumes "reservations fails bases taken0 ps taken"
    and "i < length ps" and "j < length ps" and "i \<noteq> j"
    and "ps ! i = Reserved a True" and "ps ! j = Reserved b True"
  shows "a \<noteq> b \<and> {a, b} \<inter> taken0 = {} \<and> {a, b} \<subseteq> taken \<and>
    (finite taken \<and> card taken < MAX_NAME_PROBE \<longrightarrow>
      (\<exists>c. reserve_task_name (\<lambda>_. False) base taken = (c, insert c taken) \<and> c \<notin> taken))"
proof -
  have "a \<noteq> b \<and> {a, b} \<inter> taken0 = {} \<and> {a, b} \<subseteq> taken"
  proof -
    have "owned (ps ! i) = {a}" "owned (ps ! j) = {b}" using assms by (simp_all add: owned_def)
    moreover have "length ps = length bases" "owned (ps ! i) \<subseteq> taken" "owned (ps ! j) \<subseteq> taken"
      "owned (ps ! i) \<inter> taken0 = {}" "owned (ps ! j) \<inter> taken0 = {}"
      "owned (ps ! i) \<inter> owned (ps ! j) = {}"
      using reservations_invariant [OF assms(1)] assms(2-4) by simp_all
    ultimately show ?thesis by auto
  qed
  moreover have "\<exists>c. reserve_task_name (\<lambda>_. False) base taken = (c, insert c taken) \<and> c \<notin> taken"
    if "finite taken" "card taken < MAX_NAME_PROBE"
    using free_candidate [OF that, of base] reserve_from_wins [of "\<lambda>_. False" 1 _ base taken]
    unfolding reserve_task_name_def by metis
  ultimately show ?thesis by blast
qed

theorem reserved_names_distinct_witness:
  "''test-ci'' \<noteq> ''test-ci-2'' \<and>
   reserve_task_name (\<lambda>_. False) ''test-ci'' {''test-ci'', ''test-ci-2''} =
     (''test-ci-3'', {''test-ci'', ''test-ci-2'', ''test-ci-3''})"
proof -
  let ?f = "\<lambda>_ :: string. False"
  let ?r = "reservations ?f [''test-ci'', ''test-ci''] {}"
  have cands: "candidate ''test-ci'' 1 = ''test-ci''" "candidate ''test-ci'' 2 = ''test-ci-2''"
    "candidate ''test-ci'' 3 = ''test-ci-3''" by code_simp+
  have "?r [Probing ''test-ci'' 1, Probing ''test-ci'' 1] {}"
    using reservations.start [of ?f "[''test-ci'', ''test-ci'']" "{}"] by simp
  note r = reservations.claims [OF this, of 1 "Reserved ''test-ci'' True" "{''test-ci''}"]
  have "?r [Probing ''test-ci'' 1, Reserved ''test-ci'' True] {''test-ci''}"
    using r by (simp add: probe_step_def MAX_NAME_PROBE_def claim_def cands [simplified])
  note r = reservations.claims [OF this, of 0 "Probing ''test-ci'' 2" "{''test-ci''}"]
  have "?r [Probing ''test-ci'' 2, Reserved ''test-ci'' True] {''test-ci''}"
    using r by (simp add: probe_step_def MAX_NAME_PROBE_def claim_def cands [simplified])
  note r = reservations.claims [OF this, of 0 "Reserved ''test-ci-2'' True" "{''test-ci'', ''test-ci-2''}"]
  have r: "?r [Reserved ''test-ci-2'' True, Reserved ''test-ci'' True] {''test-ci'', ''test-ci-2''}"
    using r by (simp add: probe_step_def MAX_NAME_PROBE_def claim_def cands insert_commute)
  have "reserve_task_name ?f ''test-ci'' {''test-ci'', ''test-ci-2''} =
     (''test-ci-3'', {''test-ci'', ''test-ci-2'', ''test-ci-3''})"
    by code_simp
  with reserved_names_distinct [OF r, of 1 0 "''test-ci''" "''test-ci-2''"] show ?thesis by simp
qed

text \<open>The name of a run is always one that \<open>--task:name\<close> itself would accept, whether it is
  explicit, derived from a CI job, a parallel shard and a number that keeps it apart, or random:
  it can be used wherever a name can be given.\<close>

theorem task_name_accepted:
  assumes "\<And>n. given (nf_task_name nf) = Some n \<Longrightarrow> parse_task_name n = Inr n"
    and "\<And>n. given (nf_task_key nf) = Some n \<Longrightarrow> parse_task_name n = Inr n"
    and "validate_command_name kind = Inr ()" and "parse_task_name random_suffix = Inr random_suffix"
    and "name = at_name (fst (dispatch_task_name get dir_ok fails nf kind random_suffix taken))"
  shows "parse_task_name name = Inr name \<and> name \<noteq> []"
proof -
  have kind: "list_all task_name_char kind" "kind \<noteq> []"
    using assms(3) by (cases kind; auto simp: validate_command_name_Inr list_all_iff command_char_def
        task_name_char_def is_alnum_def)+
  have dash: "task_name_char CHR ''-''" by (simp add: task_name_char_def)
  have job: "list_all task_name_char job" if "ci_job_name get = Some job" for job
    using that dash by (auto simp: ci_job_name_def bind_eq_Some_conv dest!: sanitize_name_chars
        split: option.splits)
  have base: "list_all task_name_char b \<and> b \<noteq> []"
    if "ci_job_name get = Some job"
      "b = fst (reserve_task_name_in_tmpdir dir_ok fails (kind @ ''-'' @ job) taken)" for job b
  proof -
    let ?base = "kind @ ''-'' @ job"
    have base: "list_all task_name_char ?base" "?base \<noteq> []" using kind dash job [OF that(1)] by auto
    have "b \<in> insert ?base (range (candidate ?base))"
      using reserve_from_name [of fails ?base 1 taken] that(2)
      by (auto simp: reserve_task_name_in_tmpdir_def reserve_task_name_def)
    then consider "b = ?base" | n where "b = candidate ?base n" by blast
    then show ?thesis using candidate_chars [of ?base] base by cases auto
  qed
  have "list_all task_name_char name \<and> name \<noteq> []"
  proof (cases "given (nf_task_name nf) = None \<and> given (nf_task_key nf) = None")
    case True
    then show ?thesis
      using base kind dash assms(4)
      by (auto simp: assms(5) dispatch_task_name_def auto_task_name_for_def parse_task_name_Inr
          split: option.splits prod.splits) (metis fst_conv)+
  next
    case False
    then have "given (nf_task_name nf) = Some name \<or> given (nf_task_key nf) = Some name"
      by (auto simp: assms(5) dispatch_task_name_def split: option.splits)
    with assms(1,2) show ?thesis
      by (auto simp: parse_task_name_Inr given_def split: option.splits if_splits)
  qed
  then show ?thesis by (simp add: parse_task_name_Inr)
qed

theorem task_name_accepted_witness:
  "parse_task_name ''test-linux-CI-linux-2'' = Inr ''test-linux-CI-linux-2'' \<and>
   ''test-linux-CI-linux-2'' \<noteq> []"
proof (rule task_name_accepted [where nf = "\<lparr>nf_task_name = Some [], nf_task_key = None\<rparr>"])
  show "''test-linux-CI-linux-2'' = at_name (fst (dispatch_task_name
      [''BUILDKITE'' \<mapsto> ''true'', ''BUILDKITE_LABEL'' \<mapsto> '':linux: CI / linux'']
      True (\<lambda>_. False) \<lparr>nf_task_name = Some [], nf_task_key = None\<rparr> ''test'' ''red-fox''
      {''test-linux-CI-linux''}))" by code_simp
qed (code_simp | simp add: given_def)+

end
