(* ===== verification/Bazel_Process.thy ===== *)
theory Bazel_Process
  imports Cli_Args Task_Name "HOL-Library.Multiset"
begin

text \<open>
  The Bazel processes that the CLI starts (crates/axl-runtime/src/engine/bazel): the registry of
  live clients (live.rs), what an operating system signal does to them (\<open>run_shutdown_sequence\<close> of
  crates/aspect-cli/src/main.rs), the probes of the server (info.rs), the cancellation of an
  invocation (cancel.rs) and the health check (health_check.rs, process.rs). What the operating
  system and Bazel answer are functions of the time or of the number of the probe; signals are
  recorded in a list, in the order in which they are sent.
\<close>

section \<open>Live clients\<close>

text \<open>A process id is an unsigned 32-bit number.\<close>

type_synonym pid = "32 word"

definition swap_remove :: "nat \<Rightarrow> 'a list \<Rightarrow> 'a list" where
  "swap_remove i xs = (if Suc i = length xs then butlast xs else (butlast xs)[i := last xs])"

fun position_of :: "'a \<Rightarrow> 'a list \<Rightarrow> nat option" where
  "position_of x [] = None"
| "position_of x (y # ys) = (if y = x then Some 0 else map_option Suc (position_of x ys))"

definition register_pid :: "'a \<Rightarrow> 'a list \<Rightarrow> 'a list" where
  "register_pid p reg = reg @ [p]"

definition drop_guard :: "'a \<Rightarrow> 'a list \<Rightarrow> 'a list" where
  "drop_guard p reg = (case position_of p reg of Some i \<Rightarrow> swap_remove i reg | None \<Rightarrow> reg)"

lemma position_of_Some: "position_of x xs = Some i \<Longrightarrow> i < length xs \<and> xs ! i = x"
  by (induction xs arbitrary: i) (auto split: if_splits)

lemma position_of_None [simp]: "position_of x xs = None \<longleftrightarrow> x \<notin> set xs"
  by (induction xs) auto

lemma mset_swap_remove: "i < length xs \<Longrightarrow> mset (swap_remove i xs) = mset xs - {#xs ! i#}"
proof (cases xs rule: rev_cases)
  case (snoc ys y)
  assume "i < length xs"
  then show ?thesis
    by (cases "i = length ys") (auto simp: snoc swap_remove_def nth_append mset_update)
qed simp

lemma mset_drop_guard: "mset (drop_guard p reg) = mset reg - {#p#}"
  by (auto simp: drop_guard_def mset_swap_remove diff_single_trivial dest: position_of_Some
      split: option.splits)

lemma mset_register: "mset (register_pid p reg) = mset reg + {#p#}"
  by (simp add: register_pid_def)

text \<open>Clients start and their guards are dropped, in any order.\<close>

datatype 'a live_event = Spawned 'a | Released 'a

fun live_step :: "'a list \<Rightarrow> 'a live_event \<Rightarrow> 'a list" where
  "live_step reg (Spawned p) = register_pid p reg"
| "live_step reg (Released p) = drop_guard p reg"

fun held_step :: "'a multiset \<Rightarrow> 'a live_event \<Rightarrow> 'a multiset" where
  "held_step held (Spawned p) = held + {#p#}"
| "held_step held (Released p) = held - {#p#}"

text \<open>C38. The registry holds exactly the clients whose guards are held: after any sequence of spawns
  and drops its process ids are, counted with multiplicity, those of the guards not yet dropped,
  whatever the order in which they are dropped and also when a process id is used again.\<close>

theorem registry_is_the_held_guards:
  "mset (foldl live_step [] evs) = foldl held_step {#} evs"
proof -
  have "mset (foldl live_step reg evs) = foldl held_step (mset reg) evs" for reg :: "'a list"
  proof (induction evs arbitrary: reg)
    case (Cons e evs)
    then show ?case by (cases e) (simp_all add: mset_register mset_drop_guard)
  qed simp
  from this [of "[]"] show ?thesis by simp
qed

section \<open>Shutdown\<close>

datatype shutdown_event =
  Sleep nat | SendInt pid | SendKill pid | Cancelling | LeaveBazel | KilledCount nat | ExitWith int

definition SIGINT_TICK :: nat where
  "SIGINT_TICK = 150"

definition SIGINT_GRACE :: nat where
  "SIGINT_GRACE = 3000"

definition POST_KILL_GRACE :: nat where
  "POST_KILL_GRACE = 1000"

text \<open>\<open>reg k\<close> and \<open>alive k\<close> are the registry and the running processes when the registry is read for
  the \<open>k\<close>-th time.\<close>

definition signal_all :: "pid list \<Rightarrow> (pid \<Rightarrow> bool) \<Rightarrow> shutdown_event list" where
  "signal_all pids running = map SendInt (filter running pids)"

definition force_kill_all_remaining ::
  "pid list \<Rightarrow> (pid \<Rightarrow> bool) \<Rightarrow> shutdown_event list \<times> nat" where
  "force_kill_all_remaining pids running =
     (map SendKill (filter running pids), length (filter running pids))"

definition run_shutdown_sequence ::
  "int \<Rightarrow> bool \<Rightarrow> (nat \<Rightarrow> pid list) \<Rightarrow> (nat \<Rightarrow> pid \<Rightarrow> bool) \<Rightarrow> shutdown_event list" where
  "run_shutdown_sequence exit_code on_ci reg alive =
     (if reg 0 = [] \<and> reg 1 = [] then [Sleep SIGINT_TICK, ExitWith exit_code]
      else (if reg 0 = [] then [Sleep SIGINT_TICK] else []) @ [Cancelling] @
        signal_all (reg 2) (alive 2) @ [Sleep SIGINT_TICK] @ signal_all (reg 3) (alive 3) @
        (if on_ci then [LeaveBazel, ExitWith exit_code]
         else [Sleep SIGINT_TICK] @ signal_all (reg 4) (alive 4) @ [Sleep SIGINT_GRACE] @
           (let (kills, killed) = force_kill_all_remaining (reg 5) (alive 5)
            in kills @ (if killed > 0 then [KilledCount killed, Sleep POST_KILL_GRACE] else [])) @
           [ExitWith exit_code]))"

text \<open>The exit code by the signal: \<open>130\<close> for \<open>SIGINT\<close> and \<open>143\<close> for \<open>SIGTERM\<close>.\<close>

definition shutdown_exit_code :: "bool \<Rightarrow> int" where
  "shutdown_exit_code is_sigint = (if is_sigint then 130 else 143)"

definition slept :: "shutdown_event list \<Rightarrow> nat" where
  "slept evs = sum_list (map (\<lambda>e. case e of Sleep n \<Rightarrow> n | _ \<Rightarrow> 0) evs)"

definition sent_int :: "pid \<Rightarrow> shutdown_event list \<Rightarrow> nat" where
  "sent_int p evs = length (filter (\<lambda>e. e = SendInt p) evs)"

lemma slept_simps [simp]:
  "slept [] = 0" "slept (Sleep n # evs) = n + slept evs"
  "slept (xs @ ys) = slept xs + slept ys" "slept (signal_all ps r) = 0"
  "slept (map SendKill qs) = 0" "slept (Cancelling # evs) = slept evs"
  "slept (LeaveBazel # evs) = slept evs" "slept (KilledCount k # evs) = slept evs"
  "slept (ExitWith c # evs) = slept evs"
  by (simp_all add: slept_def signal_all_def o_def)

lemma sent_int_simps [simp]:
  "sent_int p [] = 0" "sent_int p (xs @ ys) = sent_int p xs + sent_int p ys"
  "sent_int p (Sleep n # evs) = sent_int p evs" "sent_int p (Cancelling # evs) = sent_int p evs"
  "sent_int p (LeaveBazel # evs) = sent_int p evs" "sent_int p (ExitWith c # evs) = sent_int p evs"
  "sent_int p (KilledCount k # evs) = sent_int p evs"
  "sent_int p (map SendKill qs) = 0"
  by (simp_all add: sent_int_def o_def filter_map)

lemma sent_int_signal_all:
  "distinct ps \<Longrightarrow> sent_int p (signal_all ps r) = (if p \<in> set ps \<and> r p then 1 else 0)"
proof -
  assume "distinct ps"
  then have "filter (\<lambda>q. q = p) (filter r ps) = (if p \<in> set ps \<and> r p then [p] else [])"
    by (induction ps) auto
  then show ?thesis by (simp add: sent_int_def signal_all_def filter_map o_def)
qed



section \<open>Probes of the server\<close>

text \<open>How a \<open>bazel\<close> command ended: not at all, or with an exit code, if it has one, and its output.\<close>

datatype command_result =
  SpawnFailed string | Ended (cr_code: "int option") (cr_stdout: string) (cr_stderr: string)

definition succeeded :: "command_result \<Rightarrow> bool" where
  "succeeded r \<longleftrightarrow> (case r of Ended (Some c) _ _ \<Rightarrow> c = 0 | _ \<Rightarrow> False)"

text \<open>\<open>str::lines\<close>: a carriage return is dropped only before a line feed.\<close>

definition str_lines :: "string \<Rightarrow> string list" where
  "str_lines s =
     (let ls = split_on (CHR 0x0A) s
      in map (\<lambda>l. if l \<noteq> [] \<and> last l = CHR 0x0D then butlast l else l) (butlast ls) @
         (if last ls = [] then [] else [last ls]))"

definition split_once_sub :: "string \<Rightarrow> string \<Rightarrow> (string \<times> string) option" where
  "split_once_sub p s = map_option (\<lambda>i. (take i s, drop (i + length p) s)) (find_sub p s)"

definition parse_output :: "string \<Rightarrow> string list \<Rightarrow> (string \<times> string) list" where
  "parse_output out keys =
     (case keys of
        [key] \<Rightarrow> (let v = trim out in if v = [] then [] else [(key, v)])
      | _ \<Rightarrow> fold (\<lambda>line m. case split_once_sub '': '' line of
            Some (k, v) \<Rightarrow> AList.update (trim k) (trim v) m | None \<Rightarrow> m) (str_lines out) [])"

definition parse_release :: "(string \<Rightarrow> 'ver option) \<Rightarrow> string \<Rightarrow> 'ver option" where
  "parse_release semver v = semver (trim (trim_start_any [''release ''] (trim v)))"

definition parse_server_info :: "(string \<Rightarrow> 'ver option) \<Rightarrow> string \<Rightarrow> (pid \<times> 'ver option) option" where
  "parse_server_info semver out =
     (let info = parse_output out [''server_pid'', ''release'']
      in map_option (\<lambda>p. (p, Option.bind (map_of info ''release'') (parse_release semver)))
           (Option.bind (map_of info ''server_pid'') parse_u32))"

definition server_info :: "(string \<Rightarrow> 'ver option) \<Rightarrow> command_result \<Rightarrow> (pid \<times> 'ver option) option" where
  "server_info semver r =
     (if succeeded r then parse_server_info semver (from_utf8_lossy (cr_stdout r)) else None)"

text \<open>The version is probed once per process and remembered.\<close>

definition release_version ::
  "(string \<Rightarrow> 'ver option) \<Rightarrow> command_result \<Rightarrow> 'ver option option \<Rightarrow> 'ver option \<times> 'ver option option"
where
  "release_version semver r cache =
     (case cache of
        Some v \<Rightarrow> (v, cache)
      | None \<Rightarrow> (let v = Option.bind (server_info semver r) snd in (v, Some v)))"

definition client_pid :: "command_result \<Rightarrow> pid option" where
  "client_pid r =
     (case r of
        Ended (Some c) _ err \<Rightarrow>
          if c \<noteq> 9 then None
          else (let s = from_utf8_lossy err
            in Option.bind (find_sub ''pid='' s) (\<lambda>start.
                 let rest = drop (start + 4) s
                 in Option.bind (find_char CHR '')'' rest) (\<lambda>stop. parse_u32 (take stop rest))))
      | _ \<Rightarrow> None)"

definition is_server_busy :: "command_result \<Rightarrow> bool" where
  "is_server_busy r \<longleftrightarrow> (case r of Ended (Some c) _ _ \<Rightarrow> c = 9 | _ \<Rightarrow> False)"

text \<open>\<open>read\<close> reads a file to a string.\<close>

definition server_pid_nonblocking ::
  "(string \<Rightarrow> string option) \<Rightarrow> command_result \<Rightarrow> pid option" where
  "server_pid_nonblocking read r =
     (if succeeded r
      then Option.bind (read (path_join (trim (from_utf8_lossy (cr_stdout r))) ''server/server.pid.txt''))
        (\<lambda>contents. parse_u32 (trim contents))
      else None)"

section \<open>Cancelling an invocation\<close>

text \<open>What a signal to a process id reaches: the id is cast to a signed number, and the operating
  system reads 0 as the own process group, \<open>-1\<close> as every process and any other negative number as
  a process group.\<close>

datatype sig_target = OneProcess int | OwnGroup | EveryProcess | ProcessGroup int

definition kill_target :: "pid \<Rightarrow> sig_target" where
  "kill_target p =
     (let n = sint p
      in if 0 < n then OneProcess n else if n = 0 then OwnGroup
         else if n = -1 then EveryProcess else ProcessGroup (- n))"

datatype sig_sent = IntTo pid | KillTo pid

definition validate_wait_params :: "nat \<Rightarrow> nat \<Rightarrow> string + unit" where
  "validate_wait_params timeout_ms force_kill_after_ms =
     (if timeout_ms > 0 \<and> force_kill_after_ms > 0 then
        Inl (''wait(timeout_ms) cannot be used with cancel_invocation(force_kill_after_ms). '' @
          ''Use force_kill_after_ms = 0 to disable auto-escalation and manage '' @
          ''cancellation manually with wait(timeout_ms) and force().'')
      else if timeout_ms = 0 \<and> force_kill_after_ms = 0 then
        Inl (''wait() with no timeout requires force_kill_after_ms to be set on '' @
          ''cancel_invocation(). Either use the default force_kill_after_ms or '' @
          ''pass timeout_ms to wait() and handle escalation manually with force().'')
      else Inr ())"

definition FORCE_KILL_TIMEOUT_MS :: nat where
  "FORCE_KILL_TIMEOUT_MS = 5000"

text \<open>The client after its third \<open>SIGINT\<close>: \<open>running k\<close> and \<open>elapsed k\<close> are what the \<open>k\<close>-th turn of
  the loop sees, \<open>server\<close> is the process id of the server, if it can be found. A loop that does not
  end is \<open>None\<close>.\<close>

partial_function (option) monitor_client ::
  "pid \<Rightarrow> (nat \<Rightarrow> bool) \<Rightarrow> (nat \<Rightarrow> nat) \<Rightarrow> pid option \<Rightarrow> nat \<Rightarrow> sig_sent list option" where
  "monitor_client client running elapsed server k =
     (if \<not> running k then Some []
      else if elapsed k \<ge> FORCE_KILL_TIMEOUT_MS
      then Some (KillTo client # (case server of Some s \<Rightarrow> [KillTo s] | None \<Rightarrow> []))
      else monitor_client client running elapsed server (k + 1))"

definition force_kill ::
  "pid option \<Rightarrow> (nat \<Rightarrow> bool) \<Rightarrow> (nat \<Rightarrow> nat) \<Rightarrow> bool \<Rightarrow> pid option \<Rightarrow>
   (bool \<times> sig_sent list) option" where
  "force_kill client running elapsed server_busy server =
     (case client of
        Some c \<Rightarrow> map_option (\<lambda>sent. (True, [IntTo c, IntTo c] @ sent))
            (monitor_client c running elapsed server 0)
      | None \<Rightarrow>
          Some (if server_busy
                then (case server of Some s \<Rightarrow> (True, [KillTo s]) | None \<Rightarrow> (False, []))
                else (False, [])))"

text \<open>\<open>wait\<close>: \<open>busy k\<close> is the answer to the \<open>k\<close>-th question whether the server is busy, \<open>elapsed k\<close>
  the time since the start when it has been answered, and \<open>forced\<close> the outcome of \<open>force_kill\<close>.\<close>

partial_function (option) until_free :: "(nat \<Rightarrow> bool) \<Rightarrow> nat \<Rightarrow> unit option" where
  "until_free busy k = (if busy k then until_free busy (k + 1) else Some ())"

partial_function (option) wait_loop ::
  "nat \<Rightarrow> nat \<Rightarrow> (nat \<Rightarrow> bool) \<Rightarrow> (nat \<Rightarrow> nat) \<Rightarrow> (bool \<times> sig_sent list) option \<Rightarrow> nat \<Rightarrow>
   (bool \<times> sig_sent list) option" where
  "wait_loop timeout force_after busy elapsed forced k =
     (if \<not> busy k then Some (True, [])
      else if timeout > 0 \<and> elapsed k \<ge> timeout then Some (False, [])
      else if force_after > 0 \<and> elapsed k \<ge> force_after
      then Option.bind forced (\<lambda>(_, sent).
        Option.bind (until_free busy (k + 1)) (\<lambda>_. Some (True, sent)))
      else wait_loop timeout force_after busy elapsed forced (k + 1))"

definition cancel_wait ::
  "int \<Rightarrow> nat \<Rightarrow> (nat \<Rightarrow> bool) \<Rightarrow> (nat \<Rightarrow> nat) \<Rightarrow> (bool \<times> sig_sent list) option \<Rightarrow>
   string + (bool \<times> sig_sent list) option" where
  "cancel_wait timeout_ms force_after busy elapsed forced =
     (let timeout = nat (max timeout_ms 0)
      in case validate_wait_params timeout force_after of
           Inl e \<Rightarrow> Inl e
         | Inr _ \<Rightarrow> Inr (wait_loop timeout force_after busy elapsed forced 0))"

lemma monitor_client_ends:
  "elapsed (k + n) \<ge> FORCE_KILL_TIMEOUT_MS \<Longrightarrow>
   \<exists>sent. monitor_client client running elapsed server k = Some sent"
proof (induction n arbitrary: k)
  case 0
  then show ?case by (subst monitor_client.simps) simp
next
  case (Suc n)
  then show ?case using Suc.IH [of "k + 1"] by (subst monitor_client.simps) simp
qed

lemma until_free_Some: "until_free busy k = Some u \<Longrightarrow> \<exists>j \<ge> k. \<not> busy j"
proof (erule until_free.raw_induct [where P = "\<lambda>busy k u. \<exists>j \<ge> k. \<not> busy j", rotated])
  fix uf :: "(nat \<Rightarrow> bool) \<Rightarrow> nat \<Rightarrow> unit option" and busy k u
  assume IH: "\<And>busy k u. uf busy k = Some u \<Longrightarrow> \<exists>j \<ge> k. \<not> busy j"
    and step: "(if busy k then uf busy (k + 1) else Some ()) = Some u"
  show "\<exists>j \<ge> k. \<not> busy j"
  proof (cases "busy k")
    case True
    then have "uf busy (k + 1) = Some u" using step by simp
    from IH [OF this] show ?thesis by (meson le_add1 order_trans)
  qed blast
qed

lemma until_free_ends: "\<not> busy (k + n) \<Longrightarrow> until_free busy k = Some ()"
proof (induction n arbitrary: k)
  case 0
  then show ?case by (subst until_free.simps) simp
next
  case (Suc n)
  then show ?case using Suc.IH [of "k + 1"] by (subst until_free.simps) simp
qed

lemma until_free_iff: "until_free busy k = None \<longleftrightarrow> (\<forall>j \<ge> k. busy j)"
proof
  assume "until_free busy k = None"
  then have "busy (k + n)" for n using until_free_ends [of busy k n] by fastforce
  then show "\<forall>j \<ge> k. busy j" by (metis le_add_diff_inverse)
next
  assume "\<forall>j \<ge> k. busy j"
  then show "until_free busy k = None" using until_free_Some by (metis not_None_eq)
qed

lemma wait_loop_start:
  "\<forall>j < n. busy (k + j) \<and> \<not> (timeout > 0 \<and> elapsed (k + j) \<ge> timeout) \<and>
     \<not> (force_after > 0 \<and> elapsed (k + j) \<ge> force_after) \<Longrightarrow>
   wait_loop timeout force_after busy elapsed forced k =
     wait_loop timeout force_after busy elapsed forced (k + n)"
proof (induction n arbitrary: k)
  case (Suc n)
  from Suc.prems have "busy k" "\<not> (timeout > 0 \<and> elapsed k \<ge> timeout)"
    "\<not> (force_after > 0 \<and> elapsed k \<ge> force_after)" by (metis add_0_right zero_less_Suc)+
  then have "wait_loop timeout force_after busy elapsed forced k =
      wait_loop timeout force_after busy elapsed forced (k + 1)"
    by (subst wait_loop.simps) auto
  also have "\<dots> = wait_loop timeout force_after busy elapsed forced (k + 1 + n)"
    by (rule Suc.IH) (use Suc.prems in \<open>metis Suc_less_eq add_Suc_right add_Suc_shift Suc_eq_plus1\<close>)
  finally show ?case by simp
qed simp

text \<open>When the clock passes every bound, the loop comes to a first turn at which it stops.\<close>

lemma wait_loop_stops:
  assumes "limit = (if timeout > 0 then timeout else force_after)" and "\<exists>k. elapsed k \<ge> limit"
    and "(timeout > 0) \<noteq> (force_after > 0)"
  obtains k where "\<not> busy k \<or> elapsed k \<ge> limit" and "\<forall>j < k. busy j \<and> elapsed j < limit"
    and "wait_loop timeout force_after busy elapsed forced 0 =
      wait_loop timeout force_after busy elapsed forced k"
proof -
  let ?stop = "\<lambda>k. \<not> busy k \<or> elapsed k \<ge> limit"
  define m where "m = (LEAST k. ?stop k)"
  have "\<exists>k. ?stop k" using assms(2) by blast
  then have stop: "?stop m" unfolding m_def by (rule LeastI_ex)
  have before: "\<forall>j < m. busy j \<and> elapsed j < limit"
    using not_less_Least [of _ ?stop] unfolding m_def by (meson not_less)
  have "wait_loop timeout force_after busy elapsed forced 0 =
      wait_loop timeout force_after busy elapsed forced (0 + m)"
  proof (rule wait_loop_start, intro allI impI)
    fix j assume "j < m"
    then have "busy j" "elapsed j < limit" using before by auto
    then show "busy (0 + j) \<and> \<not> (timeout > 0 \<and> elapsed (0 + j) \<ge> timeout) \<and>
        \<not> (force_after > 0 \<and> elapsed (0 + j) \<ge> force_after)"
      using assms(1,3) by (simp split: if_splits)
  qed
  then show ?thesis using that stop before by simp
qed

text \<open>C29. \<open>wait\<close> on a cancelled invocation is never unbounded by the CLI's own doing. On a clock that
  passes every bound, exactly one of the two limits being set: with a manual timeout it returns,
  \<open>False\<close> exactly when the server was still busy at the first question after the timeout, and sends
  no signal; with automatic escalation it returns \<open>True\<close> with the signals of the forced kill, if any,
  unless the server stays busy for ever.\<close>

theorem cancel_wait_outcome:
  assumes "\<And>b. \<exists>k. elapsed k \<ge> b"
    and "validate_wait_params (nat (max t 0)) force_after = Inr ()"
  shows "(0 < t \<longrightarrow>
      cancel_wait t force_after busy elapsed (Some (r, sent)) =
        Inr (Some (\<exists>k. \<not> busy k \<and> (\<forall>j < k. elapsed j < nat t), []))) \<and>
    (t \<le> 0 \<longrightarrow>
      cancel_wait t force_after busy elapsed (Some (r, sent)) =
        Inr (if \<exists>k. \<not> busy k \<and> (\<forall>j < k. elapsed j < force_after) then Some (True, [])
             else if \<exists>k. \<not> busy k then Some (True, sent) else None))"
proof -
  let ?to = "nat (max t 0)"
  let ?limit = "if ?to > 0 then ?to else force_after"
  have one: "(?to > 0) \<noteq> (force_after > 0)"
    using assms(2) by (auto simp: validate_wait_params_def split: if_splits)
  obtain k where stop: "\<not> busy k \<or> elapsed k \<ge> ?limit"
    and before: "\<forall>j < k. busy j \<and> elapsed j < ?limit"
    and eq: "wait_loop ?to force_after busy elapsed (Some (r, sent)) 0 =
      wait_loop ?to force_after busy elapsed (Some (r, sent)) k"
    using wait_loop_stops [OF refl assms(1) one] by metis
  have free: "(\<exists>k. \<not> busy k \<and> (\<forall>j < k. elapsed j < ?limit)) \<longleftrightarrow> \<not> busy k"
  proof
    assume "\<exists>k. \<not> busy k \<and> (\<forall>j < k. elapsed j < ?limit)"
    then obtain j where j: "\<not> busy j" "\<forall>i < j. elapsed i < ?limit" by blast
    then have "k \<le> j" using before not_less by blast
    then show "\<not> busy k" using j stop by (metis le_neq_implies_less not_less)
  qed (use before in blast)
  have later: "(\<exists>j. \<not> busy j) \<longleftrightarrow> \<not> busy k \<or> \<not> (\<forall>j \<ge> k + 1. busy j)"
    using before by (metis Suc_eq_plus1 Suc_leI linorder_cases)
  show ?thesis
  proof (cases "0 < t")
    case True
    then have "?to = nat t" "force_after = 0" using one by (auto simp: max_def)
    then show ?thesis
      using True assms(2) eq stop free by (subst (asm) wait_loop.simps) (auto simp: cancel_wait_def max_def)
  next
    case False
    then have to: "?to = 0" "force_after > 0" using one by (auto simp: max_def)
    have "wait_loop 0 force_after busy elapsed (Some (r, sent)) k =
        (if \<not> busy k then Some (True, []) else if \<forall>j \<ge> k + 1. busy j then None else Some (True, sent))"
      using stop to until_free_iff [of busy "k + 1"]
      by (subst wait_loop.simps) (auto split: option.splits simp: bind_eq_None_conv)
    then show ?thesis
      using False assms(2) eq to free later by (auto simp: cancel_wait_def)
  qed
qed

theorem cancel_wait_outcome_witness:
  "cancel_wait 0 5000 (\<lambda>k. k < 9) (\<lambda>k. k * 1000) (Some (True, [IntTo 7, IntTo 7])) =
     Inr (Some (True, [IntTo 7, IntTo 7])) \<and>
   cancel_wait 0 5000 (\<lambda>_. True) (\<lambda>k. k * 1000) (Some (False, [])) = Inr None"
proof -
  have clock: "\<exists>k. k * 1000 \<ge> b" for b :: nat by (rule exI [of _ b]) simp
  have v: "validate_wait_params (nat (max 0 0)) 5000 = Inr ()"
    by (simp add: validate_wait_params_def)
  have "\<not> (\<forall>j < k. j * 1000 < 5000)" if "\<not> k < 9" for k :: nat
    using that by (intro notI) (drule spec [of _ 5], simp)
  then have "\<not> (\<exists>k :: nat. \<not> k < 9 \<and> (\<forall>j < k. j * 1000 < 5000))" by blast
  moreover have "\<exists>k :: nat. \<not> k < 9" by (rule exI [of _ 9]) simp
  ultimately show ?thesis
    using cancel_wait_outcome [OF clock v, of "\<lambda>k. k < 9" True "[IntTo 7, IntTo 7]"]
      cancel_wait_outcome [OF clock v, of "\<lambda>_. True" False "[]"] by simp
qed

lemma force_kill_signals:
  assumes "\<exists>k. elapsed k \<ge> FORCE_KILL_TIMEOUT_MS"
  shows "\<exists>r sent. force_kill client running elapsed busy server = Some (r, sent) \<and>
    (r \<longleftrightarrow> sent \<noteq> []) \<and>
    (\<forall>s. KillTo s \<in> set sent \<longrightarrow> Some s = server \<or> Some s = client)"
proof (cases client)
  case None
  then show ?thesis by (cases busy; cases server) (auto simp: force_kill_def)
next
  case (Some c)
  obtain n where n: "elapsed (0 + n) \<ge> FORCE_KILL_TIMEOUT_MS" using assms by auto
  obtain sent where sent: "monitor_client c running elapsed server 0 = Some sent"
    using monitor_client_ends [of elapsed 0 n] n by blast
  have "set xs \<subseteq> {KillTo c} \<union> (case server of Some s \<Rightarrow> {KillTo s} | None \<Rightarrow> {})"
    if "monitor_client c running elapsed server k = Some xs" and "elapsed (k + n) \<ge> FORCE_KILL_TIMEOUT_MS"
    for k n xs
    using that
  proof (induction n arbitrary: k)
    case 0
    then show ?case by (subst (asm) monitor_client.simps) (auto split: if_splits option.splits)
  next
    case (Suc n)
    then show ?case using Suc.IH [of "k + 1"]
      by (subst (asm) monitor_client.simps) (auto split: if_splits option.splits)
  qed
  from this [OF sent n] show ?thesis using sent Some
    by (cases server) (auto simp: force_kill_def)
qed

section \<open>Health check\<close>

definition RETRYABLE_EXIT_CODES :: "int list" where
  "RETRYABLE_EXIT_CODES = [1, 37, 36, 9]"

datatype health = Healthy | Unhealthy | Inconclusive

record health_result =
  hr_outcome :: health
  hr_message :: "string option"
  hr_exit_code :: "int option"

text \<open>The result of a probe: an exit code, when there is one, and the error text.\<close>

definition probe_code :: "command_result \<Rightarrow> int option" where
  "probe_code r = (case r of SpawnFailed _ \<Rightarrow> None | Ended c _ _ \<Rightarrow> c)"

definition probe_stderr :: "command_result \<Rightarrow> string" where
  "probe_stderr r = (case r of SpawnFailed e \<Rightarrow> e | Ended _ _ err \<Rightarrow> from_utf8_lossy err)"

text \<open>Latin-1 text as a Rust string: a byte from \<open>0x80\<close> on takes two bytes.\<close>

definition latin1 :: "string \<Rightarrow> string" where
  "latin1 s = concat (map (\<lambda>c. if c \<le> CHR 0x7F then [c]
       else [char_of (192 + of_char c div 64 :: nat), char_of (128 + of_char c mod 64 :: nat)]) s)"

definition extract_server_pid :: "(string \<Rightarrow> string option) \<Rightarrow> string option \<Rightarrow> pid option" where
  "extract_server_pid read path =
     (case path of
        None \<Rightarrow> None
      | Some p \<Rightarrow> if \<not> starts_with ''/'' p then None
          else Option.bind (read p) (\<lambda>content. parse_u32 (trim (latin1 content))))"

definition get_output_base :: "command_result \<Rightarrow> string option" where
  "get_output_base r =
     (if succeeded r
      then (let p = trim (from_utf8_lossy (cr_stdout r)) in if p = [] then None else Some p)
      else None)"

definition STRANDED_MOVED_TRASH_DIR :: string where
  "STRANDED_MOVED_TRASH_DIR = ''_moved_trash_dir''"

definition stranded_path :: "string \<Rightarrow> string" where
  "stranded_path base = path_join (path_join base ''sandbox'') STRANDED_MOVED_TRASH_DIR"

text \<open>\<open>meta p\<close> says whether something is at \<open>p\<close> and whether it is a directory, the two removals
  whether they succeed; the result is whether something was removed.\<close>

definition cleanup_stranded_sandbox_state ::
  "(string \<Rightarrow> bool option) \<Rightarrow> (string \<Rightarrow> bool) \<Rightarrow> (string \<Rightarrow> bool) \<Rightarrow> string \<Rightarrow> bool" where
  "cleanup_stranded_sandbox_state meta remove_dir_all remove_file base =
     (let p = stranded_path base
      in case meta p of
           None \<Rightarrow> False
         | Some is_dir \<Rightarrow> if is_dir then remove_dir_all p else remove_file p)"

fun health_output_base :: "string list \<Rightarrow> string option" where
  "health_output_base [] = None"
| "health_output_base (flag # flags) =
     (case strip_prefix ''--output_base='' flag of
        Some v \<Rightarrow> if v \<noteq> [] then Some v else health_output_base flags
      | None \<Rightarrow> health_output_base flags)"

definition show_code :: "int option \<Rightarrow> string" where
  "show_code c = (case c of Some n \<Rightarrow> show_int n | None \<Rightarrow> ''unknown'')"

definition health_diagnostic :: "int option \<Rightarrow> string" where
  "health_diagnostic c = ''Bazel server returned an exit code ('' @ show_code c @
     '') that has caused the health check to fail''"

text \<open>The health check does three things to its surroundings: it asks for the output base, kills a
  process and removes what a killed sandbox left behind.\<close>

datatype health_action = AskOutputBase | KillServer pid | CleanUp string

text \<open>\<open>first\<close> and \<open>retry\<close> are the results of the two probes, \<open>base\<close> that of the question for the
  output base, \<open>read\<close> reads a file and \<open>running\<close> says which processes run.\<close>

definition health_check ::
  "string list \<Rightarrow> command_result \<Rightarrow> command_result \<Rightarrow> command_result \<Rightarrow>
   (string \<Rightarrow> string option) \<Rightarrow> (pid \<Rightarrow> bool) \<Rightarrow> health_result \<times> health_action list" where
  "health_check flags first base retry read running =
     (if succeeded first
      then (\<lparr>hr_outcome = Healthy, hr_message = None, hr_exit_code = Some 0\<rparr>,
            AskOutputBase # (case get_output_base base of Some b \<Rightarrow> [CleanUp b] | None \<Rightarrow> []))
      else
        (let code = probe_code first;
             unhealthy = \<lparr>hr_outcome = Unhealthy, hr_message = Some (health_diagnostic code),
               hr_exit_code = code\<rparr>
         in case (case code of
                    Some c \<Rightarrow> if c \<notin> set RETRYABLE_EXIT_CODES then Some c else None
                  | None \<Rightarrow> None) of
              Some c \<Rightarrow>
                (\<lparr>hr_outcome = Inconclusive,
                   hr_message = Some (''Unable to health check bazel server due to potential '' @
                     ''configuration issues: '' @ trim (probe_stderr first)),
                   hr_exit_code = Some c\<rparr>, [])
            | None \<Rightarrow>
                (case health_output_base flags of
                   None \<Rightarrow> (unhealthy, [])
                 | Some ob \<Rightarrow>
                     (case extract_server_pid read
                             (Some (path_join (path_join ob ''server'') ''server.pid.txt'')) of
                        None \<Rightarrow> (unhealthy, [])
                      | Some p \<Rightarrow>
                          (let kills = (if running p then [KillServer p] else [])
                           in if succeeded retry
                              then (\<lparr>hr_outcome = Healthy, hr_message = None, hr_exit_code = Some 0\<rparr>,
                                    kills @ [CleanUp ob])
                              else (unhealthy, kills))))))"


text \<open>A process id file that says \<open>0\<close>, or the largest 32-bit number, makes the health check kill its
  own process group, or every process it may signal.\<close>

lemma pid_file_names_a_group:
  "fst (health_check [''--output_base=/b''] (Ended (Some 36) [] []) bs (Ended (Some 36) [] [])
      (\<lambda>_. Some ''0'') (\<lambda>_. True)) = \<lparr>hr_outcome = Unhealthy,
        hr_message = Some (health_diagnostic (Some 36)), hr_exit_code = Some 36\<rparr> \<and>
   snd (health_check [''--output_base=/b''] (Ended (Some 36) [] []) bs (Ended (Some 36) [] [])
      (\<lambda>_. Some ''0'') (\<lambda>_. True)) = [KillServer 0] \<and>
   kill_target 0 = OwnGroup \<and>
   extract_server_pid (\<lambda>_. Some ''4294967295'') (Some ''/b/server/server.pid.txt'') = Some (-1) \<and>
   kill_target (-1) = EveryProcess"
proof -
  have "health_output_base [''--output_base=/b''] = Some ''/b''" by code_simp
  moreover have "starts_with ''/'' (path_join (path_join ''/b'' ''server'') ''server.pid.txt'')"
    "starts_with ''/'' ''/b/server/server.pid.txt''" by code_simp+
  moreover have "trim (latin1 ''0'') = ''0''" "trim (latin1 ''4294967295'') = ''4294967295''"
    by code_simp+
  moreover have "parse_u32 ''0'' = Some 0" "parse_u32 ''4294967295'' = Some 4294967295"
    by (simp_all add: parse_u32_def parse_unsigned_def read_digits_def read_nat_def is_digit_def
        char_digit_def)
  moreover have "(4294967295 :: 32 word) = -1" by simp
  ultimately show ?thesis
    by (simp add: health_check_def Let_def succeeded_def probe_code_def RETRYABLE_EXIT_CODES_def
        kill_target_def extract_server_pid_def)
qed

text \<open>A report of Bazel that lists the two keys is read back.\<close>

lemma str_lines_join:
  assumes "\<And>l. l \<in> set ls \<Longrightarrow> CHR 0x0A \<notin> set l \<and> CHR 0x0D \<notin> set l"
  shows "str_lines (concat (map (\<lambda>l. l @ [CHR 0x0A]) ls)) = ls"
proof -
  have "split_on (CHR 0x0A) (concat (map (\<lambda>l. l @ [CHR 0x0A]) ls)) = ls @ [[]]"
    using assms by (induction ls) (auto simp: split_on_append)
  moreover have "map (\<lambda>l. if l \<noteq> [] \<and> last l = CHR 0x0D then butlast l else l) ls = ls"
    using assms by (intro map_idI) (metis last_in_set)
  ultimately show ?thesis by (simp add: str_lines_def Let_def)
qed


lemma split_server_pid: "split_once_sub '': '' (''server_pid: '' @ v) = Some (''server_pid'', v)"
  by (simp add: split_once_sub_def str_simps)

lemma split_release: "split_once_sub '': '' (''release: '' @ v) = Some (''release'', v)"
  by (simp add: split_once_sub_def str_simps)

lemma parse_server_info_reads:
  assumes "n < 2 ^ 32" and "\<And>c. c \<in> set ver \<Longrightarrow> \<not> white_space_byte c" and "ver \<noteq> []"
    and "\<not> starts_with ''release '' ver"
  shows "parse_server_info semver (''server_pid: '' @ show_nat n @ [CHR 0x0A] @
      ''release: release '' @ ver @ [CHR 0x0A]) = Some (of_nat n, semver ver)"
proof -
  let ?ls = "[''server_pid: '' @ show_nat n, ''release: release '' @ ver]"
  have nl: "CHR 0x0A \<notin> set (show_nat n) \<and> CHR 0x0D \<notin> set (show_nat n)"
    by (auto dest!: show_nat_digits simp: is_digit_def)
  have "CHR 0x0A \<notin> set ver \<and> CHR 0x0D \<notin> set ver"
    using assms(2) by (auto simp: white_space_byte_def white_space_def)
  then have lines: "str_lines (concat (map (\<lambda>l. l @ [CHR 0x0A]) ?ls)) = ?ls"
    using nl by (intro str_lines_join) auto
  have n: "trim (show_nat n) = show_nat n"
    by (intro trim_id) (auto dest!: show_nat_digits simp: is_digit_def white_space_byte_def white_space_def)
  have v: "trim ver = ver" using assms(2) by (rule trim_id)
  have "last ver \<in> set ver" using assms(3) by simp
  then have rv: "trim (''release '' @ ver) = ''release '' @ ver"
    using assms(2,3) by (intro trim_id_ends) (auto simp: white_space_byte_def white_space_def)
  have sv: "trim_start_any [''release ''] (''release '' @ ver) = ver"
  proof -
    have "trim_start_any [''release ''] ver = ver"
      using assms(4) by (intro trim_start_any_id) (auto simp: str_simps)
    then show ?thesis by (subst trim_start_any.simps) (simp add: str_simps)
  qed
  have keys: "trim ''server_pid'' = ''server_pid''" "trim ''release'' = ''release''" by code_simp+
  have "parse_output (''server_pid: '' @ show_nat n @ [CHR 0x0A] @ ''release: release '' @ ver @ [CHR 0x0A])
      [''server_pid'', ''release''] = [(''server_pid'', show_nat n), (''release'', ''release '' @ ver)]"
    using lines split_server_pid [of "show_nat n"] split_release [of "''release '' @ ver"] n rv keys
    by (simp add: parse_output_def)
  moreover have "parse_u32 (show_nat n) = Some (of_nat n)"
    using parse_u32_show [of "of_nat n"] assms(1)
    by (simp add: show_int_def unsigned_of_nat take_bit_nat_eq_self)
  ultimately show ?thesis
    using rv sv v by (simp add: parse_server_info_def parse_release_def)
qed

end
