(* ===== verification/Retry.thy ===== *)
theory Retry
  imports Cli_Prelude "HOL-Library.Word"
begin

text \<open>
  Retry machinery of the gRPC event sink
  (crates/axl-runtime/src/engine/bazel/sink/retry.rs), for a 64-bit target. A \<open>u64\<close>
  multiplication the code leaves unchecked is taken in \<open>64 word\<close>, as in a release build;
  checked and saturating ones are written out. A \<open>Duration\<close> is its number of nanoseconds.
  The encoded size of a request (\<open>prost::Message::encoded_len\<close>) is the argument \<open>enc\<close> and the
  random draw of \<open>rand\<close> the argument \<open>draw\<close>.
\<close>

section \<open>Sizes and durations\<close>

definition usize_max :: nat where
  "usize_max = 2 ^ 64 - 1"

definition DEFAULT_RETRY_MAX_BUFFER_BYTES :: nat where
  "DEFAULT_RETRY_MAX_BUFFER_BYTES = 256 * 1024 * 1024"

definition RETRY_MAX_BUFFER_BYTES_ENV :: string where
  "RETRY_MAX_BUFFER_BYTES_ENV = ''ASPECT_CLI_BES_RETRY_MAX_BUFFER_BYTES''"

definition quoted :: "string \<Rightarrow> string" where
  "quoted s = [CHR 0x27] @ s @ [CHR 0x27]"

definition split_scalar_unit :: "string \<Rightarrow> string \<Rightarrow> string + (string \<times> string)" where
  "split_scalar_unit s0 kind =
     (let s = trim s0; num = takeWhile is_digit s
      in if s = [] then Inl (''empty '' @ kind @ '' string'')
         else if num = [] then
           Inl (''invalid '' @ kind @ '' '' @ quoted s @ '': expected a leading number'')
         else Inr (num, lower (trim (drop (length num) s))))"

text \<open>\<open>str::parse\<close> of a non-empty digit string: the only error is an overflow.\<close>

definition parse_u64 :: "string \<Rightarrow> string + nat" where
  "parse_u64 num =
     (if read_nat num \<le> usize_max then Inr (read_nat num)
      else Inl ''number too large to fit in target type'')"

definition size_multiplier :: "string \<Rightarrow> nat option" where
  "size_multiplier unit =
     (if unit \<in> set ['''', ''b''] then Some 1
      else if unit \<in> set [''k'', ''kb'', ''kib''] then Some 1024
      else if unit \<in> set [''m'', ''mb'', ''mib''] then Some (1024 * 1024)
      else if unit \<in> set [''g'', ''gb'', ''gib''] then Some (1024 * 1024 * 1024)
      else None)"

definition parse_byte_size :: "string \<Rightarrow> string + nat" where
  "parse_byte_size s =
     (case split_scalar_unit s ''size'' of
        Inl e \<Rightarrow> Inl e
      | Inr (num, unit) \<Rightarrow>
          (case size_multiplier unit of
             None \<Rightarrow> Inl (''invalid size '' @ quoted s @ '': unknown unit '' @ quoted unit @
               '' (expected one of B, KB, MB, GB)'')
           | Some multiplier \<Rightarrow>
               (case parse_u64 num of
                  Inl e \<Rightarrow> Inl (''invalid size '' @ quoted s @ '': '' @ e)
                | Inr n \<Rightarrow>
                    if n * multiplier \<le> usize_max then Inr (n * multiplier)
                    else Inl (''invalid size '' @ quoted s @ '': value overflows''))))"

definition resolve_buffer_bytes_override :: "string option \<Rightarrow> nat \<times> string option" where
  "resolve_buffer_bytes_override raw0 =
     (case raw0 of
        None \<Rightarrow> (DEFAULT_RETRY_MAX_BUFFER_BYTES, None)
      | Some raw \<Rightarrow>
          if trim raw = [] then (DEFAULT_RETRY_MAX_BUFFER_BYTES, None)
          else (case parse_byte_size raw of
              Inr n \<Rightarrow>
                if n = 0 then
                  (DEFAULT_RETRY_MAX_BUFFER_BYTES,
                   Some (RETRY_MAX_BUFFER_BYTES_ENV @ ''='' @ raw @ '' must be > 0; using the default of '' @
                     show_nat DEFAULT_RETRY_MAX_BUFFER_BYTES @ '' bytes''))
                else (n, None)
            | Inl e \<Rightarrow>
                (DEFAULT_RETRY_MAX_BUFFER_BYTES,
                 Some (RETRY_MAX_BUFFER_BYTES_ENV @ '': '' @ e @ ''; using the default of '' @
                   show_nat DEFAULT_RETRY_MAX_BUFFER_BYTES @ '' bytes''))))"

type_synonym duration = nat

definition from_millis :: "64 word \<Rightarrow> duration" where
  "from_millis n = unat n * 10 ^ 6"

definition from_secs :: "64 word \<Rightarrow> duration" where
  "from_secs n = unat n * 10 ^ 9"

definition parse_duration :: "string \<Rightarrow> string + duration" where
  "parse_duration s =
     (case split_scalar_unit s ''duration'' of
        Inl e \<Rightarrow> Inl e
      | Inr (num, unit) \<Rightarrow>
          (case parse_u64 num of
             Inl e \<Rightarrow> Inl (''invalid duration '' @ quoted s @ '': '' @ e)
           | Inr v \<Rightarrow>
               (let n = of_nat v :: 64 word
                in if unit = ''ms'' then Inr (from_millis n)
                   else if unit = ''s'' then Inr (from_secs n)
                   else if unit = ''m'' then Inr (from_secs (n * 60))
                   else if unit = ''h'' then Inr (from_secs (n * 3600))
                   else if unit = ''d'' then Inr (from_secs (n * 86400))
                   else Inl (''invalid duration '' @ quoted s @ '': expected suffix one of '' @
                     quoted ''ms'' @ '', '' @ quoted ''s'' @ '', '' @ quoted ''m'' @ '', '' @
                     quoted ''h'' @ '', '' @ quoted ''d''))))"

section \<open>Configuration\<close>

record retry_config =
  max_retries :: nat
  retry_min_delay :: duration
  retry_max_buffer_bytes :: nat
  rc_timeout :: "duration option"
  send_stall_timeout :: duration
  ack_progress_timeout :: duration
  half_close_timeout :: duration

definition default_retry_config :: "nat \<Rightarrow> retry_config" where
  "default_retry_config default_buffer_bytes =
     \<lparr>max_retries = 4, retry_min_delay = from_secs 1, retry_max_buffer_bytes = default_buffer_bytes,
      rc_timeout = None, send_stall_timeout = from_secs 60, ack_progress_timeout = from_secs 120,
      half_close_timeout = from_secs 30\<rparr>"

section \<open>The replay buffer\<close>

type_synonym 'r entry = "int \<times> nat \<times> 'r"

record 'r retry_buffer =
  cap_bytes :: nat
  rb_bytes :: nat
  rb_evicted :: nat
  rb_items :: "'r entry list"

definition rb_new :: "nat \<Rightarrow> 'r retry_buffer" where
  "rb_new cap = \<lparr>cap_bytes = cap, rb_bytes = 0, rb_evicted = 0, rb_items = []\<rparr>"

definition evict_oldest :: "'r retry_buffer \<Rightarrow> 'r retry_buffer" where
  "evict_oldest b =
     (case rb_items b of
        [] \<Rightarrow> b
      | (seq, sz, req) # rest \<Rightarrow>
          b\<lparr>rb_items := rest, rb_bytes := rb_bytes b - sz, rb_evicted := rb_evicted b + 1\<rparr>)"

function make_room :: "nat \<Rightarrow> 'r retry_buffer \<Rightarrow> 'r retry_buffer" where
  "make_room sz b =
     (if rb_items b \<noteq> [] \<and> rb_bytes b + sz > cap_bytes b then make_room sz (evict_oldest b)
      else b)"
  by pat_completeness auto
termination
  by (relation "measure (\<lambda>(sz, b). length (rb_items b))")
    (auto simp: evict_oldest_def split: list.splits)

declare make_room.simps [simp del]

definition rb_push :: "('r \<Rightarrow> nat) \<Rightarrow> int \<Rightarrow> 'r \<Rightarrow> 'r retry_buffer \<Rightarrow> 'r retry_buffer" where
  "rb_push enc seq req b =
     (let sz = enc req; b' = make_room sz b
      in if sz > cap_bytes b' then b'\<lparr>rb_evicted := rb_evicted b' + 1\<rparr>
         else b'\<lparr>rb_bytes := rb_bytes b' + sz, rb_items := rb_items b' @ [(seq, sz, req)]\<rparr>)"

function prune_until :: "int \<Rightarrow> 'r retry_buffer \<Rightarrow> 'r retry_buffer" where
  "prune_until ack_seq b =
     (case rb_items b of
        [] \<Rightarrow> b
      | (seq, sz, req) # rest \<Rightarrow>
          if seq \<le> ack_seq
          then prune_until ack_seq (b\<lparr>rb_bytes := rb_bytes b - sz, rb_items := rest\<rparr>)
          else b)"
  by pat_completeness auto
termination
  by (relation "measure (\<lambda>(ack_seq, b). length (rb_items b))") auto

declare prune_until.simps [simp del]

definition take_evicted :: "'r retry_buffer \<Rightarrow> nat \<times> 'r retry_buffer" where
  "take_evicted b = (rb_evicted b, b\<lparr>rb_evicted := 0\<rparr>)"

definition rb_iter :: "'r retry_buffer \<Rightarrow> (int \<times> 'r) list" where
  "rb_iter b = map (\<lambda>(seq, sz, req). (seq, req)) (rb_items b)"

section \<open>Backoff and classification\<close>

definition saturating_mul :: "nat \<Rightarrow> nat \<Rightarrow> nat" where
  "saturating_mul a b = min (a * b) (2 ^ 64 - 1)"

text \<open>\<open>draw u\<close> is \<open>gen_range(0..=u)\<close>.\<close>

definition backoff :: "(nat \<Rightarrow> nat) \<Rightarrow> duration \<Rightarrow> nat \<Rightarrow> duration" where
  "backoff draw min_delay attempt =
     (let ns = min_delay mod 2 ^ 64;
          cap_ns = saturating_mul ns 30;
          exp = 2 ^ min attempt 30;
          upper_ns = min (saturating_mul ns exp) cap_ns
      in if upper_ns = 0 then 0 else draw upper_ns)"

datatype grpc_code =
    GOk | Cancelled | Unknown | InvalidArgument | DeadlineExceeded | NotFound | AlreadyExists
  | PermissionDenied | ResourceExhausted | FailedPrecondition | Aborted | OutOfRange
  | Unimplemented | Internal | Unavailable | DataLoss | Unauthenticated

datatype client_error = Transport string | InvalidEndpoint string | Status grpc_code string

definition is_retryable :: "client_error \<Rightarrow> bool" where
  "is_retryable err =
     (case err of
        Transport _ \<Rightarrow> True
      | InvalidEndpoint _ \<Rightarrow> False
      | Status code _ \<Rightarrow>
          code \<in> set [Unavailable, DeadlineExceeded, ResourceExhausted, Aborted, Internal])"

record sink_stats =
  ss_sent :: nat
  ss_acked :: nat

definition from_counters :: "int \<Rightarrow> int \<Rightarrow> sink_stats" where
  "from_counters next_seq max_acked =
     \<lparr>ss_sent = nat (max (next_seq - 1) 0), ss_acked = nat (max max_acked 0)\<rparr>"

section \<open>Facts about the buffer\<close>

definition sizes :: "'r entry list \<Rightarrow> nat" where
  "sizes items = sum_list (map (fst \<circ> snd) items)"

definition seqs :: "'r retry_buffer \<Rightarrow> int list" where
  "seqs b = map fst (rb_items b)"

text \<open>The cached byte count is right, the budget holds, sequence numbers increase.\<close>

definition rb_inv :: "'r retry_buffer \<Rightarrow> bool" where
  "rb_inv b \<longleftrightarrow> rb_bytes b = sizes (rb_items b) \<and> rb_bytes b \<le> cap_bytes b \<and>
     sorted_wrt (<) (seqs b)"

lemma sizes_simps [simp]:
  "sizes [] = 0" "sizes ((seq, sz, req) # items) = sz + sizes items"
  "sizes (xs @ ys) = sizes xs + sizes ys"
  by (simp_all add: sizes_def)

text \<open>How many of the oldest entries go before the rest fits.\<close>

fun room_needed :: "nat \<Rightarrow> nat \<Rightarrow> 'r entry list \<Rightarrow> nat" where
  "room_needed cap sz [] = 0"
| "room_needed cap sz (e # items) =
     (if sizes (e # items) + sz > cap then Suc (room_needed cap sz items) else 0)"

lemma room_needed_le: "room_needed cap sz items \<le> length items"
  by (induction items) auto

lemma make_room_eq:
  "rb_bytes b = sizes (rb_items b) \<Longrightarrow>
   make_room sz b =
     (let k = room_needed (cap_bytes b) sz (rb_items b); rest = drop k (rb_items b)
      in b\<lparr>rb_items := rest, rb_bytes := sizes rest, rb_evicted := rb_evicted b + k\<rparr>)"
proof (induction sz b rule: make_room.induct)
  case (1 sz b)
  show ?case
  proof (cases "rb_items b \<noteq> [] \<and> rb_bytes b + sz > cap_bytes b")
    case True
    then obtain seq sz req rest where items: "rb_items b = (seq, sz, req) # rest"
      by (metis list.exhaust prod_cases3)
    then have "evict_oldest b =
        b\<lparr>rb_items := rest, rb_bytes := sizes rest, rb_evicted := rb_evicted b + 1\<rparr>"
      using "1.prems" by (simp add: evict_oldest_def)
    with "1.IH" [OF True] True items "1.prems" show ?thesis
      by (subst make_room.simps) (simp add: Let_def)
  next
    case False
    then have "room_needed (cap_bytes b) sz (rb_items b) = 0"
      using "1.prems" by (cases "rb_items b") auto
    moreover have "make_room sz b = b" using False by (subst make_room.simps) (simp only: if_False)
    ultimately show ?thesis by (simp add: "1.prems" [symmetric] Let_def)
  qed
qed

lemma room_needed_fits:
  "drop (room_needed cap sz items) items = [] \<or>
   sizes (drop (room_needed cap sz items) items) + sz \<le> cap"
  by (induction items) auto

lemma room_needed_least:
  "k < room_needed cap sz items \<Longrightarrow> sizes (drop k items) + sz > cap"
proof (induction items arbitrary: k)
  case (Cons e items)
  then show ?case by (cases k) (auto split: if_splits)
qed simp

lemma rb_push_eq:
  assumes "rb_bytes b = sizes (rb_items b)"
  shows "rb_push enc seq req b =
    (let k = room_needed (cap_bytes b) (enc req) (rb_items b);
         rest = drop k (rb_items b)
     in if enc req > cap_bytes b
        then b\<lparr>rb_items := rest, rb_bytes := sizes rest, rb_evicted := rb_evicted b + k + 1\<rparr>
        else b\<lparr>rb_items := rest @ [(seq, enc req, req)], rb_bytes := sizes rest + enc req,
               rb_evicted := rb_evicted b + k\<rparr>)"
  by (simp add: rb_push_def make_room_eq [OF assms] Let_def)

lemma rb_inv_push:
  assumes "rb_inv b" and "\<forall>s \<in> set (seqs b). s < seq"
  shows "rb_inv (rb_push enc seq req b)"
proof -
  let ?k = "room_needed (cap_bytes b) (enc req) (rb_items b)"
  have bytes: "rb_bytes b = sizes (rb_items b)" using assms(1) by (simp add: rb_inv_def)
  have sorted: "sorted_wrt (<) (map fst (drop ?k (rb_items b)))"
    using assms(1) by (simp add: rb_inv_def seqs_def sorted_wrt_drop flip: drop_map)
  have below: "\<forall>e \<in> set (drop ?k (rb_items b)). fst e < seq"
    using assms(2) by (auto simp: seqs_def dest: in_set_dropD)
  have "sizes (drop ?k (rb_items b)) + enc req \<le> cap_bytes b \<or>
      enc req > cap_bytes b \<and> drop ?k (rb_items b) = [] \<or> drop ?k (rb_items b) = []"
    using room_needed_fits by blast
  then show ?thesis
    using sorted below by (auto simp: rb_push_eq [OF bytes] Let_def rb_inv_def seqs_def sorted_wrt_append)
qed

lemma prune_until_eq:
  "rb_bytes b = sizes (rb_items b) \<Longrightarrow>
   prune_until ack b =
     (let rest = dropWhile (\<lambda>e. fst e \<le> ack) (rb_items b)
      in b\<lparr>rb_items := rest, rb_bytes := sizes rest\<rparr>)"
proof (induction ack b rule: prune_until.induct)
  case (1 ack b)
  show ?case
  proof (cases "rb_items b")
    case Nil
    with "1.prems" show ?thesis by (subst prune_until.simps) simp
  next
    case (Cons e rest)
    obtain seq sz req where "e = (seq, sz, req)" by (cases e)
    with Cons 1 show ?thesis
      by (subst prune_until.simps) (auto simp: Let_def split: prod.splits)
  qed
qed

lemma dropWhile_sorted:
  "sorted_wrt (<) (map f xs) \<Longrightarrow> dropWhile (\<lambda>x. f x \<le> (a :: int)) xs = filter (\<lambda>x. a < f x) xs"
proof (induction xs)
  case (Cons x xs)
  have "filter (\<lambda>y. a < f y) xs = xs" if "a < f x"
    unfolding filter_id_conv using Cons.prems that by fastforce
  with Cons show ?case by simp
qed simp

lemma rb_inv_prune: "rb_inv b \<Longrightarrow> rb_inv (prune_until ack b)"
proof -
  assume inv: "rb_inv b"
  then have bytes: "rb_bytes b = sizes (rb_items b)" by (simp add: rb_inv_def)
  have "sizes (dropWhile P items) \<le> sizes items" for P and items :: "'a entry list"
    by (induction items) auto
  moreover have "sorted_wrt (<) (map fst (dropWhile P (rb_items b)))" for P
    using inv by (metis dropWhile_eq_drop drop_map rb_inv_def seqs_def sorted_wrt_drop)
  ultimately show ?thesis
    using inv by (simp add: prune_until_eq [OF bytes] rb_inv_def seqs_def Let_def)
      (metis le_trans)
qed

lemma rb_inv_take_evicted [simp]: "rb_inv (snd (take_evicted b)) = rb_inv b"
  by (simp add: take_evicted_def rb_inv_def seqs_def)

lemma rb_inv_new [simp]: "rb_inv (rb_new cap)"
  by (simp add: rb_inv_def rb_new_def seqs_def)

section \<open>What the stream relies on\<close>

text \<open>The contract of a replay store: it may forget numbers, but counts what it forgets.\<close>

locale replay_store =
  fixes stored :: "'b \<Rightarrow> int set"
    and dropped :: "'b \<Rightarrow> nat"
    and add :: "int \<Rightarrow> 'r \<Rightarrow> 'b \<Rightarrow> 'b"
    and prune :: "int \<Rightarrow> 'b \<Rightarrow> 'b"
    and ok :: "'b \<Rightarrow> bool"
  assumes ok_add: "ok b \<Longrightarrow> (\<And>s. s \<in> stored b \<Longrightarrow> s < seq) \<Longrightarrow> ok (add seq r b)"
    and stored_add: "ok b \<Longrightarrow> stored (add seq r b) \<subseteq> insert seq (stored b)"
    and dropped_add: "ok b \<Longrightarrow> (\<And>s. s \<in> stored b \<Longrightarrow> s < seq) \<Longrightarrow>
      dropped b + card (insert seq (stored b) - stored (add seq r b)) \<le> dropped (add seq r b)"
    and ok_prune: "ok b \<Longrightarrow> ok (prune a b)"
    and stored_prune: "ok b \<Longrightarrow> stored (prune a b) = {s \<in> stored b. a < s}"
    and dropped_prune: "ok b \<Longrightarrow> dropped (prune a b) = dropped b"
    and finite_stored: "finite (stored b)"
begin

lemma missing_add:
  assumes "ok b" and "\<And>s. s \<in> stored b \<Longrightarrow> s < seq"
  shows "card ({lo<..<seq + 1} - stored (add seq r b)) + dropped b \<le>
    card ({lo<..<seq} - stored b) + dropped (add seq r b)"
proof -
  have "{lo<..<seq + 1} - stored (add seq r b) \<subseteq>
      ({lo<..<seq} - stored b) \<union> (insert seq (stored b) - stored (add seq r b))" by auto
  then have "card ({lo<..<seq + 1} - stored (add seq r b)) \<le>
      card (({lo<..<seq} - stored b) \<union> (insert seq (stored b) - stored (add seq r b)))"
    by (intro card_mono) (auto simp: finite_stored)
  also have "\<dots> \<le> card ({lo<..<seq} - stored b) +
      card (insert seq (stored b) - stored (add seq r b))" by (rule card_Un_le)
  finally show ?thesis using dropped_add [OF assms, of r] by linarith
qed

lemma missing_prune:
  assumes "ok b"
  shows "card ({max lo a<..<hi} - stored (prune a b)) \<le> card ({lo<..<hi} - stored b)"
  by (rule card_mono) (auto simp: stored_prune [OF assms])

end

lemma stored_push_shape:
  assumes "rb_inv b" and "\<And>s. s \<in> set (seqs b) \<Longrightarrow> s < seq"
  shows "rb_evicted b + card (insert seq (set (seqs b)) - set (seqs (rb_push enc seq r b))) \<le>
    rb_evicted (rb_push enc seq r b)"
proof -
  have bytes: "rb_bytes b = sizes (rb_items b)" using assms(1) by (simp add: rb_inv_def)
  define k where "k = room_needed (cap_bytes b) (enc r) (rb_items b)"
  have items: "seqs b = map fst (take k (rb_items b)) @ map fst (drop k (rb_items b))"
    by (simp add: seqs_def flip: map_append)
  have cut: "card (set (seqs b) - set (map fst (drop k (rb_items b)))) \<le> k"
  proof -
    have "card (set (seqs b) - set (map fst (drop k (rb_items b)))) \<le>
        card (set (map fst (take k (rb_items b))))"
      unfolding items by (intro card_mono) auto
    also have "\<dots> \<le> length (map fst (take k (rb_items b)))" by (rule card_length)
    finally show ?thesis by simp
  qed
  show ?thesis
  proof (cases "enc r \<le> cap_bytes b")
    case True
    then have "set (seqs (rb_push enc seq r b)) = insert seq (set (map fst (drop k (rb_items b))))"
      by (simp add: rb_push_eq [OF bytes] Let_def seqs_def k_def)
    moreover have "rb_evicted (rb_push enc seq r b) = rb_evicted b + k"
      using True by (simp add: rb_push_eq [OF bytes] Let_def k_def)
    moreover have "insert seq (set (seqs b)) - insert seq (set (map fst (drop k (rb_items b)))) \<subseteq>
        set (seqs b) - set (map fst (drop k (rb_items b)))" by auto
    ultimately show ?thesis using cut card_mono [OF finite_Diff [OF finite_set]]
      by (metis add_left_mono le_trans)
  next
    case False
    then have stored: "set (seqs (rb_push enc seq r b)) = set (map fst (drop k (rb_items b)))"
      and ev: "rb_evicted (rb_push enc seq r b) = rb_evicted b + k + 1"
      by (simp_all add: rb_push_eq [OF bytes] Let_def seqs_def k_def)
    have "card (insert seq (set (seqs b)) - set (map fst (drop k (rb_items b)))) \<le>
        card (insert seq (set (seqs b) - set (map fst (drop k (rb_items b)))))"
      by (intro card_mono) auto
    also have "\<dots> \<le> Suc (card (set (seqs b) - set (map fst (drop k (rb_items b)))))"
      by (rule card_insert_le_m1) simp_all
    finally show ?thesis using cut stored ev by simp
  qed
qed

lemma stored_push: "rb_inv b \<Longrightarrow> set (seqs (rb_push enc seq r b)) \<subseteq> insert seq (set (seqs b))"
  by (auto simp: rb_push_eq rb_inv_def Let_def seqs_def dest: in_set_dropD split: if_splits)

lemma seqs_prune: "rb_inv b \<Longrightarrow> seqs (prune_until a b) = filter (\<lambda>s. a < s) (seqs b)"
  by (simp add: prune_until_eq rb_inv_def Let_def seqs_def dropWhile_sorted filter_map comp_def)

lemma evicted_prune: "rb_inv b \<Longrightarrow> rb_evicted (prune_until a b) = rb_evicted b"
  by (simp add: prune_until_eq rb_inv_def Let_def)

interpretation replay: replay_store "\<lambda>b. set (seqs b)" rb_evicted "rb_push enc" prune_until rb_inv
  for enc :: "'r \<Rightarrow> nat"
proof
  fix b :: "'r retry_buffer" and seq a r
  assume ok: "rb_inv b"
  show "set (seqs (rb_push enc seq r b)) \<subseteq> insert seq (set (seqs b))" using ok by (rule stored_push)
  show "rb_inv (prune_until a b)" using ok by (rule rb_inv_prune)
  show "set (seqs (prune_until a b)) = {s \<in> set (seqs b). a < s}" using ok by (simp add: seqs_prune)
  show "rb_evicted (prune_until a b) = rb_evicted b" using ok by (rule evicted_prune)
  assume below: "\<And>s. s \<in> set (seqs b) \<Longrightarrow> s < seq"
  show "rb_inv (rb_push enc seq r b)" using ok below by (blast intro: rb_inv_push)
  show "rb_evicted b + card (insert seq (set (seqs b)) - set (seqs (rb_push enc seq r b))) \<le>
      rb_evicted (rb_push enc seq r b)" using ok below by (rule stored_push_shape)
qed simp

section \<open>Scalars with a unit\<close>

lemma alnum_not_white: "is_alnum c \<Longrightarrow> \<not> white_space_byte c"
  by (auto simp: white_space_byte_def white_space_def is_alnum_def is_upper_nat is_lower_nat
      is_digit_nat)

lemma lower_letters:
  assumes "set (lower u) \<subseteq> {c. is_lower c}" and "c \<in> set u"
  shows "is_alnum c \<and> \<not> is_digit c"
proof -
  have "is_lower (to_lower c)" using assms by auto
  then show ?thesis
    by (cases "is_upper c") (auto simp: is_alnum_def to_lower_id is_upper_nat is_lower_nat is_digit_nat)
qed

lemma split_scalar_unit_show:
  assumes "set (lower u) \<subseteq> {c. is_lower c}"
  shows "split_scalar_unit (show_nat n @ u) kind = Inr (show_nat n, lower u)"
proof -
  have digits: "is_digit c" if "c \<in> set (show_nat n)" for c using that by (rule show_nat_digits)
  have "trim (show_nat n @ u) = show_nat n @ u"
    using digits lower_letters [OF assms]
    by (intro trim_id alnum_not_white) (auto simp: is_alnum_def)
  moreover have "takeWhile is_digit (show_nat n @ u) = show_nat n"
    using digits lower_letters [OF assms]
    by (subst takeWhile_append2) (auto simp: takeWhile_eq_Nil_iff dest: hd_in_set)
  moreover have "trim u = u"
    using lower_letters [OF assms] by (intro trim_id alnum_not_white) blast
  ultimately show ?thesis by (simp add: split_scalar_unit_def Let_def)
qed

lemma size_multiplier_shape:
  assumes "size_multiplier u = Some m"
  shows "set u \<subseteq> {c. is_lower c}" and "0 < m"
proof -
  have "u \<in> set ['''', ''b'', ''k'', ''kb'', ''kib'', ''m'', ''mb'', ''mib'', ''g'', ''gb'', ''gib'']"
    using assms by (auto simp: size_multiplier_def split: if_splits)
  then show "set u \<subseteq> {c. is_lower c}" by (auto simp: is_lower_nat)
  show "0 < m" using assms by (auto simp: size_multiplier_def split: if_splits)
qed

definition second_units :: "string \<Rightarrow> nat option" where
  "second_units u =
     (if u = ''s'' then Some 1 else if u = ''m'' then Some 60 else if u = ''h'' then Some 3600
      else if u = ''d'' then Some 86400 else None)"

section \<open>Properties\<close>

text \<open>Byte sizes are parsed exactly or refused: a decimal count followed by any accepted unit,
  in any case, parses to the count times the unit's multiple when that fits in 64 bits, and
  is an error otherwise; no value wraps around.\<close>

theorem parse_byte_size_exact:
  assumes "size_multiplier (lower u) = Some m"
  shows "parse_byte_size (show_nat n @ u) = Inr v \<longleftrightarrow> v = n * m \<and> n * m \<le> usize_max"
proof -
  note split = split_scalar_unit_show [OF size_multiplier_shape(1) [OF assms]]
  have "n \<le> n * m" using size_multiplier_shape(2) [OF assms] by simp
  then have "n * m \<le> usize_max \<Longrightarrow> n \<le> usize_max" by (rule le_trans)
  then show ?thesis
    by (auto simp: parse_byte_size_def split assms parse_u64_def)
qed

theorem parse_byte_size_exact_witness:
  "parse_byte_size (show_nat 512 @ ''MiB'') = Inr (512 * 1048576)"
proof -
  have low: "lower ''MiB'' = ''mib''" by code_simp
  have unit: "size_multiplier (lower ''MiB'') = Some 1048576"
    unfolding low by (simp add: size_multiplier_def)
  show ?thesis by (subst parse_byte_size_exact [OF unit]) (simp add: usize_max_def)
qed

text \<open>Durations in seconds, minutes, hours and days: every 64-bit count parses, to the count
  times the unit reduced modulo \<open>2 ^ 64\<close> seconds; it is the intended duration exactly when the
  product fits, because the code multiplies without a check.\<close>

theorem parse_duration_wraps:
  assumes "second_units (lower u) = Some k" and "n < 2 ^ 64"
  shows "parse_duration (show_nat n @ u) = Inr ((n * k) mod 2 ^ 64 * 10 ^ 9)"
proof -
  have u: "lower u \<in> {''s'', ''m'', ''h'', ''d''}"
    using assms(1) by (auto simp: second_units_def split: if_splits)
  then have low: "set (lower u) \<subseteq> {c. is_lower c}" by (auto simp: is_lower_nat)
  have prod: "unat (of_nat n * of_nat k :: 64 word) = (n * k) mod 2 ^ 64"
    by (simp add: unat_of_nat flip: of_nat_mult)
  show ?thesis
    using u assms prod
    by (auto simp: parse_duration_def split_scalar_unit_show [OF low] parse_u64_def usize_max_def
        second_units_def from_secs_def Let_def split: if_splits)
qed

theorem parse_duration_wraps_witness:
  "parse_duration (show_nat 2 @ ''h'') = Inr (7200 * 10 ^ 9)"
  using parse_duration_wraps [of "''h''" 3600 2] by (simp add: second_units_def to_lower_def is_upper_nat)

text \<open>The replay buffer stays consistent: its byte count is the sum of the retained sizes and
  never exceeds the budget, and its sequence numbers increase, after construction, after
  retaining an event with a new highest number (whatever its size), after pruning and after
  draining the eviction counter.\<close>

theorem replay_buffer_invariant:
  assumes "rb_inv b" and "\<forall>s \<in> set (seqs b). s < seq"
  shows "rb_inv (rb_new cap :: 'r retry_buffer) \<and> rb_inv (rb_push enc seq req b) \<and>
    rb_inv (prune_until ack b) \<and> rb_inv (snd (take_evicted b))"
  using rb_inv_push [OF assms] rb_inv_prune [OF assms(1)] assms(1)
  by simp

theorem replay_buffer_invariant_witness:
  "rb_inv (rb_push length 1 ''a'' (rb_new 2))"
proof -
  have "\<forall>s \<in> set (seqs (rb_new 2 :: string retry_buffer)). s < 1" by (simp add: seqs_def rb_new_def)
  from replay_buffer_invariant [OF rb_inv_new this] show ?thesis by blast
qed

definition two_entries :: "string retry_buffer" where
  "two_entries =
     \<lparr>cap_bytes = 3, rb_bytes = 3, rb_evicted = 0, rb_items = [(1, 2, ''aa''), (2, 1, ''b'')]\<rparr>"

text \<open>Retention gives up as little as it can, from the old end: an event that fits the budget is
  retained after dropping the shortest prefix of the buffer that makes room; every dropped
  event, and an event larger than the whole budget, is counted as evicted; a prune drops
  exactly the events up to the acknowledged number.\<close>

theorem replay_buffer_keeps_newest:
  assumes "rb_inv b"
  shows "\<exists>k \<le> length (rb_items b).
      rb_items (rb_push enc seq req b) =
        drop k (rb_items b) @ (if enc req \<le> cap_bytes b then [(seq, enc req, req)] else []) \<and>
      rb_evicted (rb_push enc seq req b) =
        rb_evicted b + k + (if enc req \<le> cap_bytes b then 0 else 1) \<and>
      (\<forall>j < k. sizes (drop j (rb_items b)) + enc req > cap_bytes b)"
    (is "\<exists>k \<le> _. ?P k")
proof (rule exI [of _ "room_needed (cap_bytes b) (enc req) (rb_items b)"], rule conjI)
  have bytes: "rb_bytes b = sizes (rb_items b)" using assms by (simp add: rb_inv_def)
  show "?P (room_needed (cap_bytes b) (enc req) (rb_items b))"
    using room_needed_least by (auto simp: rb_push_eq [OF bytes] Let_def)
qed (rule room_needed_le)

theorem replay_buffer_keeps_newest_witness:
  "\<exists>k \<le> 2. rb_items (rb_push length 3 ''cc'' two_entries) = drop k (rb_items two_entries) @ [(3, 2, ''cc'')]"
proof -
  have "rb_inv two_entries" by (simp add: two_entries_def rb_inv_def seqs_def)
  from replay_buffer_keeps_newest [OF this, of length 3 "''cc''"]
  obtain k where k: "k \<le> length (rb_items two_entries)"
    "rb_items (rb_push length 3 ''cc'' two_entries) = drop k (rb_items two_entries) @
       (if length ''cc'' \<le> cap_bytes two_entries then [(3, length ''cc'', ''cc'')] else [])" by blast
  moreover have "length (rb_items two_entries) = 2" "cap_bytes two_entries = 3"
    by (simp_all add: two_entries_def)
  ultimately show ?thesis by (intro exI [of _ k]) simp
qed

text \<open>Backoff is bounded: whatever the attempt number and the random draw, the delay is at most
  \<open>min_delay * 2 ^ attempt\<close> and at most thirty times \<open>min_delay\<close>, saturation included.\<close>

theorem backoff_bounded:
  assumes "\<forall>u. draw u \<le> u"
  shows "backoff draw min_delay attempt \<le> min_delay * min (2 ^ attempt) 30"
proof -
  let ?ns = "min_delay mod 2 ^ 64"
  have "backoff draw min_delay attempt \<le> min (?ns * 2 ^ min attempt 30) (?ns * 30)"
    using assms
    by (auto simp: backoff_def saturating_mul_def Let_def min_le_iff_disj intro: order_trans)
  also have "\<dots> = ?ns * min (2 ^ min attempt 30) 30" by (simp only: nat_mult_min_right)
  also have "\<dots> \<le> min_delay * min (2 ^ attempt) 30"
    by (intro mult_mono mod_less_eq_dividend min.mono power_increasing) auto
  finally show ?thesis .
qed

theorem backoff_bounded_witness: "backoff (\<lambda>u. u div 2) 1000 3 \<le> 8000"
  using backoff_bounded [of "\<lambda>u. u div 2" 1000 3] by simp

text \<open>Three hundred quadrillion minutes are taken for 44 seconds.\<close>

lemma parse_duration_overflow:
  "parse_duration (show_nat 307445734561825861 @ ''m'') = Inr (44 * 10 ^ 9)"
  by (simp add: parse_duration_def split_scalar_unit_show is_lower_nat parse_u64_def usize_max_def
      from_secs_def to_lower_def is_upper_nat)

text \<open>An event larger than the budget empties the buffer although it is not retained.\<close>

lemma oversized_event_evicts_everything:
  "rb_items (rb_push length 2 ''too long'' (rb_push length 1 ''a'' (rb_new 4))) = []"
  by (simp add: rb_push_eq rb_new_def)

end
