(* ===== verification/Bazel_Build.thy ===== *)
theory Bazel_Build
  imports Build_Events Bazel_Process Retry
begin

text \<open>
  Starting a Bazel build and the handles around it (crates/axl-runtime/src/engine/bazel/build.rs):
  the event sinks and iterators that Starlark code creates and passes to builds, \<open>Build::spawn\<close> with
  its command line, and \<open>wait\<close> and \<open>try_wait\<close>. Handles are shared objects, so they live in a store and
  are named by numbers; the answers of the operating system are parameters.
\<close>

section \<open>Event sinks\<close>

text \<open>A live sink names its worker thread or its signal; \<open>'m\<close> is the metadata of requests.\<close>

datatype 'm sink_config = GrpcSink string 'm retry_config | FileSink string

datatype sink_phase = SinkIdle | SinkGrpc nat | SinkFile nat

record 'm sink =
  sk_config :: "'m sink_config"
  sk_phase :: sink_phase
  sk_failed :: bool
  sk_error :: "string option"
  sk_bound :: nat
  sk_sent :: nat
  sk_acked :: nat

definition new_sink :: "'m sink_config \<Rightarrow> 'm sink" where
  "new_sink c = \<lparr>sk_config = c, sk_phase = SinkIdle, sk_failed = False, sk_error = None, sk_bound = 0,
     sk_sent = 0, sk_acked = 0\<rparr>"

definition file_path :: "'m sink \<Rightarrow> string option" where
  "file_path s = (case sk_config s of FileSink p \<Rightarrow> Some p | GrpcSink _ _ _ \<Rightarrow> None)"

definition grpc_uri :: "'m sink \<Rightarrow> string option" where
  "grpc_uri s = (case sk_config s of GrpcSink u _ _ \<Rightarrow> Some u | FileSink _ \<Rightarrow> None)"

definition still_live_grpc :: string where
  "still_live_grpc = ''this `bazel.build_events.grpc(...)` handle is still Live from a previous bind; call `sink.wait()` before passing it to another `ctx.bazel.build(...)` call''"

definition still_live_file :: string where
  "still_live_file = ''this `bazel.build_events.file(...)` handle is still Live from a previous bind; call `sink.wait()` before re-binding''"

definition rebound :: "sink_phase \<Rightarrow> 'm sink \<Rightarrow> 'm sink" where
  "rebound p s = s\<lparr>sk_failed := False, sk_error := None, sk_bound := Suc (sk_bound s), sk_phase := p\<rparr>"

definition bind_grpc :: "nat \<Rightarrow> 'm sink \<Rightarrow> string + 'm sink" where
  "bind_grpc w s =
     (case sk_config s of
        FileSink _ \<Rightarrow> Inl ''BUG: bind_grpc called on a non-gRPC sink''
      | GrpcSink _ _ _ \<Rightarrow>
          if sk_phase s \<noteq> SinkIdle then Inl still_live_grpc else Inr (rebound (SinkGrpc w) s))"

definition bind_file :: "nat \<Rightarrow> 'm sink \<Rightarrow> string + 'm sink" where
  "bind_file w s =
     (case sk_config s of
        GrpcSink _ _ _ \<Rightarrow> Inl ''BUG: bind_file called on a non-file sink''
      | FileSink _ \<Rightarrow>
          if sk_phase s \<noteq> SinkIdle then Inl still_live_file else Inr (rebound (SinkFile w) s))"

text \<open>\<open>joined w\<close> is what joining the worker \<open>w\<close> gives, \<open>None\<close> when it panicked; \<open>signalled w\<close> is the result
  of the signal \<open>w\<close>, \<open>None\<close> when nobody ever completes it. Then \<open>wait\<close> does not return.\<close>

definition settle :: "string + unit \<Rightarrow> nat \<Rightarrow> nat \<Rightarrow> 'm sink \<Rightarrow> 'm sink" where
  "settle outcome sent acked s =
     s\<lparr>sk_phase := SinkIdle, sk_failed := (case outcome of Inl _ \<Rightarrow> True | Inr _ \<Rightarrow> False),
       sk_error := (case outcome of Inl e \<Rightarrow> Some e | Inr _ \<Rightarrow> None), sk_sent := sent, sk_acked := acked\<rparr>"

definition wait_sink ::
  "(nat \<Rightarrow> ((nat \<times> nat) \<times> (string + unit)) option) \<Rightarrow> (nat \<Rightarrow> (string + unit) option) \<Rightarrow>
   'm sink \<Rightarrow> 'm sink option" where
  "wait_sink joined signalled s =
     (case sk_phase s of
        SinkIdle \<Rightarrow> Some s
      | SinkGrpc w \<Rightarrow>
          Some (case joined w of
            Some ((sent, acked), outcome) \<Rightarrow> settle outcome sent acked s
          | None \<Rightarrow> settle (Inl ''sink worker thread panicked'') 0 0 s)
      | SinkFile w \<Rightarrow> map_option (\<lambda>outcome. settle outcome 0 0 s) (signalled w))"

datatype sink_attr = ABool bool | AText "string option" | ANumber nat

definition sink_get_attr :: "'m sink \<Rightarrow> string \<Rightarrow> sink_attr option" where
  "sink_get_attr s attribute =
     (if attribute = ''done'' then Some (ABool (sk_phase s = SinkIdle \<and> 0 < sk_bound s))
      else if attribute = ''failed'' then Some (ABool (sk_failed s))
      else if attribute = ''error'' then Some (AText (sk_error s))
      else if attribute = ''events_sent'' then Some (ANumber (sk_sent s))
      else if attribute = ''events_acked'' then Some (ANumber (sk_acked s))
      else if attribute = ''uri'' then Some (AText (grpc_uri s))
      else None)"

definition sink_has_attr :: "string \<Rightarrow> bool" where
  "sink_has_attr attribute \<longleftrightarrow>
     attribute \<in> {''done'', ''failed'', ''error'', ''events_sent'', ''events_acked'', ''uri''}"

section \<open>Event iterators\<close>

text \<open>A live iterator names its stream and its subscription there. \<open>tick\<close>: it yields \<open>None\<close> when the
  stream is quiet for so many milliseconds.\<close>

datatype iter_state = IterPending | IterLive nat nat | IterDone

record build_iter =
  it_kinds :: "int list option"
  it_tick :: "nat option"
  it_state :: iter_state

definition new_iter :: "int list option \<Rightarrow> nat option \<Rightarrow> build_iter" where
  "new_iter kinds tick = \<lparr>it_kinds = kinds, it_tick = tick, it_state = IterPending\<rparr>"

type_synonym 'x streams = "nat \<Rightarrow> 'x build_event broadcaster"

definition kind_filter :: "build_iter \<Rightarrow> ('x build_event) sub_filter" where
  "kind_filter it = map_option (\<lambda>kinds ev. event_kind_in ev kinds) (it_kinds it)"

definition already_bound :: string where
  "already_bound = ''this `bazel.build_events.iterator()` handle was already bound to a build; create a fresh one per build''"

definition bind_iter :: "nat \<Rightarrow> build_iter \<Rightarrow> 'x streams \<Rightarrow> string + (build_iter \<times> 'x streams)" where
  "bind_iter k it ss =
     (if it_state it \<noteq> IterPending then Inl already_bound
      else (let (i, b) = subscribe_filtered (kind_filter it) (ss k)
        in Inr (it\<lparr>it_state := IterLive k i\<rparr>, ss(k := b))))"

text \<open>The outcome of a step of a loop: an event, the \<open>None\<close> of a tick, the end, or no answer yet. A
  subscriber that is dropped drops its receiver and then its token.\<close>

datatype 'x loop_step = Yield "'x build_event" | Tick | Exhausted | Blocked

definition drop_subscriber :: "nat \<Rightarrow> 'x broadcaster \<Rightarrow> 'x broadcaster" where
  "drop_subscriber i b = drop_token i (drop_rx i b)"

definition step_iter :: "build_iter \<Rightarrow> 'x streams \<Rightarrow> 'x loop_step \<times> build_iter \<times> 'x streams" where
  "step_iter it ss =
     (case it_state it of
        IterLive k i \<Rightarrow>
          (case try_recv i (ss k) of
             (Received ev, b) \<Rightarrow> (Yield ev, it, ss(k := b))
           | (Disconnected, b) \<Rightarrow> (Exhausted, it\<lparr>it_state := IterDone\<rparr>, ss(k := drop_subscriber i b))
           | (WouldBlock, b) \<Rightarrow> (case it_tick it of Some ms \<Rightarrow> Tick | None \<Rightarrow> Blocked, it, ss))
      | _ \<Rightarrow> (Exhausted, it, ss))"

definition drain_iter :: "build_iter \<Rightarrow> 'x streams \<Rightarrow> build_iter \<times> 'x streams" where
  "drain_iter it ss =
     (it\<lparr>it_state := IterDone\<rparr>,
      case it_state it of IterLive k i \<Rightarrow> ss(k := drop_subscriber i (ss k)) | _ \<Rightarrow> ss)"

definition try_pop :: "build_iter \<Rightarrow> 'x streams \<Rightarrow> 'x build_event option \<times> build_iter \<times> 'x streams" where
  "try_pop it ss =
     (case it_state it of
        IterLive k i \<Rightarrow>
          (case try_recv i (ss k) of
             (Received ev, b) \<Rightarrow> (Some ev, it, ss(k := b))
           | (Disconnected, b) \<Rightarrow> (None, it\<lparr>it_state := IterDone\<rparr>, ss(k := drop_subscriber i b))
           | (WouldBlock, b) \<Rightarrow> (None, it, ss))
      | _ \<Rightarrow> (None, it, ss))"

text \<open>A \<open>for\<close> loop over an iterator of a stream that has ended, for at most \<open>fuel\<close> steps.\<close>

fun for_events :: "nat \<Rightarrow> build_iter \<Rightarrow> 'x streams \<Rightarrow> 'x build_event list \<times> build_iter \<times> 'x streams" where
  "for_events 0 it ss = ([], it, ss)"
| "for_events (Suc fuel) it ss =
     (case step_iter it ss of
        (Yield ev, it', ss') \<Rightarrow> apfst (Cons ev) (for_events fuel it' ss')
      | (_, it', ss') \<Rightarrow> ([], it', ss'))"

section \<open>The lines before a build\<close>

definition grey_style :: "bool \<Rightarrow> bool \<Rightarrow> string \<times> string" where
  "grey_style terminal ci = (if terminal \<or> ci then (esc ''38;5;244'', esc ''0'') else ([], []))"

definition version_line :: "('ver \<Rightarrow> string) \<Rightarrow> 'ver option \<Rightarrow> string" where
  "version_line show_version version =
     (case version of
        Some v \<Rightarrow> ''Bazel '' @ show_version v
      | None \<Rightarrow> ''Bazel development version (version-conditional flags assume latest)'')"

definition render_command :: "(string \<Rightarrow> string) \<Rightarrow> string \<Rightarrow> string list \<Rightarrow> string" where
  "render_command lc program args = join '' '' (program # redact_command_args lc args)"

record announce_flags =
  an_version :: bool
  an_command :: bool

definition announce_spawn ::
  "(string \<Rightarrow> string) \<Rightarrow> ('ver \<Rightarrow> string) \<Rightarrow> string \<times> string \<Rightarrow> announce_flags \<Rightarrow> 'ver option \<Rightarrow> string \<Rightarrow>
   string list \<Rightarrow> string list" where
  "announce_spawn lc show_version style an version program args =
     (if an_version an then [fst style @ ''INFO: '' @ version_line show_version version @ snd style] else []) @
     (if an_command an
      then [fst style @ ''INFO: Spawning: '' @ render_command lc program args @ snd style] else [])"

section \<open>Starting a build\<close>

text \<open>All handles, the streams of the builds so far, the workers of gRPC sinks (worker, sink, stream,
  subscription, invocation) and the registry of live clients.\<close>

record ('m, 'x) handles =
  hd_sinks :: "nat \<Rightarrow> 'm sink"
  hd_iters :: "nat \<Rightarrow> build_iter"
  hd_streams :: "'x streams"
  hd_stream_count :: nat
  hd_next_worker :: nat
  hd_workers :: "(nat \<times> nat \<times> nat \<times> nat \<times> string) list"
  hd_live :: "pid list"

datatype exec_sink = ExecFile string | ExecCompact string

definition compact_paths :: "exec_sink list \<Rightarrow> string list" where
  "compact_paths sinks = concat (map (\<lambda>s. case s of ExecCompact p \<Rightarrow> [p] | ExecFile _ \<Rightarrow> []) sinks)"

definition decoded_paths :: "exec_sink list \<Rightarrow> string list" where
  "decoded_paths sinks = concat (map (\<lambda>s. case s of ExecFile p \<Rightarrow> [p] | ExecCompact _ \<Rightarrow> []) sinks)"

text \<open>The arguments of a build, and the answers of the system: the server, the pipe, two fresh paths,
  the client, and a fresh identifier.\<close>

record spawn_args =
  sa_verb :: string
  sa_targets :: "string list"
  sa_build_events :: bool
  sa_sinks :: "nat list"
  sa_iters :: "nat list"
  sa_execution_logs :: bool
  sa_exec_sinks :: "exec_sink list"
  sa_workspace :: bool
  sa_flags :: "string list"
  sa_startup :: "string list"
  sa_directory :: "string option"

record 'ver spawn_env =
  se_server :: "string + pid \<times> 'ver option"
  se_reserve :: "string + string"
  se_workspace :: string
  se_execlog :: string
  se_child :: "string + pid"
  se_uuid :: string

record bazel_build =
  bd_argv :: "string list"
  bd_directory :: "string option"
  bd_pid :: pid
  bd_stream :: "nat option"
  bd_files :: "(string \<times> nat) list"
  bd_copies :: "string list"
  bd_decoded :: "string list"
  bd_invocation :: "string option"

datatype 'b spawn_result = SpawnOk 'b | SpawnErr string | SpawnPanic

text \<open>The command line of the probe, which has neither the startup flags nor the directory of the
  build.\<close>

definition server_probe :: "string list" where
  "server_probe = [''info'', ''server_pid'', ''release'']"

definition build_argv :: "spawn_args \<Rightarrow> string option \<Rightarrow> string option \<Rightarrow> string option \<Rightarrow> string list" where
  "build_argv sa bes workspace execlog =
     sa_startup sa @ [sa_verb sa] @ sa_flags sa @
     (case bes of
        Some p \<Rightarrow> [''--build_event_publish_all_actions'',
          ''--build_event_binary_file_upload_mode=fully_async'', ''--build_event_binary_file'', p]
      | None \<Rightarrow> []) @
     (case workspace of Some p \<Rightarrow> [''--experimental_workspace_rules_log_file'', p] | None \<Rightarrow> []) @
     (case execlog of Some p \<Rightarrow> [''--execution_log_compact_file'', p] | None \<Rightarrow> []) @
     [''--''] @ sa_targets sa"

text \<open>File sinks are bound in order; the others are kept for later.\<close>

fun bind_files ::
  "nat list \<Rightarrow> ('m, 'x) handles \<Rightarrow> (string + (string \<times> nat) list \<times> nat list) \<times> ('m, 'x) handles" where
  "bind_files [] h = (Inr ([], []), h)"
| "bind_files (s # ss) h =
     (case file_path (hd_sinks h s) of
        None \<Rightarrow> apfst (map_sum id (apsnd (Cons s))) (bind_files ss h)
      | Some path \<Rightarrow>
          (case bind_file (hd_next_worker h) (hd_sinks h s) of
             Inl e \<Rightarrow> (Inl e, h)
           | Inr s' \<Rightarrow> apfst (map_sum id (apfst (Cons (path, hd_next_worker h))))
               (bind_files ss (h\<lparr>hd_sinks := (hd_sinks h)(s := s'), hd_next_worker := Suc (hd_next_worker h)\<rparr>))))"

fun bind_iters :: "nat \<Rightarrow> nat list \<Rightarrow> ('m, 'x) handles \<Rightarrow> (string + unit) \<times> ('m, 'x) handles" where
  "bind_iters k [] h = (Inr (), h)"
| "bind_iters k (i # is) h =
     (case bind_iter k (hd_iters h i) (hd_streams h) of
        Inl e \<Rightarrow> (Inl e, h)
      | Inr (it, ss) \<Rightarrow> bind_iters k is (h\<lparr>hd_iters := (hd_iters h)(i := it), hd_streams := ss\<rparr>))"

fun bind_grpcs :: "nat \<Rightarrow> string \<Rightarrow> nat list \<Rightarrow> ('m, 'x) handles \<Rightarrow> (string + unit) \<times> ('m, 'x) handles" where
  "bind_grpcs k invoc [] h = (Inr (), h)"
| "bind_grpcs k invoc (s # ss) h =
     (case bind_grpc (hd_next_worker h) (hd_sinks h s) of
        Inl e \<Rightarrow> (Inl e, h)
      | Inr s' \<Rightarrow>
          (let (i, b) = subscribe (hd_streams h k)
           in bind_grpcs k invoc ss (h\<lparr>hd_sinks := (hd_sinks h)(s := s'),
             hd_next_worker := Suc (hd_next_worker h), hd_streams := (hd_streams h)(k := b),
             hd_workers := hd_workers h @ [(hd_next_worker h, s, k, i, invoc)]\<rparr>)))"

definition no_stream :: string where
  "no_stream = ''ctx.bazel.build/test: build_events list contained `iterator()` handles but no BEP stream is configured''"

text \<open>The build's own stream, when it has one: it starts with no subscriber.\<close>

definition open_stream :: "bool \<Rightarrow> ('m, 'x) handles \<Rightarrow> nat option \<times> ('m, 'x) handles" where
  "open_stream configured h =
     (if configured then (Some (hd_stream_count h),
        h\<lparr>hd_streams := (hd_streams h)(hd_stream_count h := bc_new), hd_stream_count := Suc (hd_stream_count h)\<rparr>)
      else (None, h))"

definition bind_all_iters :: "nat option \<Rightarrow> nat list \<Rightarrow> ('m, 'x) handles \<Rightarrow> (string + unit) \<times> ('m, 'x) handles" where
  "bind_all_iters stream is h =
     (if is = [] then (Inr (), h)
      else (case stream of None \<Rightarrow> (Inl no_stream, h) | Some k \<Rightarrow> bind_iters k is h))"

text \<open>\<open>None\<close>: the stream is unwrapped although there is none.\<close>

definition bind_all_grpcs ::
  "nat option \<Rightarrow> string \<Rightarrow> nat list \<Rightarrow> ('m, 'x) handles \<Rightarrow> (string + unit) option \<times> ('m, 'x) handles" where
  "bind_all_grpcs stream invoc ss h =
     (if ss = [] then (Some (Inr ()), h)
      else (case stream of None \<Rightarrow> (None, h) | Some k \<Rightarrow> apfst Some (bind_grpcs k invoc ss h)))"

text \<open>What follows the start of the client. Leaving it early drops the guard, and so the registration
  of the client, which goes on running.\<close>

definition after_spawn ::
  "string \<Rightarrow> spawn_args \<Rightarrow> nat list \<Rightarrow> bool \<Rightarrow> (nat option \<Rightarrow> bazel_build) \<Rightarrow> pid \<Rightarrow> ('m, 'x) handles \<Rightarrow>
   bazel_build spawn_result \<times> ('m, 'x) handles" where
  "after_spawn uuid sa grpcs configured mk pid h =
     (let abandon = (\<lambda>h. h\<lparr>hd_live := drop_guard pid (hd_live h)\<rparr>);
          (stream, h1) = open_stream configured (h\<lparr>hd_live := register_pid pid (hd_live h)\<rparr>)
      in case bind_all_iters stream (sa_iters sa) h1 of
           (Inl e, h2) \<Rightarrow> (SpawnErr e, abandon h2)
         | (Inr _, h2) \<Rightarrow>
             (case bind_all_grpcs stream uuid grpcs h2 of
                (None, h3) \<Rightarrow> (SpawnPanic, abandon h3)
              | (Some (Inl e), h3) \<Rightarrow> (SpawnErr e, abandon h3)
              | (Some (Inr _), h3) \<Rightarrow>
                  (SpawnOk (mk stream),
                   case stream of
                     Some k \<Rightarrow> h3\<lparr>hd_streams := (hd_streams h3)(k := snd (subscribe (hd_streams h3 k)))\<rparr>
                   | None \<Rightarrow> h3)))"

definition execlog_path :: "'ver spawn_env \<Rightarrow> spawn_args \<Rightarrow> string option" where
  "execlog_path env sa =
     (if sa_execution_logs sa
      then Some (case compact_paths (sa_exec_sinks sa) of [] \<Rightarrow> se_execlog env | p # _ \<Rightarrow> p) else None)"

definition make_build ::
  "'ver spawn_env \<Rightarrow> spawn_args \<Rightarrow> (string \<times> nat) list \<Rightarrow> nat list \<Rightarrow> string option \<Rightarrow> pid \<Rightarrow> nat option \<Rightarrow>
   bazel_build" where
  "make_build env sa files grpcs bes pid stream =
     \<lparr>bd_argv = build_argv sa bes (if sa_workspace sa then Some (se_workspace env) else None)
        (execlog_path env sa),
      bd_directory = sa_directory sa, bd_pid = pid, bd_stream = stream, bd_files = files,
      bd_copies = (if sa_execution_logs sa then tl (compact_paths (sa_exec_sinks sa)) else []),
      bd_decoded = (if sa_execution_logs sa then decoded_paths (sa_exec_sinks sa) else []),
      bd_invocation = (if grpcs = [] then None else Some (se_uuid env))\<rparr>"

definition spawn_build ::
  "'ver spawn_env \<Rightarrow> spawn_args \<Rightarrow> ('m, 'x) handles \<Rightarrow> bazel_build spawn_result \<times> ('m, 'x) handles" where
  "spawn_build env sa h =
     (case se_server env of
        Inl e \<Rightarrow> (SpawnErr e, h)
      | Inr _ \<Rightarrow>
          (case bind_files (sa_sinks sa) h of
             (Inl e, h1) \<Rightarrow> (SpawnErr e, h1)
           | (Inr (files, grpcs), h1) \<Rightarrow>
               (case (if sa_build_events sa then map_sum id Some (se_reserve env) else Inr None) of
                  Inl e \<Rightarrow> (SpawnErr e, h1)
                | Inr bes \<Rightarrow>
                    (case se_child env of
                       Inl e \<Rightarrow> (SpawnErr (''failed to spawn bazel: '' @ e), h1)
                     | Inr pid \<Rightarrow> after_spawn (se_uuid env) sa grpcs (bes \<noteq> None)
                         (make_build env sa files grpcs bes pid) pid h1))))"

definition sink_invocation_id :: "bazel_build \<Rightarrow> string" where
  "sink_invocation_id b = (case bd_invocation b of Some i \<Rightarrow> i | None \<Rightarrow> [])"

section \<open>Waiting for a build\<close>

text \<open>A build that runs: whether the guard of its client is held, and the results with which its
  streams will be joined, \<open>None\<close> when there is no such stream or it was joined before.\<close>

record running =
  rn_guard :: bool
  rn_bes :: "(string + unit) option"
  rn_workspace :: "(string + unit) option"
  rn_execlog :: "(string + unit) option"

type_synonym build_status = "bool \<times> int option"

definition status_of :: "int option \<Rightarrow> build_status" where
  "status_of code = (code = Some 0, code)"

text \<open>Joining takes the result; the error of a stream ends the wait.\<close>

definition join_result :: "string \<Rightarrow> (string + unit) option \<Rightarrow> string + unit" where
  "join_result name r = (case r of Some (Inl e) \<Rightarrow> Inl (name @ '' thread error: '' @ e) | _ \<Rightarrow> Inr ())"

definition wait_build :: "string + int option \<Rightarrow> running \<Rightarrow> (string + build_status) \<times> running" where
  "wait_build child rn =
     (case child of
        Inl e \<Rightarrow> (Inl e, rn)
      | Inr code \<Rightarrow>
          (let rn1 = rn\<lparr>rn_guard := False\<rparr>; rn2 = rn1\<lparr>rn_bes := None\<rparr>
           in case join_result ''build event stream'' (rn_bes rn) of
                Inl e \<Rightarrow> (Inl e, rn2)
              | Inr _ \<Rightarrow>
                  (let rn3 = rn2\<lparr>rn_workspace := None\<rparr>
                   in case join_result ''workspace event stream'' (rn_workspace rn) of
                        Inl e \<Rightarrow> (Inl e, rn3)
                      | Inr _ \<Rightarrow>
                          (let rn4 = rn3\<lparr>rn_execlog := None\<rparr>
                           in case join_result ''execlog stream'' (rn_execlog rn) of
                                Inl e \<Rightarrow> (Inl e, rn4)
                              | Inr _ \<Rightarrow> (Inr (status_of code), rn4)))))"

definition try_wait_build :: "string + int option option \<Rightarrow> running \<Rightarrow> (string + build_status option) \<times> running" where
  "try_wait_build child rn =
     (case child of
        Inl e \<Rightarrow> (Inl e, rn)
      | Inr None \<Rightarrow> (Inr None, rn)
      | Inr (Some code) \<Rightarrow> (Inr (Some (status_of code)), rn\<lparr>rn_guard := False\<rparr>))"

text \<open>\<open>execution_logs()\<close> and \<open>workspace_events()\<close> need their stream.\<close>

definition execution_logs :: "running \<Rightarrow> string + unit" where
  "execution_logs rn = (case rn_execlog rn of None \<Rightarrow>
     Inl ''call `ctx.bazel.build` with `execution_log = true` in order to receive execution log events.''
   | Some _ \<Rightarrow> Inr ())"

definition workspace_events :: "running \<Rightarrow> string + unit" where
  "workspace_events rn = (case rn_workspace rn of None \<Rightarrow>
     Inl ''call `ctx.bazel.build` with `workspace_events = true` in order to receive workspace events.''
   | Some _ \<Rightarrow> Inr ())"

section \<open>Subscriptions of a fresh stream\<close>

definition bc_fresh :: "'x broadcaster \<Rightarrow> bool" where
  "bc_fresh b \<longleftrightarrow> distinct (map fst (bc_subs b)) \<and> fst ` set (bc_subs b) \<subseteq> {..<bc_next b} \<and> \<not> bc_closed b"

text \<open>Subscription \<open>i\<close> is in force with filter \<open>f\<close>, nothing of it has been dropped, and \<open>q\<close> waits for it.\<close>

definition fed :: "'x broadcaster \<Rightarrow> nat \<Rightarrow> 'x sub_filter \<Rightarrow> 'x list \<Rightarrow> bool" where
  "fed b i f q \<longleftrightarrow> distinct (map fst (bc_subs b)) \<and> map_of (bc_subs b) i = Some f \<and>
     bc_chans b i = (new_chan True)\<lparr>ch_queue := q\<rparr>"

lemma bc_fresh_new: "bc_fresh bc_new"
  by (simp add: bc_fresh_def bc_new_def)

lemma subscribe_fresh:
  assumes "bc_fresh b" and "subscribe_filtered f b = (i, b')"
  shows "bc_fresh b'" and "fed b' i f []" and "fed b j g q \<Longrightarrow> fed b' j g q"
proof -
  have i: "i = bc_next b" and b': "b' = b\<lparr>bc_subs := bc_subs b @ [(i, f)],
      bc_chans := (bc_chans b)(i := new_chan True), bc_next := i + 1\<rparr>"
    using assms by (auto simp: subscribe_filtered_def bc_fresh_def Let_def)
  have new: "i \<notin> fst ` set (bc_subs b)" using assms(1) i by (auto simp: bc_fresh_def)
  then have none: "map_of (bc_subs b) i = None" by (simp add: map_of_eq_None_iff)
  show "bc_fresh b'" using assms(1) b' i by (auto simp: bc_fresh_def)
  show "fed b' i f []"
    using assms(1) b' new none by (simp add: fed_def bc_fresh_def new_chan_def map_add_def)
  show "fed b' j g q" if "fed b j g q"
  proof -
    have "j \<noteq> i" using that none by (auto simp: fed_def)
    then show ?thesis using that b' new by (simp add: fed_def map_add_def)
  qed
qed

lemma fed_send:
  assumes "fed b i f q"
  shows "fed (send e b) i f (q @ (if accepts f e then [e] else []))"
proof -
  have d: "distinct (map fst (bc_subs b))" using assms by (simp add: fed_def)
  have "retained e f (bc_chans b i)" and "deliver e f (bc_chans b i) =
      (new_chan True)\<lparr>ch_queue := q @ (if accepts f e then [e] else [])\<rparr>"
    using assms by (simp_all add: fed_def retained_def deliver_def new_chan_def)
  moreover have "distinct (map fst (filter P (bc_subs b)))" for P
    using d by (simp add: distinct_map_filter)
  ultimately show ?thesis
    using assms by (simp add: fed_def send_def retain_send_eq [OF d] map_of_retain [OF d])
qed

lemma fed_sends: "fed b i f q \<Longrightarrow> fed (fold send evs b) i f (q @ filter (accepts f) evs)"
proof (induction evs arbitrary: b q)
  case (Cons e evs)
  from Cons.IH [OF fed_send [OF Cons.prems, of e]] show ?case by (cases "accepts f e") simp_all
qed simp

lemma fed_close: "fed b i f q \<Longrightarrow> bc_chans (close b) i = (new_chan False)\<lparr>ch_queue := q\<rparr>"
  by (auto simp: fed_def close_def new_chan_def dest: map_of_SomeD intro: rev_image_eqI)

text \<open>A loop over a closed stream yields what waits there, and ends.\<close>

lemma for_events_closed:
  "it_state it = IterLive k i \<Longrightarrow> bc_chans (ss k) i = (new_chan False)\<lparr>ch_queue := q\<rparr> \<Longrightarrow> length q < n \<Longrightarrow>
   fst (for_events n it ss) = q \<and> it_state (fst (snd (for_events n it ss))) = IterDone"
proof (induction q arbitrary: n ss)
  case Nil
  then show ?case by (cases n) (simp_all add: step_iter_def try_recv_def new_chan_def)
next
  case (Cons e q)
  then obtain m where n: "n = Suc m" "length q < m" by (cases n) auto
  let ?b = "(ss k)\<lparr>bc_chans := (bc_chans (ss k))(i := (bc_chans (ss k) i)\<lparr>ch_queue := q\<rparr>)\<rparr>"
  have "step_iter it ss = (Yield e, it, ss(k := ?b))"
    using Cons.prems by (simp add: step_iter_def try_recv_def Let_def)
  moreover have "bc_chans ((ss(k := ?b)) k) i = (new_chan False)\<lparr>ch_queue := q\<rparr>"
    using Cons.prems by (simp add: new_chan_def)
  from Cons.IH [where ss = "ss(k := ?b)", OF Cons.prems(1) this n(2)] have "fst (for_events m it (ss(k := ?b))) = q \<and>
      it_state (fst (snd (for_events m it (ss(k := ?b))))) = IterDone" .
  ultimately show ?case using n(1) by simp
qed

section \<open>Binding\<close>

lemma bind_iters_ok:
  assumes "bind_iters k is h = (Inr (), h')" and "bc_fresh (hd_streams h k)"
  shows "bc_fresh (hd_streams h' k) \<and> distinct is \<and>
    (\<forall>i \<in> set is. it_state (hd_iters h i) = IterPending \<and>
       (\<exists>j. hd_iters h' i = (hd_iters h i)\<lparr>it_state := IterLive k j\<rparr> \<and>
          fed (hd_streams h' k) j (kind_filter (hd_iters h i)) [])) \<and>
    (\<forall>i. i \<notin> set is \<longrightarrow> hd_iters h' i = hd_iters h i) \<and>
    (\<forall>j f q. fed (hd_streams h k) j f q \<longrightarrow> fed (hd_streams h' k) j f q) \<and>
    hd_sinks h' = hd_sinks h \<and> hd_live h' = hd_live h \<and> hd_next_worker h' = hd_next_worker h \<and>
    hd_workers h' = hd_workers h \<and> hd_stream_count h' = hd_stream_count h"
  using assms
proof (induction "is" arbitrary: h)
  case (Cons i "is")
  have pending: "it_state (hd_iters h i) = IterPending"
    using Cons.prems(1) by (auto simp: bind_iter_def split: if_splits)
  obtain j b where b: "subscribe_filtered (kind_filter (hd_iters h i)) (hd_streams h k) = (j, b)"
    by fastforce
  note sub = subscribe_fresh [OF Cons.prems(2) b]
  let ?h = "h\<lparr>hd_iters := (hd_iters h)(i := (hd_iters h i)\<lparr>it_state := IterLive k j\<rparr>),
      hd_streams := (hd_streams h)(k := b)\<rparr>"
  have step: "bind_iters k is ?h = (Inr (), h')"
    using Cons.prems(1) pending b by (simp add: bind_iter_def)
  have "bc_fresh (hd_streams ?h k)" using sub(1) by simp
  note IH = Cons.IH [OF step this]
  have notin: "i \<notin> set is" using IH by force
  have same: "hd_iters ?h x = hd_iters h x" if "x \<noteq> i" for x using that by simp
  have "\<forall>x \<in> set is. it_state (hd_iters h x) = IterPending \<and>
      (\<exists>y. hd_iters h' x = (hd_iters h x)\<lparr>it_state := IterLive k y\<rparr> \<and>
         fed (hd_streams h' k) y (kind_filter (hd_iters h x)) [])"
    using IH notin same by metis
  moreover have "\<exists>y. hd_iters h' i = (hd_iters h i)\<lparr>it_state := IterLive k y\<rparr> \<and>
      fed (hd_streams h' k) y (kind_filter (hd_iters h i)) []"
    using IH notin sub(2) by (intro exI [of _ j]) simp
  ultimately show ?case using IH notin pending sub(3) by simp
qed simp

lemma bind_grpcs_ok:
  assumes "bind_grpcs k invoc ss h = (Inr (), h')" and "bc_fresh (hd_streams h k)"
  shows "bc_fresh (hd_streams h' k) \<and> distinct ss \<and>
    (\<forall>s \<in> set ss. sk_phase (hd_sinks h s) = SinkIdle \<and>
       (\<exists>w j. hd_next_worker h \<le> w \<and> w < hd_next_worker h' \<and>
          hd_sinks h' s = rebound (SinkGrpc w) (hd_sinks h s) \<and> (w, s, k, j, invoc) \<in> set (hd_workers h') \<and>
          fed (hd_streams h' k) j None [])) \<and>
    inj_on (\<lambda>s. sk_phase (hd_sinks h' s)) (set ss) \<and>
    (\<forall>s. s \<notin> set ss \<longrightarrow> hd_sinks h' s = hd_sinks h s) \<and>
    (\<forall>j f q. fed (hd_streams h k) j f q \<longrightarrow> fed (hd_streams h' k) j f q) \<and>
    set (hd_workers h) \<subseteq> set (hd_workers h') \<and> hd_next_worker h \<le> hd_next_worker h' \<and>
    hd_iters h' = hd_iters h \<and> hd_live h' = hd_live h \<and> hd_stream_count h' = hd_stream_count h"
  using assms
proof (induction ss arbitrary: h)
  case (Cons s ss)
  let ?w = "hd_next_worker h"
  have idle: "sk_phase (hd_sinks h s) = SinkIdle"
    and bound: "bind_grpc ?w (hd_sinks h s) = Inr (rebound (SinkGrpc ?w) (hd_sinks h s))"
    using Cons.prems(1) by (auto simp: bind_grpc_def split: sink_config.splits if_splits)
  obtain j b where b: "subscribe_filtered None (hd_streams h k) = (j, b)" by fastforce
  note sub = subscribe_fresh [OF Cons.prems(2) b]
  let ?h = "h\<lparr>hd_sinks := (hd_sinks h)(s := rebound (SinkGrpc ?w) (hd_sinks h s)),
      hd_next_worker := Suc ?w, hd_streams := (hd_streams h)(k := b),
      hd_workers := hd_workers h @ [(?w, s, k, j, invoc)]\<rparr>"
  have step: "bind_grpcs k invoc ss ?h = (Inr (), h')"
    using Cons.prems(1) bound b by (simp add: subscribe_def)
  have "bc_fresh (hd_streams ?h k)" using sub(1) by simp
  note IH = Cons.IH [OF step this]
  have notin: "s \<notin> set ss" using IH by (force simp: rebound_def)
  have "sk_phase (hd_sinks h x) = SinkIdle \<and>
      (\<exists>w y. hd_next_worker h \<le> w \<and> w < hd_next_worker h' \<and>
         hd_sinks h' x = rebound (SinkGrpc w) (hd_sinks h x) \<and> (w, x, k, y, invoc) \<in> set (hd_workers h') \<and>
         fed (hd_streams h' k) y None [])" if "x \<in> set ss" for x
  proof -
    have x: "hd_sinks ?h x = hd_sinks h x" using that notin by auto
    from IH that obtain w y where "sk_phase (hd_sinks ?h x) = SinkIdle" "hd_next_worker ?h \<le> w"
      "w < hd_next_worker h'" "hd_sinks h' x = rebound (SinkGrpc w) (hd_sinks ?h x)"
      "(w, x, k, y, invoc) \<in> set (hd_workers h')" "fed (hd_streams h' k) y None []" by blast
    then show ?thesis using x by (intro conjI exI [of _ w] exI [of _ y]) simp_all
  qed
  moreover have "\<exists>w y. ?w \<le> w \<and> w < hd_next_worker h' \<and>
      hd_sinks h' s = rebound (SinkGrpc w) (hd_sinks h s) \<and> (w, s, k, y, invoc) \<in> set (hd_workers h') \<and>
      fed (hd_streams h' k) y None []"
    using IH notin sub(2) by (intro exI [of _ ?w] exI [of _ j]) auto
  moreover have "inj_on (\<lambda>x. sk_phase (hd_sinks h' x)) (set (s # ss))"
  proof -
    have "sk_phase (hd_sinks h' s) = SinkGrpc ?w" using IH notin by (simp add: rebound_def)
    moreover have "\<exists>w. Suc ?w \<le> w \<and> sk_phase (hd_sinks h' x) = SinkGrpc w" if "x \<in> set ss" for x
      using IH that by (force simp: rebound_def)
    ultimately have "sk_phase (hd_sinks h' s) \<notin> (\<lambda>x. sk_phase (hd_sinks h' x)) ` (set ss - {s})" by force
    then show ?thesis using IH by simp
  qed
  moreover have "\<forall>j f q. fed (hd_streams h k) j f q \<longrightarrow> fed (hd_streams h' k) j f q"
    using IH sub(3) by simp
  moreover have "\<forall>x. x \<notin> set (s # ss) \<longrightarrow> hd_sinks h' x = hd_sinks h x" using IH by simp
  moreover have "set (hd_workers h) \<subseteq> set (hd_workers h')" "hd_next_worker h \<le> hd_next_worker h'"
    "hd_iters h' = hd_iters h" "hd_live h' = hd_live h" "hd_stream_count h' = hd_stream_count h"
    "bc_fresh (hd_streams h' k)" "distinct (s # ss)"
    using IH notin by auto
  ultimately show ?case using idle by (simp del: fun_upd_apply inj_on_insert)
qed simp

lemma bind_files_ok:
  assumes "bind_files ss h = (Inr (files, grpcs), h')"
  shows "grpcs = filter (\<lambda>s. file_path (hd_sinks h s) = None) ss \<and>
    distinct (filter (\<lambda>s. file_path (hd_sinks h s) \<noteq> None) ss) \<and>
    (\<forall>s \<in> set ss. \<forall>p. file_path (hd_sinks h s) = Some p \<longrightarrow> sk_phase (hd_sinks h s) = SinkIdle \<and>
       (\<exists>w. hd_next_worker h \<le> w \<and> hd_sinks h' s = rebound (SinkFile w) (hd_sinks h s) \<and>
          (p, w) \<in> set files)) \<and>
    inj_on (\<lambda>s. sk_phase (hd_sinks h' s)) {s \<in> set ss. file_path (hd_sinks h s) \<noteq> None} \<and>
    (\<forall>s. s \<notin> set ss \<or> file_path (hd_sinks h s) = None \<longrightarrow> hd_sinks h' s = hd_sinks h s) \<and>
    hd_next_worker h \<le> hd_next_worker h' \<and>
    hd_iters h' = hd_iters h \<and> hd_streams h' = hd_streams h \<and> hd_live h' = hd_live h \<and>
    hd_stream_count h' = hd_stream_count h \<and> hd_workers h' = hd_workers h"
  using assms
proof (induction ss arbitrary: h files grpcs)
  case (Cons s ss)
  show ?case
  proof (cases "file_path (hd_sinks h s)")
    case None
    obtain gs where gs: "bind_files ss h = (Inr (files, gs), h')" "grpcs = s # gs"
      using Cons.prems None by (cases "bind_files ss h"; cases "fst (bind_files ss h)") auto
    have "{x \<in> set (s # ss). file_path (hd_sinks h x) \<noteq> None} = {x \<in> set ss. file_path (hd_sinks h x) \<noteq> None}"
      using None by auto
    then show ?thesis using Cons.IH [OF gs(1)] gs(2) None by auto
  next
    case (Some path)
    let ?w = "hd_next_worker h"
    have idle: "sk_phase (hd_sinks h s) = SinkIdle"
      and bound: "bind_file ?w (hd_sinks h s) = Inr (rebound (SinkFile ?w) (hd_sinks h s))"
      using Cons.prems Some by (auto simp: bind_file_def file_path_def split: sink_config.splits if_splits)
    let ?h = "h\<lparr>hd_sinks := (hd_sinks h)(s := rebound (SinkFile ?w) (hd_sinks h s)), hd_next_worker := Suc ?w\<rparr>"
    obtain fs where fs: "bind_files ss ?h = (Inr (fs, grpcs), h')" "files = (path, ?w) # fs"
      using Cons.prems Some bound
      by (cases "bind_files ss ?h"; cases "fst (bind_files ss ?h)") auto
    have path: "file_path (hd_sinks ?h x) = file_path (hd_sinks h x)" for x
      by (simp add: file_path_def rebound_def)
    note IH = Cons.IH [OF fs(1), unfolded path]
    have notin: "s \<notin> set ss"
    proof
      assume "s \<in> set ss"
      then have "sk_phase (hd_sinks ?h s) = SinkIdle" using IH Some by blast
      then show False by (simp add: rebound_def)
    qed
    then have "hd_sinks h' s = hd_sinks ?h s" using IH by blast
    then have here: "hd_sinks h' s = rebound (SinkFile ?w) (hd_sinks h s)" by simp
    have there: "sk_phase (hd_sinks h x) = SinkIdle \<and> (\<exists>w. Suc ?w \<le> w \<and>
        hd_sinks h' x = rebound (SinkFile w) (hd_sinks h x) \<and> (p, w) \<in> set fs)"
      if "x \<in> set ss" "file_path (hd_sinks h x) = Some p" for x p
    proof -
      have x: "hd_sinks ?h x = hd_sinks h x" using that notin by auto
      have "sk_phase (hd_sinks ?h x) = SinkIdle \<and> (\<exists>w. hd_next_worker ?h \<le> w \<and>
          hd_sinks h' x = rebound (SinkFile w) (hd_sinks ?h x) \<and> (p, w) \<in> set fs)"
        using IH that by blast
      then show ?thesis unfolding x by simp
    qed
    have keep: "\<forall>x. x \<notin> set (s # ss) \<or> file_path (hd_sinks h x) = None \<longrightarrow> hd_sinks h' x = hd_sinks h x"
    proof (intro allI impI)
      fix x assume x: "x \<notin> set (s # ss) \<or> file_path (hd_sinks h x) = None"
      then have "hd_sinks ?h x = hd_sinks h x" using Some by auto
      moreover have "hd_sinks h' x = hd_sinks ?h x" using x IH by (metis list.set_intros(2))
      ultimately show "hd_sinks h' x = hd_sinks h x" by simp
    qed
    have inj: "inj_on (\<lambda>x. sk_phase (hd_sinks h' x)) {x \<in> set (s # ss). file_path (hd_sinks h x) \<noteq> None}"
    proof -
      have "sk_phase (hd_sinks h' s) = SinkFile ?w" using here by (simp add: rebound_def)
      moreover have "\<exists>w. Suc ?w \<le> w \<and> sk_phase (hd_sinks h' x) = SinkFile w"
        if "x \<in> set ss" "file_path (hd_sinks h x) \<noteq> None" for x
        using there that by (force simp: rebound_def)
      moreover have "{x \<in> set (s # ss). file_path (hd_sinks h x) \<noteq> None} =
          insert s {x \<in> set ss. file_path (hd_sinks h x) \<noteq> None}" using Some by auto
      moreover have "inj_on (\<lambda>x. sk_phase (hd_sinks h' x)) {x \<in> set ss. file_path (hd_sinks h x) \<noteq> None}"
        using IH by blast
      ultimately show ?thesis using notin by force
    qed
    show ?thesis
    proof (intro conjI)
      show "\<forall>x \<in> set (s # ss). \<forall>p. file_path (hd_sinks h x) = Some p \<longrightarrow> sk_phase (hd_sinks h x) = SinkIdle \<and>
          (\<exists>w. hd_next_worker h \<le> w \<and> hd_sinks h' x = rebound (SinkFile w) (hd_sinks h x) \<and> (p, w) \<in> set files)"
        using there here idle Some fs(2) by (auto dest: Suc_leD) (metis Suc_leD)
    qed (use IH notin Some fs(2) inj keep in \<open>auto simp del: fun_upd_apply\<close>)
  qed
qed simp

lemma bind_files_live: "hd_live (snd (bind_files ss h)) = hd_live h"
  by (induction ss arbitrary: h) (simp_all split: option.split sum.split)

lemma bind_iters_live: "hd_live (snd (bind_iters k is h)) = hd_live h"
  by (induction "is" arbitrary: h) (simp_all split: sum.split prod.split)

lemma bind_grpcs_live: "hd_live (snd (bind_grpcs k invoc ss h)) = hd_live h"
  by (induction ss arbitrary: h) (simp_all add: Let_def split_def split: sum.split)

section \<open>A started build\<close>

lemma distinct_partition: "distinct (filter P xs) \<Longrightarrow> distinct (filter (\<lambda>x. \<not> P x) xs) \<Longrightarrow> distinct xs"
  by (induction xs) (auto split: if_splits)

text \<open>What a successful spawn went through.\<close>

lemma after_spawn_Ok:
  assumes "after_spawn u sa grpcs c mk pid h = (SpawnOk b, h')"
  shows "\<exists>stream h2 h3 h4. open_stream c (h\<lparr>hd_live := register_pid pid (hd_live h)\<rparr>) = (stream, h2) \<and>
    bind_all_iters stream (sa_iters sa) h2 = (Inr (), h3) \<and>
    bind_all_grpcs stream u grpcs h3 = (Some (Inr ()), h4) \<and> b = mk stream \<and>
    h' = (case stream of
      Some k \<Rightarrow> h4\<lparr>hd_streams := (hd_streams h4)(k := snd (subscribe (hd_streams h4 k)))\<rparr> | None \<Rightarrow> h4)"
  using assms
  by (auto simp: after_spawn_def Let_def split: sum.splits prod.splits option.splits if_splits)

lemma spawn_build_Ok:
  assumes "spawn_build env sa h = (SpawnOk b, h')"
  shows "\<exists>files grpcs h1 bes pid. bind_files (sa_sinks sa) h = (Inr (files, grpcs), h1) \<and>
    (bes \<noteq> None \<longleftrightarrow> sa_build_events sa) \<and>
    after_spawn (se_uuid env) sa grpcs (sa_build_events sa) (make_build env sa files grpcs bes pid) pid h1 =
      (SpawnOk b, h')"
proof -
  obtain files grpcs h1 bes pid where *: "bind_files (sa_sinks sa) h = (Inr (files, grpcs), h1)"
    "(if sa_build_events sa then map_sum id Some (se_reserve env) else Inr None) = Inr bes"
    "after_spawn (se_uuid env) sa grpcs (bes \<noteq> None) (make_build env sa files grpcs bes pid) pid h1 =
      (SpawnOk b, h')"
    using assms
    by (simp add: spawn_build_def split: sum.splits prod.splits)
  then have "bes \<noteq> None \<longleftrightarrow> sa_build_events sa"
    by (cases "se_reserve env") (auto split: if_splits)
  with * show ?thesis by auto
qed

text \<open>A spawn that succeeds or fails leaves the registry as it should be: with the client, or as it was.\<close>

lemma bind_all_live:
  "hd_live (snd (bind_all_iters stream is h)) = hd_live h"
  "hd_live (snd (bind_all_grpcs stream invoc ss h)) = hd_live h"
  by (simp_all add: bind_all_iters_def bind_all_grpcs_def bind_iters_live bind_grpcs_live split: option.split)

lemma open_stream_live: "hd_live (snd (open_stream c h)) = hd_live h"
  by (simp add: open_stream_def)

lemma after_spawn_live:
  "mset (hd_live (snd (after_spawn u sa grpcs c mk pid h))) = mset (hd_live h) +
     (case fst (after_spawn u sa grpcs c mk pid h) of SpawnOk b \<Rightarrow> {#pid#} | _ \<Rightarrow> {#})"
proof -
  obtain stream h1 where h1: "open_stream c (h\<lparr>hd_live := register_pid pid (hd_live h)\<rparr>) = (stream, h1)"
    by fastforce
  obtain r2 h2 where h2: "bind_all_iters stream (sa_iters sa) h1 = (r2, h2)" by fastforce
  obtain r3 h3 where h3: "bind_all_grpcs stream u grpcs h2 = (r3, h3)" by fastforce
  have "hd_live h1 = register_pid pid (hd_live h)" "hd_live h2 = hd_live h1" "hd_live h3 = hd_live h2"
    using open_stream_live [of c "h\<lparr>hd_live := register_pid pid (hd_live h)\<rparr>"]
      bind_all_live(1) [of stream "sa_iters sa" h1] bind_all_live(2) [of stream u grpcs h2] h1 h2 h3 by simp_all
  then have live: "mset (hd_live h2) = mset (hd_live h) + {#pid#}" "hd_live h3 = hd_live h2"
    by (simp_all add: mset_register)
  show ?thesis
  proof (cases r2)
    case (Inl e)
    then show ?thesis using h1 h2 live by (simp add: after_spawn_def mset_drop_guard)
  next
    case (Inr x)
    show ?thesis
    proof (cases r3)
      case None
      then show ?thesis using Inr h1 h2 h3 live by (simp add: after_spawn_def mset_drop_guard)
    next
      case (Some r)
      then show ?thesis
        using Inr h1 h2 h3 live
        by (cases r; cases stream) (simp_all add: after_spawn_def mset_drop_guard)
    qed
  qed
qed

lemma spawn_build_live:
  "mset (hd_live (snd (spawn_build env sa h))) =
     mset (hd_live h) + (case fst (spawn_build env sa h) of SpawnOk b \<Rightarrow> {#bd_pid b#} | _ \<Rightarrow> {#})"
proof -
  obtain r h1 where h1: "bind_files (sa_sinks sa) h = (r, h1)" by fastforce
  then have live: "hd_live h1 = hd_live h" using bind_files_live [of "sa_sinks sa" h] by simp
  have pid: "fst (after_spawn u sa grpcs c (make_build env sa files gs bes pid) pid h1) = SpawnOk b \<Longrightarrow>
      bd_pid b = pid" for u grpcs c files gs bes pid b
    by (cases "after_spawn u sa grpcs c (make_build env sa files gs bes pid) pid h1")
      (auto simp: make_build_def dest!: after_spawn_Ok)
  have after: "mset (hd_live (snd (after_spawn u sa grpcs c (make_build env sa files gs bes pid) pid h1))) =
      mset (hd_live h) + (case fst (after_spawn u sa grpcs c (make_build env sa files gs bes pid) pid h1) of
        SpawnOk b \<Rightarrow> {#bd_pid b#} | _ \<Rightarrow> {#})" for u grpcs c files gs bes pid
    using after_spawn_live [of u sa grpcs c "make_build env sa files gs bes pid" pid h1] pid live
    by (simp split: spawn_result.splits)
  show ?thesis
    using h1 live after by (simp add: spawn_build_def split: sum.split prod.split)
qed

text \<open>The stages of a successful spawn, with a fresh stream for the subscribers.\<close>

lemma spawn_build_stages:
  assumes "spawn_build env sa h = (SpawnOk b, h')"
  obtains files grpcs h1 h2 h3 h4 where
    "bind_files (sa_sinks sa) h = (Inr (files, grpcs), h1)"
    and "hd_iters h2 = hd_iters h1" and "hd_sinks h2 = hd_sinks h1"
    and "sa_iters sa = [] \<and> h3 = h2 \<or>
      (\<exists>k. bd_stream b = Some k \<and> bind_iters k (sa_iters sa) h2 = (Inr (), h3))"
    and "grpcs = [] \<and> h4 = h3 \<or>
      (\<exists>k. bd_stream b = Some k \<and> bind_grpcs k (se_uuid env) grpcs h3 = (Inr (), h4))"
    and "hd_iters h' = hd_iters h4" and "hd_sinks h' = hd_sinks h4"
    and "\<forall>k. bd_stream b = Some k \<longrightarrow> bc_fresh (hd_streams h2 k) \<and>
      hd_streams h' k = snd (subscribe (hd_streams h4 k))"
    and "bd_files b = files"
proof -
  obtain files grpcs h1 bes pid where files: "bind_files (sa_sinks sa) h = (Inr (files, grpcs), h1)"
    and after: "after_spawn (se_uuid env) sa grpcs (sa_build_events sa) (make_build env sa files grpcs bes pid)
      pid h1 = (SpawnOk b, h')"
    using spawn_build_Ok [OF assms] by blast
  obtain stream h2 h3 h4 where
    h2: "open_stream (sa_build_events sa) (h1\<lparr>hd_live := register_pid pid (hd_live h1)\<rparr>) = (stream, h2)"
    and h3: "bind_all_iters stream (sa_iters sa) h2 = (Inr (), h3)"
    and h4: "bind_all_grpcs stream (se_uuid env) grpcs h3 = (Some (Inr ()), h4)"
    and b: "b = make_build env sa files grpcs bes pid stream"
    and h': "h' = (case stream of
      Some k \<Rightarrow> h4\<lparr>hd_streams := (hd_streams h4)(k := snd (subscribe (hd_streams h4 k)))\<rparr> | None \<Rightarrow> h4)"
    using after_spawn_Ok [OF after] by blast
  have stream: "bd_stream b = stream" "bd_files b = files" using b by (simp_all add: make_build_def)
  show ?thesis
  proof (rule that [OF files])
    show "hd_iters h2 = hd_iters h1" "hd_sinks h2 = hd_sinks h1"
      using h2 by (auto simp: open_stream_def split: if_splits)
    show "sa_iters sa = [] \<and> h3 = h2 \<or>
        (\<exists>k. bd_stream b = Some k \<and> bind_iters k (sa_iters sa) h2 = (Inr (), h3))"
      using h3 stream by (auto simp: bind_all_iters_def split: if_splits option.splits)
    show "grpcs = [] \<and> h4 = h3 \<or>
        (\<exists>k. bd_stream b = Some k \<and> bind_grpcs k (se_uuid env) grpcs h3 = (Inr (), h4))"
      using h4 stream by (auto simp: bind_all_grpcs_def apfst_def map_prod_def split: if_splits option.splits prod.splits)
    show "hd_iters h' = hd_iters h4" "hd_sinks h' = hd_sinks h4"
      using h' by (simp_all split: option.splits)
    show "\<forall>k. bd_stream b = Some k \<longrightarrow> bc_fresh (hd_streams h2 k) \<and>
        hd_streams h' k = snd (subscribe (hd_streams h4 k))"
      using stream h2 h' bc_fresh_new by (auto simp: open_stream_def split: if_splits)
    show "bd_files b = files" by (rule stream)
  qed
qed

lemma iters_stage:
  assumes "is = [] \<and> h3 = h2 \<or> (\<exists>k. st = Some k \<and> bind_iters k is h2 = (Inr (), h3))"
    and "\<forall>k. st = Some k \<longrightarrow> bc_fresh (hd_streams h2 k)"
  shows "hd_sinks h3 = hd_sinks h2 \<and> distinct is \<and>
    (\<forall>i \<in> set is. it_state (hd_iters h2 i) = IterPending \<and> it_state (hd_iters h3 i) \<noteq> IterPending) \<and>
    (\<forall>i. i \<notin> set is \<longrightarrow> hd_iters h3 i = hd_iters h2 i) \<and>
    (\<forall>k. st = Some k \<longrightarrow> bc_fresh (hd_streams h3 k))"
  using assms(1)
proof
  assume "\<exists>k. st = Some k \<and> bind_iters k is h2 = (Inr (), h3)"
  then obtain k where k: "st = Some k" "bind_iters k is h2 = (Inr (), h3)" by blast
  then have "bc_fresh (hd_streams h2 k)" using assms(2) by simp
  note K = bind_iters_ok [OF k(2) this]
  have "it_state (hd_iters h3 i) \<noteq> IterPending" if i: "i \<in> set is" for i
  proof -
    obtain j where "hd_iters h3 i = (hd_iters h2 i)\<lparr>it_state := IterLive k j\<rparr>" using K i by blast
    then show ?thesis by simp
  qed
  moreover have "\<forall>i \<in> set is. it_state (hd_iters h2 i) = IterPending" using K by blast
  moreover have "\<forall>i. i \<notin> set is \<longrightarrow> hd_iters h3 i = hd_iters h2 i" using K by blast
  moreover have "distinct is" "hd_sinks h3 = hd_sinks h2" "bc_fresh (hd_streams h3 k)" using K by blast+
  ultimately show ?thesis using k(1) by simp
qed (use assms(2) in simp)

lemma grpcs_stage:
  assumes "ss = [] \<and> h4 = h3 \<or> (\<exists>k. st = Some k \<and> bind_grpcs k invoc ss h3 = (Inr (), h4))"
    and "\<forall>k. st = Some k \<longrightarrow> bc_fresh (hd_streams h3 k)"
  shows "hd_iters h4 = hd_iters h3 \<and> distinct ss \<and>
    (\<forall>s \<in> set ss. sk_phase (hd_sinks h3 s) = SinkIdle \<and> (\<exists>w. sk_phase (hd_sinks h4 s) = SinkGrpc w)) \<and>
    inj_on (\<lambda>s. sk_phase (hd_sinks h4 s)) (set ss) \<and>
    (\<forall>s. s \<notin> set ss \<longrightarrow> hd_sinks h4 s = hd_sinks h3 s)"
  using assms(1)
proof
  assume "\<exists>k. st = Some k \<and> bind_grpcs k invoc ss h3 = (Inr (), h4)"
  then obtain k where k: "st = Some k" "bind_grpcs k invoc ss h3 = (Inr (), h4)" by blast
  then have "bc_fresh (hd_streams h3 k)" using assms(2) by simp
  note K = bind_grpcs_ok [OF k(2) this]
  have "\<exists>w. sk_phase (hd_sinks h4 s) = SinkGrpc w" if s: "s \<in> set ss" for s
  proof -
    obtain w where "hd_sinks h4 s = rebound (SinkGrpc w) (hd_sinks h3 s)" using K s by blast
    then show ?thesis by (simp add: rebound_def)
  qed
  moreover have "\<forall>s \<in> set ss. sk_phase (hd_sinks h3 s) = SinkIdle" using K by blast
  moreover have "\<forall>s. s \<notin> set ss \<longrightarrow> hd_sinks h4 s = hd_sinks h3 s" using K by blast
  moreover have "hd_iters h4 = hd_iters h3" "distinct ss"
    "inj_on (\<lambda>s. sk_phase (hd_sinks h4 s)) (set ss)" using K by blast+
  ultimately show ?thesis by simp
qed simp

lemma sinks_stage:
  assumes files: "bind_files ss h = (Inr (files, grpcs), h1)"
    and G: "hd_iters h4 = hd_iters h3 \<and> distinct grpcs \<and>
      (\<forall>s \<in> set grpcs. sk_phase (hd_sinks h1 s) = SinkIdle \<and> (\<exists>w. sk_phase (hd_sinks h4 s) = SinkGrpc w)) \<and>
      inj_on (\<lambda>s. sk_phase (hd_sinks h4 s)) (set grpcs) \<and>
      (\<forall>s. s \<notin> set grpcs \<longrightarrow> hd_sinks h4 s = hd_sinks h1 s)"
  shows "distinct ss \<and> inj_on (\<lambda>s. sk_phase (hd_sinks h4 s)) (set ss) \<and>
    (\<forall>s. if s \<in> set ss
      then sk_phase (hd_sinks h s) = SinkIdle \<and> sk_phase (hd_sinks h4 s) \<noteq> SinkIdle
      else hd_sinks h4 s = hd_sinks h s)"
proof -
  note F = bind_files_ok [OF files]
  let ?file = "{s \<in> set (ss). file_path (hd_sinks h s) \<noteq> None}"
  have gs: "grpcs = filter (\<lambda>s. file_path (hd_sinks h s) = None) (ss)" using F by blast
  then have grpcs: "set grpcs = {s \<in> set (ss). file_path (hd_sinks h s) = None}" by simp
  have other: "hd_sinks h4 s = hd_sinks h1 s" if "s \<notin> set grpcs" for s using G that by simp
  have kept: "hd_sinks h1 s = hd_sinks h s" if "s \<notin> ?file" for s using F that by blast
  have filed: "sk_phase (hd_sinks h s) = SinkIdle \<and> (\<exists>w. sk_phase (hd_sinks h4 s) = SinkFile w)" if s: "s \<in> ?file" for s
  proof -
    obtain p where "file_path (hd_sinks h s) = Some p" using s by blast
    then obtain w where "sk_phase (hd_sinks h s) = SinkIdle" "hd_sinks h1 s = rebound (SinkFile w) (hd_sinks h s)"
      using F s by blast
    moreover have "s \<notin> set grpcs" using s grpcs by simp
    ultimately show ?thesis using other [of s] by (simp add: rebound_def)
  qed
  have rest: "sk_phase (hd_sinks h s) = SinkIdle \<and> (\<exists>w. sk_phase (hd_sinks h4 s) = SinkGrpc w)"
    if s: "s \<in> set grpcs" for s
  proof -
    have "s \<notin> ?file" using s grpcs by simp
    then have "hd_sinks h1 s = hd_sinks h s" by (rule kept)
    moreover have "sk_phase (hd_sinks h1 s) = SinkIdle" "\<exists>w. sk_phase (hd_sinks h4 s) = SinkGrpc w"
      using G s by blast+
    ultimately show ?thesis by simp
  qed
  have split: "set (ss) = ?file \<union> set grpcs" using grpcs by auto
  have "distinct (filter (\<lambda>s. file_path (hd_sinks h s) \<noteq> None) (ss))" using F by blast
  then have "distinct (ss)"
    using distinct_partition [of "\<lambda>s. file_path (hd_sinks h s) = None" "ss"] G gs by simp
  moreover have "inj_on (\<lambda>s. sk_phase (hd_sinks h4 s)) (set (ss))"
  proof -
    have "inj_on (\<lambda>s. sk_phase (hd_sinks h1 s)) ?file" using F by blast
    moreover have "hd_sinks h4 s = hd_sinks h1 s" if "s \<in> ?file" for s using that grpcs other [of s] by simp
    ultimately have "inj_on (\<lambda>s. sk_phase (hd_sinks h4 s)) ?file" by (simp add: inj_on_def)
    moreover have "inj_on (\<lambda>s. sk_phase (hd_sinks h4 s)) (set grpcs)" using G by simp
    moreover have "(\<lambda>s. sk_phase (hd_sinks h4 s)) ` ?file \<inter> (\<lambda>s. sk_phase (hd_sinks h4 s)) ` set grpcs = {}"
      using filed rest by fastforce
    ultimately show ?thesis by (subst split, subst inj_on_Un) blast
  qed
  moreover have "if s \<in> set ss
      then sk_phase (hd_sinks h s) = SinkIdle \<and> sk_phase (hd_sinks h4 s) \<noteq> SinkIdle
      else hd_sinks h4 s = hd_sinks h s" for s
  proof (cases "s \<in> set (ss)")
    case True
    then show ?thesis using filed [of s] rest [of s] grpcs by (cases "file_path (hd_sinks h s)") auto
  next
    case False
    then show ?thesis using kept [of s] other [of s] grpcs by auto
  qed
  ultimately show ?thesis by blast
qed

text \<open>C20. Starting a build takes its handles for itself. When it succeeds, no handle was passed twice, every
  sink was idle and is live now, with a worker or signal of its own, every iterator was new, and
  no other handle has changed; the registry has the client. When it fails, the registry is what it was.\<close>

theorem spawn_owns_its_handles:
  shows "case spawn_build env sa h of
      (SpawnOk b, h') \<Rightarrow>
        distinct (sa_sinks sa) \<and> distinct (sa_iters sa) \<and>
        (\<forall>s. if s \<in> set (sa_sinks sa)
          then sk_phase (hd_sinks h s) = SinkIdle \<and> sk_phase (hd_sinks h' s) \<noteq> SinkIdle
          else hd_sinks h' s = hd_sinks h s) \<and>
        inj_on (\<lambda>s. sk_phase (hd_sinks h' s)) (set (sa_sinks sa)) \<and>
        (\<forall>i. if i \<in> set (sa_iters sa)
          then it_state (hd_iters h i) = IterPending \<and> it_state (hd_iters h' i) \<noteq> IterPending
          else hd_iters h' i = hd_iters h i) \<and>
        mset (hd_live h') = mset (hd_live h) + {#bd_pid b#}
    | (_, h') \<Rightarrow> mset (hd_live h') = mset (hd_live h)"
proof (cases "fst (spawn_build env sa h)")
  case (SpawnOk b)
  then obtain h' where spawn: "spawn_build env sa h = (SpawnOk b, h')" by (cases "spawn_build env sa h") auto
  from spawn_build_stages [OF spawn] obtain files grpcs h1 h2 h3 h4 where
    files: "bind_files (sa_sinks sa) h = (Inr (files, grpcs), h1)"
    and h2: "hd_iters h2 = hd_iters h1" "hd_sinks h2 = hd_sinks h1"
    and iters: "sa_iters sa = [] \<and> h3 = h2 \<or>
      (\<exists>k. bd_stream b = Some k \<and> bind_iters k (sa_iters sa) h2 = (Inr (), h3))"
    and grpc: "grpcs = [] \<and> h4 = h3 \<or>
      (\<exists>k. bd_stream b = Some k \<and> bind_grpcs k (se_uuid env) grpcs h3 = (Inr (), h4))"
    and h': "hd_iters h' = hd_iters h4" "hd_sinks h' = hd_sinks h4"
    and stream: "\<forall>k. bd_stream b = Some k \<longrightarrow> bc_fresh (hd_streams h2 k) \<and>
      hd_streams h' k = snd (subscribe (hd_streams h4 k))"
    and "bd_files b = files" .
  note F = bind_files_ok [OF files]
  have same: "hd_iters h1 = hd_iters h" using F by blast
  have I: "hd_sinks h3 = hd_sinks h1 \<and> distinct (sa_iters sa) \<and>
      (\<forall>i \<in> set (sa_iters sa). it_state (hd_iters h i) = IterPending \<and> it_state (hd_iters h3 i) \<noteq> IterPending) \<and>
      (\<forall>i. i \<notin> set (sa_iters sa) \<longrightarrow> hd_iters h3 i = hd_iters h i) \<and>
      (\<forall>k. bd_stream b = Some k \<longrightarrow> bc_fresh (hd_streams h3 k))"
    using iters_stage [OF iters] stream h2 same by simp
  then have G: "hd_iters h4 = hd_iters h3 \<and> distinct grpcs \<and>
      (\<forall>s \<in> set grpcs. sk_phase (hd_sinks h1 s) = SinkIdle \<and> (\<exists>w. sk_phase (hd_sinks h4 s) = SinkGrpc w)) \<and>
      inj_on (\<lambda>s. sk_phase (hd_sinks h4 s)) (set grpcs) \<and>
      (\<forall>s. s \<notin> set grpcs \<longrightarrow> hd_sinks h4 s = hd_sinks h1 s)"
    using grpcs_stage [OF grpc] by simp
  have "distinct (sa_sinks sa) \<and> inj_on (\<lambda>s. sk_phase (hd_sinks h' s)) (set (sa_sinks sa)) \<and>
      (\<forall>s. if s \<in> set (sa_sinks sa)
        then sk_phase (hd_sinks h s) = SinkIdle \<and> sk_phase (hd_sinks h' s) \<noteq> SinkIdle
        else hd_sinks h' s = hd_sinks h s)"
    using sinks_stage [OF files G] h' by simp
  moreover have "mset (hd_live h') = mset (hd_live h) + {#bd_pid b#}"
    using spawn_build_live [of env sa h] spawn by simp
  moreover have "distinct (sa_iters sa)" "\<forall>i. if i \<in> set (sa_iters sa)
      then it_state (hd_iters h i) = IterPending \<and> it_state (hd_iters h' i) \<noteq> IterPending
      else hd_iters h' i = hd_iters h i"
    using I G h' by simp_all
  ultimately show ?thesis using spawn by simp
qed (use spawn_build_live [of env sa h] in \<open>simp_all add: split_def\<close>)

section \<open>From the reader to the iterator\<close>


section \<open>The life of a sink\<close>

text \<open>A sink that failed has an error, a live one was bound and has not failed, the phase fits the kind,
  and a file sink counts no events.\<close>

definition sink_ok :: "'m sink \<Rightarrow> bool" where
  "sink_ok s \<longleftrightarrow> (sk_failed s \<longleftrightarrow> sk_error s \<noteq> None) \<and>
     (sk_phase s \<noteq> SinkIdle \<longrightarrow> 0 < sk_bound s \<and> \<not> sk_failed s) \<and>
     (file_path s \<noteq> None \<longrightarrow> sk_sent s = 0 \<and> sk_acked s = 0 \<and> (\<forall>w. sk_phase s \<noteq> SinkGrpc w)) \<and>
     (file_path s = None \<longrightarrow> (\<forall>w. sk_phase s \<noteq> SinkFile w))"

datatype sink_op = BindGrpc nat | BindFile nat
  | WaitWith "(nat \<times> nat) \<times> (string + unit)" "string + unit" | WaitPanicked

definition sink_step :: "sink_op \<Rightarrow> 'm sink \<Rightarrow> 'm sink" where
  "sink_step x s =
     (case x of
        BindGrpc w \<Rightarrow> (case bind_grpc w s of Inr s' \<Rightarrow> s' | Inl _ \<Rightarrow> s)
      | BindFile w \<Rightarrow> (case bind_file w s of Inr s' \<Rightarrow> s' | Inl _ \<Rightarrow> s)
      | WaitWith g f \<Rightarrow> the (wait_sink (\<lambda>_. Some g) (\<lambda>_. Some f) s)
      | WaitPanicked \<Rightarrow> (case wait_sink (\<lambda>_. None) (\<lambda>_. None) s of Some s' \<Rightarrow> s' | None \<Rightarrow> s))"

lemma sink_ok_new: "sink_ok (new_sink c)"
  by (simp add: sink_ok_def new_sink_def)

lemma sink_ok_settle:
  "sink_ok s \<Longrightarrow> file_path s = None \<or> sent = 0 \<and> acked = 0 \<Longrightarrow> sink_ok (settle r sent acked s)"
  by (auto simp: sink_ok_def settle_def file_path_def split: sum.splits)

lemma sink_ok_rebound:
  "sink_ok s \<Longrightarrow> p \<noteq> SinkIdle \<Longrightarrow> (file_path s = None \<longleftrightarrow> (\<exists>w. p = SinkGrpc w)) \<Longrightarrow> sink_ok (rebound p s)"
  by (cases p) (auto simp: sink_ok_def rebound_def file_path_def)

lemma sink_ok_step: "sink_ok s \<Longrightarrow> sink_ok (sink_step x s)"
proof (cases x)
  case (BindGrpc w)
  assume "sink_ok s"
  then show ?thesis
    using sink_ok_rebound [of s "SinkGrpc w"] BindGrpc
    by (auto simp: sink_step_def bind_grpc_def file_path_def split: sink_config.split)
next
  case (BindFile w)
  assume "sink_ok s"
  then show ?thesis
    using sink_ok_rebound [of s "SinkFile w"] BindFile
    by (auto simp: sink_step_def bind_file_def file_path_def split: sink_config.split)
next
  case (WaitWith g f)
  assume ok: "sink_ok s"
  then have "sk_phase s = SinkGrpc w \<Longrightarrow> file_path s = None" for w by (auto simp: sink_ok_def)
  then show ?thesis
    using ok WaitWith
    by (auto simp: sink_step_def wait_sink_def intro!: sink_ok_settle split: sink_phase.split prod.split)
next
  case WaitPanicked
  assume "sink_ok s"
  then show ?thesis
    using WaitPanicked
    by (auto simp: sink_step_def wait_sink_def intro!: sink_ok_settle split: sink_phase.split)
qed

text \<open>What the attributes of a sink say, after any history of binds and waits: it is done when it was
  bound and is not live, failed exactly when it has an error, and while it is live it has not failed.\<close>

theorem sink_attributes_agree:
  "let s = fold sink_step ops (new_sink c)
   in sink_get_attr s ''done'' = Some (ABool (sk_phase s = SinkIdle \<and> 0 < sk_bound s)) \<and>
      sink_get_attr s ''failed'' = Some (ABool (sk_error s \<noteq> None)) \<and>
      sink_get_attr s ''error'' = Some (AText (sk_error s)) \<and>
      (if sk_phase s = SinkIdle then True else sk_error s = None \<and> 0 < sk_bound s)"
proof -
  have "sink_ok s \<Longrightarrow> sink_ok (fold sink_step ops s)" for s
    by (induction ops arbitrary: s) (simp_all add: sink_ok_step)
  from this [OF sink_ok_new] have "sink_ok (fold sink_step ops (new_sink c))" .
  then show ?thesis by (auto simp: sink_ok_def sink_get_attr_def Let_def)
qed

lemma wait_sink_twice: "wait_sink joined signalled s = Some t \<Longrightarrow> wait_sink joined' signalled' t = Some t"
  by (auto simp: wait_sink_def settle_def split: sink_phase.splits option.splits)

text \<open>Between a second bind and its wait the counters still show the first bind.\<close>

lemma rebound_sink_shows_old_counts:
  "let s = sink_step (BindGrpc 1) (sink_step (WaitWith ((7, 5), Inr ()) r) (sink_step (BindGrpc 0) (new_sink (GrpcSink u m c))))
   in sk_phase s = SinkGrpc 1 \<and> sink_get_attr s ''events_sent'' = Some (ANumber 7) \<and>
      sink_get_attr s ''events_acked'' = Some (ANumber 5)"
  by (simp add: sink_step_def bind_grpc_def new_sink_def rebound_def wait_sink_def settle_def sink_get_attr_def)

section \<open>Failed starts\<close>

text \<open>A build that does not start leaves its file sinks live with a signal that nobody completes:
  waiting for one never returns, and it cannot be bound again.\<close>

lemma failed_spawn_leaves_sink_live:
  assumes "se_server env = Inr x" and "sa_sinks sa = [s]" and "hd_sinks h s = new_sink (FileSink p)"
    and "\<not> sa_build_events sa" and "se_child env = Inl e"
  shows "fst (spawn_build env sa h) = SpawnErr (''failed to spawn bazel: '' @ e) \<and>
    wait_sink joined (\<lambda>_. None) (hd_sinks (snd (spawn_build env sa h)) s) = None \<and>
    bind_file w (hd_sinks (snd (spawn_build env sa h)) s) = Inl still_live_file"
  using assms by (simp add: spawn_build_def file_path_def new_sink_def bind_file_def rebound_def wait_sink_def)

text \<open>A used iterator is noticed only after the client has been started: it runs on, unregistered.\<close>

lemma failed_bind_abandons_client:
  assumes "se_server env = Inr x" and "sa_sinks sa = []" and "sa_build_events sa" and "se_reserve env = Inr q"
    and "se_child env = Inr pid" and "sa_iters sa = [i]" and "it_state (hd_iters h i) = IterDone"
  shows "fst (spawn_build env sa h) = SpawnErr already_bound \<and>
    mset (hd_live (snd (spawn_build env sa h))) = mset (hd_live h)"
proof -
  have "fst (spawn_build env sa h) = SpawnErr already_bound"
    using assms by (simp add: spawn_build_def after_spawn_def open_stream_def bind_all_iters_def bind_iter_def)
  then show ?thesis using spawn_build_live [of env sa h] by simp
qed

section \<open>Waiting\<close>

definition first_error :: "running \<Rightarrow> string option" where
  "first_error rn =
     find (\<lambda>_. True) (concat (map (\<lambda>(n, r). case join_result n r of Inl e \<Rightarrow> [e] | Inr _ \<Rightarrow> [])
       [(''build event stream'', rn_bes rn), (''workspace event stream'', rn_workspace rn),
        (''execlog stream'', rn_execlog rn)]))"


section \<open>At a concrete input\<close>

definition sample_spawn_env :: "nat spawn_env" where
  "sample_spawn_env = \<lparr>se_server = Inr (7, Some 8), se_reserve = Inr ''/tmp/bep'', se_workspace = ''/tmp/ws'',
     se_execlog = ''/tmp/el'', se_child = Inr 42, se_uuid = ''id''\<rparr>"

definition sample_spawn_args :: spawn_args where
  "sample_spawn_args = \<lparr>sa_verb = ''build'', sa_targets = [''//...''], sa_build_events = True,
     sa_sinks = [0], sa_iters = [3], sa_execution_logs = False, sa_exec_sinks = [], sa_workspace = False,
     sa_flags = [''-k''], sa_startup = [''--batch''], sa_directory = None\<rparr>"

definition sample_handles :: "(nat, nat) handles" where
  "sample_handles = \<lparr>hd_sinks = (\<lambda>_. new_sink (FileSink ''out.bin'')),
     hd_iters = (\<lambda>_. new_iter (Some [11, 22]) None), hd_streams = (\<lambda>_. bc_new), hd_stream_count = 0,
     hd_next_worker = 0, hd_workers = [], hd_live = []\<rparr>"

lemma sample_spawn:
  "\<exists>h'. spawn_build sample_spawn_env sample_spawn_args sample_handles =
     (SpawnOk \<lparr>bd_argv = [''--batch'', ''build'', ''-k'', ''--build_event_publish_all_actions'',
        ''--build_event_binary_file_upload_mode=fully_async'', ''--build_event_binary_file'', ''/tmp/bep'',
        ''--'', ''//...''], bd_directory = None, bd_pid = 42, bd_stream = Some 0,
        bd_files = [(''out.bin'', 0)], bd_copies = [], bd_decoded = [], bd_invocation = None\<rparr>, h')"
  by (simp add: spawn_build_def after_spawn_def open_stream_def bind_all_iters_def bind_all_grpcs_def
      bind_iter_def bind_file_def file_path_def new_sink_def new_iter_def make_build_def execlog_path_def
      build_argv_def compact_paths_def decoded_paths_def subscribe_filtered_def subscribe_def bc_new_def
      rebound_def Let_def sample_spawn_env_def sample_spawn_args_def sample_handles_def)


end
