(* ===== verification/Bazel_Query.thy ===== *)
theory Bazel_Query
  imports Bazel_Build
begin

text \<open>
  \<open>bazel query\<close> (crates/axl-runtime/src/engine/bazel/query.rs, with \<open>stderr_detail\<close> of mod.rs): the
  command, the two temporary files that its output goes to, decoding the targets, and the \<open>Query\<close> value
  that Starlark code gets. \<open>dec\<close> is prost's \<open>decode_length_delimited\<close>: a message and the bytes
  after it, or no message. The temporary files are at fixed paths, so the state distinguishes
  the paths from the files that processes hold open.
\<close>

section \<open>Targets\<close>

datatype discriminator = DRule | DSourceFile | DGeneratedFile | DPackageGroup | DEnvironmentGroup

text \<open>The message of the protocol; \<open>'x\<close> stands for the messages of its fields.\<close>

record 'x target_msg =
  tm_type :: discriminator
  tm_rule :: "'x option"
  tm_source_file :: "'x option"
  tm_generated_file :: "'x option"
  tm_package_group :: "'x option"

datatype 'x target = SourceFile 'x | GeneratedFile 'x | RuleTarget 'x | PackageGroup 'x

definition need_field :: "string \<Rightarrow> ('x \<Rightarrow> 'x target) \<Rightarrow> 'x option \<Rightarrow> string + 'x target" where
  "need_field name mk field = (case field of Some x \<Rightarrow> Inr (mk x) | None \<Rightarrow> Inl (name @ '' field is not set.''))"

definition target_of :: "'x target_msg \<Rightarrow> string + 'x target" where
  "target_of m =
     (case tm_type m of
        DRule \<Rightarrow> need_field ''rule'' RuleTarget (tm_rule m)
      | DSourceFile \<Rightarrow> need_field ''source_file'' SourceFile (tm_source_file m)
      | DGeneratedFile \<Rightarrow> need_field ''generated_file'' GeneratedFile (tm_generated_file m)
      | DPackageGroup \<Rightarrow> need_field ''package_group'' PackageGroup (tm_package_group m)
      | DEnvironmentGroup \<Rightarrow> Inl ''not supported'')"

text \<open>The loop over the output; \<open>None\<close> when it does not end. A target that cannot be converted is
  passed over, and whatever cannot be decoded ends the loop.\<close>

partial_function (option) decode_targets ::
  "(byte list \<Rightarrow> ('x target_msg \<times> byte list) option) \<Rightarrow> byte list \<Rightarrow> 'x target list option" where
  "decode_targets dec bs =
     (case dec bs of
        None \<Rightarrow> Some []
      | Some (m, rest) \<Rightarrow>
          Option.bind (decode_targets dec rest)
            (\<lambda>ts. Some (case target_of m of Inr t \<Rightarrow> t # ts | Inl _ \<Rightarrow> ts)))"

text \<open>The \<open>Query\<close> value: \<open>len()\<close> is the length cast to 32 bits, an index is cast to \<open>usize\<close>.\<close>

definition query_length :: "'x target list \<Rightarrow> int" where
  "query_length ts = sint (of_nat (length ts) :: 32 word)"

definition query_at :: "'x target list \<Rightarrow> int option \<Rightarrow> string + 'x target" where
  "query_at ts index =
     (case index of
        None \<Rightarrow> Inl ''pass an int''
      | Some i \<Rightarrow> (let k = nat (i mod 2 ^ 64)
          in if k < length ts then Inr (ts ! k) else Inl (''no target at index '' @ show_int i)))"

section \<open>Errors\<close>

definition stderr_detail :: "string \<Rightarrow> string" where
  "stderr_detail s = (let t = trim s in if t = [] then [] else newline @ t)"

text \<open>\<open>{:?}\<close> of an exit code.\<close>

definition debug_code :: "int option \<Rightarrow> string" where
  "debug_code c = (case c of Some n \<Rightarrow> ''Some('' @ show_int n @ '')'' | None \<Rightarrow> ''None'')"

definition query_failure_error :: "string \<Rightarrow> int option \<Rightarrow> string \<Rightarrow> string" where
  "query_failure_error expr code err =
     ''bazel query failed with exit code '' @ debug_code code @ '': '' @ expr @ stderr_detail err"

section \<open>The temporary files\<close>

text \<open>What the two paths name, and the contents of the files, which outlive their names.\<close>

record query_files =
  qf_out :: "nat option"
  qf_err :: "nat option"
  qf_data :: "nat \<Rightarrow> byte list"
  qf_text :: "nat \<Rightarrow> string"
  qf_next :: nat

text \<open>\<open>remove_file\<close> and \<open>File::create\<close> on both; \<open>io\<close> has the error of the creations that fail. A file that
  could not be removed is truncated.\<close>

definition create_out :: "query_files \<Rightarrow> nat \<times> query_files" where
  "create_out f =
     (case qf_out f of
        Some i \<Rightarrow> (i, f\<lparr>qf_data := (qf_data f)(i := [])\<rparr>)
      | None \<Rightarrow> (qf_next f, f\<lparr>qf_out := Some (qf_next f), qf_next := Suc (qf_next f), qf_data := (qf_data f)(qf_next f := [])\<rparr>))"

definition create_err :: "query_files \<Rightarrow> nat \<times> query_files" where
  "create_err f =
     (case qf_err f of
        Some i \<Rightarrow> (i, f\<lparr>qf_text := (qf_text f)(i := [])\<rparr>)
      | None \<Rightarrow> (qf_next f, f\<lparr>qf_err := Some (qf_next f), qf_next := Suc (qf_next f), qf_text := (qf_text f)(qf_next f := [])\<rparr>))"

record query_io =
  qi_remove_out :: bool
  qi_remove_err :: bool
  qi_create_out :: "string option"
  qi_create_err :: "string option"

definition prepare_query :: "query_io \<Rightarrow> query_files \<Rightarrow> (string + nat \<times> nat) \<times> query_files" where
  "prepare_query io f0 =
     (let f1 = (if qi_remove_out io then f0\<lparr>qf_out := None\<rparr> else f0);
          f2 = (if qi_remove_err io then f1\<lparr>qf_err := None\<rparr> else f1)
      in case qi_create_out io of
           Some e \<Rightarrow> (Inl e, f2)
         | None \<Rightarrow> (let (out, f3) = create_out f2
             in case qi_create_err io of
                  Some e \<Rightarrow> (Inl e, f3)
                | None \<Rightarrow> (let (err, f4) = create_err f3 in (Inr (out, err), f4))))"

text \<open>Bazel writes to the files it was given.\<close>

definition client_writes :: "nat \<times> nat \<Rightarrow> byte list \<Rightarrow> string \<Rightarrow> query_files \<Rightarrow> query_files" where
  "client_writes h data err f =
     f\<lparr>qf_data := (qf_data f)(fst h := qf_data f (fst h) @ data), qf_text := (qf_text f)(snd h := qf_text f (snd h) @ err)\<rparr>"

text \<open>How the client ended: it could not be started, waiting failed, or its exit code. The output is
  read by its path.\<close>

datatype query_exit = NotStarted string | WaitFailed string | Exited "int option"

definition read_err :: "query_files \<Rightarrow> string" where
  "read_err f = (case qf_err f of Some i \<Rightarrow> if valid_utf8 (qf_text f i) then qf_text f i else [] | None \<Rightarrow> [])"

definition finish_query ::
  "(byte list \<Rightarrow> ('x target_msg \<times> byte list) option) \<Rightarrow> string \<Rightarrow> string \<Rightarrow> query_exit \<Rightarrow> query_files \<Rightarrow>
   (string + 'x target list) option" where
  "finish_query dec no_file expr ex f =
     (case ex of
        NotStarted e \<Rightarrow> Some (Inl ''failed to spawn bazel'')
      | WaitFailed e \<Rightarrow> Some (Inl e)
      | Exited code \<Rightarrow>
          if code \<noteq> Some 0 then Some (Inl (query_failure_error expr code (read_err f)))
          else (case qf_out f of
              None \<Rightarrow> Some (Inl no_file)
            | Some i \<Rightarrow> map_option Inr (decode_targets dec (qf_data f i))))"

section \<open>Running a query\<close>

definition query_argv :: "string \<Rightarrow> string list \<Rightarrow> string list \<Rightarrow> string list" where
  "query_argv expr startup flags = startup @ [''query'', expr] @ flags @ [''--output=streamed_proto'']"

text \<open>The version is probed only when it is announced.\<close>

definition query_announce ::
  "(string \<Rightarrow> string) \<Rightarrow> ('ver \<Rightarrow> string) \<Rightarrow> string \<times> string \<Rightarrow> announce_flags \<Rightarrow> (string + pid \<times> 'ver option) \<Rightarrow>
   string \<Rightarrow> string list \<Rightarrow> string list" where
  "query_announce lc show_version style an probe program argv =
     (if an_version an \<or> an_command an
      then announce_spawn lc show_version style an
        (if an_version an then (case probe of Inr (_, v) \<Rightarrow> v | Inl _ \<Rightarrow> None) else None) program argv
      else [])"

definition run_query ::
  "(byte list \<Rightarrow> ('x target_msg \<times> byte list) option) \<Rightarrow> query_io \<Rightarrow> string \<Rightarrow> string \<Rightarrow> byte list \<times> string \<Rightarrow>
   query_exit \<Rightarrow> query_files \<Rightarrow> (string + 'x target list) option \<times> query_files" where
  "run_query dec io no_file expr written ex f =
     (case prepare_query io f of
        (Inl e, f1) \<Rightarrow> (Some (Inl e), f1)
      | (Inr h, f1) \<Rightarrow>
          (let f2 = (case ex of NotStarted _ \<Rightarrow> f1 | _ \<Rightarrow> client_writes h (fst written) (snd written) f1)
           in (finish_query dec no_file expr ex f2, f2)))"

section \<open>What a query returns\<close>

definition targets_of :: "'x target_msg list \<Rightarrow> 'x target list" where
  "targets_of ms = concat (map (\<lambda>m. case target_of m of Inr t \<Rightarrow> [t] | Inl _ \<Rightarrow> []) ms)"

lemma decode_targets_encoded:
  assumes "\<forall>m \<in> set ms. \<forall>rest. dec (enc m @ rest) = Some (m, rest)" and "dec rest = None"
  shows "decode_targets dec (concat (map enc ms) @ rest) = Some (targets_of ms)"
  using assms(1)
proof (induction ms)
  case Nil
  show ?case by (subst decode_targets.simps) (simp add: assms(2) targets_of_def)
next
  case (Cons m ms)
  then show ?case
    by (subst decode_targets.simps) (simp add: targets_of_def split: sum.split)
qed

text \<open>The files that a query creates are empty when Bazel gets them.\<close>

lemma prepare_query_empty:
  assumes "prepare_query io f = (Inr (o', e), f')"
  shows "qf_out f' = Some o' \<and> qf_err f' = Some e \<and> qf_data f' o' = [] \<and> qf_text f' e = []"
  using assms
  by (auto simp: prepare_query_def create_out_def create_err_def Let_def split: if_splits option.splits)

lemma prepare_query_good:
  "qi_create_out io = None \<Longrightarrow> qi_create_err io = None \<Longrightarrow> \<exists>h f'. prepare_query io f = (Inr h, f')"
  by (simp add: prepare_query_def Let_def split: prod.split)

text \<open>A query whose temporary files nobody else touches. Whatever they held before, and even when they
  could not be removed: it returns the supported targets of the answer, in order, exactly when
  Bazel succeeds, and otherwise an error that names the exit code and the query and carries what
  Bazel said. The decoding ends; bytes that cannot be decoded end the answer silently.\<close>

theorem query_outcome:
  assumes "\<forall>m \<in> set ms. \<forall>rest. dec (enc m @ rest) = Some (m, rest)" and "dec junk = None"
    and "qi_create_out io = None" and "qi_create_err io = None"
  shows "fst (run_query dec io no_file expr (concat (map enc ms) @ junk, err) ex f) = Some (case ex of
      NotStarted _ \<Rightarrow> Inl ''failed to spawn bazel''
    | WaitFailed e \<Rightarrow> Inl e
    | Exited code \<Rightarrow> if code = Some 0 then Inr (targets_of ms)
        else Inl (query_failure_error expr code (if valid_utf8 err then err else [])))"
proof -
  obtain o' e f' where prep: "prepare_query io f = (Inr (o', e), f')"
    using prepare_query_good [OF assms(3,4)] by (metis surj_pair)
  from prepare_query_empty [OF prep] decode_targets_encoded [OF assms(1,2)] show ?thesis
    by (auto simp: run_query_def prep finish_query_def client_writes_def read_err_def Let_def split: query_exit.split)
qed

section \<open>At a concrete input\<close>

definition sample_dec :: "byte list \<Rightarrow> (nat target_msg \<times> byte list) option" where
  "sample_dec bs =
     (case bs of
        b # rest \<Rightarrow> if b = 0 then None
          else Some (\<lparr>tm_type = (if b = 9 then DEnvironmentGroup else DRule), tm_rule = Some (unat b), tm_source_file = None,
            tm_generated_file = None, tm_package_group = None\<rparr>, rest)
      | [] \<Rightarrow> None)"

definition sample_msg :: "nat \<Rightarrow> nat target_msg" where
  "sample_msg n = \<lparr>tm_type = (if n = 9 then DEnvironmentGroup else DRule), tm_rule = Some n, tm_source_file = None,
    tm_generated_file = None, tm_package_group = None\<rparr>"

definition sample_enc :: "nat target_msg \<Rightarrow> byte list" where
  "sample_enc m = [of_nat (the (tm_rule m))]"

definition no_query_files :: query_files where
  "no_query_files = \<lparr>qf_out = None, qf_err = None, qf_data = (\<lambda>_. []), qf_text = (\<lambda>_. []), qf_next = 0\<rparr>"

definition query_io_good :: query_io where
  "query_io_good = \<lparr>qi_remove_out = True, qi_remove_err = True, qi_create_out = None, qi_create_err = None\<rparr>"

theorem query_outcome_witness:
  "fst (run_query sample_dec query_io_good [] ''//...'' ([3, 9, 5], []) (Exited (Some 0)) no_query_files) =
   Some (Inr [RuleTarget 3, RuleTarget 5])"
proof -
  let ?ms = "[sample_msg 3, sample_msg 9, sample_msg 5]"
  have "\<forall>m \<in> set ?ms. \<forall>rest. sample_dec (sample_enc m @ rest) = Some (m, rest)"
    by (simp add: sample_dec_def sample_enc_def sample_msg_def)
  moreover have sample_empty: "sample_dec [] = None" by (simp add: sample_dec_def)
  ultimately show ?thesis
    using query_outcome [of ?ms sample_dec sample_enc "[]" query_io_good "[]" "''//...''" "[]" "Exited (Some 0)" no_query_files]
    by (simp add: sample_empty sample_enc_def sample_msg_def query_io_good_def targets_of_def target_of_def need_field_def)
qed

text \<open>The two paths are the same for all processes. While a client writes, another query creates the
  files anew; the first query then reads the answer to the second.\<close>

lemma concurrent_queries_mix:
  "let (h1, f1) = prepare_query query_io_good no_query_files;
       (h2, f2) = prepare_query query_io_good f1;
       f3 = client_writes (projr h1) [3] [] f2;
       f4 = client_writes (projr h2) [5] [] f3
   in finish_query sample_dec [] ''//first'' (Exited (Some 0)) f4 = Some (Inr [RuleTarget 5])"
  by (simp add: prepare_query_def create_out_def create_err_def query_io_good_def no_query_files_def client_writes_def
      finish_query_def sample_dec_def target_of_def need_field_def decode_targets.simps [of sample_dec])

text \<open>Diagnostics that are not valid UTF-8 are dropped as a whole.\<close>

lemma query_drops_diagnostics:
  "fst (run_query sample_dec query_io_good [] ''//x'' ([], ''ERROR: '' @ [CHR 0xFF]) (Exited (Some 7)) no_query_files) =
   Some (Inl ''bazel query failed with exit code Some(7): //x'')"
proof -
  have "valid_utf8 (''ERROR: '' @ [CHR 0xFF]) = False" by code_simp
  moreover have "query_failure_error ''//x'' (Some 7) [] = ''bazel query failed with exit code Some(7): //x''" by code_simp
  ultimately show ?thesis
    by (simp add: run_query_def prepare_query_def create_out_def create_err_def query_io_good_def no_query_files_def
        client_writes_def finish_query_def read_err_def)
qed

end
