(* ===== verification/Aspects.thy ===== *)
theory Aspects
  imports Bazel_Process
begin

text \<open>
  Bazel aspects (crates/axl-runtime/src/engine/bazel/aspect.rs): \<open>materialize\<close> writes the source of an
  aspect into a package below \<open>embedded_tools\<close> of the install base, named by a hash of the source, and
  returns the flags that apply it. The directory is shared by all processes on the machine, so the
  code is also a step relation in which any number of them interleave file operation by file
  operation, are killed, and start again. SHA-256 is the argument \<open>hash\<close>; the failures of file
  operations are arguments; directories above the packages are left out.
\<close>

section \<open>Aspects and packages\<close>

record aspect =
  ap_implementation :: string
  ap_symbol :: string
  ap_parameters :: "(string \<times> string) list"
  ap_groups :: "string list"

text \<open>The files of \<open>embedded_tools\<close>, by package and name.\<close>

record tools =
  tl_dirs :: "string set"
  tl_files :: "string \<times> string \<Rightarrow> string option"

datatype aspect_error =
  BaseSpawn string | BaseFailed string | CreatingPackage string | Writing string string | Renaming string string

definition install_base :: "command_result \<Rightarrow> aspect_error + string" where
  "install_base r =
     (case r of
        SpawnFailed e \<Rightarrow> Inl (BaseSpawn e)
      | Ended _ out err \<Rightarrow>
          if succeeded r then Inr (trim (from_utf8_lossy out)) else Inl (BaseFailed (trim (from_utf8_lossy err))))"

text \<open>\<open>Path::with_extension\<close> on a file name.\<close>

definition with_extension :: "string \<Rightarrow> string \<Rightarrow> string" where
  "with_extension name ext =
     (let r = dropWhile (\<lambda>c. c \<noteq> CHR ''.'') (rev name)
      in (if name = ''..'' \<or> r = [] \<or> tl r = [] then name else rev (tl r)) @ ''.'' @ ext)"

definition tmp_name :: "string \<Rightarrow> nat \<Rightarrow> string" where
  "tmp_name name pid = with_extension name (''tmp.'' @ show_nat pid)"

definition build_file :: string where
  "build_file = ''BUILD.bazel''"

definition bzl_file :: string where
  "bzl_file = ''aspect.bzl''"

definition package :: "(string \<Rightarrow> string) \<Rightarrow> string \<Rightarrow> string" where
  "package hash source = ''aspect_'' @ take 16 (hash source)"

definition aspect_flags :: "(string \<Rightarrow> string) \<Rightarrow> aspect \<Rightarrow> string list" where
  "aspect_flags hash a =
     [''--aspects=@bazel_tools//'' @ package hash (ap_implementation a) @ '':aspect.bzl%'' @ ap_symbol a] @
     map (\<lambda>(k, v). ''--aspects_parameters='' @ k @ ''='' @ v) (ap_parameters a) @
     map (\<lambda>g. ''--output_groups=+'' @ g) (ap_groups a)"

section \<open>The code of one process\<close>

text \<open>A write that fails may leave no file or a part of the content.\<close>

datatype write_outcome = WroteAll | WriteFailed "string option"

record file_io =
  io_mkdir :: "string \<Rightarrow> bool"
  io_write :: "string \<times> string \<Rightarrow> write_outcome"
  io_rename :: "string \<times> string \<Rightarrow> bool"

definition put_file :: "string \<times> string \<Rightarrow> string option \<Rightarrow> tools \<Rightarrow> tools" where
  "put_file k c t = t\<lparr>tl_files := (tl_files t)(k := c)\<rparr>"

definition write_atomic ::
  "file_io \<Rightarrow> nat \<Rightarrow> string \<Rightarrow> string \<Rightarrow> string \<Rightarrow> tools \<Rightarrow> (aspect_error + unit) \<times> tools" where
  "write_atomic io pid pkg name contents t =
     (let tmp = (pkg, tmp_name name pid)
      in case io_write io tmp of
           WriteFailed None \<Rightarrow> (Inl (Writing pkg (snd tmp)), t)
         | WriteFailed (Some part) \<Rightarrow> (Inl (Writing pkg (snd tmp)), put_file tmp (Some part) t)
         | WroteAll \<Rightarrow>
             if io_rename io (pkg, name)
             then (Inr (), put_file (pkg, name) (Some contents) (put_file tmp None t))
             else (Inl (Renaming pkg name), put_file tmp (Some contents) t))"

definition materialize_one ::
  "(string \<Rightarrow> string) \<Rightarrow> file_io \<Rightarrow> nat \<Rightarrow> aspect \<Rightarrow> tools \<Rightarrow> (aspect_error + unit) \<times> tools" where
  "materialize_one hash io pid a t =
     (let pkg = package hash (ap_implementation a)
      in if tl_files t (pkg, bzl_file) \<noteq> None then (Inr (), t)
         else if \<not> io_mkdir io pkg then (Inl (CreatingPackage pkg), t)
         else (case write_atomic io pid pkg build_file [] (t\<lparr>tl_dirs := insert pkg (tl_dirs t)\<rparr>) of
                 (Inl e, t1) \<Rightarrow> (Inl e, t1)
               | (Inr _, t1) \<Rightarrow> write_atomic io pid pkg bzl_file (ap_implementation a) t1))"

fun materialize_all ::
  "(string \<Rightarrow> string) \<Rightarrow> file_io \<Rightarrow> nat \<Rightarrow> aspect list \<Rightarrow> tools \<Rightarrow> (aspect_error + string list) \<times> tools" where
  "materialize_all hash io pid [] t = (Inr [], t)"
| "materialize_all hash io pid (a # rest) t =
     (case materialize_one hash io pid a t of
        (Inl e, t1) \<Rightarrow> (Inl e, t1)
      | (Inr _, t1) \<Rightarrow> apfst (map_sum id ((@) (aspect_flags hash a))) (materialize_all hash io pid rest t1))"

text \<open>\<open>base\<close> is the answer of \<open>bazel info install_base\<close>, and \<open>t\<close> the directory below it.\<close>

definition materialize ::
  "(string \<Rightarrow> string) \<Rightarrow> file_io \<Rightarrow> nat \<Rightarrow> command_result \<Rightarrow> aspect list \<Rightarrow> (string \<Rightarrow> tools) \<Rightarrow>
   (aspect_error + string list) \<times> (string \<Rightarrow> tools)" where
  "materialize hash io pid base aspects ts =
     (if aspects = [] then (Inr [], ts)
      else (case install_base base of
          Inl e \<Rightarrow> (Inl e, ts)
        | Inr dir \<Rightarrow> (case materialize_all hash io pid aspects (ts dir) of (r, t) \<Rightarrow> (r, ts(dir := t)))))"

section \<open>Many processes\<close>

text \<open>Where a process is in the code for the first aspect of its list: \<open>fs::write\<close> creates the file and
  fills it, so others may see a part of it.\<close>

datatype file_at = AtCheck | AtMkdir | AtCreate string | AtFill string | AtRename string

record proc =
  pr_todo :: "aspect list"
  pr_at :: file_at
  pr_done :: "aspect list"

definition file_content :: "string \<Rightarrow> aspect \<Rightarrow> string" where
  "file_content name a = (if name = bzl_file then ap_implementation a else [])"

definition finish_aspect :: "proc \<Rightarrow> proc" where
  "finish_aspect pr = pr\<lparr>pr_todo := tl (pr_todo pr), pr_at := AtCheck, pr_done := hd (pr_todo pr) # pr_done pr\<rparr>"

definition advance :: "(string \<Rightarrow> string) \<Rightarrow> nat \<Rightarrow> proc \<times> tools \<Rightarrow> (proc \<times> tools) option" where
  "advance hash pid = (\<lambda>(pr, t).
     case pr_todo pr of
       [] \<Rightarrow> None
     | a # _ \<Rightarrow>
         (let pkg = package hash (ap_implementation a)
          in case pr_at pr of
               AtCheck \<Rightarrow> Some (if tl_files t (pkg, bzl_file) \<noteq> None then finish_aspect pr else pr\<lparr>pr_at := AtMkdir\<rparr>, t)
             | AtMkdir \<Rightarrow> Some (pr\<lparr>pr_at := AtCreate build_file\<rparr>, t\<lparr>tl_dirs := insert pkg (tl_dirs t)\<rparr>)
             | AtCreate n \<Rightarrow> Some (pr\<lparr>pr_at := AtFill n\<rparr>, put_file (pkg, tmp_name n pid) (Some []) t)
             | AtFill n \<Rightarrow> Some (pr\<lparr>pr_at := AtRename n\<rparr>, put_file (pkg, tmp_name n pid) (Some (file_content n a)) t)
             | AtRename n \<Rightarrow>
                 map_option (\<lambda>c. (if n = bzl_file then finish_aspect pr else pr\<lparr>pr_at := AtCreate bzl_file\<rparr>,
                     put_file (pkg, n) (Some c) (put_file (pkg, tmp_name n pid) None t)))
                   (tl_files t (pkg, tmp_name n pid))))"

type_synonym machine_state = "(nat \<Rightarrow> proc) \<times> tools"

text \<open>A process may advance, be seen in the middle of a write, die or give up, and its number may be
  taken by a new one.\<close>

inductive install_step :: "(string \<Rightarrow> string) \<Rightarrow> machine_state \<Rightarrow> machine_state \<Rightarrow> bool" for hash where
  Advance: "advance hash p (ps p, t) = Some (pr, t') \<Longrightarrow> install_step hash (ps, t) (ps(p := pr), t')"
| Part: "\<lbrakk>pr_todo (ps p) = a # rest; pr_at (ps p) = AtFill n\<rbrakk> \<Longrightarrow>
    install_step hash (ps, t)
      (ps, put_file (package hash (ap_implementation a), tmp_name n p) (Some (take k (file_content n a))) t)"
| Die: "install_step hash (ps, t) (ps(p := (ps p)\<lparr>pr_todo := []\<rparr>), t)"
| Begin: "pr_todo (ps p) = [] \<Longrightarrow>
    install_step hash (ps, t) (ps(p := \<lparr>pr_todo = as, pr_at = AtCheck, pr_done = []\<rparr>), t)"

inductive_cases install_stepE: "install_step hash (ps, t) s'"

definition no_procs :: "nat \<Rightarrow> proc" where
  "no_procs = (\<lambda>_. \<lparr>pr_todo = [], pr_at = AtCheck, pr_done = []\<rparr>)"

definition no_tools :: tools where
  "no_tools = \<lparr>tl_dirs = {}, tl_files = (\<lambda>_. None)\<rparr>"

definition install_reachable :: "(string \<Rightarrow> string) \<Rightarrow> machine_state \<Rightarrow> bool" where
  "install_reachable hash s \<longleftrightarrow> (install_step hash)\<^sup>*\<^sup>* (no_procs, no_tools) s"

section \<open>Names of temporary files\<close>

lemma tmp_names:
  "tmp_name build_file pid = ''BUILD.tmp.'' @ show_nat pid"
  "tmp_name bzl_file pid = ''aspect.tmp.'' @ show_nat pid"
  by (simp_all add: tmp_name_def with_extension_def build_file_def bzl_file_def)

lemma show_nat_inject [simp]: "show_nat m = show_nat n \<longleftrightarrow> m = n"
  by (metis read_show_nat)

lemma names_distinct [simp]:
  "build_file \<noteq> bzl_file" "bzl_file \<noteq> build_file"
  "tmp_name build_file p \<noteq> build_file" "tmp_name build_file p \<noteq> bzl_file"
  "tmp_name bzl_file p \<noteq> build_file" "tmp_name bzl_file p \<noteq> bzl_file"
  "build_file \<noteq> tmp_name build_file p" "bzl_file \<noteq> tmp_name build_file p"
  "build_file \<noteq> tmp_name bzl_file p" "bzl_file \<noteq> tmp_name bzl_file p"
  "tmp_name build_file p \<noteq> tmp_name bzl_file q" "tmp_name bzl_file q \<noteq> tmp_name build_file p"
  by (simp_all add: tmp_names) (simp_all add: build_file_def bzl_file_def)

lemma tmp_name_inject [simp]:
  "tmp_name build_file p = tmp_name build_file q \<longleftrightarrow> p = q"
  "tmp_name bzl_file p = tmp_name bzl_file q \<longleftrightarrow> p = q"
  by (simp_all add: tmp_names)

lemma put_file_simps [simp]:
  "tl_files (put_file k c t) = (tl_files t)(k := c)" "tl_dirs (put_file k c t) = tl_dirs t"
  by (simp_all add: put_file_def)

section \<open>What every interleaving keeps\<close>

text \<open>A package that has an aspect is whole: it is named by its content and has its build file.\<close>

definition tools_ok :: "(string \<Rightarrow> string) \<Rightarrow> tools \<Rightarrow> bool" where
  "tools_ok hash t \<longleftrightarrow>
     (\<forall>pkg c. tl_files t (pkg, build_file) = Some c \<longrightarrow> c = []) \<and>
     (\<forall>pkg c. tl_files t (pkg, bzl_file) = Some c \<longrightarrow>
        package hash c = pkg \<and> tl_files t (pkg, build_file) = Some [])"

definition filling :: "(string \<Rightarrow> string) \<Rightarrow> tools \<Rightarrow> aspect \<Rightarrow> string \<Rightarrow> bool" where
  "filling hash t a n \<longleftrightarrow> n = build_file \<or>
     n = bzl_file \<and> tl_files t (package hash (ap_implementation a), build_file) = Some []"

definition proc_ok :: "(string \<Rightarrow> string) \<Rightarrow> tools \<Rightarrow> nat \<Rightarrow> proc \<Rightarrow> bool" where
  "proc_ok hash t p pr \<longleftrightarrow>
     (\<forall>a \<in> set (pr_done pr). tl_files t (package hash (ap_implementation a), bzl_file) \<noteq> None) \<and>
     (case pr_todo pr of
        [] \<Rightarrow> True
      | a # _ \<Rightarrow> (case pr_at pr of
            AtCreate n \<Rightarrow> filling hash t a n
          | AtFill n \<Rightarrow> filling hash t a n
          | AtRename n \<Rightarrow> filling hash t a n \<and>
              tl_files t (package hash (ap_implementation a), tmp_name n p) = Some (file_content n a)
          | _ \<Rightarrow> True))"

text \<open>What a process relies on: published files stay, and its temporary files are its own.\<close>

definition kept_for :: "nat \<Rightarrow> tools \<Rightarrow> tools \<Rightarrow> bool" where
  "kept_for p t t' \<longleftrightarrow>
     (\<forall>pkg. tl_files t (pkg, build_file) = Some [] \<longrightarrow> tl_files t' (pkg, build_file) = Some []) \<and>
     (\<forall>pkg. tl_files t (pkg, bzl_file) \<noteq> None \<longrightarrow> tl_files t' (pkg, bzl_file) \<noteq> None) \<and>
     (\<forall>pkg. \<forall>n \<in> {build_file, bzl_file}. tl_files t' (pkg, tmp_name n p) = tl_files t (pkg, tmp_name n p))"

lemma proc_ok_kept:
  assumes "proc_ok hash t p pr" and "kept_for p t t'"
  shows "proc_ok hash t' p pr"
proof -
  have fill: "filling hash t a n \<Longrightarrow> filling hash t' a n" for a n
    using assms(2) by (auto simp: filling_def kept_for_def)
  have own: "filling hash t a n \<Longrightarrow> tl_files t' (pkg, tmp_name n p) = tl_files t (pkg, tmp_name n p)" for a n pkg
    using assms(2) by (auto simp: filling_def kept_for_def)
  show ?thesis using assms fill
    by (auto simp: proc_ok_def own kept_for_def split: list.splits file_at.splits)
qed

lemma file_content_simps [simp]:
  "file_content build_file a = []" "file_content bzl_file a = ap_implementation a"
  by (simp_all add: file_content_def)

text \<open>One step of a process: it keeps the packages whole, itself in order, and what others rely on.\<close>

lemma advance_ok:
  assumes "advance hash p (pr, t) = Some (pr', t')" and "tools_ok hash t" and "proc_ok hash t p pr"
  shows "tools_ok hash t' \<and> proc_ok hash t' p pr' \<and> (\<forall>q. q \<noteq> p \<longrightarrow> kept_for q t t')"
proof (cases "pr_todo pr")
  case Nil
  with assms(1) show ?thesis by (simp add: advance_def)
next
  case (Cons a rest)
  let ?pkg = "package hash (ap_implementation a)"
  show ?thesis
  proof (cases "pr_at pr")
    case (AtCreate n)
    then have n: "filling hash t a n" using assms(3) Cons by (simp add: proc_ok_def)
    then have n': "n = build_file \<or> n = bzl_file" by (auto simp: filling_def)
    show ?thesis using assms AtCreate Cons n n'
      by (auto simp: advance_def Let_def tools_ok_def proc_ok_def kept_for_def filling_def)
  next
    case (AtFill n)
    then have n: "filling hash t a n" using assms(3) Cons by (simp add: proc_ok_def)
    then have n': "n = build_file \<or> n = bzl_file" by (auto simp: filling_def)
    show ?thesis using assms AtFill Cons n n'
      by (auto simp: advance_def Let_def tools_ok_def proc_ok_def kept_for_def filling_def)
  next
    case (AtRename n)
    then have n: "filling hash t a n" and c: "tl_files t (?pkg, tmp_name n p) = Some (file_content n a)"
      using assms(3) Cons by (simp_all add: proc_ok_def)
    then consider "n = build_file" | "n = bzl_file" "tl_files t (?pkg, build_file) = Some []"
      by (auto simp: filling_def)
    then show ?thesis
    proof cases
      case 1
      with assms AtRename Cons c show ?thesis
        by (auto simp: advance_def Let_def tools_ok_def proc_ok_def kept_for_def filling_def split: if_splits)
    next
      case 2
      with assms AtRename Cons c show ?thesis
        by (auto simp: advance_def Let_def tools_ok_def proc_ok_def kept_for_def finish_aspect_def
          split: list.splits if_splits)
    qed
  next
    case AtCheck
    with assms Cons show ?thesis
      by (auto simp: advance_def Let_def proc_ok_def kept_for_def finish_aspect_def split: if_splits list.splits)
  next
    case AtMkdir
    with assms Cons show ?thesis
      by (auto simp: advance_def Let_def tools_ok_def proc_ok_def kept_for_def filling_def)
  qed
qed

definition machine_ok :: "(string \<Rightarrow> string) \<Rightarrow> machine_state \<Rightarrow> bool" where
  "machine_ok hash s \<longleftrightarrow> tools_ok hash (snd s) \<and> (\<forall>p. proc_ok hash (snd s) p (fst s p))"

lemma install_step_ok:
  assumes "install_step hash s s'" and "machine_ok hash s"
  shows "machine_ok hash s'"
  using assms
proof (induction rule: install_step.induct)
  case (Advance p ps t pr t')
  then have ok: "tools_ok hash t" "\<And>q. proc_ok hash t q (ps q)" by (simp_all add: machine_ok_def)
  from advance_ok [OF Advance.hyps ok(1) ok(2)] show ?case
    by (auto simp: machine_ok_def intro: proc_ok_kept [OF ok(2)])
next
  case (Part ps p a rest n t k)
  then have ok: "tools_ok hash t" "\<And>q. proc_ok hash t q (ps q)" by (simp_all add: machine_ok_def)
  then have n: "n = build_file \<or> n = bzl_file"
    using ok(2) [of p] Part.hyps by (auto simp: proc_ok_def filling_def)
  let ?t = "put_file (package hash (ap_implementation a), tmp_name n p) (Some (take k (file_content n a))) t"
  have "q \<noteq> p \<Longrightarrow> kept_for q t ?t" for q using n by (auto simp: kept_for_def)
  moreover have "tools_ok hash ?t" using ok(1) n by (auto simp: tools_ok_def)
  moreover have "proc_ok hash ?t p (ps p)"
    using ok(2) [of p] Part.hyps n by (auto simp: proc_ok_def filling_def)
  ultimately have "proc_ok hash ?t q (ps q)" for q
    by (cases "q = p") (auto intro: proc_ok_kept [OF ok(2)])
  with \<open>tools_ok hash ?t\<close> show ?case by (simp add: machine_ok_def)
next
  case (Die ps t p)
  then show ?case by (auto simp: machine_ok_def proc_ok_def)
next
  case (Begin ps p t as)
  then show ?case by (auto simp: machine_ok_def proc_ok_def split: list.splits)
qed

lemma reachable_ok: "install_reachable hash s \<Longrightarrow> machine_ok hash s"
  unfolding install_reachable_def
proof (induction rule: rtranclp_induct)
  case base
  show ?case by (simp add: machine_ok_def tools_ok_def proc_ok_def no_tools_def no_procs_def)
qed (rule install_step_ok)

text \<open>However many processes share the install base, wherever they are interrupted, killed or replaced:
  nobody sees an aspect without its build file or with a part of its source, and an aspect that a
  process has finished is there, under the hash of what it holds.\<close>

theorem packages_are_whole:
  assumes "install_reachable hash (ps, t)"
  shows "(\<forall>pkg. case tl_files t (pkg, bzl_file) of None \<Rightarrow> True
      | Some c \<Rightarrow> package hash c = pkg \<and> tl_files t (pkg, build_file) = Some []) \<and>
    (\<forall>p. \<forall>a \<in> set (pr_done (ps p)). \<exists>c. package hash c = package hash (ap_implementation a) \<and>
      tl_files t (package hash (ap_implementation a), bzl_file) = Some c)"
  using reachable_ok [OF assms]
  by (fastforce simp: machine_ok_def tools_ok_def proc_ok_def split: option.split)

section \<open>The code of a process runs these steps\<close>

definition io_good :: file_io where
  "io_good = \<lparr>io_mkdir = (\<lambda>_. True), io_write = (\<lambda>_. WroteAll), io_rename = (\<lambda>_. True)\<rparr>"

fun advances :: "nat \<Rightarrow> (string \<Rightarrow> string) \<Rightarrow> nat \<Rightarrow> proc \<times> tools \<Rightarrow> (proc \<times> tools) option" where
  "advances 0 hash p s = Some s"
| "advances (Suc k) hash p s = Option.bind (advance hash p s) (advances k hash p)"

lemma materialize_one_advances:
  assumes "pr_todo pr = a # rest" and "pr_at pr = AtCheck"
  shows "\<exists>k. advances k hash p (pr, t) = Some (finish_aspect pr, snd (materialize_one hash io_good p a t))"
    and "fst (materialize_one hash io_good p a t) = Inr ()"
proof -
  show "fst (materialize_one hash io_good p a t) = Inr ()"
    by (simp add: materialize_one_def write_atomic_def io_good_def Let_def)
  have finish: "finish_aspect (pr\<lparr>pr_at := x\<rparr>) = finish_aspect pr" for x by (simp add: finish_aspect_def)
  let ?pkg = "package hash (ap_implementation a)"
  show "\<exists>k. advances k hash p (pr, t) = Some (finish_aspect pr, snd (materialize_one hash io_good p a t))"
  proof (cases "tl_files t (?pkg, bzl_file)")
    case None
    have "advances 8 hash p (pr, t) = Some (finish_aspect pr, snd (materialize_one hash io_good p a t))"
      using assms None
      by (simp add: eval_nat_numeral advance_def materialize_one_def write_atomic_def io_good_def Let_def finish
          put_file_def fun_upd_twist)
    then show ?thesis by blast
  next
    case (Some c)
    have "advances 1 hash p (pr, t) = Some (finish_aspect pr, snd (materialize_one hash io_good p a t))"
      using assms Some by (simp add: advance_def materialize_one_def Let_def)
    then show ?thesis by blast
  qed
qed

lemma reachable_advances:
  "advances k hash p (ps p, t) = Some (pr, t') \<Longrightarrow> install_reachable hash (ps, t) \<Longrightarrow>
   install_reachable hash (ps(p := pr), t')"
proof (induction k arbitrary: ps t)
  case (Suc k)
  then obtain pr1 t1 where step: "advance hash p (ps p, t) = Some (pr1, t1)"
    and rest: "advances k hash p ((ps(p := pr1)) p, t1) = Some (pr, t')"
    by (auto simp: bind_eq_Some_conv)
  from Suc.prems(2) install_step.Advance [where ps = ps and p = p and t = t, OF step] have "install_reachable hash (ps(p := pr1), t1)"
    unfolding install_reachable_def by (rule rtranclp.rtrancl_into_rtrancl)
  from Suc.IH [OF rest this] show ?case by (simp only: fun_upd_upd)
qed (auto simp: fun_upd_idem)

lemma reachable_start: "install_reachable hash (no_procs, no_tools)"
  by (simp add: install_reachable_def)

lemma reachable_begin:
  assumes "install_reachable hash (ps, t)" and "pr_todo (ps p) = []"
  shows "install_reachable hash (ps(p := \<lparr>pr_todo = as, pr_at = AtCheck, pr_done = []\<rparr>), t)"
  using assms(1) install_step.Begin [of ps p hash t as, OF assms(2)]
  unfolding install_reachable_def by (rule rtranclp.rtrancl_into_rtrancl)

text \<open>Whatever fails on the way, the packages stay whole.\<close>

lemma write_build_ok:
  assumes "tools_ok hash t" and "write_atomic io p pkg build_file [] t = (r, t')"
  shows "tools_ok hash t' \<and> (r = Inr () \<longrightarrow> tl_files t' (pkg, build_file) = Some [])"
  using assms
  by (auto simp: write_atomic_def Let_def tools_ok_def split: write_outcome.splits option.splits if_splits)

lemma write_bzl_ok:
  assumes "tools_ok hash t" and "tl_files t (package hash c, build_file) = Some []"
    and "write_atomic io p (package hash c) bzl_file c t = (r, t')"
  shows "tools_ok hash t' \<and> (r = Inr () \<longrightarrow> tl_files t' (package hash c, bzl_file) = Some c)"
  using assms
  by (auto simp: write_atomic_def Let_def tools_ok_def split: write_outcome.splits option.splits if_splits)

lemma materialize_one_ok:
  assumes "materialize_one hash io p a t = (r, t')" and "tools_ok hash t"
  shows "tools_ok hash t' \<and> (r = Inr () \<longrightarrow> tl_files t' (package hash (ap_implementation a), bzl_file) \<noteq> None)"
proof -
  let ?pkg = "package hash (ap_implementation a)" and ?t = "\<lambda>pkg. t\<lparr>tl_dirs := insert pkg (tl_dirs t)\<rparr>"
  have ok: "tools_ok hash (?t ?pkg)" using assms(2) by (simp add: tools_ok_def)
  obtain r1 t1 where w: "write_atomic io p ?pkg build_file [] (?t ?pkg) = (r1, t1)" by fastforce
  from write_build_ok [OF ok w] have "tools_ok hash t1" "r1 = Inr () \<longrightarrow> tl_files t1 (?pkg, build_file) = Some []"
    by simp_all
  with write_bzl_ok [of hash t1 "ap_implementation a" io p r t'] show ?thesis
    using assms w by (cases r1) (auto simp: materialize_one_def Let_def split: if_splits)
qed

lemma write_atomic_grows:
  "write_atomic io p pkg n c t = (r, t') \<Longrightarrow> n \<in> {build_file, bzl_file} \<Longrightarrow>
   tl_files t (k, bzl_file) \<noteq> None \<Longrightarrow> tl_files t' (k, bzl_file) \<noteq> None"
  by (auto simp: write_atomic_def Let_def split: write_outcome.splits option.splits if_splits)

lemma materialize_one_grows:
  "materialize_one hash io p a t = (r, t') \<Longrightarrow> tl_files t (k, bzl_file) \<noteq> None \<Longrightarrow>
   tl_files t' (k, bzl_file) \<noteq> None"
  by (auto simp: materialize_one_def Let_def split: if_splits prod.splits sum.splits
      dest!: write_atomic_grows [where k = k])

lemma materialize_all_ok:
  assumes "materialize_all hash io p as t = (r, t')" and "tools_ok hash t"
  shows "tools_ok hash t' \<and> (\<forall>k. tl_files t (k, bzl_file) \<noteq> None \<longrightarrow> tl_files t' (k, bzl_file) \<noteq> None) \<and>
    (case r of Inl _ \<Rightarrow> True | Inr flags \<Rightarrow> flags = concat (map (aspect_flags hash) as) \<and>
      (\<forall>a \<in> set as. tl_files t' (package hash (ap_implementation a), bzl_file) \<noteq> None))"
  using assms
proof (induction as arbitrary: t r t')
  case (Cons a as)
  obtain r1 t1 where one: "materialize_one hash io p a t = (r1, t1)" by fastforce
  note ok = materialize_one_ok [OF one Cons.prems(2)]
  have grows: "tl_files t (k, bzl_file) \<noteq> None \<Longrightarrow> tl_files t1 (k, bzl_file) \<noteq> None" for k
    by (rule materialize_one_grows [OF one])
  obtain r2 t2 where rest: "materialize_all hash io p as t1 = (r2, t2)" by fastforce
  note IH = Cons.IH [OF rest] ok
  show ?case
  proof (cases r1)
    case (Inl e)
    with Cons.prems one ok grows show ?thesis by auto
  next
    case (Inr u)
    with Cons.prems one rest ok grows IH show ?thesis by (cases r2) auto
  qed
qed auto

lemma materialize_all_present:
  "(\<forall>a \<in> set as. tl_files t (package hash (ap_implementation a), bzl_file) \<noteq> None) \<Longrightarrow>
   materialize_all hash io p as t = (Inr (concat (map (aspect_flags hash) as)), t)"
  by (induction as) (auto simp: materialize_one_def Let_def)

lemma materialize_all_good: "\<exists>flags. fst (materialize_all hash io_good p as t) = Inr flags"
proof (induction as arbitrary: t)
  case (Cons a as)
  have "fst (materialize_one hash io_good p a t) = Inr ()"
    by (rule materialize_one_advances(2) [where pr = "\<lparr>pr_todo = [a], pr_at = AtCheck, pr_done = []\<rparr>" and rest = "[]"])
      simp_all
  then obtain t1 where one: "materialize_one hash io_good p a t = (Inr (), t1)"
    by (cases "materialize_one hash io_good p a t") auto
  from Cons.IH [of t1] one show ?case by (cases "materialize_all hash io_good p as t1") auto
qed simp

text \<open>What a build gets for its aspects. Whatever file operation fails, the packages stay whole. When the
  call succeeds, as it does when no operation fails, every aspect is there and the flags apply all
  of them in order; a second call finds them, returns the same flags and writes nothing, even when
  nothing can be written any more.\<close>

theorem materialize_outcome:
  assumes "install_base base = Inr dir" and "tools_ok hash (ts dir)"
  shows "let (r, ts') = materialize hash io p base as ts
    in tools_ok hash (ts' dir) \<and>
       (case r of
          Inl _ \<Rightarrow> io \<noteq> io_good
        | Inr flags \<Rightarrow> flags = concat (map (aspect_flags hash) as) \<and>
            (\<forall>a \<in> set as. tl_files (ts' dir) (package hash (ap_implementation a), bzl_file) \<noteq> None) \<and>
            materialize hash io' q base as ts' = (Inr flags, ts'))"
proof (cases "as = []")
  case True
  then show ?thesis using assms by (simp add: materialize_def)
next
  case False
  obtain r t where all: "materialize_all hash io p as (ts dir) = (r, t)" by fastforce
  have run: "materialize hash io p base as ts = (r, ts(dir := t))"
    using False assms(1) all by (simp add: materialize_def)
  note ok = materialize_all_ok [OF all assms(2)]
  show ?thesis
  proof (cases r)
    case (Inl e)
    with materialize_all_good [of hash p as "ts dir"] all ok show ?thesis by (auto simp: run)
  next
    case (Inr flags)
    with ok have "materialize hash io' q base as (ts(dir := t)) = (Inr flags, ts(dir := t))"
      using False assms(1) materialize_all_present [of as t hash io' q] by (simp add: materialize_def)
    with Inr ok show ?thesis by (simp add: run)
  qed
qed

section \<open>At a concrete input\<close>

definition sample_aspect :: "string \<Rightarrow> aspect" where
  "sample_aspect source = \<lparr>ap_implementation = source, ap_symbol = ''hashsum'',
    ap_parameters = [(''nonce'', ''1'')], ap_groups = [''delivery_hash'']\<rparr>"

theorem materialize_outcome_witness:
  "let (r, ts') = materialize id io_good 7 (Ended (Some 0) ''/ib'' []) [sample_aspect ''src''] (\<lambda>_. no_tools)
   in tools_ok id (ts' ''/ib'') \<and>
      r = Inr [''--aspects=@bazel_tools//aspect_src:aspect.bzl%hashsum'', ''--aspects_parameters=nonce=1'',
        ''--output_groups=+delivery_hash''] \<and> tl_files (ts' ''/ib'') (''aspect_src'', bzl_file) \<noteq> None"
proof -
  have base: "install_base (Ended (Some 0) ''/ib'' []) = Inr ''/ib''" by code_simp
  have empty: "tools_ok id no_tools" by (simp add: tools_ok_def no_tools_def)
  have flags: "aspect_flags id (sample_aspect ''src'') = [''--aspects=@bazel_tools//aspect_src:aspect.bzl%hashsum'',
    ''--aspects_parameters=nonce=1'', ''--output_groups=+delivery_hash'']"
    by (simp add: aspect_flags_def sample_aspect_def package_def)
  have pkg: "package id (ap_implementation (sample_aspect ''src'')) = ''aspect_src''"
    by (simp add: package_def sample_aspect_def)
  obtain r ts' where run: "materialize id io_good 7 (Ended (Some 0) ''/ib'' []) [sample_aspect ''src''] (\<lambda>_. no_tools) = (r, ts')"
    by fastforce
  show ?thesis
    using materialize_outcome [OF base, of id "\<lambda>_. no_tools" io_good 7 "[sample_aspect ''src'']" io_good 7] empty
    by (cases r) (simp_all add: run flags pkg)
qed

text \<open>One process has finished an aspect; another one is in the middle of writing a second aspect.\<close>

theorem packages_are_whole_witness:
  "\<exists>(ps :: nat \<Rightarrow> proc) (t :: tools). pr_done (ps 7) = [sample_aspect ''one''] \<and> pr_at (ps 8) = AtFill bzl_file \<and>
     tl_files t (''aspect_one'', build_file) = Some [] \<and> tl_files t (''aspect_two'', bzl_file) = None"
proof -
  let ?new = "\<lambda>a. \<lparr>pr_todo = [a], pr_at = AtCheck, pr_done = []\<rparr>"
  let ?p7 = "no_procs(7 := ?new (sample_aspect ''one''))"
  have start: "install_reachable id (?p7, no_tools)"
    by (rule reachable_begin [OF reachable_start]) (simp add: no_procs_def)
  define one where "one = advances 8 id 7 (?p7 7, no_tools)"
  have "one \<noteq> None \<and> pr_done (fst (the one)) = [sample_aspect ''one''] \<and>
      tl_files (snd (the one)) (''aspect_one'', bzl_file) = Some ''one'' \<and>
      (\<forall>n. tl_files (snd (the one)) (''aspect_two'', n) = None)"
    unfolding one_def
    by (simp add: eval_nat_numeral advance_def Let_def finish_aspect_def package_def sample_aspect_def no_tools_def)
  then obtain pr t where one': "advances 8 id 7 (?p7 7, no_tools) = Some (pr, t)"
    and fin: "pr_done pr = [sample_aspect ''one'']" "tl_files t (''aspect_one'', bzl_file) = Some ''one''"
      "\<forall>n. tl_files t (''aspect_two'', n) = None"
    unfolding one_def by auto
  let ?ps = "?p7(7 := pr)" and ?q = "?p7(7 := pr, 8 := ?new (sample_aspect ''two''))"
  have "install_reachable id (?ps, t)" by (rule reachable_advances [OF one' start])
  then have begun: "install_reachable id (?q, t)"
    by (rule reachable_begin) (simp add: no_procs_def)
  have two: "\<exists>pr' t'. advances 6 id 8 (?q 8, t) = Some (pr', t') \<and> pr_at pr' = AtFill bzl_file \<and>
      tl_files t' (''aspect_one'', bzl_file) = Some ''one'' \<and> tl_files t' (''aspect_two'', bzl_file) = None"
    using fin(2,3)
    by (simp add: eval_nat_numeral advance_def Let_def finish_aspect_def package_def sample_aspect_def)
  then obtain pr' t' where two': "advances 6 id 8 (?q 8, t) = Some (pr', t')" "pr_at pr' = AtFill bzl_file"
    "tl_files t' (''aspect_one'', bzl_file) = Some ''one''" "tl_files t' (''aspect_two'', bzl_file) = None" by blast
  have "install_reachable id (?q(8 := pr'), t')" by (rule reachable_advances [OF two'(1) begun])
  from packages_are_whole [OF this] two'(3) have "tl_files t' (''aspect_one'', build_file) = Some []"
    by (auto split: option.splits dest!: spec [of _ "''aspect_one''"])
  with fin(1) two'(2,4) show ?thesis by (intro exI [of _ "?q(8 := pr')"] exI [of _ t']) simp
qed

end
