(* ===== verification/Rc_Store.thy ===== *)
theory Rc_Store
  imports Rust_Path
begin

text \<open>
  The data of the \<open>bazelrc\<close> crate (crates/bazelrc/src/lib.rs): \<open>RcOption\<close>,
  \<open>BazelRcError\<close>, \<open>BazelRC\<close> and the operations that build, read and overlay a \<open>BazelRC\<close>
  without touching files. The \<open>HashMap\<close> of sections is an association list whose order
  stands for the iteration order of the map, about which the code may assume nothing; its
  keys are distinct in every value the code builds (\<open>rc_wf\<close>). The type \<open>'v\<close> is
  \<open>semver::Version\<close>, a third-party type.
\<close>

section \<open>Options and errors\<close>

record rc_option =
  opt_value :: string
  opt_command :: string
  opt_source :: nat
  opt_cond :: "string option"

definition show_option :: "rc_option \<Rightarrow> string" where
  "show_option opt =
     ''['' @ opt_command opt @ ''] '' @ opt_value opt @
     (case opt_cond opt of None \<Rightarrow> [] | Some cond \<Rightarrow> '' [if '' @ cond @ '']'')"

datatype rc_error =
    ImportNotFound string
  | BazelrcNotFound string
  | ImportCycle "string list"
  | ConfigCycle "string list"
  | UndefinedConfig string string \<comment> \<open>command, name\<close>
  | InvalidImportArgs string
  | Io string string \<comment> \<open>file, source\<close>

text \<open>The separator is the arrow U+2192 between blanks.\<close>

definition arrow :: string where
  "arrow = '' '' @ [CHR 0xE2, CHR 0x86, CHR 0x92] @ '' ''"

fun show_rc_error :: "rc_error \<Rightarrow> string" where
  "show_rc_error (ImportNotFound path) = ''import target not found: '' @ path"
| "show_rc_error (BazelrcNotFound path) = ''bazelrc file not found: '' @ path"
| "show_rc_error (ImportCycle chain) = ''import cycle detected: '' @ join arrow chain"
| "show_rc_error (ConfigCycle cycle) = ''--config expansion cycle: '' @ join arrow cycle"
| "show_rc_error (UndefinedConfig command name) =
     ''undefined config '' @ [CHR 0x27] @ name @ [CHR 0x27] @ '' for command '' @
     [CHR 0x27] @ command @ [CHR 0x27]"
| "show_rc_error (InvalidImportArgs directive) =
     ''invalid import directive arguments: '' @ directive"
| "show_rc_error (Io file source) = ''I/O error reading '' @ file @ '': '' @ source"

definition command_ancestors :: "string \<Rightarrow> string list" where
  "command_ancestors command =
     (if command \<in> set [''test'', ''run'', ''clean'', ''mobile-install'', ''info'',
           ''print_action'', ''config'', ''cquery'', ''aquery''] then [''build'']
      else if command \<in> set [''coverage'', ''fetch'', ''vendor''] then [''build'', ''test'']
      else [])"

section \<open>The section store\<close>

type_synonym sections = "(string \<times> rc_option list) list"

definition bucket_get :: "('k \<times> 'o list) list \<Rightarrow> 'k \<Rightarrow> 'o list" where
  "bucket_get s k = (case map_of s k of None \<Rightarrow> [] | Some os \<Rightarrow> os)"

text \<open>\<open>entry(k).or_default()\<close> followed by pushes: the key exists afterwards even when nothing
  was pushed.\<close>

fun bucket_extend :: "'k \<Rightarrow> 'o list \<Rightarrow> ('k \<times> 'o list) list \<Rightarrow> ('k \<times> 'o list) list" where
  "bucket_extend k os [] = [(k, os)]"
| "bucket_extend k os ((k', os') # rest) =
     (if k = k' then (k', os' @ os) # rest else (k', os') # bucket_extend k os rest)"

text \<open>What the clients of the section map rely on.\<close>

locale bucket_store =
  fixes get :: "'s \<Rightarrow> 'k \<Rightarrow> 'o list"
    and extend :: "'k \<Rightarrow> 'o list \<Rightarrow> 's \<Rightarrow> 's"
    and keys :: "'s \<Rightarrow> 'k set"
  assumes get_extend: "get (extend k os s) k' = (if k' = k then get s k @ os else get s k')"
    and keys_extend: "keys (extend k os s) = insert k (keys s)"
    and get_absent: "k \<notin> keys s \<Longrightarrow> get s k = []"
begin

lemma get_fold:
  "distinct (map fst kvs) \<Longrightarrow>
   get (fold (\<lambda>(k, os). extend k (f os)) kvs s) k =
   get s k @ (case map_of kvs k of None \<Rightarrow> [] | Some os \<Rightarrow> f os)"
proof (induction kvs arbitrary: s)
  case (Cons kv kvs)
  obtain k' os where "kv = (k', os)" by fastforce
  moreover have "map_of kvs k' = None"
    using Cons.prems \<open>kv = (k', os)\<close> by (simp add: map_of_eq_None_iff)
  ultimately show ?case using Cons by (auto simp: get_extend split: option.splits)
qed simp

lemma keys_fold: "keys (fold (\<lambda>(k, os). extend k (f os)) kvs s) = keys s \<union> fst ` set kvs"
  by (induction kvs arbitrary: s) (auto simp: keys_extend)

end

lemma bucket_get_extend:
  "bucket_get (bucket_extend k os s) k' = (if k' = k then bucket_get s k @ os else bucket_get s k')"
  by (induction k os s rule: bucket_extend.induct) (auto simp: bucket_get_def)

lemma keys_bucket_extend: "fst ` set (bucket_extend k os s) = insert k (fst ` set s)"
  by (induction k os s rule: bucket_extend.induct) auto

lemma bucket_get_absent: "k \<notin> fst ` set s \<Longrightarrow> bucket_get s k = []"
  by (metis bucket_get_def map_of_eq_None_iff option.simps(4))

interpretation sections: bucket_store bucket_get bucket_extend "\<lambda>s. fst ` set s"
  by unfold_locales (simp_all only: bucket_get_extend keys_bucket_extend bucket_get_absent
      not_False_eq_True)

lemma distinct_bucket_extend:
  "distinct (map fst s) \<Longrightarrow> distinct (map fst (bucket_extend k os s))"
  by (induction k os s rule: bucket_extend.induct)
    (simp_all add: keys_bucket_extend)

lemma bucket_get_member:
  "distinct (map fst s) \<Longrightarrow> (k, os) \<in> set s \<Longrightarrow> bucket_get s k = os"
  by (simp add: bucket_get_def)

lemma bucket_get_in: "opt \<in> set (bucket_get s k) \<Longrightarrow> \<exists>os. (k, os) \<in> set s \<and> opt \<in> set os"
  by (cases "map_of s k") (auto simp: bucket_get_def dest: map_of_SomeD)

section \<open>BazelRC\<close>

record 'v bazel_rc =
  rc_options :: sections
  rc_sources :: "string list"
  rc_skip :: "string list"
  rc_startup :: "string list"
  rc_version :: "'v option"

definition command_line :: string where
  "command_line = ''<command line>''"

definition show_bazel_rc :: "'v bazel_rc \<Rightarrow> string" where
  "show_bazel_rc rc =
     ''BazelRC(sources: ['' @ join '', '' (rc_sources rc) @ ''], keys: '' @
     show_nat (length (rc_options rc)) @ '')''"

text \<open>\<open>RcOption { source_index, command: "always", ..flag.clone() }\<close>\<close>

definition cli_option :: "nat \<Rightarrow> rc_option \<Rightarrow> rc_option" where
  "cli_option idx flag = flag\<lparr>opt_source := idx, opt_command := ''always''\<rparr>"

definition blank :: "rc_option list \<Rightarrow> 'v bazel_rc" where
  "blank flags =
     (if flags = []
      then \<lparr>rc_options = [], rc_sources = [], rc_skip = [], rc_startup = [], rc_version = None\<rparr>
      else \<lparr>rc_options = bucket_extend ''always'' (map (cli_option 0) flags) [],
            rc_sources = [command_line], rc_skip = [], rc_startup = [], rc_version = None\<rparr>)"

definition with_skip_config_if_missing :: "string list \<Rightarrow> 'v bazel_rc \<Rightarrow> 'v bazel_rc" where
  "with_skip_config_if_missing skip rc = rc\<lparr>rc_skip := skip\<rparr>"

definition with_startup_flags :: "string list \<Rightarrow> 'v bazel_rc \<Rightarrow> 'v bazel_rc" where
  "with_startup_flags flags rc = rc\<lparr>rc_startup := flags\<rparr>"

definition with_version :: "'v option \<Rightarrow> 'v bazel_rc \<Rightarrow> 'v bazel_rc" where
  "with_version v rc = rc\<lparr>rc_version := v\<rparr>"

definition has_version_gated_options :: "'v bazel_rc \<Rightarrow> bool" where
  "has_version_gated_options rc =
     list_ex (\<lambda>opt. opt_cond opt \<noteq> None) (concat (map snd (rc_options rc)))"

definition all_option_values :: "'v bazel_rc \<Rightarrow> string list" where
  "all_option_values rc = concat (map (\<lambda>(k, os). map opt_value os) (rc_options rc))"

text \<open>\<open>None\<close> is the panic of an index out of range.\<close>

definition source_of :: "'v bazel_rc \<Rightarrow> rc_option \<Rightarrow> string option" where
  "source_of rc opt =
     (if opt_source opt < length (rc_sources rc) then Some (rc_sources rc ! opt_source opt) else None)"

definition raw_options :: "'v bazel_rc \<Rightarrow> string \<Rightarrow> rc_option list" where
  "raw_options rc key = bucket_get (rc_options rc) key"

definition is_cli :: "string list \<Rightarrow> rc_option \<Rightarrow> bool" where
  "is_cli sources opt \<longleftrightarrow>
     opt_source opt < length sources \<and> path_eq (sources ! opt_source opt) command_line"

definition options_for :: "'v bazel_rc \<Rightarrow> string \<Rightarrow> rc_option list" where
  "options_for rc command =
     filter (\<lambda>opt. \<not> is_cli (rc_sources rc) opt) (raw_options rc ''always'') @
     raw_options rc ''common'' @
     concat (map (raw_options rc) (command_ancestors command)) @
     raw_options rc command @
     filter (is_cli (rc_sources rc)) (raw_options rc ''always'')"

fun position :: "('a \<Rightarrow> bool) \<Rightarrow> 'a list \<Rightarrow> nat option" where
  "position P [] = None"
| "position P (x # xs) = (if P x then Some 0 else map_option Suc (position P xs))"

definition push_flag :: "string \<Rightarrow> string option \<Rightarrow> 'v bazel_rc \<Rightarrow> 'v bazel_rc" where
  "push_flag v cond rc =
     (let (idx, srcs) =
        (case position (\<lambda>p. path_eq p command_line) (rc_sources rc) of
           Some i \<Rightarrow> (i, rc_sources rc)
         | None \<Rightarrow> (length (rc_sources rc), rc_sources rc @ [command_line]))
      in rc\<lparr>rc_sources := srcs,
            rc_options := bucket_extend ''always''
              [\<lparr>opt_value = v, opt_command = ''always'', opt_source = idx, opt_cond = cond\<rparr>]
              (rc_options rc)\<rparr>)"

definition rebase :: "nat \<Rightarrow> rc_option \<Rightarrow> rc_option" where
  "rebase offset opt = opt\<lparr>opt_source := opt_source opt + offset\<rparr>"

definition push_missing :: "string \<Rightarrow> string list \<Rightarrow> string list" where
  "push_missing s ss = (if s \<in> set ss then ss else ss @ [s])"

definition merge :: "'v bazel_rc \<Rightarrow> 'v bazel_rc \<Rightarrow> 'v bazel_rc" where
  "merge a b =
     (let offset = length (rc_sources a)
      in \<lparr>rc_options =
            fold (\<lambda>(command, opts). bucket_extend command (map (rebase offset) opts))
              (rc_options b) (rc_options a),
          rc_sources = rc_sources a @ rc_sources b,
          rc_skip = fold push_missing (rc_skip b) (rc_skip a),
          rc_startup = rc_startup a @ rc_startup b,
          rc_version = (case rc_version b of Some v \<Rightarrow> Some v | None \<Rightarrow> rc_version a)\<rparr>)"

section \<open>The invariant\<close>

text \<open>
  Section keys are distinct, every option sits in the section it is labelled with, and its
  source index names an entry of \<open>sources\<close>.
\<close>

definition option_ok :: "nat \<Rightarrow> string \<Rightarrow> rc_option \<Rightarrow> bool" where
  "option_ok n key opt \<longleftrightarrow> opt_source opt < n \<and> opt_command opt = key"

definition sections_wf :: "nat \<Rightarrow> sections \<Rightarrow> bool" where
  "sections_wf n s \<longleftrightarrow>
     distinct (map fst s) \<and> (\<forall>(key, os) \<in> set s. \<forall>opt \<in> set os. option_ok n key opt)"

definition rc_wf :: "'v bazel_rc \<Rightarrow> bool" where
  "rc_wf rc \<longleftrightarrow> sections_wf (length (rc_sources rc)) (rc_options rc)"

lemma sections_wfD:
  "sections_wf n s \<Longrightarrow> (k, os) \<in> set s \<Longrightarrow> opt \<in> set os \<Longrightarrow> option_ok n k opt"
  by (fastforce simp: sections_wf_def)

lemma sections_wf_get:
  "sections_wf n s \<Longrightarrow> opt \<in> set (bucket_get s k) \<Longrightarrow> option_ok n k opt"
  by (fastforce simp: sections_wf_def dest: bucket_get_in)

lemma sections_wf_Nil [simp]: "sections_wf n []"
  by (simp add: sections_wf_def)

lemma sections_wf_mono: "sections_wf n s \<Longrightarrow> n \<le> m \<Longrightarrow> sections_wf m s"
  by (fastforce simp: sections_wf_def option_ok_def)

lemma set_bucket_extend:
  "(key, os) \<in> set (bucket_extend k xs s) \<Longrightarrow>
   (key, os) \<in> set s \<or> key = k \<and> (os = xs \<or> (\<exists>ys. (k, ys) \<in> set s \<and> os = ys @ xs))"
  by (induction k xs s rule: bucket_extend.induct) (auto split: if_splits)

lemma sections_wf_extend:
  assumes "sections_wf n s" and "\<And>opt. opt \<in> set xs \<Longrightarrow> option_ok n k opt"
  shows "sections_wf n (bucket_extend k xs s)"
  unfolding sections_wf_def
proof
  show "distinct (map fst (bucket_extend k xs s))"
    using assms(1) by (simp add: sections_wf_def distinct_bucket_extend)
  show "\<forall>(key, os) \<in> set (bucket_extend k xs s). \<forall>opt \<in> set os. option_ok n key opt"
    using assms by (fastforce simp: sections_wf_def dest: set_bucket_extend)
qed

lemma sections_wf_fold_extend:
  "sections_wf n s \<Longrightarrow> (\<And>k os opt. (k, os) \<in> set kvs \<Longrightarrow> opt \<in> set (f os) \<Longrightarrow> option_ok n k opt) \<Longrightarrow>
   sections_wf n (fold (\<lambda>(k, os). bucket_extend k (f os)) kvs s)"
proof (induction kvs arbitrary: s)
  case (Cons kv kvs)
  obtain k os where kv: "kv = (k, os)" by fastforce
  then have "sections_wf n (bucket_extend k (f os) s)"
    using Cons.prems by (intro sections_wf_extend) auto
  with Cons kv show ?case by auto
qed simp

lemma rc_wf_blank: "rc_wf (blank flags)"
  by (auto simp: rc_wf_def blank_def sections_wf_def option_ok_def cli_option_def)

lemma position_SomeD: "position P xs = Some i \<Longrightarrow> i < length xs \<and> P (xs ! i)"
  by (induction xs arbitrary: i) (auto split: if_splits)

lemma rc_wf_push_flag:
  assumes "rc_wf rc" shows "rc_wf (push_flag v cond rc)"
proof (cases "position (\<lambda>p. path_eq p command_line) (rc_sources rc)")
  case None
  have "sections_wf (Suc (length (rc_sources rc))) (rc_options rc)"
    using assms by (auto simp: rc_wf_def intro: sections_wf_mono)
  with None show ?thesis
    by (auto simp: push_flag_def rc_wf_def option_ok_def intro!: sections_wf_extend)
next
  case (Some i)
  with assms show ?thesis
    by (auto simp: push_flag_def rc_wf_def option_ok_def dest: position_SomeD
        intro!: sections_wf_extend)
qed

lemma rc_wf_merge:
  assumes "rc_wf a" and "rc_wf b" shows "rc_wf (merge a b)"
proof -
  have "sections_wf (length (rc_sources a) + length (rc_sources b)) (rc_options a)"
    using assms(1) by (auto simp: rc_wf_def intro: sections_wf_mono)
  then show ?thesis
    using sections_wfD [OF assms(2) [unfolded rc_wf_def]] unfolding rc_wf_def merge_def Let_def
    by (auto simp: option_ok_def rebase_def intro!: sections_wf_fold_extend)
qed

lemma rc_wf_builders [simp]:
  "rc_wf (with_skip_config_if_missing skip rc) = rc_wf rc"
  "rc_wf (with_startup_flags flags rc) = rc_wf rc"
  "rc_wf (with_version v rc) = rc_wf rc"
  by (simp_all add: rc_wf_def with_skip_config_if_missing_def with_startup_flags_def
      with_version_def)

lemma rc_wf_raw: "rc_wf rc \<Longrightarrow> opt \<in> set (raw_options rc k) \<Longrightarrow>
    opt_source opt < length (rc_sources rc) \<and> opt_command opt = k"
  by (auto simp: rc_wf_def raw_options_def option_ok_def dest: sections_wf_get)

lemma rc_wf_options_for:
  "rc_wf rc \<Longrightarrow> opt \<in> set (options_for rc cmd) \<Longrightarrow> opt_source opt < length (rc_sources rc)"
  by (auto simp: options_for_def dest: rc_wf_raw)

section \<open>What a merge contains\<close>

lemma raw_options_merge:
  assumes "rc_wf b"
  shows "raw_options (merge a b) k =
    raw_options a k @ map (rebase (length (rc_sources a))) (raw_options b k)"
proof -
  have "distinct (map fst (rc_options b))"
    using assms by (simp add: rc_wf_def sections_wf_def)
  then show ?thesis
    by (cases "map_of (rc_options b) k")
      (simp_all add: raw_options_def merge_def Let_def sections.get_fold
        bucket_get_def [of "rc_options b"])
qed

lemma merge_fields [simp]:
  "rc_sources (merge a b) = rc_sources a @ rc_sources b"
  "rc_startup (merge a b) = rc_startup a @ rc_startup b"
  "rc_skip (merge a b) = fold push_missing (rc_skip b) (rc_skip a)"
  "rc_version (merge a b) = (case rc_version b of Some v \<Rightarrow> Some v | None \<Rightarrow> rc_version a)"
  by (simp_all add: merge_def Let_def)

lemma is_cli_left: "opt_source opt < length xs \<Longrightarrow> is_cli (xs @ ys) opt = is_cli xs opt"
  by (simp add: is_cli_def nth_append)

lemma is_cli_rebase: "is_cli (xs @ ys) (rebase (length xs) opt) = is_cli ys opt"
  by (simp add: is_cli_def rebase_def nth_append)

lemma filter_cli_merge:
  assumes "rc_wf a" and "rc_wf b"
  shows "filter (is_cli (rc_sources (merge a b))) (raw_options (merge a b) k) =
      filter (is_cli (rc_sources a)) (raw_options a k) @
      map (rebase (length (rc_sources a))) (filter (is_cli (rc_sources b)) (raw_options b k))"
    and "filter (\<lambda>opt. \<not> is_cli (rc_sources (merge a b)) opt) (raw_options (merge a b) k) =
      filter (\<lambda>opt. \<not> is_cli (rc_sources a) opt) (raw_options a k) @
      map (rebase (length (rc_sources a)))
        (filter (\<lambda>opt. \<not> is_cli (rc_sources b) opt) (raw_options b k))"
  using assms
  by (auto simp: raw_options_merge filter_map comp_def is_cli_left is_cli_rebase
      dest: rc_wf_raw intro!: filter_cong)

lemma set_fold_push_missing: "set (fold push_missing ys xs) = set xs \<union> set ys"
  by (induction ys arbitrary: xs) (auto simp: push_missing_def)

lemma fold_push_missing_id: "set ys \<subseteq> set xs \<Longrightarrow> fold push_missing ys xs = xs"
  by (induction ys arbitrary: xs) (auto simp: push_missing_def)

lemma fold_push_missing_assoc:
  "fold push_missing (fold push_missing zs ys) xs =
   fold push_missing zs (fold push_missing ys xs)"
proof (induction zs arbitrary: ys)
  case (Cons z zs)
  show ?case
  proof (cases "z \<in> set ys")
    case True
    then show ?thesis
      by (simp add: Cons.IH push_missing_def [of z] set_fold_push_missing)
  qed (simp add: Cons.IH push_missing_def [of z ys])
qed simp

lemma rebase_rebase: "rebase m (rebase n opt) = rebase (m + n) opt"
  by (simp add: rebase_def add.commute)

section \<open>Properties\<close>

definition flag_option :: "string \<Rightarrow> rc_option" where
  "flag_option v = \<lparr>opt_value = v, opt_command = [], opt_source = 0, opt_cond = None\<rparr>"

text \<open>No constructor or update of a \<open>BazelRC\<close> produces an option whose source index is
  out of range or whose label is not its section: \<open>blank\<close> establishes the invariant,
  \<open>push_flag\<close> and \<open>merge\<close> keep it (the rebasing of indices included), and under it
  \<open>source_of\<close> never panics on an option that \<open>options_for\<close> returns.\<close>

theorem bazel_rc_invariant:
  assumes "rc_wf a" and "rc_wf b"
  shows "rc_wf (blank flags :: 'v bazel_rc) \<and> rc_wf (push_flag v cond a) \<and> rc_wf (merge a b) \<and>
    (\<forall>opt \<in> set (options_for a cmd). source_of a opt \<noteq> None)"
  using assms rc_wf_options_for [of a]
  by (simp add: rc_wf_blank rc_wf_push_flag rc_wf_merge source_of_def)

theorem bazel_rc_invariant_witness:
  "rc_wf (merge (blank [flag_option ''--jobs=4'']) (blank [flag_option ''--config=ci''])
     :: nat bazel_rc)"
  using bazel_rc_invariant [of "blank [flag_option ''--jobs=4''] :: nat bazel_rc"
      "blank [flag_option ''--config=ci'']" "[]"] rc_wf_blank by blast

lemma merged_options_for:
  assumes "rc_wf a" and "rc_wf b"
  shows "options_for (merge a b) cmd =
    (let up = map (rebase (length (rc_sources a)));
         rc_always = (\<lambda>rc. filter (\<lambda>opt. \<not> is_cli (rc_sources rc) opt) (raw_options rc ''always''));
         cli = (\<lambda>rc. filter (is_cli (rc_sources rc)) (raw_options rc ''always''));
         both = (\<lambda>k. raw_options a k @ up (raw_options b k))
     in rc_always a @ up (rc_always b) @ both ''common'' @
        concat (map both (command_ancestors cmd)) @ both cmd @ cli a @ up (cli b))"
  by (simp only: options_for_def filter_cli_merge [OF assms])
    (simp add: Let_def raw_options_merge [OF assms(2)] raw_options_merge [OF assms(2), abs_def])

text \<open>\<open>options_for\<close> on an overlay: within every section the base's options come before
  the overlay's, and the command-line flags of both come after all rc-file options, the
  overlay's last, so the overlay wins under Bazel's last-write-wins.\<close>

theorem options_for_merge:
  assumes "rc_wf a" and "rc_wf b"
  shows "options_for (merge a b) cmd =
    (let up = map (rebase (length (rc_sources a)));
         rc_always = (\<lambda>rc. filter (\<lambda>opt. \<not> is_cli (rc_sources rc) opt) (raw_options rc ''always''));
         cli = (\<lambda>rc. filter (is_cli (rc_sources rc)) (raw_options rc ''always''));
         both = (\<lambda>k. raw_options a k @ up (raw_options b k))
     in rc_always a @ up (rc_always b) @ both ''common'' @
        concat (map both (command_ancestors cmd)) @ both cmd @ cli a @ up (cli b))"
  by (rule merged_options_for [OF assms])

theorem options_for_merge_witness:
  "map opt_value (options_for (merge (blank [flag_option ''--jobs=4''])
      (blank [flag_option ''--jobs=8'']) :: nat bazel_rc) ''test'') = [''--jobs=4'', ''--jobs=8'']"
  by (subst options_for_merge [OF rc_wf_blank rc_wf_blank])
    (simp add: Let_def raw_options_def blank_def bucket_get_def command_ancestors_def is_cli_def
      cli_option_def flag_option_def rebase_def)

definition rc_equiv :: "'v bazel_rc \<Rightarrow> 'v bazel_rc \<Rightarrow> bool" where
  "rc_equiv a b \<longleftrightarrow> (\<forall>k. raw_options a k = raw_options b k) \<and> rc_sources a = rc_sources b \<and>
     rc_skip a = rc_skip b \<and> rc_startup a = rc_startup b \<and> rc_version a = rc_version b"

lemma raw_options_blank: "raw_options (blank []) k = []"
  by (simp add: raw_options_def blank_def bucket_get_def)

lemma rebase_0 [simp]: "rebase 0 = (\<lambda>opt. opt)"
  by (simp add: rebase_def fun_eq_iff)

text \<open>Overlaying run commands is associative, and a run command built from no flags is
  its unit: every section, the sources, the startup flags, the skip list and the version
  agree however a chain of \<open>merge\<close> calls is bracketed.\<close>

theorem merge_monoid:
  assumes "rc_wf b" and "rc_wf c"
  shows "rc_equiv (merge (merge a b) c) (merge a (merge b c)) \<and>
    rc_equiv (merge (blank []) b) (b\<lparr>rc_skip := fold push_missing (rc_skip b) []\<rparr>) \<and>
    rc_equiv (merge a (blank [])) a"
proof (intro conjI)
  have bc: "rc_wf (merge b c)" using assms by (rule rc_wf_merge)
  show "rc_equiv (merge (merge a b) c) (merge a (merge b c))"
    using assms bc
    by (auto simp: rc_equiv_def raw_options_merge fold_push_missing_assoc rebase_rebase
        split: option.splits)
  show "rc_equiv (merge (blank []) b) (b\<lparr>rc_skip := fold push_missing (rc_skip b) []\<rparr>)"
    using assms by (auto simp: rc_equiv_def raw_options_merge raw_options_blank)
      (auto simp: blank_def raw_options_def split: option.splits)
  show "rc_equiv (merge a (blank [])) a"
    by (auto simp: rc_equiv_def raw_options_merge rc_wf_blank raw_options_blank)
      (auto simp: blank_def)
qed

theorem merge_monoid_witness:
  "rc_equiv (merge (merge (blank []) (blank [flag_option ''-k'']))
       (blank [flag_option ''-c'', flag_option ''opt'']))
     (merge (blank []) (merge (blank [flag_option ''-k''])
       (blank [flag_option ''-c'', flag_option ''opt''])) :: nat bazel_rc)"
  using merge_monoid [of "blank [flag_option ''-k''] :: nat bazel_rc"
      "blank [flag_option ''-c'', flag_option ''opt'']" "blank []"] rc_wf_blank by blast

end
