(* ===== verification/Rc_Expand.thy ===== *)
theory Rc_Expand
  imports Rc_Store
begin

text \<open>
  Expansion of \<open>--config=\<close> flags: \<open>expand::expand_configs\<close> and \<open>expand_args\<close>
  (crates/bazelrc/src/expand.rs). The recursion ends because the ancestor chain only grows
  by names that have a section, each at most once, and a run command has finitely many
  sections. The host's \<open>std::env::consts::OS\<close> is the argument \<open>os\<close>;
  \<open>platform_config_name\<close> maps every such name to itself.
\<close>

section \<open>The expansion\<close>

definition config_flag :: "string \<Rightarrow> string option" where
  "config_flag v = strip_prefix ''--config='' v"

definition config_levels :: "string \<Rightarrow> string list" where
  "config_levels command = [''always'', ''common''] @ command_ancestors command @ [command]"

definition config_options :: "'v bazel_rc \<Rightarrow> string \<Rightarrow> string \<Rightarrow> rc_option list" where
  "config_options rc command name =
     concat (map (\<lambda>prefix. raw_options rc (prefix @ '':'' @ name)) (config_levels command))"

definition inherit_condition :: "string option \<Rightarrow> rc_option \<Rightarrow> rc_option" where
  "inherit_condition cond opt = (if opt_cond opt = None then opt\<lparr>opt_cond := cond\<rparr> else opt)"

definition defined_configs :: "'v bazel_rc \<Rightarrow> string \<Rightarrow> string set" where
  "defined_configs rc command = {name. config_options rc command name \<noteq> []}"

lemma finite_defined_configs: "finite (defined_configs rc command)"
proof (rule finite_subset)
  let ?names = "\<Union>prefix \<in> set (config_levels command).
    drop (Suc (length prefix)) ` (fst ` set (rc_options rc))"
  show "defined_configs rc command \<subseteq> ?names"
  proof
    fix name assume "name \<in> defined_configs rc command"
    then obtain prefix where p: "prefix \<in> set (config_levels command)"
      "raw_options rc (prefix @ '':'' @ name) \<noteq> []"
      by (auto simp: defined_configs_def config_options_def)
    then have "prefix @ '':'' @ name \<in> fst ` set (rc_options rc)"
      using bucket_get_absent [of "prefix @ '':'' @ name" "rc_options rc"]
      by (auto simp: raw_options_def)
    then have "drop (Suc (length prefix)) (prefix @ '':'' @ name) \<in>
        drop (Suc (length prefix)) ` (fst ` set (rc_options rc))"
      by (rule imageI)
    then have "name \<in> drop (Suc (length prefix)) ` (fst ` set (rc_options rc))" by simp
    with p(1) show "name \<in> ?names" by blast
  qed
qed auto

function expand_args ::
  "'v bazel_rc \<Rightarrow> string \<Rightarrow> string \<Rightarrow> bool \<Rightarrow> string list \<Rightarrow> rc_option list \<Rightarrow> string list \<Rightarrow>
   rc_option list \<Rightarrow> rc_error + rc_option list" where
  "expand_args rc os command implicit skip [] chain result = Inr result"
| "expand_args rc os command implicit skip (opt # args) chain result =
     (case config_flag (opt_value opt) of
        None \<Rightarrow> expand_args rc os command implicit skip args chain (result @ [opt])
      | Some name \<Rightarrow>
          if name \<in> set chain then Inl (ConfigCycle (chain @ [name]))
          else if config_options rc command name = [] then
            (if implicit \<and> chain = [] \<and> name = os \<or> name \<in> set skip
             then expand_args rc os command implicit skip args chain result
             else Inl (UndefinedConfig command name))
          else (case expand_args rc os command implicit skip
                       (map (inherit_condition (opt_cond opt)) (config_options rc command name))
                       (chain @ [name]) result of
                  Inl e \<Rightarrow> Inl e
                | Inr result' \<Rightarrow> expand_args rc os command implicit skip args chain result'))"
  by pat_completeness auto
termination
proof (relation "measures
    [\<lambda>(rc, os, command, implicit, skip, args, chain, result).
       card (defined_configs rc command - set chain),
     \<lambda>(rc, os, command, implicit, skip, args, chain, result). length args]")
  fix rc :: "'v bazel_rc" and os command implicit skip opt args chain result name
  assume "name \<notin> set chain" and "config_options rc command name \<noteq> []"
  then have "card (defined_configs rc command - set (chain @ [name])) <
      card (defined_configs rc command - set chain)"
    by (intro psubset_card_mono finite_Diff finite_defined_configs)
      (auto simp: defined_configs_def)
  then show "((rc, os, command, implicit, skip,
        map (inherit_condition (opt_cond opt)) (config_options rc command name),
        chain @ [name], result),
      rc, os, command, implicit, skip, opt # args, chain, result)
    \<in> measures
        [\<lambda>(rc, os, command, implicit, skip, args, chain, result).
           card (defined_configs rc command - set chain),
         \<lambda>(rc, os, command, implicit, skip, args, chain, result). length args]"
    by simp
qed auto

definition enable_platform_specific_config :: string where
  "enable_platform_specific_config = ''--enable_platform_specific_config''"

definition platform_option :: "string \<Rightarrow> rc_option" where
  "platform_option os =
     \<lparr>opt_value = ''--config='' @ os, opt_command = ''always'', opt_source = 0, opt_cond = None\<rparr>"

definition expand_configs ::
  "'v bazel_rc \<Rightarrow> string \<Rightarrow> string \<Rightarrow> string list \<Rightarrow> rc_error + rc_option list" where
  "expand_configs rc os command skip =
     (let base = options_for rc command;
          has_platform_config =
            list_ex (\<lambda>opt. opt_value opt = enable_platform_specific_config) base;
          base' = (if has_platform_config then platform_option os # base else base)
      in expand_args rc os command has_platform_config skip base' [] [])"

section \<open>A declarative reading of the expansion\<close>

lemma expand_args_prepend:
  "expand_args rc os command implicit skip args chain (pre @ result) =
   (case expand_args rc os command implicit skip args chain result of
      Inl e \<Rightarrow> Inl e | Inr r \<Rightarrow> Inr (pre @ r))"
proof (induction rc os command implicit skip args chain result
    arbitrary: pre rule: expand_args.induct)
  case (2 rc os command implicit skip opt args chain result)
  show ?case
  proof (cases "config_flag (opt_value opt)")
    case (Some name)
    with 2 show ?thesis
      by (cases "expand_args rc os command implicit skip
          (map (inherit_condition (opt_cond opt)) (config_options rc command name))
          (chain @ [name]) result") auto
  qed (use 2 in simp)
qed simp

lemmas expand_args_result = expand_args_prepend [of _ _ _ _ _ _ _ _ "[]", simplified]

text \<open>\<open>silently_skipped\<close>: an undefined configuration that is not an error.\<close>

definition silently_skipped :: "string \<Rightarrow> bool \<Rightarrow> string list \<Rightarrow> string list \<Rightarrow> string \<Rightarrow> bool" where
  "silently_skipped os implicit skip chain name \<longleftrightarrow>
     implicit \<and> chain = [] \<and> name = os \<or> name \<in> set skip"

inductive expands ::
  "'v bazel_rc \<Rightarrow> string \<Rightarrow> string \<Rightarrow> bool \<Rightarrow> string list \<Rightarrow> string list \<Rightarrow> rc_option list \<Rightarrow>
   rc_option list \<Rightarrow> bool" for rc os command implicit skip where
  ex_nil: "expands rc os command implicit skip chain [] []"
| ex_plain:
    "config_flag (opt_value opt) = None \<Longrightarrow> expands rc os command implicit skip chain args out \<Longrightarrow>
     expands rc os command implicit skip chain (opt # args) (opt # out)"
| ex_skip:
    "config_flag (opt_value opt) = Some name \<Longrightarrow> name \<notin> set chain \<Longrightarrow>
     config_options rc command name = [] \<Longrightarrow> silently_skipped os implicit skip chain name \<Longrightarrow>
     expands rc os command implicit skip chain args out \<Longrightarrow>
     expands rc os command implicit skip chain (opt # args) out"
| ex_config:
    "config_flag (opt_value opt) = Some name \<Longrightarrow> name \<notin> set chain \<Longrightarrow>
     config_options rc command name \<noteq> [] \<Longrightarrow>
     expands rc os command implicit skip (chain @ [name])
       (map (inherit_condition (opt_cond opt)) (config_options rc command name)) out1 \<Longrightarrow>
     expands rc os command implicit skip chain args out2 \<Longrightarrow>
     expands rc os command implicit skip chain (opt # args) (out1 @ out2)"

inductive_cases expands_NilE: "expands rc os command implicit skip chain [] out"
inductive_cases expands_ConsE: "expands rc os command implicit skip chain (opt # args) out"

lemma expand_args_sound:
  "expand_args rc os command implicit skip args chain result = Inr r \<Longrightarrow>
   \<exists>out. r = result @ out \<and> expands rc os command implicit skip chain args out"
proof (induction rc os command implicit skip args chain result arbitrary: r
    rule: expand_args.induct)
  case (1 rc os command implicit skip chain result)
  then show ?case by (auto intro: ex_nil)
next
  case (2 rc os command implicit skip opt args chain result)
  show ?case
  proof (cases "config_flag (opt_value opt)")
    case None
    with 2 obtain out where "r = (result @ [opt]) @ out"
      "expands rc os command implicit skip chain args out" by fastforce
    with None show ?thesis by (auto intro: ex_plain)
  next
    case (Some name)
    let ?opts = "map (inherit_condition (opt_cond opt)) (config_options rc command name)"
    have fresh: "name \<notin> set chain" using "2.prems" Some by (auto split: if_splits)
    show ?thesis
    proof (cases "config_options rc command name = []")
      case True
      with "2.prems" Some fresh have skipped: "silently_skipped os implicit skip chain name"
        and rest: "expand_args rc os command implicit skip args chain result = Inr r"
        by (simp_all add: silently_skipped_def split: if_splits)
      from skipped have "implicit \<and> chain = [] \<and> name = os \<or> name \<in> set skip"
        by (simp add: silently_skipped_def)
      from "2.IH"(2) [OF Some fresh True this rest] obtain out where "r = result @ out"
        "expands rc os command implicit skip chain args out" by blast
      with ex_skip [OF Some fresh True skipped] show ?thesis by blast
    next
      case False
      with "2.prems" Some fresh obtain r1 where r1:
        "expand_args rc os command implicit skip ?opts (chain @ [name]) result = Inr r1"
        "expand_args rc os command implicit skip args chain r1 = Inr r"
        by (auto split: sum.splits)
      from "2.IH"(3) [OF Some fresh False r1(1)] obtain out1 where out1: "r1 = result @ out1"
        "expands rc os command implicit skip (chain @ [name]) ?opts out1" by blast
      from "2.IH"(4) [OF Some fresh False r1] obtain out2 where "r = r1 @ out2"
        "expands rc os command implicit skip chain args out2" by blast
      with out1 Some fresh False show ?thesis by (auto intro: ex_config)
    qed
  qed
qed

lemma expand_args_complete:
  "expands rc os command implicit skip chain args out \<Longrightarrow>
   expand_args rc os command implicit skip args chain result = Inr (result @ out)"
  by (induction arbitrary: result rule: expands.induct) (auto simp: silently_skipped_def)

lemma expands_append:
  "expands rc os command implicit skip chain xs o1 \<Longrightarrow>
   expands rc os command implicit skip chain ys o2 \<Longrightarrow>
   expands rc os command implicit skip chain (xs @ ys) (o1 @ o2)"
proof (induction rule: expands.induct)
  case (ex_plain opt chain args out)
  then show ?case by (simp add: expands.ex_plain)
next
  case (ex_skip opt name chain args out)
  then show ?case by (simp add: expands.ex_skip)
next
  case (ex_config opt name chain out1 args out2)
  from expands.ex_config [OF ex_config.hyps(1-4) ex_config.IH(2) [OF ex_config.prems]]
  show ?case by simp
qed simp

lemma expands_no_config:
  "expands rc os command implicit skip chain args out \<Longrightarrow> opt \<in> set out \<Longrightarrow>
   config_flag (opt_value opt) = None"
  by (induction rule: expands.induct) auto

lemma inherit_condition_gated: "c \<noteq> None \<Longrightarrow> opt_cond (inherit_condition c opt) \<noteq> None"
  by (simp add: inherit_condition_def)

lemma expands_gated:
  "expands rc os command implicit skip chain args out \<Longrightarrow>
   None \<notin> opt_cond ` set args \<Longrightarrow> None \<notin> opt_cond ` set out"
proof (induction rule: expands.induct)
  case (ex_config opt name chain out1 args out2)
  then have "opt_cond opt \<noteq> None" by force
  then have "None \<notin> opt_cond ` set (map (inherit_condition (opt_cond opt))
      (config_options rc command name))"
    using inherit_condition_gated by (metis (no_types, lifting) imageE image_set)
  with ex_config show ?case by (simp add: image_Un)
qed auto

lemma expands_plain: "\<forall>opt \<in> set args. config_flag (opt_value opt) = None \<Longrightarrow>
   expands rc os command implicit skip chain args args"
  by (induction args) (auto intro: ex_nil ex_plain)

section \<open>Properties\<close>

definition expansion_input :: "'v bazel_rc \<Rightarrow> string \<Rightarrow> string \<Rightarrow> bool \<times> rc_option list" where
  "expansion_input rc os command =
     (let base = options_for rc command in
      if enable_platform_specific_config \<in> opt_value ` set base
      then (True, platform_option os # base)
      else (False, base))"

lemma expand_configs_alt:
  "expand_configs rc os command skip =
     (case expansion_input rc os command of
        (implicit, args) \<Rightarrow> expand_args rc os command implicit skip args [] [])"
proof -
  have "list_ex (\<lambda>opt. opt_value opt = enable_platform_specific_config) (options_for rc command) \<longleftrightarrow>
      enable_platform_specific_config \<in> opt_value ` set (options_for rc command)"
    unfolding list_ex_iff image_iff by metis
  then show ?thesis
    by (simp only: expand_configs_def expansion_input_def Let_def split: if_split) simp
qed


lemma expand_args_append:
  "expand_args rc os command implicit skip (xs @ ys) chain result =
   (case expand_args rc os command implicit skip xs chain result of
      Inl e \<Rightarrow> Inl e
    | Inr r \<Rightarrow> expand_args rc os command implicit skip ys chain r)"
proof (induction xs arbitrary: result)
  case (Cons x xs)
  show ?case
  proof (cases "config_flag (opt_value x)")
    case (Some name)
    then show ?thesis
      by (cases "expand_args rc os command implicit skip
          (map (inherit_condition (opt_cond x)) (config_options rc command name))
          (chain @ [name]) result") (simp_all add: Cons.IH)
  qed (simp add: Cons.IH)
qed simp

text \<open>Expansion is compositional: expanding \<open>xs @ ys\<close> is expanding \<open>xs\<close> and then \<open>ys\<close> onto the
  same output, so the position of every flag relative to an expanded configuration is kept
  and the first failing flag decides the error.\<close>

theorem expand_args_in_place:
  "expand_args rc os command implicit skip (xs @ ys) chain result =
   (case expand_args rc os command implicit skip xs chain result of
      Inl e \<Rightarrow> Inl e
    | Inr r \<Rightarrow> expand_args rc os command implicit skip ys chain r)"
  by (rule expand_args_append)

lemma expand_configs_resolved_aux:
  assumes "expand_configs rc os command skip = Inr out" and "opt \<in> set out"
  shows "config_flag (opt_value opt) = None"
  using assms expands_no_config expand_args_sound [of rc os command]
  unfolding expand_configs_alt by (fastforce split: prod.splits)

text \<open>What expansion returns is fully resolved and keeps version gates: no returned option is a
  \<open>--config=\<close> flag any more, and whatever a version-gated \<open>--config=\<close> flag brings in,
  through however many nested configurations, is itself version-gated.\<close>

theorem expansion_resolved_and_gated:
  assumes "expand_args rc os command implicit skip args [] [] = Inr out"
  shows "(\<forall>opt \<in> set out. config_flag (opt_value opt) = None) \<and>
    (None \<notin> opt_cond ` set args \<longrightarrow> None \<notin> opt_cond ` set out)"
proof -
  from expand_args_sound [OF assms]
  have e: "expands rc os command implicit skip [] args out" by simp
  show ?thesis using expands_no_config [OF e] expands_gated [OF e] by blast
qed

definition rc_line :: "string \<Rightarrow> string option \<Rightarrow> string \<Rightarrow> rc_option" where
  "rc_line k cond v = \<lparr>opt_value = v, opt_command = k, opt_source = 0, opt_cond = cond\<rparr>"

definition rc_of :: "sections \<Rightarrow> nat bazel_rc" where
  "rc_of s = (blank [])\<lparr>rc_options := s, rc_sources := [''.bazelrc'']\<rparr>"

lemmas expand_eval = expand_args.simps config_flag_def config_options_def config_levels_def
  command_ancestors_def raw_options_def bucket_get_def inherit_condition_def rc_of_def rc_line_def
  platform_option_def enable_platform_specific_config_def

definition nested_configs :: "nat bazel_rc" where
  "nested_configs = rc_of
     [(''build:ci'', [rc_line ''build:ci'' None ''--config=rbe'']),
      (''build:rbe'', [rc_line ''build:rbe'' None ''--jobs=9''])]"

theorem expansion_resolved_and_gated_witness:
  "expand_args nested_configs ''linux'' ''build'' False []
     [rc_line ''build'' (Some ''>=8'') ''--config=ci''] [] [] =
   Inr [rc_line ''build:rbe'' (Some ''>=8'') ''--jobs=9''] \<and>
   None \<notin> opt_cond ` set [rc_line ''build:rbe'' (Some ''>=8'') ''--jobs=9'']"
proof -
  have e: "expand_args nested_configs ''linux'' ''build'' False []
     [rc_line ''build'' (Some ''>=8'') ''--config=ci''] [] [] =
   Inr [rc_line ''build:rbe'' (Some ''>=8'') ''--jobs=9'']"
    by (simp add: expand_eval nested_configs_def)
  with expansion_resolved_and_gated [OF this] show ?thesis by (simp add: rc_line_def)
qed

text \<open>\<open>rank\<close> witnesses that no configuration reaches itself.\<close>

definition configs_ranked :: "'v bazel_rc \<Rightarrow> string \<Rightarrow> (string \<Rightarrow> nat) \<Rightarrow> bool" where
  "configs_ranked rc command rank \<longleftrightarrow>
     (\<forall>name. \<forall>opt \<in> set (config_options rc command name).
        case config_flag (opt_value opt) of None \<Rightarrow> True | Some inner \<Rightarrow> rank inner < rank name)"

definition below_chain :: "(string \<Rightarrow> nat) \<Rightarrow> string list \<Rightarrow> rc_option list \<Rightarrow> bool" where
  "below_chain rank chain args \<longleftrightarrow>
     (\<forall>a \<in> set chain. \<forall>opt \<in> set args.
        case config_flag (opt_value opt) of None \<Rightarrow> True | Some inner \<Rightarrow> rank inner < rank a)"

lemma opt_value_inherit [simp]: "opt_value (inherit_condition c opt) = opt_value opt"
  by (simp add: inherit_condition_def)

lemma below_chain_fresh:
  "below_chain rank chain (opt # args) \<Longrightarrow> config_flag (opt_value opt) = Some name \<Longrightarrow>
   name \<notin> set chain"
  by (fastforce simp: below_chain_def)

lemma below_chain_step:
  assumes "configs_ranked rc command rank" and "below_chain rank chain (opt # args)"
    and "config_flag (opt_value opt) = Some name"
  shows "below_chain rank (chain @ [name])
    (map (inherit_condition c) (config_options rc command name))"
proof -
  have "rank name < rank a" if "a \<in> set chain" for a
    using assms(2,3) that by (auto simp: below_chain_def)
  moreover have "case config_flag (opt_value o') of None \<Rightarrow> True | Some inner \<Rightarrow> rank inner < rank name"
    if "o' \<in> set (config_options rc command name)" for o'
    using assms(1) that by (simp add: configs_ranked_def)
  ultimately show ?thesis
    by (fastforce simp: below_chain_def split: option.splits intro: less_trans)
qed

lemma below_chain_tail: "below_chain rank chain (opt # args) \<Longrightarrow> below_chain rank chain args"
  by (simp add: below_chain_def)

lemma expand_args_no_cycle:
  "configs_ranked rc command rank \<Longrightarrow> below_chain rank chain args \<Longrightarrow>
   expand_args rc os command implicit skip args chain result \<noteq> Inl (ConfigCycle cyc)"
proof (induction rc os command implicit skip args chain result rule: expand_args.induct)
  case (2 rc os command implicit skip opt args chain result)
  note tail = below_chain_tail [OF "2.prems"(2)]
  show ?case
  proof (cases "config_flag (opt_value opt)")
    case None
    with "2.IH"(1) [OF None "2.prems"(1) tail] show ?thesis by simp
  next
    case (Some name)
    note fresh = below_chain_fresh [OF "2.prems"(2) Some]
    note step = below_chain_step [OF "2.prems" Some]
    show ?thesis
    proof (cases "config_options rc command name = []")
      case True
      with "2.IH"(2) [OF Some fresh True _ "2.prems"(1) tail] Some fresh show ?thesis by simp
    next
      case False
      note inner = "2.IH"(3) [OF Some fresh False "2.prems"(1) step]
      note outer = "2.IH"(4) [OF Some fresh False _ "2.prems"(1) tail]
      show ?thesis
        using Some fresh False inner outer
        by (cases "expand_args rc os command implicit skip
            (map (inherit_condition (opt_cond opt)) (config_options rc command name))
            (chain @ [name]) result") auto
    qed
  qed
qed simp

text \<open>Configuration cycles are reported only when there is one: if no configuration reaches
  itself through \<open>--config=\<close> flags of its sections (each decreases a rank), expansion
  never fails with \<open>ConfigCycle\<close>; using one configuration several times is not a cycle.\<close>

theorem ranked_configs_never_cycle:
  assumes "configs_ranked rc command rank"
  shows "expand_configs rc os command skip \<noteq> Inl (ConfigCycle cyc)"
proof (cases "expansion_input rc os command")
  case (Pair implicit args)
  have "below_chain rank [] args" by (simp add: below_chain_def)
  from expand_args_no_cycle [OF assms this] Pair show ?thesis by (simp add: expand_configs_alt)
qed

theorem ranked_configs_never_cycle_witness:
  "configs_ranked nested_configs ''build'' (\<lambda>n. if n = ''ci'' then 1 else 0) \<and>
   expand_configs nested_configs ''linux'' ''build'' [] \<noteq> Inl (ConfigCycle [''ci'', ''ci''])"
proof -
  have "configs_ranked nested_configs ''build'' (\<lambda>n. if n = ''ci'' then 1 else 0)"
    by (simp add: configs_ranked_def nested_configs_def expand_eval)
  with ranked_configs_never_cycle show ?thesis by blast
qed

text \<open>The code's comment promises that an explicitly requested \<open>--config=\<close> still fails when it is
  undefined; with \<open>--enable_platform_specific_config\<close> an explicit request for the host's own
  configuration is skipped as well, and so is one gated to another version.\<close>

lemma explicit_platform_config_is_skipped:
  "expand_configs (rc_of [(''build'', [rc_line ''build'' None ''--config=linux''])])
     ''linux'' ''build'' [] = Inl (UndefinedConfig ''build'' ''linux'')"
  "expand_configs (rc_of [(''build'', [rc_line ''build'' None ''--enable_platform_specific_config'',
       rc_line ''build'' None ''--config=linux''])]) ''linux'' ''build'' [] =
     Inr [rc_line ''build'' None ''--enable_platform_specific_config'']"
  by (simp_all add: expand_configs_def options_for_def is_cli_def blank_def path_eq_def
      command_line_def expand_eval)

end
