(* ===== verification/Rc_Query.thy ===== *)
theory Rc_Query
  imports Rc_Expand
begin

text \<open>
  Reading a run command: \<open>resolve_for_command\<close> and the value queries that Starlark code calls
  (crates/bazelrc/src/lib.rs). Version constraints are parsed and matched by the \<open>semver\<close>
  crate, which is the argument \<open>sv\<close>; \<open>anyhow\<close> errors are their message.
\<close>

section \<open>Version gates\<close>

text \<open>\<open>Version::parse\<close>, \<open>VersionReq::parse\<close> with \<open>matches\<close> of its result, and
  \<open>Version::new(u64::MAX, u64::MAX, u64::MAX)\<close>.\<close>

record 'v semver =
  sv_version :: "string \<Rightarrow> 'v option"
  sv_req :: "string \<Rightarrow> string + ('v \<Rightarrow> bool)"
  sv_latest :: 'v

definition version_condition_holds :: "'v semver \<Rightarrow> 'v bazel_rc \<Rightarrow> string option \<Rightarrow> bool" where
  "version_condition_holds sv rc condition =
     (case condition of
        None \<Rightarrow> True
      | Some cond \<Rightarrow>
          (let probe = (case rc_version rc of Some v \<Rightarrow> v | None \<Rightarrow> sv_latest sv)
           in case sv_req sv cond of Inr matches \<Rightarrow> matches probe | Inl _ \<Rightarrow> True))"

definition invalid_constraint :: "string \<Rightarrow> string \<Rightarrow> string" where
  "invalid_constraint cond e =
     ''invalid version constraint '' @ [CHR 0x27] @ cond @ [CHR 0x27] @ '': '' @ e"

fun gate_options :: "'v semver \<Rightarrow> 'v \<Rightarrow> rc_option list \<Rightarrow> string + rc_option list" where
  "gate_options sv probe [] = Inr []"
| "gate_options sv probe (opt # opts) =
     (case opt_cond opt of
        None \<Rightarrow> map_sum id (Cons opt) (gate_options sv probe opts)
      | Some cond \<Rightarrow> (case sv_req sv cond of
            Inl e \<Rightarrow> Inl (invalid_constraint cond e)
          | Inr matches \<Rightarrow>
              (if matches probe then map_sum id (Cons opt) (gate_options sv probe opts)
               else gate_options sv probe opts)))"

definition effective_version :: "'v semver \<Rightarrow> 'v bazel_rc \<Rightarrow> string option \<Rightarrow> 'v" where
  "effective_version sv rc version_override =
     (case (case version_override of Some v \<Rightarrow> sv_version sv v | None \<Rightarrow> rc_version rc) of
        Some v \<Rightarrow> v
      | None \<Rightarrow> sv_latest sv)"

definition applicable_options ::
  "'v semver \<Rightarrow> string \<Rightarrow> 'v bazel_rc \<Rightarrow> string \<Rightarrow> string option \<Rightarrow> string + rc_option list" where
  "applicable_options sv os rc command version_override =
     (case expand_configs rc os command (rc_skip rc) of
        Inl e \<Rightarrow> Inl (show_rc_error e)
      | Inr opts \<Rightarrow>
          if \<not> list_ex (\<lambda>opt. opt_cond opt \<noteq> None) opts then Inr opts
          else gate_options sv (effective_version sv rc version_override) opts)"

section \<open>Overrides and regular flags\<close>

definition is_two_token_pair :: "rc_option \<Rightarrow> rc_option \<Rightarrow> bool" where
  "is_two_token_pair flag val \<longleftrightarrow>
     starts_with ''-'' (opt_value flag) \<and> CHR ''='' \<notin> set (opt_value flag) \<and>
     \<not> starts_with ''-'' (opt_value val) \<and> opt_command flag = opt_command val \<and>
     opt_cond flag = opt_cond val"

definition section_base :: "rc_option \<Rightarrow> string" where
  "section_base opt = hd (split_on CHR '':'' (opt_command opt))"

type_synonym gated_flag = "string \<times> string option"

definition override_flag :: "string \<Rightarrow> string option \<Rightarrow> gated_flag" where
  "override_flag v cond = (''--default_override=0:common='' @ v, cond)"

fun partition_expand_all :: "rc_option list \<Rightarrow> gated_flag list \<times> gated_flag list" where
  "partition_expand_all [] = ([], [])"
| "partition_expand_all (opt # rest) =
     (if section_base opt = ''common'' then
        (case rest of
           next # rest' \<Rightarrow>
             if is_two_token_pair opt next
             then apfst (Cons (override_flag (opt_value opt @ ''='' @ opt_value next) (opt_cond opt)))
                    (partition_expand_all rest')
             else apfst (Cons (override_flag (opt_value opt) (opt_cond opt)))
                    (partition_expand_all rest)
         | [] \<Rightarrow> ([override_flag (opt_value opt) (opt_cond opt)], []))
      else apsnd (Cons (opt_value opt, opt_cond opt)) (partition_expand_all rest))"

definition invocation_startup_flags :: "'v semver \<Rightarrow> 'v bazel_rc \<Rightarrow> string list" where
  "invocation_startup_flags sv rc =
     rc_startup rc @
     map opt_value (filter (\<lambda>opt. version_condition_holds sv rc (opt_cond opt))
       (raw_options rc ''startup'')) @
     [''--ignore_all_rc_files'']"

definition resolve_for_command ::
  "'v semver \<Rightarrow> string \<Rightarrow> 'v bazel_rc \<Rightarrow> string \<Rightarrow> string + (string list \<times> string list)" where
  "resolve_for_command sv os rc command =
     (case applicable_options sv os rc command None of
        Inl e \<Rightarrow> Inl e
      | Inr opts \<Rightarrow>
          (let (overrides, regular) = partition_expand_all opts
           in Inr (invocation_startup_flags sv rc, map fst overrides @ map fst regular)))"

section \<open>Flag values\<close>

fun flag_value_list :: "rc_option list \<Rightarrow> string \<Rightarrow> string list" where
  "flag_value_list [] name = []"
| "flag_value_list (opt # rest) name =
     (case strip_prefix (name @ ''='') (opt_value opt) of
        Some v \<Rightarrow> v # flag_value_list rest name
      | None \<Rightarrow>
          if opt_value opt = name then
            (case rest of
               next # _ \<Rightarrow>
                 if \<not> starts_with ''-'' (opt_value next)
                 then opt_value next # flag_value_list rest name
                 else flag_value_list rest name
             | [] \<Rightarrow> flag_value_list rest name)
          else flag_value_list rest name)"

definition bool_step :: "string \<Rightarrow> rc_option \<Rightarrow> bool option \<Rightarrow> bool option" where
  "bool_step name opt state =
     (let bare = (case strip_prefix ''--'' name of Some b \<Rightarrow> b | None \<Rightarrow> name);
          v = opt_value opt
      in if v = name then Some True
         else if v = ''--no'' @ bare then Some False
         else case strip_prefix (name @ ''='') v of
             Some rest \<Rightarrow>
               if rest \<in> set [''true'', ''1'', ''yes''] then Some True
               else if rest \<in> set [''false'', ''0'', ''no''] then Some False
               else state
           | None \<Rightarrow> state)"

definition last_bool_flag :: "rc_option list \<Rightarrow> string \<Rightarrow> bool option" where
  "last_bool_flag opts name = fold (bool_step name) opts None"

section \<open>The Starlark methods\<close>

text \<open>A flag handed to Starlark is a string or a pair of strings; one read from Starlark goes
  through the interpreter's \<open>unpack_str\<close> and \<open>UnpackTuple<String>\<close>, the two arguments.\<close>

datatype star_flag = PlainFlag string | GatedFlag string string

definition star_flag_of :: "gated_flag \<Rightarrow> star_flag" where
  "star_flag_of f = (case snd f of None \<Rightarrow> PlainFlag (fst f) | Some c \<Rightarrow> GatedFlag (fst f) c)"

definition alloc_flag :: "rc_option \<Rightarrow> star_flag" where
  "alloc_flag opt =
     (case opt_cond opt of
        None \<Rightarrow> PlainFlag (opt_value opt)
      | Some cond \<Rightarrow> GatedFlag (opt_value opt) cond)"

definition default_option :: rc_option where
  "default_option = \<lparr>opt_value = [], opt_command = [], opt_source = 0, opt_cond = None\<rparr>"

definition unpack_rc_option ::
  "('val \<Rightarrow> string option) \<Rightarrow> ('val \<Rightarrow> string list option) \<Rightarrow> 'val \<Rightarrow> rc_option option" where
  "unpack_rc_option unpack_str unpack_tuple v =
     (case unpack_str v of
        Some s \<Rightarrow> Some (default_option\<lparr>opt_value := s\<rparr>)
      | None \<Rightarrow>
          (case unpack_tuple v of
             Some (flag # items) \<Rightarrow>
               Some (default_option\<lparr>opt_value := flag,
                 opt_cond := (case items of [] \<Rightarrow> None | c # _ \<Rightarrow> Some c)\<rparr>)
           | _ \<Rightarrow> None))"

definition last_of :: "'a list \<Rightarrow> 'a option" where
  "last_of xs = (if xs = [] then None else Some (last xs))"

definition flag_value ::
  "'v semver \<Rightarrow> string \<Rightarrow> 'v bazel_rc \<Rightarrow> string \<Rightarrow> string \<Rightarrow> string option \<Rightarrow> string + string option" where
  "flag_value sv os rc name command version =
     map_sum id (\<lambda>opts. last_of (flag_value_list opts name))
       (applicable_options sv os rc command version)"

definition bool_flag ::
  "'v semver \<Rightarrow> string \<Rightarrow> 'v bazel_rc \<Rightarrow> string \<Rightarrow> string \<Rightarrow> string option \<Rightarrow> string + bool option" where
  "bool_flag sv os rc name command version =
     map_sum id (\<lambda>opts. last_bool_flag opts name) (applicable_options sv os rc command version)"

definition flag_values ::
  "'v semver \<Rightarrow> string \<Rightarrow> 'v bazel_rc \<Rightarrow> string \<Rightarrow> string \<Rightarrow> string option \<Rightarrow> string + string list" where
  "flag_values sv os rc name command version =
     map_sum id (\<lambda>opts. flag_value_list opts name) (applicable_options sv os rc command version)"

definition star_options_for :: "'v bazel_rc \<Rightarrow> string \<Rightarrow> star_flag list" where
  "star_options_for rc command = map alloc_flag (options_for rc command)"

definition star_expand :: "'v semver \<Rightarrow> string \<Rightarrow> 'v bazel_rc \<Rightarrow> string \<Rightarrow> string + star_flag list" where
  "star_expand sv os rc command =
     map_sum id (map alloc_flag) (applicable_options sv os rc command None)"

definition star_expand_all ::
  "'v semver \<Rightarrow> string \<Rightarrow> 'v bazel_rc \<Rightarrow> string \<Rightarrow> string + (star_flag list \<times> star_flag list)" where
  "star_expand_all sv os rc command =
     (case applicable_options sv os rc command None of
        Inl e \<Rightarrow> Inl e
      | Inr opts \<Rightarrow>
          (let (overrides, regular) = partition_expand_all opts
           in Inr (map alloc_flag (raw_options rc ''startup''),
                   map star_flag_of (overrides @ regular))))"

section \<open>What the queries see\<close>

definition gates_parse :: "'v semver \<Rightarrow> rc_option list \<Rightarrow> bool" where
  "gates_parse sv opts \<longleftrightarrow> list_all (\<lambda>opt. case opt_cond opt of
     None \<Rightarrow> True | Some cond \<Rightarrow> (case sv_req sv cond of Inl _ \<Rightarrow> False | Inr _ \<Rightarrow> True)) opts"

definition gate_open :: "'v semver \<Rightarrow> 'v \<Rightarrow> rc_option \<Rightarrow> bool" where
  "gate_open sv probe opt \<longleftrightarrow> (case opt_cond opt of
     None \<Rightarrow> True
   | Some cond \<Rightarrow> (case sv_req sv cond of Inl _ \<Rightarrow> False | Inr matches \<Rightarrow> matches probe))"

lemma gates_parse_Cons:
  "gates_parse sv (opt # opts) \<longleftrightarrow>
   (opt_cond opt = None \<or> (\<exists>cond m. opt_cond opt = Some cond \<and> sv_req sv cond = Inr m)) \<and>
   gates_parse sv opts"
  by (cases "opt_cond opt") (auto simp: gates_parse_def split: sum.splits)

lemma gate_options_Inr:
  "gates_parse sv opts \<Longrightarrow> gate_options sv probe opts = Inr (filter (gate_open sv probe) opts)"
proof (induction opts)
  case (Cons opt opts)
  then have "gate_options sv probe opts = Inr (filter (gate_open sv probe) opts)"
    by (simp add: gates_parse_Cons)
  with Cons.prems show ?case by (elim gates_parse_Cons [THEN iffD1, elim_format] conjE disjE exE)
      (simp_all add: gate_open_def [of sv probe opt])
qed simp

lemma gate_options_Inl: "\<not> gates_parse sv opts \<Longrightarrow> \<exists>e. gate_options sv probe opts = Inl e"
proof (induction opts)
  case (Cons opt opts)
  show ?case
  proof (cases "gates_parse sv opts")
    case True
    with Cons.prems obtain cond e where "opt_cond opt = Some cond" "sv_req sv cond = Inl e"
      by (cases "opt_cond opt") (auto simp: gates_parse_def split: sum.splits)
    then show ?thesis by simp
  next
    case False
    with Cons.IH obtain e where "gate_options sv probe opts = Inl e" by blast
    then show ?thesis by (simp split: option.split sum.split)
  qed
qed (simp add: gates_parse_def)

lemma gate_options_eq:
  "gate_options sv probe opts = Inr out \<longleftrightarrow>
   gates_parse sv opts \<and> out = filter (gate_open sv probe) opts"
  using gate_options_Inr [of sv opts probe] gate_options_Inl [of sv opts probe]
  by (cases "gates_parse sv opts") auto

lemma ungated:
  "\<not> list_ex (\<lambda>opt. opt_cond opt \<noteq> None) opts \<Longrightarrow>
   gates_parse sv opts \<and> filter (gate_open sv probe) opts = opts"
  by (induction opts) (auto simp: gates_parse_def gate_open_def)

text \<open>C13. The options a query or an invocation sees are exactly the fully expanded ones whose
  version constraint holds at the effective version (the per-call override, else the
  configured version, else the largest), in expansion order; the query fails if and only if
  the expansion does or some constraint does not parse.\<close>

theorem applicable_options_spec:
  "applicable_options sv os rc command override = Inr out \<longleftrightarrow>
   (\<exists>opts. expand_configs rc os command (rc_skip rc) = Inr opts \<and> gates_parse sv opts \<and>
      out = filter (gate_open sv (effective_version sv rc override)) opts)"
proof (cases "expand_configs rc os command (rc_skip rc)")
  case (Inr opts)
  then show ?thesis
    using ungated [of opts sv]
    by (cases "list_ex (\<lambda>opt. opt_cond opt \<noteq> None) opts")
      (auto simp: applicable_options_def gate_options_eq)
qed (simp add: applicable_options_def)

section \<open>Partition\<close>

definition is_common :: "rc_option \<Rightarrow> bool" where
  "is_common opt \<longleftrightarrow> section_base opt = ''common''"

text \<open>One override stands for one option, or for a bare flag and its value.\<close>

fun render_group :: "rc_option list \<Rightarrow> gated_flag" where
  "render_group [opt] = override_flag (opt_value opt) (opt_cond opt)"
| "render_group (opt # nxt # _) =
     override_flag (opt_value opt @ ''='' @ opt_value nxt) (opt_cond opt)"
| "render_group [] = override_flag [] None"

definition good_group :: "rc_option list \<Rightarrow> bool" where
  "good_group g \<longleftrightarrow> (case g of
     [opt] \<Rightarrow> True | [opt, nxt] \<Rightarrow> is_two_token_pair opt nxt | _ \<Rightarrow> False)"

lemma two_token_common: "is_two_token_pair a b \<Longrightarrow> is_common a \<Longrightarrow> is_common b"
  by (simp add: is_two_token_pair_def is_common_def section_base_def)

lemma partition_groups:
  "\<exists>groups. concat groups = filter is_common opts \<and> list_all good_group groups \<and>
     fst (partition_expand_all opts) = map render_group groups"
proof (induction opts rule: partition_expand_all.induct)
  case 1
  show ?case by (rule exI [of _ "[]"]) simp
next
  case (2 opt rest)
  have group: "\<exists>groups. concat groups = g @ filter is_common opts' \<and> list_all good_group groups \<and>
      render_group g # fst (partition_expand_all opts') = map render_group groups"
    if "\<exists>groups. concat groups = filter is_common opts' \<and> list_all good_group groups \<and>
      fst (partition_expand_all opts') = map render_group groups" and "good_group g" for g opts'
  proof -
    from that(1) obtain groups where "concat groups = filter is_common opts'"
      "list_all good_group groups" "fst (partition_expand_all opts') = map render_group groups"
      by blast
    with that(2) show ?thesis by (intro exI [of _ "g # groups"]) simp
  qed
  show ?case
  proof (cases "section_base opt = ''common''")
    case False
    with 2 show ?thesis by (simp add: is_common_def)
  next
    case True
    show ?thesis
    proof (cases rest)
      case Nil
      with True show ?thesis
        by (intro exI [of _ "[[opt]]"]) (simp add: is_common_def good_group_def)
    next
      case (Cons nxt rest')
      show ?thesis
      proof (cases "is_two_token_pair opt nxt")
        case pair: True
        have "is_common nxt" using two_token_common [OF pair] True by (simp add: is_common_def)
        moreover have "is_common opt" using True by (simp add: is_common_def)
        moreover have "good_group [opt, nxt]" using pair by (simp add: good_group_def)
        ultimately show ?thesis
          using group [OF "2.IH"(1) [OF True Cons pair], of "[opt, nxt]"] True Cons pair by simp
      next
        case single: False
        have "is_common opt" using True by (simp add: is_common_def)
        moreover have "good_group [opt]" by (simp add: good_group_def)
        ultimately show ?thesis
          using group [OF "2.IH"(2) [OF True Cons single], of "[opt]"] True Cons single by simp
      qed
    qed
  qed
qed

lemma partition_regular:
  "snd (partition_expand_all opts) =
   map (\<lambda>opt. (opt_value opt, opt_cond opt)) (filter (\<lambda>opt. \<not> is_common opt) opts)"
proof (induction opts rule: partition_expand_all.induct)
  case (2 opt rest)
  show ?case
  proof (cases "is_common opt")
    case False
    then have "section_base opt \<noteq> ''common''" by (simp add: is_common_def)
    with "2.IH"(3) False show ?thesis by simp
  next
    case True
    then have base: "section_base opt = ''common''" by (simp add: is_common_def)
    show ?thesis
    proof (cases rest)
      case Nil
      with True base show ?thesis by simp
    next
      case (Cons nxt rest')
      show ?thesis
      proof (cases "is_two_token_pair opt nxt")
        case pair: True
        with "2.IH"(1) [OF base Cons pair] two_token_common [OF pair True] True base Cons
        show ?thesis by simp
      next
        case single: False
        with "2.IH"(2) [OF base Cons single] True base Cons show ?thesis by simp
      qed
    qed
  qed
qed simp

text \<open>Partitioning loses, reorders and leaks nothing: the regular flags are exactly the
  options outside the \<open>common\<close> section, in order and with their gates; the overrides cover
  exactly the \<open>common\<close> ones, in order, each standing for one option or for a bare flag
  followed by its value from the same section and gate.\<close>

theorem partition_complete:
  "snd (partition_expand_all opts) =
     map (\<lambda>opt. (opt_value opt, opt_cond opt)) (filter (\<lambda>opt. \<not> is_common opt) opts) \<and>
   (\<exists>groups. concat groups = filter is_common opts \<and> list_all good_group groups \<and>
      fst (partition_expand_all opts) = map render_group groups)"
  using partition_regular partition_groups by blast

section \<open>Last write wins\<close>

lemma bool_step_write:
  "bool_step name opt s = (case bool_step name opt None of Some b \<Rightarrow> Some b | None \<Rightarrow> s)"
  by (cases "strip_prefix (name @ ''='') (opt_value opt)") (simp_all add: bool_step_def Let_def)

lemma fold_bool_step:
  "fold (bool_step name) opts s =
   (case fold (bool_step name) opts None of Some b \<Rightarrow> Some b | None \<Rightarrow> s)"
proof (induction opts arbitrary: s rule: rev_induct)
  case (snoc opt opts)
  have "fold (bool_step name) (opts @ [opt]) s = bool_step name opt (fold (bool_step name) opts s)"
    for s by simp
  then show ?case
    using bool_step_write [of name opt "fold (bool_step name) opts s"]
      bool_step_write [of name opt "fold (bool_step name) opts None"] snoc [of s]
    by (auto split: option.splits)
qed simp

lemma last_bool_flag_append:
  "last_bool_flag (xs @ ys) name =
   (case last_bool_flag ys name of Some b \<Rightarrow> Some b | None \<Rightarrow> last_bool_flag xs name)"
  unfolding last_bool_flag_def fold_append comp_def by (subst fold_bool_step) simp

lemma flag_value_list_snoc:
  "starts_with ''-'' (opt_value opt) \<Longrightarrow>
   flag_value_list (xs @ [opt]) name = flag_value_list xs name @ flag_value_list [opt] name"
proof (induction xs)
  case (Cons x xs)
  then show ?case by (cases xs) (auto split: option.split)
qed simp

lemma flag_value_list_eq [simp]:
  "opt_value opt = name @ ''='' @ v \<Longrightarrow> flag_value_list [opt] name = [v]"
  using strip_prefix_append [of "name @ ''=''" v] by simp

end
