(* ===== verification/Rc_Lexer.thy ===== *)
theory Rc_Lexer
  imports Cli_Prelude
begin

text \<open>
  The two lexical stages of the \<open>bazelrc\<close> crate: \<open>preprocess::process\<close>
  (crates/bazelrc/src/preprocess.rs), which joins continued lines and strips blanks, and
  \<open>tokenize::tokenize\<close> (crates/bazelrc/src/tokenize.rs), the shell-like tokenizer.
  \<open>quote_token\<close> is the specification's printer: what a user writes to obtain a token.
\<close>

section \<open>Preprocessing\<close>

definition is_line_blank :: "char \<Rightarrow> bool" where
  "is_line_blank c \<longleftrightarrow> c = CHR '' '' \<or> c = CHR 0x09 \<or> c = CHR 0x0D"

definition join_continuations :: "string \<Rightarrow> string" where
  "join_continuations content =
     replace_sub [CHR 0x5C, CHR 0x0A] [] (replace_sub [CHR 0x5C, CHR 0x0D, CHR 0x0A] [] content)"

definition process :: "string \<Rightarrow> string list" where
  "process content =
     filter (\<lambda>line. line \<noteq> [])
       (map (trim_by is_line_blank) (split_on (CHR 0x0A) (join_continuations content)))"

text \<open>A line that preprocessing leaves as it is.\<close>

definition clean_line :: "string \<Rightarrow> bool" where
  "clean_line l \<longleftrightarrow> l \<noteq> [] \<and> \<not> is_line_blank (hd l) \<and> \<not> is_line_blank (last l) \<and>
     CHR 0x0A \<notin> set l"

lemma process_clean: "l \<in> set (process content) \<Longrightarrow> clean_line l"
  unfolding process_def clean_line_def
  using trim_by_ends set_trim_by split_on_no_sep by (fastforce simp: image_iff)

lemma join_continuations_id: "CHR 0x5C \<notin> set s \<Longrightarrow> join_continuations s = s"
  using replace_sub_skip_append [of "[CHR 0x5C, CHR 0x0D, CHR 0x0A]" _ _ s "[]" "[]"]
    replace_sub_skip_append [of "[CHR 0x5C, CHR 0x0A]" _ _ s "[]" "[]"]
  by (simp add: join_continuations_def)

lemma set_join_newline: "set (join sep ws) \<subseteq> set sep \<union> (\<Union>w \<in> set ws. set w)"
  by (induction sep ws rule: join.induct) auto

lemma process_join:
  assumes clean: "\<And>l. l \<in> set ls \<Longrightarrow> clean_line l \<and> CHR 0x5C \<notin> set l"
  shows "process (join [CHR 0x0A] ls) = ls"
proof (cases "ls = []")
  case True
  then show ?thesis by (simp add: process_def join_continuations_id trim_by_def)
next
  case False
  have "CHR 0x5C \<notin> set (join [CHR 0x0A] ls)"
    using clean set_join_newline [of "[CHR 0x0A]" ls] by auto
  then have "split_on (CHR 0x0A) (join_continuations (join [CHR 0x0A] ls)) = ls"
    using clean False by (simp add: join_continuations_id split_on_join clean_line_def)
  moreover have "map (trim_by is_line_blank) ls = ls"
    using clean by (intro map_idI trim_by_id) (auto simp: clean_line_def)
  ultimately show ?thesis
    using clean by (auto simp: process_def clean_line_def intro!: filter_True)
qed

lemma process_continuation:
  assumes "CHR 0x5C \<notin> set a"
  shows "process (a @ [CHR 0x5C, CHR 0x0A] @ b) = process (a @ b)"
proof -
  let ?crlf = "[CHR 0x5C, CHR 0x0D, CHR 0x0A]" and ?lf = "[CHR 0x5C, CHR 0x0A]"
  have "replace_sub ?crlf [] (?lf @ b) = ?lf @ replace_sub ?crlf [] b"
    by (simp add: replace_sub_skip starts_with_def)
  then have "join_continuations (a @ ?lf @ b) = a @ replace_sub ?lf [] (replace_sub ?crlf [] b)"
    using assms replace_sub_match [of ?lf "[]" "replace_sub ?crlf [] b"]
    by (simp add: join_continuations_def replace_sub_skip_append)
  moreover have "join_continuations (a @ b) = a @ replace_sub ?lf [] (replace_sub ?crlf [] b)"
    using assms by (simp add: join_continuations_def replace_sub_skip_append)
  ultimately show ?thesis by (simp add: process_def)
qed

section \<open>The tokenizer\<close>

datatype lex_state = Normal | SingleQuoted | DoubleQuoted

definition tok_end :: "string \<Rightarrow> bool \<Rightarrow> string list \<Rightarrow> string list" where
  "tok_end current in_token tokens =
     (if in_token \<or> current \<noteq> [] then tokens @ [current] else tokens)"

fun tok_loop :: "string \<Rightarrow> lex_state \<Rightarrow> string \<Rightarrow> bool \<Rightarrow> string list \<Rightarrow> string list" where
  "tok_loop [] state current in_token tokens = tok_end current in_token tokens"
| "tok_loop (ch # chars) Normal current in_token tokens =
     (if ch = CHR ''#'' then tok_end current in_token tokens
      else if ch = CHR '' '' \<or> ch = CHR 0x09 then
        (if in_token then tok_loop chars Normal [] False (tokens @ [current])
         else tok_loop chars Normal current in_token tokens)
      else if ch = CHR 0x27 then tok_loop chars SingleQuoted current True tokens
      else if ch = CHR 0x22 then tok_loop chars DoubleQuoted current True tokens
      else if ch = CHR 0x5C then
        (case chars of
           [] \<Rightarrow> tok_end current True tokens
         | nxt # chars' \<Rightarrow> tok_loop chars' Normal (current @ [nxt]) True tokens)
      else tok_loop chars Normal (current @ [ch]) True tokens)"
| "tok_loop (ch # chars) SingleQuoted current in_token tokens =
     (if ch = CHR 0x27 then tok_loop chars Normal current in_token tokens
      else if ch = CHR 0x5C then
        (case chars of
           [] \<Rightarrow> tok_end current in_token tokens
         | nxt # chars' \<Rightarrow> tok_loop chars' SingleQuoted (current @ [nxt]) in_token tokens)
      else tok_loop chars SingleQuoted (current @ [ch]) in_token tokens)"
| "tok_loop (ch # chars) DoubleQuoted current in_token tokens =
     (if ch = CHR 0x22 then tok_loop chars Normal current in_token tokens
      else if ch = CHR 0x5C then
        (case chars of
           [] \<Rightarrow> tok_end current in_token tokens
         | nxt # chars' \<Rightarrow> tok_loop chars' DoubleQuoted (current @ [nxt]) in_token tokens)
      else tok_loop chars DoubleQuoted (current @ [ch]) in_token tokens)"

definition tokenize :: "string \<Rightarrow> string list" where
  "tokenize line = tok_loop line Normal [] False []"

subsection \<open>Printing tokens back\<close>

definition escape_char :: "char \<Rightarrow> string" where
  "escape_char c = (if c = CHR 0x22 \<or> c = CHR 0x5C then [CHR 0x5C, c] else [c])"

definition quote_token :: "string \<Rightarrow> string" where
  "quote_token w = [CHR 0x22] @ concat (map escape_char w) @ [CHR 0x22]"

lemma tok_loop_escaped:
  "tok_loop (concat (map escape_char w) @ rest) DoubleQuoted cur True toks =
   tok_loop rest DoubleQuoted (cur @ w) True toks"
  by (induction w arbitrary: cur) (auto simp: escape_char_def)

lemma tok_loop_quoted:
  "tok_loop (quote_token w @ rest) Normal [] False toks = tok_loop rest Normal w True toks"
  by (simp add: quote_token_def tok_loop_escaped)

lemma tok_loop_quoted_words:
  "tok_loop (join '' '' (map quote_token ws)) Normal [] False toks = toks @ ws"
proof (induction ws arbitrary: toks)
  case (Cons w ws)
  show ?case
  proof (cases "ws = []")
    case True
    then show ?thesis
      using tok_loop_quoted [of w "[]" toks] by (simp add: tok_end_def)
  next
    case False
    then have "join '' '' (map quote_token (w # ws)) =
        quote_token w @ '' '' @ join '' '' (map quote_token ws)"
      by (simp add: join_Cons)
    then show ?thesis
      by (simp only: tok_loop_quoted) (simp add: Cons.IH)
  qed
qed (simp add: tok_end_def)

text \<open>Characters with no meaning to the tokenizer outside quotes.\<close>

definition plain_char :: "char \<Rightarrow> bool" where
  "plain_char c \<longleftrightarrow> c \<notin> {CHR ''#'', CHR '' '', CHR 0x09, CHR 0x27, CHR 0x22, CHR 0x5C}"

lemma tok_loop_plain:
  "(\<And>c. c \<in> set w \<Longrightarrow> plain_char c) \<Longrightarrow> w \<noteq> [] \<Longrightarrow>
   tok_loop (w @ rest) Normal cur it toks = tok_loop rest Normal (cur @ w) True toks"
proof (induction w arbitrary: cur it)
  case (Cons c w)
  then have "plain_char c" by simp
  then have "tok_loop ((c # w) @ rest) Normal cur it toks =
      tok_loop (w @ rest) Normal (cur @ [c]) True toks"
    by (simp add: plain_char_def)
  with Cons show ?case by (cases "w = []") simp_all
qed simp

lemma tok_loop_plain_words:
  "\<forall>w \<in> set ws. w \<noteq> [] \<and> (\<forall>c \<in> set w. plain_char c) \<Longrightarrow>
   tok_loop (join '' '' ws) Normal [] False toks = toks @ ws"
proof (induction ws arbitrary: toks)
  case (Cons w ws)
  then have w: "w \<noteq> []" "\<And>c. c \<in> set w \<Longrightarrow> plain_char c" by auto
  show ?case
  proof (cases "ws = []")
    case True
    then show ?thesis using tok_loop_plain [of w "[]" "[]" False toks] w by (simp add: tok_end_def)
  next
    case False
    have "tok_loop (join '' '' (w # ws)) Normal [] False toks =
        tok_loop ('' '' @ join '' '' ws) Normal w True toks"
      using tok_loop_plain [of w "'' '' @ join '' '' ws" "[]" False toks] w False
      by (simp add: join_Cons)
    then show ?thesis using Cons by simp
  qed
qed (simp add: tok_end_def)

text \<open>A \<open>#\<close> outside quotes ends the line, also in the middle of a token.\<close>

lemma tok_loop_comment:
  assumes "\<And>c. c \<in> set a \<Longrightarrow> c \<notin> {CHR ''#'', CHR 0x27, CHR 0x22, CHR 0x5C}"
  shows "tok_loop (a @ CHR ''#'' # b) Normal cur it toks = tok_loop a Normal cur it toks"
  using assms by (induction a arbitrary: cur it toks) auto

section \<open>Properties\<close>

text \<open>Every argument vector can be written in a bazelrc line: quoting each argument and
  separating them by blanks is read back by \<open>tokenize\<close> as exactly that vector, whatever
  bytes the arguments hold (blanks, quotes, backslashes, \<open>#\<close>, or nothing at all).\<close>

theorem tokenize_quoted: "tokenize (join '' '' (map quote_token ws)) = ws"
  by (simp add: tokenize_def tok_loop_quoted_words)

text \<open>\<open>process\<close> is the inverse of joining lines: lines that hold no newline and no
  backslash, are not empty and neither start nor end with a blank come back unchanged, in
  order, with none dropped or added.\<close>

theorem process_roundtrip:
  assumes "\<forall>l \<in> set ls. clean_line l \<and> CHR 0x5C \<notin> set l"
  shows "process (join [CHR 0x0A] ls) = ls"
  using assms by (simp add: process_join)

theorem process_roundtrip_witness:
  "process (join [CHR 0x0A] [''build --jobs=4'', ''import x'']) = [''build --jobs=4'', ''import x'']"
  by (rule process_roundtrip) (simp add: clean_line_def is_line_blank_def)

text \<open>A backslash before a line break continues the line: the two bytes vanish and the
  halves are processed as one line.\<close>

theorem process_joins_continuation:
  assumes "CHR 0x5C \<notin> set a"
  shows "process (a @ [CHR 0x5C, CHR 0x0A] @ b) = process (a @ b)"
  using assms by (rule process_continuation)

theorem process_joins_continuation_witness:
  "process (''build '' @ [CHR 0x5C, CHR 0x0A] @ ''--jobs=4'') = process (''build '' @ ''--jobs=4'')"
  by (rule process_joins_continuation) simp

end
