(* ===== verification/Rc_Parse.thy ===== *)
theory Rc_Parse
  imports Rc_Lexer Rc_Store
begin

text \<open>
  Loading run commands from disk: \<open>discover::discover_rc_files\<close>
  (crates/bazelrc/src/discover.rs), \<open>parse::parse_file\<close> (crates/bazelrc/src/parse.rs) and
  \<open>BazelRC::new\<close> (crates/bazelrc/src/lib.rs), on a Unix host.

  The operating system is the record \<open>host\<close>: environment variables, \<open>Path::exists\<close>,
  \<open>Path::canonicalize\<close> (\<open>Inl\<close> the error text) and the finite table of the files that can be
  read as UTF-8 text, keyed by canonical path (\<open>host_read_error\<close> is the error text of any
  other read). \<open>parse_file\<close> and the loop over its lines are mutually recursive; they end
  because every nested file is readable and not yet on the import stack, and there are
  finitely many readable files. \<open>import_stack.push\<close>/\<open>pop\<close> around the loop is the extension
  of the \<open>stack\<close> argument; on an error the code returns without popping, and no caller reads
  the stack after an error.
\<close>

section \<open>The host\<close>

record host =
  host_env :: "string \<Rightarrow> string option"
  host_exists :: "string \<Rightarrow> bool"
  host_canon :: "string \<Rightarrow> string + string"
  host_files :: "(string \<times> string) list"
  host_read_error :: "string \<Rightarrow> string"
  host_os :: string

definition read_to_string :: "host \<Rightarrow> string \<Rightarrow> string + string" where
  "read_to_string h p =
     (case map_of (host_files h) p of None \<Rightarrow> Inl (host_read_error h p) | Some c \<Rightarrow> Inr c)"

section \<open>Discovery\<close>

record startup_scan =
  no_system_rc :: bool
  no_workspace_rc :: bool
  no_home_rc :: bool
  ignore_all_rc :: bool
  explicit_bazelrcs :: "string list"

definition scan_flag :: "string \<Rightarrow> startup_scan \<Rightarrow> startup_scan" where
  "scan_flag s sc =
     (if s = ''--nosystem_rc'' then sc\<lparr>no_system_rc := True\<rparr>
      else if s = ''--noworkspace_rc'' then sc\<lparr>no_workspace_rc := True\<rparr>
      else if s = ''--nohome_rc'' then sc\<lparr>no_home_rc := True\<rparr>
      else if s = ''--ignore_all_rc_files'' then sc\<lparr>ignore_all_rc := True\<rparr>
      else (case strip_prefix ''--bazelrc='' s of
              Some path \<Rightarrow> sc\<lparr>explicit_bazelrcs := explicit_bazelrcs sc @ [path]\<rparr>
            | None \<Rightarrow> sc))"

definition scan_startup :: "string list \<Rightarrow> startup_scan" where
  "scan_startup flags =
     fold scan_flag flags
       \<lparr>no_system_rc = False, no_workspace_rc = False, no_home_rc = False,
        ignore_all_rc = False, explicit_bazelrcs = []\<rparr>"

definition system_rc_path :: string where
  "system_rc_path = ''/etc/bazel.bazelrc''"

definition home_rc_path :: "host \<Rightarrow> string option" where
  "home_rc_path h = map_option (\<lambda>home. path_join home ''.bazelrc'') (host_env h ''HOME'')"

fun require_existing :: "host \<Rightarrow> string list \<Rightarrow> rc_error + string list" where
  "require_existing h [] = Inr []"
| "require_existing h (p # ps) =
     (if \<not> host_exists h p then Inl (BazelrcNotFound p)
      else (case require_existing h ps of Inl e \<Rightarrow> Inl e | Inr qs \<Rightarrow> Inr (p # qs)))"

definition bazelrc_env_paths :: "host \<Rightarrow> string list" where
  "bazelrc_env_paths h =
     (case host_env h ''BAZELRC'' of
        None \<Rightarrow> []
      | Some v \<Rightarrow> filter (\<lambda>p. p \<noteq> []) (map trim (split_on (CHR '','') v)))"

fun dedup_canonical :: "host \<Rightarrow> string list \<Rightarrow> string list \<Rightarrow> string list" where
  "dedup_canonical h seen [] = []"
| "dedup_canonical h seen (p # ps) =
     (let canonical = (case host_canon h p of Inl _ \<Rightarrow> p | Inr c \<Rightarrow> c)
      in if list_ex (path_eq canonical) seen then dedup_canonical h seen ps
         else canonical # dedup_canonical h (canonical # seen) ps)"

definition default_candidates :: "host \<Rightarrow> string \<Rightarrow> startup_scan \<Rightarrow> string list" where
  "default_candidates h root sc =
     (if \<not> no_system_rc sc \<and> host_exists h system_rc_path then [system_rc_path] else []) @
     (if \<not> no_workspace_rc sc \<and> host_exists h (path_join root ''.bazelrc'')
      then [path_join root ''.bazelrc''] else []) @
     (if no_home_rc sc then []
      else case home_rc_path h of
             None \<Rightarrow> []
           | Some p \<Rightarrow> if host_exists h p then [p] else [])"

definition discover_rc_files :: "host \<Rightarrow> string \<Rightarrow> string list \<Rightarrow> rc_error + string list" where
  "discover_rc_files h root startup =
     (let sc = scan_startup startup
      in if ignore_all_rc sc then Inr (dedup_canonical h [] [])
         else case require_existing h (bazelrc_env_paths h) of
                Inl e \<Rightarrow> Inl e
              | Inr from_env \<Rightarrow>
                  (case require_existing h (explicit_bazelrcs sc) of
                     Inl e \<Rightarrow> Inl e
                   | Inr explicit \<Rightarrow>
                       Inr (dedup_canonical h []
                         (default_candidates h root sc @ from_env @ explicit))))"

section \<open>Parsing a file\<close>

definition resolve_import_path :: "string \<Rightarrow> string \<Rightarrow> string" where
  "resolve_import_path raw root =
     (case strip_prefix ''%workspace%/'' raw of Some rest \<Rightarrow> path_join root rest | None \<Rightarrow> raw)"

text \<open>The \<open>match\<close> on the first token, with the argument count checks. The last two arms of
  the code have the same body.\<close>

datatype directive =
    Blank
  | Import string
  | TryImport string
  | TryImportIf string string
  | BadImport
  | Section string "string list"

definition read_directive :: "string list \<Rightarrow> directive" where
  "read_directive tokens =
     (case tokens of
        [] \<Rightarrow> Blank
      | d # args \<Rightarrow>
          if d = ''import'' then (case args of [p] \<Rightarrow> Import p | _ \<Rightarrow> BadImport)
          else if d = ''try-import'' then (case args of [p] \<Rightarrow> TryImport p | _ \<Rightarrow> BadImport)
          else if d = ''try-import-if-bazel-version'' then
            (case args of [c, p] \<Rightarrow> TryImportIf c p | _ \<Rightarrow> BadImport)
          else Section d args)"

record parse_state =
  ps_sources :: "string list"
  ps_options :: sections

definition rc_opt :: "string \<Rightarrow> nat \<Rightarrow> string option \<Rightarrow> string \<Rightarrow> rc_option" where
  "rc_opt key idx cond v =
     \<lparr>opt_value = v, opt_command = key, opt_source = idx, opt_cond = cond\<rparr>"

definition unvisited :: "host \<Rightarrow> string list \<Rightarrow> nat" where
  "unvisited h stack = card (fst ` set (host_files h) - set stack)"

lemma unvisited_push:
  assumes "\<not> list_ex (path_eq c) stack" and "read_to_string h c = Inr content"
  shows "unvisited h (stack @ [c]) < unvisited h stack"
proof -
  have "c \<in> fst ` set (host_files h)"
    using assms(2)
    by (auto simp: read_to_string_def split: option.splits dest!: map_of_SomeD intro: rev_image_eqI)
  moreover have "c \<notin> set stack"
    using assms(1) path_eq_refl by (auto simp: list_ex_iff)
  ultimately show ?thesis
    unfolding unvisited_def by (intro psubset_card_mono) auto
qed

function parse_file ::
  "host \<Rightarrow> string \<Rightarrow> string option \<Rightarrow> string list \<Rightarrow> string \<Rightarrow> parse_state \<Rightarrow>
   rc_error + parse_state"
and parse_lines ::
  "host \<Rightarrow> string \<Rightarrow> string option \<Rightarrow> string list \<Rightarrow> nat \<Rightarrow> string list \<Rightarrow> parse_state \<Rightarrow>
   rc_error + parse_state" where
  "parse_file h root cond stack path st =
     (case host_canon h path of
        Inl e \<Rightarrow> Inl (Io path e)
      | Inr canonical \<Rightarrow>
          if list_ex (path_eq canonical) stack then Inl (ImportCycle (stack @ [canonical]))
          else (case read_to_string h canonical of
                  Inl e \<Rightarrow> Inl (Io canonical e)
                | Inr content \<Rightarrow>
                    parse_lines h root cond (stack @ [canonical]) (length (ps_sources st))
                      (process content) (st\<lparr>ps_sources := ps_sources st @ [canonical]\<rparr>)))"
| "parse_lines h root cond stack idx [] st = Inr st"
| "parse_lines h root cond stack idx (line # lines) st =
     (case read_directive (tokenize line) of
        Blank \<Rightarrow> parse_lines h root cond stack idx lines st
      | BadImport \<Rightarrow> Inl (InvalidImportArgs line)
      | Import raw \<Rightarrow>
          if \<not> host_exists h (resolve_import_path raw root)
          then Inl (ImportNotFound (resolve_import_path raw root))
          else (case parse_file h root cond stack (resolve_import_path raw root) st of
                  Inl e \<Rightarrow> Inl e
                | Inr st' \<Rightarrow> parse_lines h root cond stack idx lines st')
      | TryImport raw \<Rightarrow>
          if host_exists h (resolve_import_path raw root)
          then (case parse_file h root cond stack (resolve_import_path raw root) st of
                  Inl e \<Rightarrow> Inl e
                | Inr st' \<Rightarrow> parse_lines h root cond stack idx lines st')
          else parse_lines h root cond stack idx lines st
      | TryImportIf c raw \<Rightarrow>
          if host_exists h (resolve_import_path raw root)
          then (case parse_file h root (Some c) stack (resolve_import_path raw root) st of
                  Inl e \<Rightarrow> Inl e
                | Inr st' \<Rightarrow> parse_lines h root cond stack idx lines st')
          else parse_lines h root cond stack idx lines st
      | Section key vals \<Rightarrow>
          parse_lines h root cond stack idx lines
            (st\<lparr>ps_options :=
                  bucket_extend key (map (rc_opt key idx cond) vals) (ps_options st)\<rparr>))"
  by pat_completeness auto

termination
  by (relation "measures
      [\<lambda>x. case x of Inl (h, root, cond, stack, path, st) \<Rightarrow> unvisited h stack
         | Inr (h, root, cond, stack, idx, lines, st) \<Rightarrow> unvisited h stack,
       \<lambda>x. case x of Inl _ \<Rightarrow> 0
         | Inr (h, root, cond, stack, idx, lines, st) \<Rightarrow> length lines]")
    (auto dest: unvisited_push)

declare parse_file.simps [simp del]

section \<open>\<open>BazelRC::new\<close>\<close>

fun parse_all :: "host \<Rightarrow> string \<Rightarrow> string list \<Rightarrow> parse_state \<Rightarrow> rc_error + parse_state" where
  "parse_all h root [] st = Inr st"
| "parse_all h root (p # ps) st =
     (case parse_file h root None [] p st of
        Inl e \<Rightarrow> Inl e
      | Inr st' \<Rightarrow> parse_all h root ps st')"

definition rc_new ::
  "host \<Rightarrow> string \<Rightarrow> string list \<Rightarrow> rc_option list \<Rightarrow> rc_error + 'v bazel_rc" where
  "rc_new h root startup flags =
     (case discover_rc_files h root startup of
        Inl e \<Rightarrow> Inl e
      | Inr rc_files \<Rightarrow>
          (case parse_all h root rc_files \<lparr>ps_sources = [], ps_options = []\<rparr> of
             Inl e \<Rightarrow> Inl e
           | Inr st \<Rightarrow>
               let cli = length (ps_sources st);
                   st' = (if flags = [] then st
                          else st\<lparr>ps_sources := ps_sources st @ [command_line],
                                 ps_options := bucket_extend ''always''
                                   (map (cli_option cli) flags) (ps_options st)\<rparr>)
               in Inr \<lparr>rc_options = ps_options st', rc_sources = ps_sources st',
                       rc_skip = [], rc_startup = startup, rc_version = None\<rparr>))"

section \<open>What parsing does to the state\<close>

text \<open>
  Under a gate (\<open>cond\<close> is not \<open>None\<close>) only gated options are added; sources and sections
  only grow; the invariant of the store is kept.
\<close>

definition gated_if :: "string option \<Rightarrow> rc_option list \<Rightarrow> bool" where
  "gated_if cond new \<longleftrightarrow> (cond \<noteq> None \<longrightarrow> (\<forall>opt \<in> set new. opt_cond opt \<noteq> None))"

definition state_wf :: "parse_state \<Rightarrow> bool" where
  "state_wf st \<longleftrightarrow> sections_wf (length (ps_sources st)) (ps_options st)"

definition extends :: "string option \<Rightarrow> parse_state \<Rightarrow> parse_state \<Rightarrow> bool" where
  "extends cond st st' \<longleftrightarrow>
     (\<exists>more. ps_sources st' = ps_sources st @ more) \<and>
     (\<forall>k. \<exists>new. bucket_get (ps_options st') k = bucket_get (ps_options st) k @ new \<and>
        gated_if cond new) \<and>
     (state_wf st \<longrightarrow> state_wf st')"

lemma extends_refl [simp]: "extends cond st st"
  by (auto simp: extends_def gated_if_def)

lemma extends_trans: "extends cond a b \<Longrightarrow> extends cond b c \<Longrightarrow> extends cond a c"
proof -
  assume ab: "extends cond a b" and bc: "extends cond b c"
  have "\<exists>new. bucket_get (ps_options c) k = bucket_get (ps_options a) k @ new \<and> gated_if cond new" for k
  proof -
    from ab obtain n where "bucket_get (ps_options b) k = bucket_get (ps_options a) k @ n"
      "gated_if cond n" by (auto simp: extends_def)
    moreover from bc obtain m where "bucket_get (ps_options c) k = bucket_get (ps_options b) k @ m"
      "gated_if cond m" by (auto simp: extends_def)
    ultimately show ?thesis by (intro exI [of _ "n @ m"]) (auto simp: gated_if_def)
  qed
  with ab bc show ?thesis unfolding extends_def by force
qed

lemma extends_gate: "extends (Some c) a b \<Longrightarrow> extends cond a b"
  unfolding extends_def gated_if_def by fastforce

lemma extends_idx: "extends cond a b \<Longrightarrow> idx < length (ps_sources a) \<Longrightarrow> idx < length (ps_sources b)"
  by (auto simp: extends_def)

lemma extends_source: "extends cond st (st\<lparr>ps_sources := ps_sources st @ [c]\<rparr>)"
  by (auto simp: extends_def gated_if_def state_wf_def intro: sections_wf_mono)

lemma extends_section:
  "idx < length (ps_sources st) \<Longrightarrow>
   extends cond st (st\<lparr>ps_options := bucket_extend key (map (rc_opt key idx cond) vs) (ps_options st)\<rparr>)"
  by (auto simp: extends_def gated_if_def state_wf_def bucket_get_extend rc_opt_def option_ok_def
      intro!: sections_wf_extend)

section \<open>A declarative reading of the parser\<close>

text \<open>
  \<open>file_loads\<close> and \<open>lines_load\<close> say, without the order of the error checks, what a load
  that succeeds has done. The three import directives differ only in the gate they pass on
  and in whether a missing target is an error.
\<close>

definition nested_import ::
  "host \<Rightarrow> string \<Rightarrow> string option \<Rightarrow> directive \<Rightarrow> (string option \<times> string) option" where
  "nested_import h root cond d =
     (case d of
        Import raw \<Rightarrow> Some (cond, resolve_import_path raw root)
      | TryImport raw \<Rightarrow>
          if host_exists h (resolve_import_path raw root)
          then Some (cond, resolve_import_path raw root) else None
      | TryImportIf c raw \<Rightarrow>
          if host_exists h (resolve_import_path raw root)
          then Some (Some c, resolve_import_path raw root) else None
      | _ \<Rightarrow> None)"

inductive file_loads ::
    "host \<Rightarrow> string \<Rightarrow> string option \<Rightarrow> string list \<Rightarrow> string \<Rightarrow> parse_state \<Rightarrow> parse_state \<Rightarrow> bool"
  and lines_load ::
    "host \<Rightarrow> string \<Rightarrow> string option \<Rightarrow> string list \<Rightarrow> nat \<Rightarrow> string list \<Rightarrow> parse_state \<Rightarrow>
     parse_state \<Rightarrow> bool"
  for h :: host and root :: string where
  load_file:
    "host_canon h path = Inr c \<Longrightarrow> \<not> list_ex (path_eq c) stack \<Longrightarrow>
     read_to_string h c = Inr content \<Longrightarrow>
     lines_load h root cond (stack @ [c]) (length (ps_sources st)) (process content)
       (st\<lparr>ps_sources := ps_sources st @ [c]\<rparr>) st' \<Longrightarrow>
     file_loads h root cond stack path st st'"
| load_done: "lines_load h root cond stack idx [] st st"
| load_import:
    "nested_import h root cond (read_directive (tokenize line)) = Some (cond', path) \<Longrightarrow>
     host_exists h path \<Longrightarrow> file_loads h root cond' stack path st st1 \<Longrightarrow>
     lines_load h root cond stack idx lines st1 st' \<Longrightarrow>
     lines_load h root cond stack idx (line # lines) st st'"
| load_skip:
    "read_directive (tokenize line) = Blank \<or>
     (\<exists>raw. read_directive (tokenize line) = TryImport raw \<and>
        \<not> host_exists h (resolve_import_path raw root)) \<or>
     (\<exists>c raw. read_directive (tokenize line) = TryImportIf c raw \<and>
        \<not> host_exists h (resolve_import_path raw root)) \<Longrightarrow>
     lines_load h root cond stack idx lines st st' \<Longrightarrow>
     lines_load h root cond stack idx (line # lines) st st'"
| load_section:
    "read_directive (tokenize line) = Section key vals \<Longrightarrow>
     lines_load h root cond stack idx lines
       (st\<lparr>ps_options := bucket_extend key (map (rc_opt key idx cond) vals) (ps_options st)\<rparr>)
       st' \<Longrightarrow>
     lines_load h root cond stack idx (line # lines) st st'"

lemma parse_sound:
  shows parse_file_sound:
      "parse_file h root cond stack path st = Inr st' \<Longrightarrow> file_loads h root cond stack path st st'"
    and parse_lines_sound:
      "parse_lines h root cond stack idx lines st = Inr st' \<Longrightarrow>
       lines_load h root cond stack idx lines st st'"
proof (induction h root cond stack path st and h root cond stack idx lines st
    arbitrary: st' and st' rule: parse_file_parse_lines.induct)
  case (1 h root cond stack path st)
  then show ?case
    by (auto simp: parse_file.simps intro: load_file split: sum.splits if_splits)
next
  case (2 h root cond stack idx st)
  then show ?case by (simp add: load_done)
next
  case (3 h root cond stack idx line lines st)
  show ?case
  proof (cases "read_directive (tokenize line)")
    case (Import raw)
    with 3 show ?thesis
      by (auto simp: nested_import_def intro!: load_import split: if_splits sum.splits)
  next
    case (TryImport raw)
    show ?thesis
    proof (cases "host_exists h (resolve_import_path raw root)")
      case True
      with 3 TryImport show ?thesis
        by (auto simp: nested_import_def intro!: load_import split: sum.splits)
    qed (use 3 TryImport in \<open>simp add: load_skip\<close>)
  next
    case (TryImportIf c raw)
    show ?thesis
    proof (cases "host_exists h (resolve_import_path raw root)")
      case True
      with 3 TryImportIf show ?thesis
        by (auto simp: nested_import_def intro!: load_import split: sum.splits)
    qed (use 3 TryImportIf in \<open>simp add: load_skip\<close>)
  next
    case (Section key vals)
    with 3 show ?thesis by (auto intro: load_section)
  qed (use 3 in \<open>simp_all add: load_skip\<close>)
qed

lemma loads_complete:
  shows "file_loads h root cond stack path st st' \<Longrightarrow> parse_file h root cond stack path st = Inr st'"
    and "lines_load h root cond stack idx lines st st' \<Longrightarrow>
      parse_lines h root cond stack idx lines st = Inr st'"
proof (induction rule: file_loads_lines_load.inducts)
  case (load_import cond line cond' path stack st st1 idx lines st')
  then show ?case
    by (auto simp: nested_import_def split: directive.splits if_splits)
qed (auto simp: parse_file.simps)

lemma loads_extend:
  shows file_loads_extends: "file_loads h root cond stack path st st' \<Longrightarrow> extends cond st st'"
    and lines_load_extends: "lines_load h root cond stack idx lines st st' \<Longrightarrow>
      idx < length (ps_sources st) \<Longrightarrow> extends cond st st'"
proof (induction rule: file_loads_lines_load.inducts)
  case (load_file path c stack content cond st st')
  then show ?case by (auto intro: extends_trans [OF extends_source])
next
  case (load_import cond line cond' path stack st st1 idx lines st')
  then have "extends cond st st1"
    by (auto simp: nested_import_def intro: extends_gate split: directive.splits if_splits)
  with load_import show ?case by (meson extends_trans extends_idx)
next
  case (load_section line key vals cond stack idx lines st st')
  then show ?case by (auto intro: extends_trans [OF extends_section])
qed simp_all

section \<open>Import cycles\<close>

text \<open>The canonical files that a file's lines import directly.\<close>

definition imports_of :: "host \<Rightarrow> string \<Rightarrow> string \<Rightarrow> string list" where
  "imports_of h root content =
     concat (map (\<lambda>line. case nested_import h root None (read_directive (tokenize line)) of
         None \<Rightarrow> []
       | Some (cond, p) \<Rightarrow> (case host_canon h p of Inl _ \<Rightarrow> [] | Inr c \<Rightarrow> [c]))
       (process content))"

text \<open>A rank that every import decreases, read off the components of a canonical path: the
  import graph has no cycle.\<close>

definition acyclic_imports :: "host \<Rightarrow> string \<Rightarrow> (path_component list \<Rightarrow> nat) \<Rightarrow> bool" where
  "acyclic_imports h root rank \<longleftrightarrow>
     (\<forall>(c, content) \<in> set (host_files h). \<forall>d \<in> set (imports_of h root content).
        rank (path_components d) < rank (path_components c))"

definition below :: "(path_component list \<Rightarrow> nat) \<Rightarrow> string list \<Rightarrow> string \<Rightarrow> bool" where
  "below rank stack c \<longleftrightarrow> (\<forall>d \<in> set stack. rank (path_components c) < rank (path_components d))"

lemma below_fresh: "below rank stack c \<Longrightarrow> \<not> list_ex (path_eq c) stack"
  by (auto simp: below_def list_ex_iff path_eq_def)

definition line_import :: "host \<Rightarrow> string \<Rightarrow> string \<Rightarrow> string option" where
  "line_import h root line = map_option snd (nested_import h root None (read_directive (tokenize line)))"

lemma parse_no_cycle:
  assumes acyc: "acyclic_imports h root rank"
  shows "(\<And>c. host_canon h path = Inr c \<Longrightarrow> below rank stack c) \<Longrightarrow>
      parse_file h root cond stack path st \<noteq> Inl (ImportCycle chain)"
    and "(\<And>line p c. line \<in> set lines \<Longrightarrow> line_import h root line = Some p \<Longrightarrow>
        host_canon h p = Inr c \<Longrightarrow> below rank stack c) \<Longrightarrow>
      parse_lines h root cond stack idx lines st \<noteq> Inl (ImportCycle chain)"
  using acyc
proof (induction h root cond stack path st and h root cond stack idx lines st
    rule: parse_file_parse_lines.induct)
  case (1 h root cond stack path st)
  show ?case
  proof (cases "host_canon h path")
    case (Inr c)
    then have b: "below rank stack c" by (rule "1.prems")
    show ?thesis
    proof (cases "read_to_string h c")
      case (Inr content)
      have mem: "(c, content) \<in> set (host_files h)"
        using Inr by (auto simp: read_to_string_def split: option.splits dest: map_of_SomeD)
      have "below rank (stack @ [c]) d"
        if "line \<in> set (process content)" "line_import h root line = Some p" "host_canon h p = Inr d"
        for line p d
      proof -
        have "d \<in> set (imports_of h root content)"
          using that by (auto simp: imports_of_def line_import_def intro!: bexI [of _ line])
        then have "rank (path_components d) < rank (path_components c)"
          using mem "1.prems"(2) by (auto simp: acyclic_imports_def)
        with b show ?thesis by (auto simp: below_def)
      qed
      with "1.IH" [OF \<open>host_canon h path = Inr c\<close> below_fresh [OF b] Inr] "1.prems"(2)
      show ?thesis
        using \<open>host_canon h path = Inr c\<close> Inr below_fresh [OF b] by (simp add: parse_file.simps)
    qed (use Inr below_fresh [OF b] in \<open>simp add: parse_file.simps\<close>)
  qed (simp add: parse_file.simps)
next
  case (3 h root cond stack idx line lines st)
  have here: "line_import h root line = Some p \<Longrightarrow> host_canon h p = Inr c \<Longrightarrow> below rank stack c" for p c
    using "3.prems"(1) [of line p c] by simp
  have rest: "line' \<in> set lines \<Longrightarrow> line_import h root line' = Some p \<Longrightarrow> host_canon h p = Inr c \<Longrightarrow>
      below rank stack c" for line' p c
    using "3.prems"(1) [of line' p c] by simp
  show ?case
    using "3.IH" "3.prems"(2) here rest
    by (auto simp: line_import_def nested_import_def split: directive.splits sum.splits if_splits)
qed simp

lemma parse_all_no_cycle:
  "acyclic_imports h root rank \<Longrightarrow> parse_all h root ps st \<noteq> Inl (ImportCycle chain)"
proof (induction ps arbitrary: st)
  case (Cons p ps)
  then have "parse_file h root None [] p st \<noteq> Inl (ImportCycle chain)"
    by (intro parse_no_cycle(1) [where rank = rank]) (auto simp: below_def)
  with Cons show ?case by (auto split: sum.splits)
qed simp

lemma require_existing_error: "require_existing h ps = Inl e \<Longrightarrow> \<exists>p \<in> set ps. e = BazelrcNotFound p"
  by (induction ps) (auto split: if_splits sum.splits)

lemma discover_error: "discover_rc_files h root startup = Inl e \<Longrightarrow> \<exists>p. e = BazelrcNotFound p"
  by (auto simp: discover_rc_files_def Let_def dest: require_existing_error
      split: if_splits sum.splits)

lemma parse_all_wf: "parse_all h root ps st = Inr st' \<Longrightarrow> state_wf st \<Longrightarrow> state_wf st'"
proof (induction ps arbitrary: st)
  case (Cons p ps)
  from Cons.prems(1) obtain st1 where st1: "parse_file h root None [] p st = Inr st1"
    "parse_all h root ps st1 = Inr st'"
    by (auto split: sum.splits)
  have "extends None st st1"
    using st1(1) by (intro file_loads_extends parse_file_sound)
  with Cons st1 show ?case by (auto simp: extends_def)
qed simp

section \<open>Properties\<close>

text \<open>C1. The recursive parser computes exactly the declarative semantics of bazelrc files: it
  returns a state if and only if a load that inlines imports at their position, passes the
  gate of \<open>try-import-if-bazel-version\<close> on and never re-enters a file on the import chain
  leads to that state. (The parser is a total function: every load ends.)\<close>

theorem parse_file_iff_loads:
  "parse_file h root cond stack path st = Inr st' \<longleftrightarrow> file_loads h root cond stack path st st'"
  by (blast intro: parse_file_sound loads_complete(1))

text \<open>Loading never produces a malformed run command: when \<open>BazelRC::new\<close> succeeds, every
  option sits in its own section and points at the file (or the command line) it came
  from, through any nesting of imports.\<close>

theorem rc_new_wf:
  assumes "rc_new h root startup flags = Inr rc"
  shows "rc_wf rc \<and> rc_startup rc = startup"
proof -
  from assms obtain files st where
    "parse_all h root files \<lparr>ps_sources = [], ps_options = []\<rparr> = Inr st" and
    rc: "rc = (let st' = (if flags = [] then st
          else st\<lparr>ps_sources := ps_sources st @ [command_line],
                 ps_options := bucket_extend ''always''
                   (map (cli_option (length (ps_sources st))) flags) (ps_options st)\<rparr>)
        in \<lparr>rc_options = ps_options st', rc_sources = ps_sources st', rc_skip = [],
            rc_startup = startup, rc_version = None\<rparr>)"
    by (auto simp: rc_new_def Let_def split: sum.splits)
  then have "state_wf st" by (auto dest: parse_all_wf simp: state_wf_def)
  then show ?thesis
    by (auto simp: rc rc_wf_def state_wf_def option_ok_def cli_option_def Let_def
        intro!: sections_wf_extend intro: sections_wf_mono)
qed

definition no_files :: host where
  "no_files = \<lparr>host_env = (\<lambda>_. None), host_exists = (\<lambda>_. False), host_canon = Inl,
     host_files = [], host_read_error = (\<lambda>_. []), host_os = ''linux''\<rparr>"

theorem rc_new_wf_witness:
  "\<exists>rc :: nat bazel_rc. rc_new no_files ''/w'' [''--nohome_rc''] [flag_option ''--jobs=4''] = Inr rc \<and>
     rc_wf rc"
proof -
  obtain rc :: "nat bazel_rc" where
    "rc_new no_files ''/w'' [''--nohome_rc''] [flag_option ''--jobs=4''] = Inr rc"
    by (simp add: rc_new_def discover_rc_files_def scan_startup_def scan_flag_def no_files_def
        bazelrc_env_paths_def default_candidates_def Let_def)
  with rc_new_wf [OF this] show ?thesis by blast
qed

text \<open>A gate covers everything below it: every option that a file imported under
  \<open>try-import-if-bazel-version\<close> adds, directly or through further imports, carries a version
  condition; and what was there before stays in front, unchanged.\<close>

theorem gated_import_adds_only_gated:
  assumes "parse_file h root (Some c) stack path st = Inr st'"
  shows "\<exists>new. bucket_get (ps_options st') k = bucket_get (ps_options st) k @ new \<and>
    (\<forall>opt \<in> set new. opt_cond opt \<noteq> None)"
  using file_loads_extends [OF parse_file_sound [OF assms]] by (auto simp: extends_def gated_if_def)

definition file_host :: "(string \<times> string) list \<Rightarrow> host" where
  "file_host files = \<lparr>host_env = (\<lambda>_. None), host_exists = (\<lambda>p. p \<in> fst ` set files),
     host_canon = Inr, host_files = files, host_read_error = (\<lambda>_. ''missing''),
     host_os = ''linux''\<rparr>"

lemmas parse_eval = parse_file.simps process_def join_continuations_def replace_sub.simps
  tokenize_def tok_end_def read_directive_def resolve_import_path_def file_host_def
  read_to_string_def trim_by_def is_line_blank_def rc_opt_def bucket_get_def

theorem gated_import_adds_only_gated_witness:
  "parse_file (file_host [(''/b'', ''build --x'')]) ''/'' (Some ''>=8'') [] ''/b''
     \<lparr>ps_sources = [], ps_options = []\<rparr> =
   Inr \<lparr>ps_sources = [''/b''], ps_options = [(''build'', [rc_opt ''build'' 0 (Some ''>=8'') ''--x''])]\<rparr> \<and>
   opt_cond (rc_opt ''build'' 0 (Some ''>=8'') ''--x'') \<noteq> None"
proof -
  have p: "parse_file (file_host [(''/b'', ''build --x'')]) ''/'' (Some ''>=8'') [] ''/b''
     \<lparr>ps_sources = [], ps_options = []\<rparr> =
   Inr \<lparr>ps_sources = [''/b''], ps_options = [(''build'', [rc_opt ''build'' 0 (Some ''>=8'') ''--x''])]\<rparr>"
    by (simp add: parse_eval)
  with gated_import_adds_only_gated [OF this, of "''build''"] show ?thesis
    by (auto simp: bucket_get_def)
qed

text \<open>Cycle detection has no false positives: when the import graph of the readable files
  is acyclic (every import decreases some rank), loading never reports an import cycle, so
  diamond imports are accepted.\<close>

theorem acyclic_never_cycle_error:
  assumes "acyclic_imports h root rank"
  shows "rc_new h root startup flags \<noteq> (Inl (ImportCycle chain) :: rc_error + 'v bazel_rc)"
  using parse_all_no_cycle [OF assms]
  by (auto simp: rc_new_def Let_def dest: discover_error split: sum.splits if_splits)

theorem acyclic_never_cycle_error_witness:
  "acyclic_imports (file_host [(''/a'', ''import /b''), (''/b'', ''build --x'')]) ''/''
     (\<lambda>p. if p = path_components ''/a'' then 1 else 0) \<and>
   rc_new (file_host [(''/a'', ''import /b''), (''/b'', ''build --x'')]) ''/'' [] [] \<noteq>
     (Inl (ImportCycle [''/a'']) :: rc_error + nat bazel_rc)"
proof -
  have "acyclic_imports (file_host [(''/a'', ''import /b''), (''/b'', ''build --x'')]) ''/''
     (\<lambda>p. if p = path_components ''/a'' then 1 else 0)"
    by (simp add: acyclic_imports_def imports_of_def nested_import_def parse_eval
        path_components_def starts_with_def)
  then show ?thesis using acyclic_never_cycle_error by blast
qed

definition nested_gates :: host where
  "nested_gates = file_host
     [(''/a'', ''try-import-if-bazel-version >=8 /b''),
      (''/b'', ''try-import-if-bazel-version <9 /c''),
      (''/c'', ''build --x'')]"

text \<open>A nested gate forgets the enclosing one: \<open>/a\<close> imports \<open>/b\<close> only for Bazel 8 and
  later, \<open>/b\<close> imports \<open>/c\<close> only before 9, and the option of \<open>/c\<close> ends up gated by the
  inner condition alone, so it also applies to versions before 8, for which \<open>/b\<close> would not
  have been imported.\<close>

theorem nested_gate_drops_outer_condition:
  "parse_file nested_gates ''/'' None [] ''/a'' \<lparr>ps_sources = [], ps_options = []\<rparr> =
   Inr \<lparr>ps_sources = [''/a'', ''/b'', ''/c''],
        ps_options = [(''build'', [rc_opt ''build'' 2 (Some ''<9'') ''--x''])]\<rparr>"
  by (simp add: nested_gates_def parse_eval path_eq_def path_components_def starts_with_def)

end
