(* ===== verification/Rc_Announce.thy ===== *)
theory Rc_Announce
  imports Rc_Store
begin

text \<open>
  \<open>BazelRC::announce\<close> (crates/bazelrc/src/lib.rs): the text a run command is announced with.
  The closures of the function are definitions here, with what they capture as arguments;
  \<open>redact\<close> is the caller's scrubbing function. \<open>str\<close>'s order is the order on bytes.
\<close>

section \<open>Styling and paths\<close>

record announce_style =
  style_bold :: string
  style_dim :: string
  style_yellow :: string
  style_reset :: string

definition announce_style :: "bool \<Rightarrow> announce_style" where
  "announce_style ansi =
     (if ansi
      then \<lparr>style_bold = CHR 0x1B # ''[1m'', style_dim = CHR 0x1B # ''[38;5;244m'',
            style_yellow = CHR 0x1B # ''[33m'', style_reset = CHR 0x1B # ''[0m''\<rparr>
      else \<lparr>style_bold = [], style_dim = [], style_yellow = [], style_reset = []\<rparr>)"

definition fmt_flag :: "announce_style \<Rightarrow> (string \<Rightarrow> string) \<Rightarrow> rc_option \<Rightarrow> string" where
  "fmt_flag sty redact opt =
     (let v = redact (opt_value opt)
      in case opt_cond opt of
           None \<Rightarrow> v
         | Some cond \<Rightarrow>
             style_yellow sty @ ''[if '' @ cond @ '']'' @ style_reset sty @ '' '' @ v)"

definition shorten :: "string \<Rightarrow> string option \<Rightarrow> string \<Rightarrow> string" where
  "shorten root home p =
     (if path_eq p command_line then ''client''
      else case path_strip_prefix root p of
             Some rel \<Rightarrow> ''./'' @ rel
           | None \<Rightarrow>
               (case home of
                  None \<Rightarrow> p
                | Some h \<Rightarrow> (case path_strip_prefix h p of Some rel \<Rightarrow> ''~/'' @ rel | None \<Rightarrow> p)))"



section \<open>Wrapping\<close>

fun wrap_rest :: "nat \<Rightarrow> nat \<Rightarrow> nat \<Rightarrow> string list \<Rightarrow> string" where
  "wrap_rest max_width cont_indent col [] = []"
| "wrap_rest max_width cont_indent col (flag # flags) =
     (if col + 1 + length flag \<le> max_width
      then '' '' @ flag @ wrap_rest max_width cont_indent (col + 1 + length flag) flags
      else newline @ spaces cont_indent @ flag @
           wrap_rest max_width cont_indent (cont_indent + length flag) flags)"

definition wrap_flags :: "nat \<Rightarrow> string list \<Rightarrow> nat \<Rightarrow> nat \<Rightarrow> string" where
  "wrap_flags max_width flags start_col cont_indent =
     (case flags of
        [] \<Rightarrow> []
      | flag # rest \<Rightarrow> flag @ wrap_rest max_width cont_indent (start_col + length flag) rest)"

section \<open>Sections\<close>

definition base_rank :: "string \<Rightarrow> string \<Rightarrow> nat" where
  "base_rank command base =
     (if base = ''always'' then 0
      else if base = ''common'' then 1
      else if base = command then 2 + length (command_ancestors command)
      else 2 + (case position (\<lambda>a. a = base) (command_ancestors command) of Some i \<Rightarrow> i | None \<Rightarrow> 0))"

definition relevant_config_key :: "string \<Rightarrow> string \<Rightarrow> bool" where
  "relevant_config_key command key \<longleftrightarrow>
     (let base = hd (split_on CHR '':'' key)
      in CHR '':'' \<in> set key \<and>
         (base = ''always'' \<or> base = ''common'' \<or> base = command \<or>
          base \<in> set (command_ancestors command)))"

definition config_key_order :: "string \<Rightarrow> string \<Rightarrow> string \<times> nat" where
  "config_key_order command key =
     (case split_once CHR '':'' key of
        Some (base, cfg) \<Rightarrow> (cfg, base_rank command base)
      | None \<Rightarrow> (key, base_rank command []))"

definition config_keys :: "'v bazel_rc \<Rightarrow> string \<Rightarrow> string list" where
  "config_keys rc command =
     sort_key (config_key_order command)
       (filter (relevant_config_key command) (map fst (rc_options rc)))"

definition direct_keys :: "string \<Rightarrow> string list" where
  "direct_keys command = [''startup'', ''always'', ''common''] @ command_ancestors command @ [command]"

type_synonym section_flags = "string \<times> string list"

definition source_sections ::
  "'v bazel_rc \<Rightarrow> (rc_option \<Rightarrow> string) \<Rightarrow> nat \<Rightarrow> string list \<Rightarrow> section_flags list" where
  "source_sections rc fmt source_idx keys =
     filter (\<lambda>(key, flags). flags \<noteq> [])
       (map (\<lambda>key. (key, map fmt (filter (\<lambda>opt. opt_source opt = source_idx)
                           (bucket_get (rc_options rc) key)))) keys)"

definition client_block :: "announce_style \<Rightarrow> nat \<Rightarrow> string \<Rightarrow> section_flags list \<Rightarrow> string" where
  "client_block sty max_width short direct =
     (let prefix_plain_len = length short + 2;
          wrapped = wrap_flags max_width (concat (map snd direct)) prefix_plain_len prefix_plain_len
      in style_bold sty @ short @ style_reset sty @ ''  '' @ wrapped @ newline)"

definition section_line :: "announce_style \<Rightarrow> nat \<Rightarrow> nat \<Rightarrow> section_flags \<Rightarrow> string" where
  "section_line sty max_width max_key_len sec =
     (let (key, flags) = sec;
          padding = spaces (max_key_len - length key);
          prefix_plain_len = 2 + length key + length padding + 2;
          wrapped = wrap_flags max_width flags prefix_plain_len prefix_plain_len
      in ''  '' @ style_dim sty @ key @ style_reset sty @ padding @
         (if wrapped = [] then [] else ''  '' @ wrapped) @ newline)"

definition file_block :: "announce_style \<Rightarrow> nat \<Rightarrow> string \<Rightarrow> section_flags list \<Rightarrow> string" where
  "file_block sty max_width short secs =
     (let max_key_len = fold max (map (\<lambda>(key, flags). length key) secs) 0
      in style_bold sty @ short @ style_reset sty @ newline @
         concat (map (section_line sty max_width max_key_len) secs))"

section \<open>The announcement\<close>

fun announce_sources ::
  "(nat \<Rightarrow> string \<Rightarrow> string option) \<Rightarrow> nat \<Rightarrow> bool \<Rightarrow> string list \<Rightarrow> string" where
  "announce_sources block source_idx first_block [] = []"
| "announce_sources block source_idx first_block (path # paths) =
     (case block source_idx path of
        None \<Rightarrow> announce_sources block (Suc source_idx) first_block paths
      | Some text \<Rightarrow>
          (if first_block then [] else newline) @ text @
          announce_sources block (Suc source_idx) False paths)"

definition source_block ::
  "'v bazel_rc \<Rightarrow> string \<Rightarrow> announce_style \<Rightarrow> nat \<Rightarrow> string \<Rightarrow> string option \<Rightarrow> (string \<Rightarrow> string) \<Rightarrow>
   nat \<Rightarrow> string \<Rightarrow> string option" where
  "source_block rc command sty max_width root home redact source_idx source_path =
     (let short = shorten root home source_path;
          fmt = fmt_flag sty redact;
          direct = source_sections rc fmt source_idx (direct_keys command);
          config = source_sections rc fmt source_idx (config_keys rc command)
      in if direct = [] \<and> config = [] then None
         else if path_eq source_path command_line
         then Some (client_block sty max_width short direct)
         else Some (file_block sty max_width short (direct @ config)))"

definition announce ::
  "'v bazel_rc \<Rightarrow> string \<Rightarrow> bool \<Rightarrow> nat \<Rightarrow> string \<Rightarrow> string option \<Rightarrow> (string \<Rightarrow> string) \<Rightarrow> string" where
  "announce rc command ansi max_width root home redact =
     announce_sources
       (source_block rc command (announce_style ansi) max_width root home redact)
       0 True (rc_sources rc)"

section \<open>Properties\<close>

lemma sort_key_set_unique:
  assumes "distinct xs" and "distinct ys" and "set xs = set ys" and "inj_on f (set xs)"
  shows "sort_key f xs = sort_key f ys"
proof -
  have "sorted (map f (sort_key f xs))" "sorted (map f (sort_key f ys))" by simp_all
  moreover have "distinct (map f (sort_key f xs))" "distinct (map f (sort_key f ys))"
    using assms by (auto simp: distinct_map)
  ultimately have "map f (sort_key f xs) = map f (sort_key f ys)"
    using assms(3) by (intro sorted_distinct_set_unique) auto
  then show ?thesis
    by (rule map_inj_on) (simp add: assms(3) [symmetric] assms(4))
qed

lemma position_member: "x \<in> set xs \<Longrightarrow> \<exists>i. position (\<lambda>a. a = x) xs = Some i \<and> i < length xs \<and> xs ! i = x"
  by (induction xs) auto

lemma ancestor_rank:
  assumes "a \<in> set (command_ancestors command)"
    and "a \<noteq> ''always''" and "a \<noteq> ''common''" and "a \<noteq> command"
  shows "\<exists>i < length (command_ancestors command).
    base_rank command a = 2 + i \<and> command_ancestors command ! i = a"
  using position_member [OF assms(1)] assms(2-4) by (auto simp: base_rank_def)

lemma base_rank_inj:
  assumes eq: "base_rank command a = base_rank command b"
    and "a \<in> insert ''always'' (insert ''common'' (insert command (set (command_ancestors command))))"
    and "b \<in> insert ''always'' (insert ''common'' (insert command (set (command_ancestors command))))"
  shows "a = b"
proof -
  let ?n = "length (command_ancestors command)"
  have shape: "c = ''always'' \<and> base_rank command c = 0 \<or>
      c = ''common'' \<and> base_rank command c = 1 \<or>
      c = command \<and> base_rank command c = 2 + ?n \<or>
      (\<exists>i < ?n. base_rank command c = 2 + i \<and> command_ancestors command ! i = c)"
    if c: "c \<in> insert ''always'' (insert ''common'' (insert command (set (command_ancestors command))))"
    for c
  proof (cases "c = ''always'' \<or> c = ''common'' \<or> c = command")
    case True
    then show ?thesis by (auto simp: base_rank_def)
  next
    case False
    with c ancestor_rank [of c command] show ?thesis by blast
  qed
  from shape [OF assms(2)] shape [OF assms(3)] eq show ?thesis
    by (elim disjE conjE exE) simp_all
qed

lemma config_key_shape:
  assumes "relevant_config_key command key"
  shows "\<exists>base cfg. split_once CHR '':'' key = Some (base, cfg) \<and> key = base @ '':'' @ cfg \<and>
    base \<in> insert ''always'' (insert ''common'' (insert command (set (command_ancestors command))))"
proof -
  from assms have "CHR '':'' \<in> set key" by (simp add: relevant_config_key_def Let_def)
  then obtain base cfg where split: "split_once CHR '':'' key = Some (base, cfg)"
    by (cases "split_once CHR '':'' key") auto
  then have key: "key = base @ CHR '':'' # cfg" "CHR '':'' \<notin> set base"
    by (simp_all add: split_once_Some_iff)
  then have "hd (split_on CHR '':'' key) = base" by (simp add: split_on_append)
  with assms split key(1) show ?thesis by (auto simp: relevant_config_key_def Let_def)
qed

lemma config_key_order_inj:
  "inj_on (config_key_order command) {key. relevant_config_key command key}"
proof (rule inj_onI, drule CollectD, drule CollectD)
  fix k1 k2
  assume "relevant_config_key command k1" and "relevant_config_key command k2"
    and eq: "config_key_order command k1 = config_key_order command k2"
  from this(1,2) obtain b1 c1 b2 c2 where
    k: "split_once CHR '':'' k1 = Some (b1, c1)" "k1 = b1 @ '':'' @ c1"
      "split_once CHR '':'' k2 = Some (b2, c2)" "k2 = b2 @ '':'' @ c2"
    and b: "b1 \<in> insert ''always'' (insert ''common'' (insert command (set (command_ancestors command))))"
      "b2 \<in> insert ''always'' (insert ''common'' (insert command (set (command_ancestors command))))"
    by (meson config_key_shape)
  with eq have "c1 = c2" "base_rank command b1 = base_rank command b2"
    by (simp_all add: config_key_order_def)
  with base_rank_inj [OF this(2) b] k show "k1 = k2" by simp
qed

lemma config_keys_unique:
  assumes "distinct (map fst (rc_options a))" and "distinct (map fst (rc_options b))"
    and "map_of (rc_options a) = map_of (rc_options b)"
  shows "config_keys a command = config_keys b command"
  unfolding config_keys_def
proof (rule sort_key_set_unique)
  have "fst ` set (rc_options a) = fst ` set (rc_options b)"
    by (metis assms(3) dom_map_of_conv_image_fst)
  then show "set (filter (relevant_config_key command) (map fst (rc_options a))) =
      set (filter (relevant_config_key command) (map fst (rc_options b)))" by simp
  show "inj_on (config_key_order command)
      (set (filter (relevant_config_key command) (map fst (rc_options a))))"
    by (rule inj_on_subset [OF config_key_order_inj]) auto
qed (use assms in \<open>simp_all add: distinct_filter\<close>)

text \<open>The announcement does not depend on the iteration order of the hash map of sections:
  two run commands with the same sections and sources are announced with the same text,
  whatever order the maps enumerate their keys in.\<close>

theorem announce_ignores_hash_order:
  assumes "rc_wf a" and "rc_wf b" and "map_of (rc_options a) = map_of (rc_options b)"
    and "rc_sources a = rc_sources b"
  shows "announce a command ansi max_width root home redact =
    announce b command ansi max_width root home redact"
proof -
  have "config_keys a command = config_keys b command"
    using assms by (intro config_keys_unique) (auto simp: rc_wf_def sections_wf_def)
  moreover have "source_sections a = source_sections b"
    by (simp add: source_sections_def fun_eq_iff bucket_get_def assms(3))
  ultimately have "source_block a command sty max_width root home redact =
      source_block b command sty max_width root home redact" for sty
    by (simp add: source_block_def fun_eq_iff)
  then show ?thesis by (simp add: announce_def assms(4))
qed

definition two_sections :: "bool \<Rightarrow> nat bazel_rc" where
  "two_sections swapped =
     (let s = [(''build:ci'', [\<lparr>opt_value = ''--jobs=8'', opt_command = ''build:ci'',
                                opt_source = 0, opt_cond = None\<rparr>]),
               (''common:ci'', [\<lparr>opt_value = ''--jobs=4'', opt_command = ''common:ci'',
                                 opt_source = 0, opt_cond = None\<rparr>])]
      in (blank [])\<lparr>rc_options := (if swapped then rev s else s), rc_sources := [''/w/.bazelrc'']\<rparr>)"

theorem announce_ignores_hash_order_witness:
  "announce (two_sections False) ''test'' True 80 ''/w'' None id =
   announce (two_sections True) ''test'' True 80 ''/w'' None id"
  by (rule announce_ignores_hash_order)
    (auto simp: two_sections_def rc_wf_def sections_wf_def option_ok_def blank_def fun_eq_iff)

definition map_values :: "(string \<Rightarrow> string) \<Rightarrow> 'v bazel_rc \<Rightarrow> 'v bazel_rc" where
  "map_values f rc =
     rc\<lparr>rc_options := map (\<lambda>(k, os). (k, map (opt_value_update f) os)) (rc_options rc)\<rparr>"

lemma bucket_get_map_values:
  "bucket_get (rc_options (map_values f rc)) k = map (opt_value_update f) (bucket_get (rc_options rc) k)"
proof -
  have "map_of (map (\<lambda>(k, os). (k, map (opt_value_update f) os)) s) k =
      map_option (map (opt_value_update f)) (map_of s k)" for s :: sections
    by (induction s) auto
  then show ?thesis by (simp add: map_values_def bucket_get_def split: option.split)
qed

lemma source_sections_map_values:
  "source_sections (map_values redact rc) (fmt_flag sty (\<lambda>v. v)) idx keys =
   source_sections rc (fmt_flag sty redact) idx keys"
proof -
  have "fmt_flag sty (\<lambda>v. v) (opt_value_update redact opt) = fmt_flag sty redact opt" for opt
    by (simp add: fmt_flag_def)
  then show ?thesis
    by (simp add: source_sections_def bucket_get_map_values filter_map comp_def)
qed

lemma config_keys_map_values: "config_keys (map_values f rc) command = config_keys rc command"
  by (simp add: config_keys_def map_values_def comp_def case_prod_unfold)

text \<open>Nothing but redacted values is announced: the announcement of a run command is the
  announcement, without redaction, of the run command in which every option's value has been
  redacted beforehand; so values that redact alike cannot be told apart in it.\<close>

theorem announce_only_redacted:
  "announce rc command ansi max_width root home redact =
   announce (map_values redact rc) command ansi max_width root home (\<lambda>v. v)"
proof -
  have "source_block (map_values redact rc) command sty max_width root home (\<lambda>v. v) =
      source_block rc command sty max_width root home redact" for sty
    by (simp add: source_block_def Let_def fun_eq_iff source_sections_map_values
        config_keys_map_values)
  moreover have "rc_sources (map_values redact rc) = rc_sources rc" by (simp add: map_values_def)
  ultimately show ?thesis by (simp add: announce_def)
qed

end
