(* ===== verification/Sandbox_Recovery.thy ===== *)
theory Sandbox_Recovery
  imports Utf8
begin

text \<open>
  Recovery from a poisoned sandbox directory
  (crates/axl-runtime/src/engine/bazel/sandbox_recovery.rs). The state is the content of
  \<open>output_base/sandbox\<close>, \<open>None\<close> when it cannot be read; a removal is the argument \<open>remove\<close>: whether
  it reports success, and the entries that are left. The loop looks at each entry's metadata
  first, which fails when it has vanished.
\<close>

definition persistent_dirs :: "string list" where
  "persistent_dirs = [''.DS_Store'', ''sandbox_stash'', ''sandbox_stash_temp'', ''_moved_trash_dir'']"

datatype recovery_outcome =
    Clean
  | Repaired "string list"
  | StillPoisoned "string list" "string list"

primrec outcome_tag :: "recovery_outcome \<Rightarrow> string" where
  "outcome_tag Clean = ''clean''"
| "outcome_tag (Repaired removed) = ''repaired''"
| "outcome_tag (StillPoisoned removed remaining) = ''still_poisoned''"

primrec removed_entries :: "recovery_outcome \<Rightarrow> string list" where
  "removed_entries Clean = []"
| "removed_entries (Repaired removed) = removed"
| "removed_entries (StillPoisoned removed remaining) = removed"

primrec remaining_entries :: "recovery_outcome \<Rightarrow> string list" where
  "remaining_entries Clean = []"
| "remaining_entries (Repaired removed) = []"
| "remaining_entries (StillPoisoned removed remaining) = remaining"

definition from_outcome :: "recovery_outcome \<Rightarrow> string \<times> string list \<times> string list" where
  "from_outcome oc = (outcome_tag oc, removed_entries oc, remaining_entries oc)"

definition skipped :: "string \<times> string list \<times> string list" where
  "skipped = (''clean'', [], [])"

type_synonym sandbox = "string list option"

definition list_unexpected_entries :: "sandbox \<Rightarrow> string list" where
  "list_unexpected_entries sb =
     (case sb of
        None \<Rightarrow> []
      | Some entries \<Rightarrow>
          sort (filter (\<lambda>name. name \<notin> set persistent_dirs) (filter valid_utf8 entries)))"

definition has_entry :: "sandbox \<Rightarrow> string \<Rightarrow> bool" where
  "has_entry sb name \<longleftrightarrow> (case sb of None \<Rightarrow> False | Some entries \<Rightarrow> name \<in> set entries)"

fun remove_loop ::
  "(string \<Rightarrow> sandbox \<Rightarrow> bool \<times> sandbox) \<Rightarrow> string list \<Rightarrow> sandbox \<Rightarrow> string list \<times> sandbox" where
  "remove_loop remove [] sb = ([], sb)"
| "remove_loop remove (name # names) sb =
     (let (ok, sb') = (if has_entry sb name then remove name sb else (False, sb));
          (removed, sb'') = remove_loop remove names sb'
      in (if ok then name # removed else removed, sb''))"

definition recover :: "(string \<Rightarrow> sandbox \<Rightarrow> bool \<times> sandbox) \<Rightarrow> sandbox \<Rightarrow> recovery_outcome \<times> sandbox" where
  "recover remove sb =
     (let initial = list_unexpected_entries sb
      in if initial = [] then (Clean, sb)
         else
           (let (removed, sb') = remove_loop remove initial sb;
                remaining = list_unexpected_entries sb'
            in (if remaining = [] then Repaired removed else StillPoisoned removed remaining, sb')))"

definition output_base_from_flags :: "string list \<Rightarrow> string option" where
  "output_base_from_flags flags =
     (let value_of = (\<lambda>f. case strip_prefix ''--output_base='' f of
            Some v \<Rightarrow> if v = [] then None else Some v | None \<Rightarrow> None)
      in case find (\<lambda>f. value_of f \<noteq> None) flags of Some f \<Rightarrow> value_of f | None \<Rightarrow> None)"

section \<open>What a removal does\<close>

text \<open>\<open>remove_dir_all\<close> and \<open>remove_file\<close> touch only the entry they are given, and one that
  reports success has removed it.\<close>

definition removes_one :: "(string \<Rightarrow> sandbox \<Rightarrow> bool \<times> sandbox) \<Rightarrow> bool" where
  "removes_one remove \<longleftrightarrow> (\<forall>name entries. distinct entries \<longrightarrow>
     (case remove name (Some entries) of
     (ok, Some entries') \<Rightarrow> set entries - {name} \<subseteq> set entries' \<and> set entries' \<subseteq> set entries \<and>
        distinct entries' \<and> (ok \<longrightarrow> name \<notin> set entries')
   | (ok, None) \<Rightarrow> False))"

lemma removes_oneE:
  assumes "removes_one remove" and "distinct entries"
  obtains ok entries' where "remove name (Some entries) = (ok, Some entries')"
    "set entries - {name} \<subseteq> set entries'" "set entries' \<subseteq> set entries" "distinct entries'"
    "ok \<longrightarrow> name \<notin> set entries'"
proof -
  obtain ok sb where "remove name (Some entries) = (ok, sb)" by fastforce
  moreover from this assms obtain entries' where "sb = Some entries'"
    unfolding removes_one_def by (cases sb) (auto dest: spec2 [of _ name entries])
  ultimately show ?thesis
    using that assms unfolding removes_one_def by (auto dest: spec2 [of _ name entries])
qed

lemma remove_loop_spec:
  assumes "removes_one remove"
  shows "distinct entries \<Longrightarrow> distinct names \<Longrightarrow> remove_loop remove names (Some entries) = (removed, sb) \<Longrightarrow>
    \<exists>left. sb = Some left \<and> distinct left \<and> set left \<subseteq> set entries \<and>
      set entries - set names \<subseteq> set left \<and> set removed \<subseteq> set names \<and>
      set removed \<inter> set left = {} \<and> subseq removed names"
proof (induction names arbitrary: entries removed sb)
  case (Cons name names)
  obtain ok mid where mid: "(if has_entry (Some entries) name then remove name (Some entries)
        else (False, Some entries)) = (ok, Some mid)"
    and sub: "set entries - {name} \<subseteq> set mid" "set mid \<subseteq> set entries" "distinct mid"
    and ok: "ok \<longrightarrow> name \<notin> set mid"
  proof (cases "has_entry (Some entries) name")
    case True
    obtain ok mid where "remove name (Some entries) = (ok, Some mid)"
      "set entries - {name} \<subseteq> set mid" "set mid \<subseteq> set entries" "distinct mid"
      "ok \<longrightarrow> name \<notin> set mid"
      using removes_oneE [OF assms] Cons.prems(1) by blast
    with True that show ?thesis by simp
  next
    case False
    with Cons.prems that [of False entries] show ?thesis by simp
  qed
  obtain rest where rest: "remove_loop remove names (Some mid) = (rest, sb)"
    and removed: "removed = (if ok then name # rest else rest)"
    using Cons.prems(3) mid by (auto simp: Let_def split: prod.splits if_splits)
  from Cons.IH [OF sub(3) _ rest] Cons.prems(2) obtain left where left: "sb = Some left"
    "distinct left" "set left \<subseteq> set mid" "set mid - set names \<subseteq> set left"
    "set rest \<subseteq> set names" "set rest \<inter> set left = {}" "subseq rest names"
    by auto
  with sub ok Cons.prems(2) removed show ?case by (auto simp: subseq_Cons')
qed simp

definition unexpected :: "sandbox \<Rightarrow> string set" where
  "unexpected sb = {name. has_entry sb name \<and> valid_utf8 name \<and> name \<notin> set persistent_dirs}"

lemma set_list_unexpected [simp]: "set (list_unexpected_entries sb) = unexpected sb"
  by (cases sb) (auto simp: list_unexpected_entries_def unexpected_def has_entry_def)

lemma list_unexpected_sorted [simp]: "sorted (list_unexpected_entries sb)"
  by (cases sb) (simp_all add: list_unexpected_entries_def)

lemma list_unexpected_distinct:
  "(\<And>entries. sb = Some entries \<Longrightarrow> distinct entries) \<Longrightarrow> distinct (list_unexpected_entries sb)"
  by (cases sb) (simp_all add: list_unexpected_entries_def)

lemma list_unexpected_Nil: "list_unexpected_entries sb = [] \<longleftrightarrow> unexpected sb = {}"
  by (metis set_list_unexpected set_empty)

lemma subseq_sorted: "subseq xs ys \<Longrightarrow> sorted ys \<Longrightarrow> sorted (xs :: string list)"
proof (induction rule: list_emb.induct)
  case (list_emb_Cons2 x y xs ys)
  then have "set xs \<subseteq> set ys" by (auto dest: list_emb_set)
  with list_emb_Cons2 show ?case by auto
qed auto

text \<open>Recovery never touches an entry Bazel keeps; it reports clean exactly when there was
  nothing unexpected, repaired exactly when it removed everything unexpected, and otherwise the
  sorted list of what is left; nothing is reported both as removed and as remaining.\<close>

theorem recover_reports_the_sandbox:
  assumes "removes_one remove" and "distinct entries"
    and "recover remove (Some entries) = (oc, sb')"
  shows "\<exists>left. sb' = Some left \<and>
    set entries - unexpected (Some entries) \<subseteq> set left \<and> set left \<subseteq> set entries \<and>
    (outcome_tag oc = ''clean'' \<longleftrightarrow> unexpected (Some entries) = {}) \<and>
    (outcome_tag oc = ''still_poisoned'' \<longleftrightarrow> unexpected sb' \<noteq> {}) \<and>
    set (remaining_entries oc) = unexpected sb' \<and> sorted (remaining_entries oc) \<and>
    set (removed_entries oc) \<subseteq> unexpected (Some entries) - set left \<and> sorted (removed_entries oc)"
proof (cases "unexpected (Some entries) = {}")
  case True
  with assms(3) show ?thesis by (auto simp: recover_def Let_def list_unexpected_Nil)
next
  case False
  let ?initial = "list_unexpected_entries (Some entries)"
  obtain removed where loop: "remove_loop remove ?initial (Some entries) = (removed, sb')"
    and oc: "oc = (if list_unexpected_entries sb' = [] then Repaired removed
      else StillPoisoned removed (list_unexpected_entries sb'))"
    using assms(3) False by (auto simp: recover_def Let_def list_unexpected_Nil split: prod.splits)
  have distinct: "distinct ?initial" using assms(2) by (intro list_unexpected_distinct) simp
  from remove_loop_spec [OF assms(1,2) distinct loop] obtain left where left: "sb' = Some left"
    "set left \<subseteq> set entries" "set entries - unexpected (Some entries) \<subseteq> set left"
    "set removed \<subseteq> unexpected (Some entries)" "set removed \<inter> set left = {}" "subseq removed ?initial"
    by auto
  have tag: "outcome_tag oc = (if unexpected sb' = {} then ''repaired'' else ''still_poisoned'')"
    and lists: "set (remaining_entries oc) = unexpected sb'" "sorted (remaining_entries oc)"
      "removed_entries oc = removed"
    by (auto simp: oc list_unexpected_Nil)
  have "sorted removed" using left(6) by (rule subseq_sorted) simp
  with left tag lists False show ?thesis by (intro exI [of _ left]) auto
qed

definition sample_remove :: "string \<Rightarrow> sandbox \<Rightarrow> bool \<times> sandbox" where
  "sample_remove name sb =
     (if name = ''stuck'' then (False, sb) else (True, map_option (removeAll name) sb))"

lemma sample_recover:
  "recover sample_remove (Some [''stuck'', ''sandbox_stash'', ''linux'', ''7'']) =
     (StillPoisoned [''7'', ''linux''] [''stuck''], Some [''stuck'', ''sandbox_stash''])"
  by code_simp

theorem recover_reports_the_sandbox_witness:
  "unexpected (Some [''stuck'', ''sandbox_stash'']) = {''stuck''}"
proof -
  have "removes_one sample_remove" by (auto simp: removes_one_def sample_remove_def distinct_removeAll)
  from recover_reports_the_sandbox [OF this _ sample_recover] show ?thesis by auto
qed

text \<open>A name that is not UTF-8 is skipped, so a sandbox poisoned by such an entry reads as clean.\<close>

lemma undecodable_entry_reads_clean:
  "recover remove (Some [[CHR 0xFF]]) = (Clean, Some [[CHR 0xFF]])"
proof -
  have "list_unexpected_entries (Some [[CHR 0xFF]]) = []" by code_simp
  then show ?thesis by (simp add: recover_def)
qed

end
