(* ===== verification/Bazel_Context.thy ===== *)
theory Bazel_Context
  imports Bazel_Query Aspects Rc_Query Rc_Parse Rc_Announce Sandbox_Recovery
begin

text \<open>
  \<open>ctx.bazel\<close> (crates/axl-runtime/src/engine/bazel/mod.rs): the object through which Starlark code uses
  Bazel. It holds the active run command, resolves the flags of an invocation under it, and starts
  builds, tests, queries and the other commands. Versions are those of the \<open>semver\<close> crate, whose
  parsing and matching are the argument \<open>sv\<close>. Bazel itself is in the record \<open>world\<close>: the answers
  to the commands that are run, in order, and the log of these commands.
\<close>

section \<open>Versions and conditional flags\<close>

record release =
  vn_major :: nat
  vn_minor :: nat
  vn_patch :: nat
  vn_pre :: string
  vn_build :: string

definition version_new :: "nat \<Rightarrow> nat \<Rightarrow> nat \<Rightarrow> release" where
  "version_new major minor patch =
     \<lparr>vn_major = major, vn_minor = minor, vn_patch = patch, vn_pre = [], vn_build = []\<rparr>"

definition U64_MAX :: nat where
  "U64_MAX = 2 ^ 64 - 1"

text \<open>The version that a constraint is compared with: without the pre-release, or the largest one.\<close>

definition gate_version :: "release option \<Rightarrow> release" where
  "gate_version version =
     (case version of
        Some v \<Rightarrow> if vn_pre v \<noteq> [] then version_new (vn_major v) (vn_minor v) (vn_patch v) else v
      | None \<Rightarrow> version_new U64_MAX U64_MAX U64_MAX)"

definition constraint_matches :: "release semver \<Rightarrow> string \<Rightarrow> release option \<Rightarrow> string + bool" where
  "constraint_matches sv constraint version =
     (case sv_req sv constraint of
        Inl e \<Rightarrow> Inl (invalid_constraint constraint e)
      | Inr matches \<Rightarrow> Inr (matches (gate_version version)))"

fun resolve_flags :: "release semver \<Rightarrow> star_flag list \<Rightarrow> release option \<Rightarrow> string + string list" where
  "resolve_flags sv [] version = Inr []"
| "resolve_flags sv (PlainFlag s # items) version = map_sum id (Cons s) (resolve_flags sv items version)"
| "resolve_flags sv (GatedFlag flag constraint # items) version =
     (case constraint_matches sv constraint version of
        Inl e \<Rightarrow> Inl e
      | Inr b \<Rightarrow> map_sum id (if b then Cons flag else id) (resolve_flags sv items version))"

primrec flag_gate :: "star_flag \<Rightarrow> string option" where
  "flag_gate (PlainFlag s) = None"
| "flag_gate (GatedFlag s c) = Some c"

primrec flag_text :: "star_flag \<Rightarrow> string" where
  "flag_text (PlainFlag s) = s"
| "flag_text (GatedFlag s c) = s"

section \<open>The commands that are run\<close>

record world =
  wd_answer :: "nat \<Rightarrow> command_result"
  wd_log :: "(string list \<times> string option) list"
  wd_tools :: "string \<Rightarrow> tools"
  wd_release :: "release option option"

definition run_bazel :: "string list \<Rightarrow> string option \<Rightarrow> world \<Rightarrow> command_result \<times> world" where
  "run_bazel argv dir w = (wd_answer w (length (wd_log w)), w\<lparr>wd_log := wd_log w @ [(argv, dir)]\<rparr>)"

text \<open>The probe of the server with its errors, of which \<open>server_info\<close> is the successful part.\<close>

definition checked_server_info :: "release semver \<Rightarrow> command_result \<Rightarrow> string + pid \<times> release option" where
  "checked_server_info sv r =
     (case r of
        SpawnFailed e \<Rightarrow> Inl (''failed to spawn bazel: '' @ e)
      | Ended code out err \<Rightarrow>
          if succeeded r then
            (case parse_server_info (sv_version sv) (from_utf8_lossy out) of
               None \<Rightarrow> Inl ''bazel info did not return server_pid''
             | Some info \<Rightarrow> Inr info)
          else (let t = trim (from_utf8_lossy err) in
            Inl (''failed to determine Bazel server info (exit code '' @ debug_code code @
              (if t = [] then [] else '': '' @ t) @ '')'')))"

definition probe_server :: "release semver \<Rightarrow> string list \<Rightarrow> world \<Rightarrow> (string + pid \<times> release option) \<times> world" where
  "probe_server sv startup w = apfst (checked_server_info sv) (run_bazel (startup @ server_probe) None w)"

definition resolve_flags_for_running_bazel ::
  "release semver \<Rightarrow> star_flag list \<Rightarrow> world \<Rightarrow> (string + string list) \<times> world" where
  "resolve_flags_for_running_bazel sv items w =
     (if list_ex (\<lambda>f. flag_gate f \<noteq> None) items
      then (case probe_server sv [] w of
          (Inl e, w') \<Rightarrow> (Inl (''failed to get Bazel server info: '' @ e), w')
        | (Inr (_, v), w') \<Rightarrow> (resolve_flags sv items v, w'))
      else (resolve_flags sv items None, w))"

definition resolve_rc_version ::
  "release semver \<Rightarrow> string option \<Rightarrow> release bazel_rc \<Rightarrow> world \<Rightarrow> release option \<times> world" where
  "resolve_rc_version sv requested rc w =
     (case requested of
        Some s \<Rightarrow> (sv_version sv s, w)
      | None \<Rightarrow>
          if has_version_gated_options rc
          then (case probe_server sv [] w of (Inr (_, v), w') \<Rightarrow> (v, w') | (Inl _, w') \<Rightarrow> (None, w'))
          else (None, w))"

section \<open>The active run command\<close>

text \<open>A value of Starlark, as far as the code looks at it: a run command, or the name of its type.\<close>

datatype rc_value = RunCommand "release bazel_rc" | OtherValue string

record bazel_ctx =
  cx_active :: "rc_value option"
  cx_frozen :: bool

definition use_rc :: "rc_value \<Rightarrow> bazel_ctx \<Rightarrow> string + bazel_ctx" where
  "use_rc v ctx =
     (case v of
        OtherValue ty \<Rightarrow> Inl (''use_rc expects a RunCommand (from parse_rc / new_rc), got '' @ ty)
      | RunCommand _ \<Rightarrow>
          if cx_frozen ctx then Inl ''use_rc: ctx.bazel is frozen'' else Inr (ctx\<lparr>cx_active := Some v\<rparr>))"

definition freeze_ctx :: "bazel_ctx \<Rightarrow> bazel_ctx" where
  "freeze_ctx ctx = ctx\<lparr>cx_frozen := True\<rparr>"

definition as_run_command :: "rc_value \<Rightarrow> release bazel_rc option" where
  "as_run_command v = (case v of RunCommand rc \<Rightarrow> Some rc | OtherValue _ \<Rightarrow> None)"

definition read_active_rc :: "bazel_ctx \<Rightarrow> release bazel_rc option" where
  "read_active_rc ctx = Option.bind (cx_active ctx) as_run_command"

definition effective_rc :: "bazel_ctx \<Rightarrow> rc_value option \<Rightarrow> release bazel_rc option" where
  "effective_rc ctx rc_param = (case rc_param of Some v \<Rightarrow> as_run_command v | None \<Rightarrow> read_active_rc ctx)"

definition read_startup_flags :: "release semver \<Rightarrow> bazel_ctx \<Rightarrow> string list" where
  "read_startup_flags sv ctx =
     (case read_active_rc ctx of Some rc \<Rightarrow> invocation_startup_flags sv rc | None \<Rightarrow> [])"

text \<open>The flags of the command and the startup flags; the flags of the call come last.\<close>

definition resolve_invocation_flags ::
  "release semver \<Rightarrow> string \<Rightarrow> bazel_ctx \<Rightarrow> string \<Rightarrow> rc_value option \<Rightarrow> star_flag list \<Rightarrow> world \<Rightarrow>
   (string + string list \<times> string list) \<times> world" where
  "resolve_invocation_flags sv os ctx command rc_param flags w =
     (case resolve_flags_for_running_bazel sv flags w of
        (Inl e, w') \<Rightarrow> (Inl e, w')
      | (Inr extras, w') \<Rightarrow>
          ((case effective_rc ctx rc_param of
              Some rc \<Rightarrow>
                map_sum id (\<lambda>(startup, cmd). (cmd @ extras, startup)) (resolve_for_command sv os rc command)
            | None \<Rightarrow> Inr (extras, read_startup_flags sv ctx)), w'))"

section \<open>Arguments of a build\<close>

text \<open>\<open>stdout\<close> and \<open>stderr\<close>: not passed, \<open>None\<close>, or a stream, which is duplicated.\<close>

datatype 'f child_fd = Inherit | DevNull | Dup 'f

definition to_stdio :: "('w \<Rightarrow> string + 'f) \<Rightarrow> 'w option option \<Rightarrow> string + 'f child_fd" where
  "to_stdio dup spec =
     (case spec of None \<Rightarrow> Inr Inherit | Some None \<Rightarrow> Inr DevNull | Some (Some s) \<Rightarrow> map_sum id Dup (dup s))"

definition resolve_stdio ::
  "('w \<Rightarrow> string + 'f) \<Rightarrow> ('w \<times> 'w) option \<Rightarrow> 'w option option \<Rightarrow> 'w option option \<Rightarrow>
   string + 'f child_fd \<times> 'f child_fd" where
  "resolve_stdio dup stdio out err =
     (let both = (\<lambda>a b. case to_stdio dup a of
          Inl e \<Rightarrow> Inl e | Inr x \<Rightarrow> map_sum id (\<lambda>y. (x, y)) (to_stdio dup b))
      in case stdio of
           Some (o', e') \<Rightarrow>
             if out \<noteq> None \<or> err \<noteq> None
             then Inl (''stdio cannot be combined with stdout/stderr '' @ [CHR 0xE2, CHR 0x80, CHR 0x94] @
               '' pass one or the other'')
             else both (Some (Some o')) (Some (Some e'))
         | None \<Rightarrow> both out err)"

text \<open>A switch, or a list of sinks and iterators, which turns the stream on.\<close>

datatype event_handle = SinkHandle nat | IterHandle nat

definition partition_build_events :: "bool + event_handle list \<Rightarrow> bool \<times> nat list \<times> nat list" where
  "partition_build_events arg =
     (case arg of
        Inl b \<Rightarrow> (b, [], [])
      | Inr items \<Rightarrow>
          (True, concat (map (\<lambda>i. case i of SinkHandle s \<Rightarrow> [s] | IterHandle _ \<Rightarrow> []) items),
           concat (map (\<lambda>i. case i of IterHandle k \<Rightarrow> [k] | SinkHandle _ \<Rightarrow> []) items)))"

section \<open>Starting builds and tests\<close>

text \<open>The call, and what else the operating system answers: the pipe, the fresh paths, the client and
  the identifier are those of \<open>spawn_env\<close>, whose server is probed here.\<close>

record ('w) build_call =
  bc_targets :: "string list"
  bc_build_events :: "bool + event_handle list"
  bc_workspace_events :: bool
  bc_execution_log :: "bool + exec_sink list"
  bc_flags :: "star_flag list"
  bc_rc :: "rc_value option"
  bc_stdout :: "'w option option"
  bc_stderr :: "'w option option"
  bc_stdio :: "('w \<times> 'w) option"
  bc_directory :: "string option"
  bc_aspects :: "aspect list"

record ('w, 'f) bazel_os =
  os_name :: string
  os_hash :: "string \<Rightarrow> string"
  os_io :: file_io
  os_pid :: nat
  os_dup :: "'w \<Rightarrow> string + 'f"
  os_spawn :: "release spawn_env"

definition show_aspect_error :: "aspect_error \<Rightarrow> string" where
  "show_aspect_error e =
     (case e of
        BaseSpawn s \<Rightarrow> s
      | BaseFailed s \<Rightarrow> ''`bazel info install_base` failed while materializing aspects: '' @ s
      | CreatingPackage pkg \<Rightarrow> ''creating aspect package '' @ pkg
      | Writing pkg name \<Rightarrow> ''writing '' @ pkg @ ''/'' @ name
      | Renaming pkg name \<Rightarrow> ''renaming '' @ pkg @ ''/'' @ name @ '' into place'')"

definition materialize_aspects ::
  "('w, 'f) bazel_os \<Rightarrow> aspect list \<Rightarrow> string list \<Rightarrow> world \<Rightarrow> (aspect_error + string list) \<times> world" where
  "materialize_aspects bos aspects startup w =
     (if aspects = [] then (Inr [], w)
      else (let (base, w') = run_bazel (startup @ [''info'', ''install_base'']) None w;
                (r, ts) = materialize (os_hash bos) (os_io bos) (os_pid bos) base aspects (wd_tools w')
            in (r, w'\<lparr>wd_tools := ts\<rparr>)))"

definition call_spawn_args :: "string \<Rightarrow> 'w build_call \<Rightarrow> string list \<Rightarrow> string list \<Rightarrow> spawn_args" where
  "call_spawn_args verb bc flags startup =
     (let (events, sinks, iters) = partition_build_events (bc_build_events bc);
          (execlog, exec_sinks) = (case bc_execution_log bc of Inl b \<Rightarrow> (b, []) | Inr ss \<Rightarrow> (True, ss))
      in \<lparr>sa_verb = verb, sa_targets = bc_targets bc, sa_build_events = events, sa_sinks = sinks, sa_iters = iters,
          sa_execution_logs = execlog, sa_exec_sinks = exec_sinks, sa_workspace = bc_workspace_events bc,
          sa_flags = flags, sa_startup = startup, sa_directory = bc_directory bc\<rparr>)"

definition start_build ::
  "release semver \<Rightarrow> ('w, 'f) bazel_os \<Rightarrow> string \<Rightarrow> 'w build_call \<Rightarrow> bazel_ctx \<Rightarrow> world \<Rightarrow> ('m, 'x) handles \<Rightarrow>
   bazel_build spawn_result \<times> world \<times> ('m, 'x) handles" where
  "start_build sv bos verb bc ctx w h =
     (case resolve_invocation_flags sv (os_name bos) ctx verb (bc_rc bc) (bc_flags bc) w of
        (Inl e, w1) \<Rightarrow> (SpawnErr e, w1, h)
      | (Inr (cmd, startup), w1) \<Rightarrow>
          (case materialize_aspects bos (bc_aspects bc) startup w1 of
             (Inl e, w2) \<Rightarrow> (SpawnErr (show_aspect_error e), w2, h)
           | (Inr aspect_args, w2) \<Rightarrow>
               (case resolve_stdio (os_dup bos) (bc_stdio bc) (bc_stdout bc) (bc_stderr bc) of
                  Inl e \<Rightarrow> (SpawnErr e, w2, h)
                | Inr _ \<Rightarrow>
                    (let (server, w3) = probe_server sv [] w2;
                         (r, h') = spawn_build (os_spawn bos\<lparr>se_server := server\<rparr>)
                           (call_spawn_args verb bc (cmd @ aspect_args) startup) h
                     in (r, w3, h')))))"

definition bazel_build_call where
  "bazel_build_call sv bos = start_build sv bos ''build''"

definition bazel_test_call where
  "bazel_test_call sv bos = start_build sv bos ''test''"

section \<open>Other commands\<close>

text \<open>The command line of a query and what its resolution runs; the rest is \<open>run_query\<close>.\<close>

definition query_command ::
  "release semver \<Rightarrow> string \<Rightarrow> bazel_ctx \<Rightarrow> string \<Rightarrow> rc_value option \<Rightarrow> star_flag list \<Rightarrow> world \<Rightarrow>
   (string + string list) \<times> world" where
  "query_command sv os ctx expr rc_param flags w =
     (case resolve_flags_for_running_bazel sv flags w of
        (Inl e, w') \<Rightarrow> (Inl e, w')
      | (Inr extras, w') \<Rightarrow>
          ((case effective_rc ctx rc_param of
              Some rc \<Rightarrow> map_sum id (\<lambda>(startup, base). query_argv expr startup (base @ extras))
                (resolve_for_command sv os rc ''query'')
            | None \<Rightarrow> Inr (query_argv expr (read_startup_flags sv ctx) extras)), w'))"

definition info_flags ::
  "release semver \<Rightarrow> string \<Rightarrow> bazel_ctx \<Rightarrow> rc_value option \<Rightarrow> string + string list \<times> string list" where
  "info_flags sv os ctx rc_param =
     (case effective_rc ctx rc_param of
        Some rc \<Rightarrow> resolve_for_command sv os rc ''info''
      | None \<Rightarrow> Inr (read_startup_flags sv ctx, []))"

definition bazel_info ::
  "release semver \<Rightarrow> string \<Rightarrow> bazel_ctx \<Rightarrow> string list \<Rightarrow> rc_value option \<Rightarrow> string option \<Rightarrow> world \<Rightarrow>
   (string + (string \<times> string) list) \<times> world" where
  "bazel_info sv os ctx keys rc_param dir w =
     (case info_flags sv os ctx rc_param of
        Inl e \<Rightarrow> (Inl e, w)
      | Inr (startup, cmd) \<Rightarrow>
          (let (r, w') = run_bazel (startup @ [''info''] @ cmd @ keys) dir w
           in ((case r of
                  SpawnFailed e \<Rightarrow> Inl (''failed to spawn bazel: '' @ e)
                | Ended code out err \<Rightarrow>
                    if succeeded r then Inr (parse_output (from_utf8_lossy out) keys)
                    else Inl (''bazel info failed with exit code '' @ debug_code code @
                      stderr_detail (from_utf8_lossy err))), w')))"

definition bazel_shutdown :: "release semver \<Rightarrow> bazel_ctx \<Rightarrow> world \<Rightarrow> (string + int) \<times> world" where
  "bazel_shutdown sv ctx w =
     (let (r, w') = run_bazel (read_startup_flags sv ctx @ [''shutdown'']) None w
      in ((case r of
             SpawnFailed e \<Rightarrow> Inl (''failed to spawn bazel: '' @ e)
           | Ended code _ _ \<Rightarrow> Inr (case code of Some n \<Rightarrow> n | None \<Rightarrow> -1)), w'))"

text \<open>The version is probed once per process.\<close>

definition bazel_version :: "release semver \<Rightarrow> (release \<Rightarrow> string) \<Rightarrow> bool \<Rightarrow> world \<Rightarrow> string option \<times> world" where
  "bazel_version sv show_version strip w =
     (let (v, w') = (case wd_release w of
            Some v \<Rightarrow> (v, w)
          | None \<Rightarrow> (let (r, w1) = probe_server sv [] w;
                         v = (case r of Inr (_, v) \<Rightarrow> v | Inl _ \<Rightarrow> None)
                     in (v, w1\<lparr>wd_release := Some v\<rparr>)))
      in (map_option (\<lambda>v. if strip
            then show_nat (vn_major v) @ ''.'' @ show_nat (vn_minor v) @ ''.'' @ show_nat (vn_patch v)
            else show_version v) v, w'))"

definition recover_poisoned_sandbox ::
  "release semver \<Rightarrow> bazel_ctx \<Rightarrow> (string \<Rightarrow> sandbox \<Rightarrow> bool \<times> sandbox) \<Rightarrow> (string \<Rightarrow> sandbox) \<Rightarrow>
   (string \<times> string list \<times> string list) \<times> (string \<Rightarrow> sandbox)" where
  "recover_poisoned_sandbox sv ctx remove sandboxes =
     (case output_base_from_flags (read_startup_flags sv ctx) of
        None \<Rightarrow> (skipped, sandboxes)
      | Some base \<Rightarrow> (case recover remove (sandboxes base) of (oc, sb) \<Rightarrow> (from_outcome oc, sandboxes(base := sb))))"

text \<open>The client that holds the lock of the server gets a SIGINT; the waiting is \<open>cancel_wait\<close>.\<close>

definition cancel_invocation ::
  "release semver \<Rightarrow> bazel_ctx \<Rightarrow> int \<Rightarrow> world \<Rightarrow> (string list \<times> nat \<times> sig_sent list) \<times> world" where
  "cancel_invocation sv ctx force_kill_after_ms w =
     (let startup = read_startup_flags sv ctx;
          (r, w') = run_bazel (startup @ [''--noblock_for_lock'', ''info'', ''server_pid'']) None w
      in ((startup, nat (max force_kill_after_ms 0),
           (case client_pid r of Some p \<Rightarrow> [IntTo p] | None \<Rightarrow> [])), w'))"

section \<open>Run commands\<close>

definition parse_rc ::
  "release semver \<Rightarrow> host \<Rightarrow> string \<Rightarrow> string option \<Rightarrow> string list \<Rightarrow> rc_option list \<Rightarrow> string list \<Rightarrow>
   string option \<Rightarrow> world \<Rightarrow> (string + release bazel_rc) \<times> world" where
  "parse_rc sv h bazel_root root startup flags skip version w =
     (case rc_new h (case root of Some r \<Rightarrow> r | None \<Rightarrow> bazel_root) startup flags of
        Inl e \<Rightarrow> (Inl (show_rc_error e), w)
      | Inr rc \<Rightarrow>
          (let rc' = with_skip_config_if_missing skip rc;
               (v, w') = resolve_rc_version sv version rc' w
           in (Inr (with_version v rc'), w')))"

definition new_rc ::
  "release semver \<Rightarrow> string list \<Rightarrow> rc_option list \<Rightarrow> string option \<Rightarrow> release bazel_rc" where
  "new_rc sv startup flags version =
     with_version (Option.bind version (sv_version sv)) (with_startup_flags startup (blank flags))"

definition announce_rc ::
  "(string \<Rightarrow> string) \<Rightarrow> string \<Rightarrow> string option \<Rightarrow> release bazel_rc \<Rightarrow> string \<Rightarrow> bool \<Rightarrow> int \<Rightarrow> string" where
  "announce_rc lc bazel_root home rc command ansi max_width =
     announce rc command ansi (nat (max max_width 0)) bazel_root home (redactor lc (all_option_values rc))"

section \<open>Sinks and iterators\<close>

text \<open>What a list of kinds may hold: a number of 32 bits, a string, or a value of another type.\<close>

datatype kind_value = KindNumber int | KindName string | KindOther string

definition event_kinds :: "(string \<times> int) list" where
  "event_kinds =
     [(''progress'', 3), (''aborted'', 4), (''started'', 5), (''build_started'', 5), (''expanded'', 6),
      (''pattern_expanded'', 6), (''configured'', 7), (''target_configured'', 7), (''action'', 8),
      (''action_completed'', 8), (''completed'', 9), (''target_completed'', 9), (''test_result'', 10),
      (''finished'', 11), (''build_finished'', 11), (''unstructured_command_line'', 12),
      (''structured_command_line'', 13), (''options_parsed'', 14), (''named_set_of_files'', 15), (''named_set'', 15),
      (''workspace_status'', 16), (''fetch'', 17), (''configuration'', 19), (''test_summary'', 20),
      (''build_tool_logs'', 21), (''build_metrics'', 22), (''build_metadata'', 24), (''workspace_info'', 25),
      (''target_summary'', 26), (''convenience_symlinks_identified'', 27), (''exec_request'', 28)]"

definition parse_event_kind :: "kind_value \<Rightarrow> string + int" where
  "parse_event_kind v =
     (case v of
        KindNumber n \<Rightarrow> Inr n
      | KindName s \<Rightarrow> (case map_of event_kinds s of
            Some n \<Rightarrow> Inr n
          | None \<Rightarrow> Inl (''unknown build_event kind '' @ quoted s @ ''; pass a `bazel.build.build_event.*` constant '' @
              ''or one of the documented string aliases''))
      | KindOther ty \<Rightarrow> Inl (''kinds entry must be a `bazel.build.build_event.*` constant or a string alias; got '' @ ty))"

fun parse_event_kinds :: "kind_value list \<Rightarrow> string + int list" where
  "parse_event_kinds [] = Inr []"
| "parse_event_kinds (v # vs) =
     (case parse_event_kind v of Inl e \<Rightarrow> Inl e | Inr n \<Rightarrow> map_sum id (List.insert n) (parse_event_kinds vs))"

definition iterator_arg :: "kind_value list option \<Rightarrow> int option \<Rightarrow> string + build_iter" where
  "iterator_arg kinds tick_ms =
     (case (case kinds of
              None \<Rightarrow> Inr None
            | Some vs \<Rightarrow>
                if vs = [] then Inl ''kinds=[] is not valid; omit `kinds` to receive every event kind''
                else map_sum id Some (parse_event_kinds vs)) of
        Inl e \<Rightarrow> Inl e
      | Inr ks \<Rightarrow>
          (case tick_ms of
             None \<Rightarrow> Inr (new_iter ks None)
           | Some ms \<Rightarrow>
               if ms > 0 then Inr (new_iter ks (Some (nat ms)))
               else Inl (''tick_ms must be a positive integer; got '' @ show_int ms)))"

text \<open>\<open>raw\<close> is the environment's override of the budget, read once per process; entries of the metadata
  that repeat a key replace earlier ones.\<close>

definition with_context :: "string \<Rightarrow> string + 'a \<Rightarrow> string + 'a" where
  "with_context name r = map_sum (\<lambda>e. name @ '': '' @ e) id r"

definition grpc_arg ::
  "string option \<Rightarrow> string \<Rightarrow> (string \<times> string) list \<Rightarrow> int \<Rightarrow> string \<Rightarrow> int option \<Rightarrow> string \<Rightarrow>
   string + (string \<Rightarrow> string option) sink" where
  "grpc_arg raw uri metadata max_retries_arg min_delay max_buffer timeout =
     (if max_retries_arg < 0 then Inl (''max_retries must be >= 0, got '' @ show_int max_retries_arg)
      else (case (case max_buffer of
                    Some n \<Rightarrow> if n \<le> 0 then Inl (''retry_max_buffer_bytes must be > 0, got '' @ show_int n) else Inr (nat n)
                  | None \<Rightarrow> Inr (fst (resolve_buffer_bytes_override raw))) of
         Inl e \<Rightarrow> Inl e
       | Inr bytes \<Rightarrow>
           (case with_context ''retry_min_delay'' (parse_duration min_delay) of
              Inl e \<Rightarrow> Inl e
            | Inr delay \<Rightarrow>
                (case with_context ''timeout'' (parse_duration timeout) of
                   Inl e \<Rightarrow> Inl e
                 | Inr t \<Rightarrow>
                     Inr (new_sink (GrpcSink uri (map_of (rev metadata))
                       (default_retry_config (fst (resolve_buffer_bytes_override raw))
                         \<lparr>max_retries := nat max_retries_arg, retry_min_delay := delay,
                          retry_max_buffer_bytes := bytes, rc_timeout := if t = 0 then None else Some t\<rparr>)))))))"

definition file_arg :: "string \<Rightarrow> 'm sink" where
  "file_arg path = new_sink (FileSink path)"

section \<open>Gated lists\<close>

text \<open>The flags of a call and the options of a run command are filtered in the same way: an item
  without a constraint is kept, one with a constraint when the gate says so, and the first gate
  that fails ends the work.\<close>

locale gated_list =
  fixes gate :: "string \<Rightarrow> string + bool" and cond :: "'i \<Rightarrow> string option" and out :: "'i \<Rightarrow> 'o"
    and run :: "'i list \<Rightarrow> string + 'o list"
  assumes run_Nil: "run [] = Inr []"
    and run_Cons: "run (i # is) = (case cond i of
        None \<Rightarrow> map_sum id (Cons (out i)) (run is)
      | Some c \<Rightarrow> (case gate c of Inl e \<Rightarrow> Inl e | Inr b \<Rightarrow> map_sum id (if b then Cons (out i) else id) (run is)))"
begin

definition opened :: "'i \<Rightarrow> bool" where
  "opened i = (case cond i of None \<Rightarrow> True | Some c \<Rightarrow> gate c = Inr True)"

definition readable :: "'i \<Rightarrow> bool" where
  "readable i = (case cond i of None \<Rightarrow> True | Some c \<Rightarrow> (case gate c of Inl _ \<Rightarrow> False | Inr _ \<Rightarrow> True))"

lemma run_readable: "list_all readable is \<Longrightarrow> run is = Inr (map out (filter opened is))"
  by (induction "is") (auto simp: run_Nil run_Cons readable_def opened_def split: option.splits sum.splits)

lemma run_first_error:
  "\<not> list_all readable is \<Longrightarrow>
   \<exists>before i after c e. is = before @ i # after \<and> list_all readable before \<and> cond i = Some c \<and> gate c = Inl e \<and> run is = Inl e"
proof (induction "is")
  case (Cons i "is")
  show ?case
  proof (cases "readable i")
    case True
    with Cons obtain before j after c e where split: "is = before @ j # after" "list_all readable before"
      "cond j = Some c" "gate c = Inl e" "run is = Inl e" by auto
    have "run (i # is) = Inl e"
      using split(5) True by (auto simp: run_Cons readable_def split: option.splits sum.splits)
    with split True show ?thesis by (intro exI [of _ "i # before"] exI [of _ j] exI [of _ after]) auto
  next
    case False
    then obtain c e where "cond i = Some c" "gate c = Inl e" by (auto simp: readable_def split: option.splits sum.splits)
    then show ?thesis by (intro exI [of _ "[]"] exI [of _ i] exI [of _ "is"] exI [of _ c] exI [of _ e]) (simp add: run_Cons)
  qed
qed simp

lemma run_Inr_iff: "run is = Inr os \<longleftrightarrow> list_all readable is \<and> os = map out (filter opened is)"
  using run_readable [of "is"] run_first_error [of "is"] by (cases "list_all readable is") auto

lemma run_ungated: "list_all (\<lambda>i. cond i = None) is \<Longrightarrow> run is = Inr (map out is)"
  by (induction "is") (simp_all add: run_Nil run_Cons)

end

interpretation call_flags: gated_list "\<lambda>c. constraint_matches sv c version" flag_gate flag_text
  "\<lambda>items. resolve_flags sv items version" for sv version
proof
  show "resolve_flags sv (i # is) version = (case flag_gate i of
      None \<Rightarrow> map_sum id (Cons (flag_text i)) (resolve_flags sv is version)
    | Some c \<Rightarrow> (case constraint_matches sv c version of Inl e \<Rightarrow> Inl e
        | Inr b \<Rightarrow> map_sum id (if b then Cons (flag_text i) else id) (resolve_flags sv is version)))" for i "is"
    by (cases i) (auto split: sum.split)
qed simp

definition option_gate :: "'v semver \<Rightarrow> 'v \<Rightarrow> string \<Rightarrow> string + bool" where
  "option_gate sv probe c = (case sv_req sv c of Inl e \<Rightarrow> Inl (invalid_constraint c e) | Inr m \<Rightarrow> Inr (m probe))"

interpretation rc_flags: gated_list "option_gate sv probe" opt_cond "\<lambda>opt. opt" "gate_options sv probe" for sv probe
proof
  show "gate_options sv probe (i # is) = (case opt_cond i of
      None \<Rightarrow> map_sum id (Cons i) (gate_options sv probe is)
    | Some c \<Rightarrow> (case option_gate sv probe c of Inl e \<Rightarrow> Inl e
        | Inr b \<Rightarrow> map_sum id (if b then Cons i else id) (gate_options sv probe is)))" for i "is"
    by (auto simp: option_gate_def sum.map_id split: option.split sum.split)
qed simp

end
