(* ===== verification/Overlay.thy ===== *)
theory Overlay
  imports Rc_Query
begin

text \<open>
  Overlaying a run command with flags of the caller: how \<open>blank\<close> and \<open>merge\<close> of the store, the
  expansion and the value queries (all of crates/bazelrc/src) work together.
\<close>

lemma expand_args_cong:
  assumes "\<And>name. config_options rc' command name = config_options rc command name"
  shows "expand_args rc' os command implicit skip args chain result =
    expand_args rc os command implicit skip args chain result"
  using assms
proof (induction rc os command implicit skip args chain result rule: expand_args.induct)
  case (2 rc os command implicit skip opt args chain result)
  show ?case
  proof (cases "config_flag (opt_value opt)")
    case None
    then show ?thesis using 2 by simp
  next
    case (Some name)
    then show ?thesis
      using "2.IH"(2,3) [OF Some] "2.IH"(4) [OF Some] "2.prems"
      by (auto split: sum.split)
  qed
qed simp

abbreviation single :: "rc_option \<Rightarrow> 'v bazel_rc" where
  "single f \<equiv> blank [f]"

lemma raw_options_single:
  "raw_options (single f) k = (if k = ''always'' then [cli_option 0 f] else [])"
  by (simp add: raw_options_def blank_def bucket_get_def)

lemma options_for_single:
  fixes a :: "'v bazel_rc"
  assumes "rc_wf a" and "cmd \<noteq> ''always''"
  shows "options_for (merge a (single f)) cmd =
    options_for a cmd @ [rebase (length (rc_sources a)) (cli_option 0 f)]"
proof -
  have cli: "is_cli (rc_sources (single f :: 'v bazel_rc)) (cli_option 0 f)"
    by (simp add: is_cli_def blank_def cli_option_def)
  have "''always'' \<notin> set (command_ancestors cmd)" by (simp add: command_ancestors_def)
  then have anc: "concat (map (\<lambda>k. raw_options a k @ map r (raw_options (single f :: 'v bazel_rc) k))
      (command_ancestors cmd)) = concat (map (raw_options a) (command_ancestors cmd))" for r
    by (intro arg_cong [where f = concat] map_cong) (auto simp: raw_options_single)
  show ?thesis
    unfolding merged_options_for [OF assms(1) rc_wf_blank]
    using assms(2) cli anc
    by (simp add: Let_def raw_options_single options_for_def)
qed

lemma expand_args_last:
  "config_flag (opt_value g) = None \<Longrightarrow>
   expand_args rc os cmd implicit skip (xs @ [g]) chain [] =
   map_sum id (\<lambda>opts. opts @ [g]) (expand_args rc os cmd implicit skip xs chain [])"
  by (simp add: expand_args_append split: sum.split)

lemma expand_configs_single:
  assumes "rc_wf a" and "cmd \<noteq> ''always''"
    and "config_flag (opt_value f) = None" and "opt_value f \<noteq> enable_platform_specific_config"
  shows "expand_configs (merge a (single f)) os cmd skip =
    map_sum id (\<lambda>opts. opts @ [rebase (length (rc_sources a)) (cli_option 0 f)])
      (expand_configs a os cmd skip)"
proof -
  have same: "config_options (merge a (single f)) cmd name = config_options a cmd name" for name
    by (simp add: config_options_def raw_options_merge [OF rc_wf_blank] raw_options_single)
      (intro arg_cong [where f = concat] map_cong, auto simp: append_eq_Cons_conv)
  let ?g = "rebase (length (rc_sources a)) (cli_option 0 f)"
  have val: "opt_value ?g = opt_value f" by (simp add: rebase_def cli_option_def)
  then have last: "expand_args a os cmd imp skip (xs @ [?g]) [] [] =
      map_sum id (\<lambda>opts. opts @ [?g]) (expand_args a os cmd imp skip xs [] [])" for imp xs
    using assms(3) by (simp only: expand_args_last)
  show ?thesis
    using assms(4) val last [of _ "platform_option os # options_for a cmd"]
    by (simp add: expand_configs_def options_for_single [OF assms(1,2)] Let_def
        expand_args_cong [OF same] last del: expand_args.simps(2))
qed

text \<open>Gating keeps a plain option at the end.\<close>

lemma gate_options_snoc:
  "opt_cond g = None \<Longrightarrow>
   gate_options sv v (opts @ [g]) = map_sum id (\<lambda>os. os @ [g]) (gate_options sv v opts)"
proof (induction opts)
  case (Cons x opts)
  then show ?case
    by (cases "gate_options sv v opts") (auto split: option.split sum.split)
qed simp

lemma gate_options_plain:
  "\<forall>x \<in> set opts. opt_cond x = None \<Longrightarrow> gate_options sv v opts = Inr opts"
  by (induction opts) auto

lemma applicable_options_single:
  assumes "rc_wf a" and "cmd \<noteq> ''always''" and "opt_cond f = None"
    and "config_flag (opt_value f) = None" and "opt_value f \<noteq> enable_platform_specific_config"
    and "applicable_options sv os a cmd ver = Inr opts"
  shows "applicable_options sv os (merge a (single f)) cmd ver =
    Inr (opts @ [rebase (length (rc_sources a)) (cli_option 0 f)])"
proof -
  let ?g = "rebase (length (rc_sources a)) (cli_option 0 f)"
  have plain: "opt_cond ?g = None" using assms(3) by (simp add: rebase_def cli_option_def)
  have same: "rc_skip (merge a (single f)) = rc_skip a"
    "effective_version sv (merge a (single f)) ver = effective_version sv a ver"
    by (simp_all add: blank_def effective_version_def split: option.split)
  obtain all where all: "expand_configs a os cmd (rc_skip a) = Inr all"
    using assms(6) by (auto simp: applicable_options_def split: sum.splits)
  have "gate_options sv (effective_version sv a ver) all = Inr opts"
    using assms(6) gate_options_plain [of all sv "effective_version sv a ver"] all
    by (auto simp: applicable_options_def list_ex_iff split: if_splits)
  then show ?thesis
    using assms(6) all plain
    unfolding applicable_options_def same expand_configs_single [OF assms(1,2,4,5)]
    by (auto simp: gate_options_snoc [OF plain] split: if_splits)
qed

text \<open>A flag the caller overlays wins: after \<open>merge\<close> with a blank run command holding
  \<open>name=v\<close>, asking for the value of \<open>name\<close> gives \<open>v\<close>, whatever the rc files, their nested
  configurations and their version gates say about it, and every other value is unchanged.\<close>

theorem overlay_flag_wins:
  assumes "rc_wf a" and "cmd \<noteq> ''always''" and "opt_cond f = None"
    and "opt_value f = name @ ''='' @ v" and "starts_with ''-'' name"
    and "config_flag (opt_value f) = None"
    and "applicable_options sv os a cmd ver = Inr opts"
  shows "flag_value sv os (merge a (single f)) name cmd ver = Inr (Some v) \<and>
    (\<forall>other. flag_value_list [f] other = [] \<longrightarrow>
       flag_values sv os (merge a (single f)) other cmd ver = flag_values sv os a other cmd ver)"
proof -
  let ?g = "rebase (length (rc_sources a)) (cli_option 0 f)"
  have val: "opt_value ?g = opt_value f" by (simp add: rebase_def cli_option_def)
  have dash: "starts_with ''-'' (opt_value ?g)" using assms(4,5) val by (auto simp: starts_with_iff)
  have "CHR ''='' \<in> set (opt_value f)" using assms(4) by simp
  then have "opt_value f \<noteq> enable_platform_specific_config"
    by (auto simp: enable_platform_specific_config_def)
  from applicable_options_single [OF assms(1-3,6) this assms(7)]
  have app: "applicable_options sv os (merge a (single f)) cmd ver = Inr (opts @ [?g])" .
  have "opt_value ?g = name @ ''='' @ v" using assms(4) val by simp
  then have "flag_value_list [?g] name = [v]" by (rule flag_value_list_eq)
  moreover have "flag_value_list [?g] other = flag_value_list [f] other" for other
    by (simp add: val)
  ultimately show ?thesis
    using assms(7) flag_value_list_snoc [OF dash]
    by (simp add: flag_value_def flag_values_def app last_of_def)
qed

text \<open>A version library with numbers for versions and no constraint that parses.\<close>

theorem overlay_flag_wins_witness:
  "flag_value \<lparr>sv_version = (\<lambda>_. None), sv_req = (\<lambda>_. Inl []), sv_latest = 9 :: nat\<rparr> ''linux''
     (merge (blank []) (single (flag_option ''--jobs=8''))) ''--jobs'' ''build'' None = Inr (Some ''8'')"
proof -
  let ?sv = "\<lparr>sv_version = (\<lambda>_. None), sv_req = (\<lambda>_. Inl []), sv_latest = 9 :: nat\<rparr>"
  have app: "applicable_options ?sv ''linux'' (blank []) ''build'' None = Inr []"
    by (simp add: applicable_options_def expand_configs_def options_for_def raw_options_def
        command_ancestors_def blank_def bucket_get_def)
  have cond: "opt_cond (flag_option ''--jobs=8'') = None"
    and val: "opt_value (flag_option ''--jobs=8'') = ''--jobs'' @ ''='' @ ''8''"
    and flag: "config_flag (opt_value (flag_option ''--jobs=8'')) = None"
    and dash: "starts_with ''-'' ''--jobs''"
    by (simp_all add: flag_option_def config_flag_def starts_with_def)
  from overlay_flag_wins [OF rc_wf_blank _ cond val dash flag app] show ?thesis by simp
qed

end
