(* ===== verification/Task_Defs.thy ===== *)
theory Task_Defs
  imports Cli_Args
begin

text \<open>
  Tasks and features as \<open>.axl\<close> files declare them (crates/axl-runtime/src/engine/task.rs and
  feature.rs), the map of tasks that \<open>config.axl\<close> sees (engine/task_map.rs) and the traits of a task
  (engine/trait_map.rs with \<open>execute_configs\<close> of eval/multi_phase.rs). Implementations and trait
  types are values of the interpreter; the Unicode case mappings are the arguments \<open>lc\<close> and \<open>uc\<close>
  of the conversions of names.
\<close>

section \<open>Tasks\<close>

definition MAX_TASK_GROUPS :: nat where
  "MAX_TASK_GROUPS = 5"

record 'v task =
  tk_impl :: 'v
  tk_args :: "'v schema"
  tk_summary :: string
  tk_description :: string
  tk_friendly_kind :: string
  tk_group :: "string list"
  tk_kind :: string
  tk_traits :: "'v list"
  tk_path :: string
  tk_overrides :: "'v arguments"

definition cli_args :: "'v schema \<Rightarrow> 'v schema" where
  "cli_args sch = filter (\<lambda>(_, a). is_cli_exposed a) sch"

datatype 'v task_error =
    TooManyGroupLevels
  | BadCommandName string name_error
  | BadGroupName string name_error
  | BadArgName string name_error
  | NotAnArg string
  | ColonInLong string
  | NotATrait
  | NoSuchArg string string
  | BadDefault "'v arg_error"
  | ReservedEnabled
  | PositionalInFeature string
  | RequiredInFeature string
  | DuplicateTask string
  | EmptyTaskName

fun check_groups :: "string list \<Rightarrow> 'v task_error + unit" where
  "check_groups [] = Inr ()"
| "check_groups (g # gs) =
     (case validate_command_name g of Inl e \<Rightarrow> Inl (BadGroupName g e) | Inr _ \<Rightarrow> check_groups gs)"

definition resolve_task_metadata ::
  "(rchar \<Rightarrow> string) \<Rightarrow> string \<Rightarrow> string list \<Rightarrow> string \<Rightarrow> 'v task_error + string" where
  "resolve_task_metadata uc kind grp friendly_kind =
     (if length grp > MAX_TASK_GROUPS then Inl TooManyGroupLevels
      else (case (if kind \<noteq> [] then validate_command_name kind else Inr ()) of
          Inl e \<Rightarrow> Inl (BadCommandName kind e)
        | Inr _ \<Rightarrow>
            (case check_groups grp of
               Inl e \<Rightarrow> Inl e
             | Inr _ \<Rightarrow> Inr (if friendly_kind \<noteq> [] then friendly_kind
                 else if kind \<noteq> [] then to_display_name uc kind else []))))"

text \<open>The entries of the \<open>args\<close> dictionary; a value that is not an argument is \<open>None\<close>.\<close>

fun parse_task_args ::
  "(string \<times> 'v arg option) list \<Rightarrow> 'v schema \<Rightarrow> 'v task_error + 'v schema" where
  "parse_task_args [] acc = Inr acc"
| "parse_task_args ((name, v) # es) acc =
     (case validate_arg_name name of
        Inl e \<Rightarrow> Inl (BadArgName name e)
      | Inr _ \<Rightarrow>
          (case v of
             None \<Rightarrow> Inl (NotAnArg name)
           | Some a \<Rightarrow>
               if (case long_override a of Some lo \<Rightarrow> CHR '':'' \<in> set lo | None \<Rightarrow> False)
               then Inl (ColonInLong name)
               else parse_task_args es (AList.update name a acc)))"

record 'v task_decl =
  td_impl :: 'v
  td_args :: "(string \<times> 'v arg option) list"
  td_summary :: string
  td_description :: string
  td_friendly_kind :: string
  td_group :: "string list"
  td_kind :: string
  td_traits :: "'v list"

definition declare_task ::
  "(rchar \<Rightarrow> string) \<Rightarrow> ('v \<Rightarrow> bool) \<Rightarrow> string \<Rightarrow> 'v task_decl \<Rightarrow> 'v task_error + 'v task" where
  "declare_task uc is_trait path td =
     (case resolve_task_metadata uc (td_kind td) (td_group td) (td_friendly_kind td) of
        Inl e \<Rightarrow> Inl e
      | Inr friendly_kind \<Rightarrow>
          (case parse_task_args (td_args td) [] of
             Inl e \<Rightarrow> Inl e
           | Inr sch \<Rightarrow>
               if \<not> list_all is_trait (td_traits td) then Inl NotATrait
               else Inr \<lparr>tk_impl = td_impl td, tk_args = sch, tk_summary = td_summary td,
                 tk_description = td_description td, tk_friendly_kind = friendly_kind,
                 tk_group = td_group td, tk_kind = td_kind td, tk_traits = td_traits td,
                 tk_path = path, tk_overrides = arguments_with_schema (map fst sch)\<rparr>))"

text \<open>\<open>export_as\<close>: the name of the variable is checked even when the kind is explicit.\<close>

definition export_task ::
  "(string \<Rightarrow> string) \<Rightarrow> (rchar \<Rightarrow> string) \<Rightarrow> string \<Rightarrow> 'v task \<Rightarrow> 'v task_error + 'v task" where
  "export_task lc uc variable t =
     (let kebab = to_command_name lc variable
      in case validate_command_name kebab of
           Inl e \<Rightarrow> Inl (BadCommandName kebab e)
         | Inr _ \<Rightarrow>
             (let kind = (if tk_kind t = [] then kebab else tk_kind t)
              in Inr (t\<lparr>tk_kind := kind, tk_friendly_kind :=
                (if tk_friendly_kind t = [] then to_display_name uc kind
                 else tk_friendly_kind t)\<rparr>)))"

fun overlay_defaults ::
  "('v star \<Rightarrow> 'v star \<Rightarrow> bool option) \<Rightarrow> ('v star \<Rightarrow> bool) \<Rightarrow> string \<Rightarrow>
   (string \<times> 'v star) list \<Rightarrow> 'v schema \<Rightarrow> 'v task_error + 'v schema" where
  "overlay_defaults tc frozen base_kind [] sch = Inr sch"
| "overlay_defaults tc frozen base_kind ((k, v) # kvs) sch =
     (case map_of sch k of
        None \<Rightarrow> Inl (NoSuchArg k base_kind)
      | Some a \<Rightarrow>
          (case with_default tc frozen k v a of
             Inl e \<Rightarrow> Inl (BadDefault e)
           | Inr a' \<Rightarrow> overlay_defaults tc frozen base_kind kvs (AList.update k a' sch)))"

definition alias_description :: "string \<Rightarrow> string \<Rightarrow> string \<Rightarrow> string" where
  "alias_description description summary base_kind =
     (let hint = ''(alias of `'' @ base_kind @ ''`)'';
          gap = [CHR 0x0A, CHR 0x0A]
      in if description \<noteq> [] then description @ gap @ hint
         else if summary \<noteq> [] then summary @ gap @ hint else hint)"

text \<open>The keyword arguments of \<open>alias\<close> are those of \<open>task\<close> without implementation, arguments and
  traits, which come from the base.\<close>

definition build_alias ::
  "(rchar \<Rightarrow> string) \<Rightarrow> ('v star \<Rightarrow> 'v star \<Rightarrow> bool option) \<Rightarrow> ('v star \<Rightarrow> bool) \<Rightarrow> string \<Rightarrow>
   (string \<times> 'v star) list \<Rightarrow> 'v task_decl \<Rightarrow> 'v task \<Rightarrow> 'v task_error + 'v task" where
  "build_alias uc tc frozen path defaults td base =
     (case resolve_task_metadata uc (td_kind td) (td_group td) (td_friendly_kind td) of
        Inl e \<Rightarrow> Inl e
      | Inr friendly_kind \<Rightarrow>
          (case overlay_defaults tc frozen (tk_kind base) defaults (tk_args base) of
             Inl e \<Rightarrow> Inl e
           | Inr sch \<Rightarrow>
               Inr \<lparr>tk_impl = tk_impl base, tk_args = sch, tk_summary = td_summary td,
                 tk_description =
                   alias_description (td_description td) (td_summary td) (tk_kind base),
                 tk_friendly_kind = friendly_kind, tk_group = td_group td, tk_kind = td_kind td,
                 tk_traits = tk_traits base, tk_path = path,
                 tk_overrides = arguments_with_schema (map fst sch)\<rparr>))"

text \<open>\<open>Task::from_frozen\<close>.\<close>

definition thaw_task :: "'v task \<Rightarrow> 'v task" where
  "thaw_task t = t\<lparr>tk_overrides := arguments_with_schema (map fst (tk_args t))\<rparr>"

section \<open>The map of tasks\<close>

definition task_key :: "string list \<Rightarrow> string \<Rightarrow> string" where
  "task_key grp name = (if grp = [] then name else join ''/'' grp @ ''/'' @ name)"

definition task_key_of :: "'v task \<Rightarrow> string" where
  "task_key_of t = task_key (tk_group t) (tk_kind t)"

type_synonym 'v task_map = "'v task list"

definition task_map_at :: "string \<Rightarrow> 'v task_map \<Rightarrow> 'v task option" where
  "task_map_at key ts = find (\<lambda>t. task_key_of t = key) ts"

text \<open>A task of another module is frozen and is thawed first.\<close>

definition task_map_add :: "bool \<Rightarrow> 'v task \<Rightarrow> 'v task_map \<Rightarrow> 'v task_error + 'v task_map" where
  "task_map_add is_frozen task0 ts =
     (let t = (if is_frozen then thaw_task task0 else task0); key = task_key_of t
      in if key = [] then Inl EmptyTaskName
         else if \<exists>u \<in> set ts. task_key_of u = key then Inl (DuplicateTask key)
         else Inr (ts @ [t]))"

text \<open>\<open>ctx.tasks[key].args.attribute = v\<close> in a \<open>config.axl\<close>: the override store of the first task with
  that key.\<close>

fun override_task_arg ::
  "string \<Rightarrow> string \<Rightarrow> 'v star \<Rightarrow> 'v task_map \<Rightarrow> (string list + 'v task_map) option" where
  "override_task_arg key attribute v [] = None"
| "override_task_arg key attribute v (t # ts) =
     (if task_key_of t = key
      then Some (map_sum id (\<lambda>ov. t\<lparr>tk_overrides := ov\<rparr> # ts) (set_attr attribute v (tk_overrides t)))
      else map_option (map_sum id (Cons t)) (override_task_arg key attribute v ts))"

section \<open>Features\<close>

record 'v feature =
  fe_impl :: 'v
  fe_args :: "'v schema"
  fe_summary :: string
  fe_description :: string
  fe_display_name :: string
  fe_name :: string
  fe_export_name :: "string option"
  fe_path :: string
  fe_overrides :: "'v arguments"

definition enabled_arg :: "bool \<Rightarrow> 'v arg" where
  "enabled_arg enabled =
     BooleanArg \<lparr>fm_required = False, fm_short = None, fm_long = None,
       fm_description = Some (if enabled then ''Set to false to disable this feature''
         else ''Set to true to enable this feature'')\<rparr> enabled"

definition is_positional :: "'v arg \<Rightarrow> bool" where
  "is_positional a \<longleftrightarrow>
     (case a of PositionalArg _ _ _ _ \<Rightarrow> True | TrailingVarArgs _ \<Rightarrow> True | _ \<Rightarrow> False)"

fun parse_feature_args ::
  "(string \<times> 'v arg option) list \<Rightarrow> 'v schema \<Rightarrow> 'v task_error + 'v schema" where
  "parse_feature_args [] acc = Inr acc"
| "parse_feature_args ((name, v) # es) acc =
     (if name = ''enabled'' then Inl ReservedEnabled
      else (case validate_arg_name name of
          Inl e \<Rightarrow> Inl (BadArgName name e)
        | Inr _ \<Rightarrow>
            (case v of
               None \<Rightarrow> Inl (NotAnArg name)
             | Some a \<Rightarrow>
                 if is_positional a then Inl (PositionalInFeature name)
                 else if is_required a then Inl (RequiredInFeature name)
                 else parse_feature_args es (AList.update name a acc))))"

record 'v feature_decl =
  fd_impl :: 'v
  fd_name :: string
  fd_display_name :: string
  fd_summary :: string
  fd_description :: string
  fd_enabled :: bool
  fd_args :: "(string \<times> 'v arg option) list"

definition declare_feature :: "string \<Rightarrow> 'v feature_decl \<Rightarrow> 'v task_error + 'v feature" where
  "declare_feature path fd =
     (case (if fd_name fd \<noteq> [] then validate_command_name (fd_name fd) else Inr ()) of
        Inl e \<Rightarrow> Inl (BadCommandName (fd_name fd) e)
      | Inr _ \<Rightarrow>
          (case parse_feature_args (fd_args fd) [(''enabled'', enabled_arg (fd_enabled fd))] of
             Inl e \<Rightarrow> Inl e
           | Inr sch \<Rightarrow>
               Inr \<lparr>fe_impl = fd_impl fd, fe_args = sch, fe_summary = fd_summary fd,
                 fe_description = fd_description fd, fe_display_name = fd_display_name fd,
                 fe_name = fd_name fd, fe_export_name = None, fe_path = path,
                 fe_overrides = arguments_with_schema (map fst sch)\<rparr>))"

definition export_feature ::
  "(string \<Rightarrow> string) \<Rightarrow> (rchar \<Rightarrow> string) \<Rightarrow> string \<Rightarrow> 'v feature \<Rightarrow> name_error + 'v feature" where
  "export_feature lc uc variable f =
     (case validate_type_name variable of
        Inl e \<Rightarrow> Inl e
      | Inr _ \<Rightarrow>
          Inr (f\<lparr>fe_export_name := Some variable,
            fe_name := (if fe_name f = [] then to_command_name lc variable else fe_name f),
            fe_display_name :=
              (if fe_display_name f = [] then camel_to_display_name lc uc variable
               else fe_display_name f)\<rparr>))"

definition thaw_feature :: "'v feature \<Rightarrow> 'v feature" where
  "thaw_feature f = f\<lparr>fe_overrides := arguments_with_schema (map fst (fe_args f))\<rparr>"

text \<open>\<open>set_attr\<close> of a feature: only \<open>enabled\<close>, only a Boolean; it writes the override store directly.\<close>

definition set_feature_attr :: "string \<Rightarrow> 'v star \<Rightarrow> 'v feature \<Rightarrow> string + 'v feature" where
  "set_feature_attr attribute v f =
     (if attribute = ''enabled'' then
        (case v of
           SBool b \<Rightarrow> Inr (f\<lparr>fe_overrides := arguments_insert ''enabled'' v (fe_overrides f)\<rparr>)
         | _ \<Rightarrow> Inl ''feature enabled must be a bool'')
      else Inl ''feature attribute is read-only'')"

definition read_enabled :: "'v feature \<Rightarrow> 'v star" where
  "read_enabled f =
     (case arguments_get (fe_overrides f) ''enabled'' of
        Some v \<Rightarrow> v
      | None \<Rightarrow> SBool (case map_of (fe_args f) ''enabled'' of
            Some (BooleanArg _ True) \<Rightarrow> True
          | _ \<Rightarrow> False))"

text \<open>The block that a feature contributes to every task command; overrides replace the shown
  defaults of scalar arguments.\<close>

record 'v feature_block =
  fb_args :: "'v schema"
  fb_heading :: string
  fb_prefix :: string

definition bake_default :: "string \<Rightarrow> 'v arg \<Rightarrow> 'v arg" where
  "bake_default first a =
     (case a of
        BooleanArg fm d \<Rightarrow> BooleanArg fm (first = ''true'')
      | StringArg fm d vals bare \<Rightarrow> StringArg fm first vals bare
      | IntArg fm d \<Rightarrow> (case parse_i32 first of Some w \<Rightarrow> IntArg fm w | None \<Rightarrow> a)
      | UIntArg fm d \<Rightarrow> (case parse_u32 first of Some w \<Rightarrow> UIntArg fm w | None \<Rightarrow> a)
      | _ \<Rightarrow> a)"

definition feature_block :: "('v star \<Rightarrow> string) \<Rightarrow> 'v feature \<Rightarrow> 'v feature_block option" where
  "feature_block txt f =
     (let args = cli_args (fe_args f);
          overrides = stringify_overrides txt (Some (fe_overrides f))
      in if args = [] then None
         else Some \<lparr>fb_args = map (\<lambda>(n, a). (n, case map_of overrides n of
                  Some (first # _) \<Rightarrow> bake_default first a | _ \<Rightarrow> a)) args,
              fb_heading = fe_display_name f @ '' Options'', fb_prefix = fe_name f\<rparr>)"

section \<open>Traits\<close>

text \<open>A trait map holds trait types by their id, in the order of registration, with the instance once
  it has been constructed. \<open>make\<close> constructs the default instance of a type.\<close>

type_synonym 'v trait_map = "(nat \<times> 'v \<times> 'v option) list"

definition trait_insert :: "nat \<Rightarrow> 'v \<Rightarrow> 'v trait_map \<Rightarrow> 'v trait_map" where
  "trait_insert tid ty tm = (if map_of tm tid = None then tm @ [(tid, ty, None)] else tm)"

definition trait_scoped :: "nat list \<Rightarrow> 'v trait_map \<Rightarrow> 'v trait_map" where
  "trait_scoped tids tm =
     fold (\<lambda>tid acc. case map_of tm tid of Some e \<Rightarrow> AList.update tid e acc | None \<Rightarrow> acc) tids []"

definition trait_at ::
  "('v \<Rightarrow> string + 'v) \<Rightarrow> nat \<Rightarrow> 'v trait_map \<Rightarrow> string + 'v \<times> 'v trait_map" where
  "trait_at construct tid tm =
     (case map_of tm tid of
        None \<Rightarrow> Inl ''not found in TraitMap''
      | Some (ty, Some instance) \<Rightarrow> Inr (instance, tm)
      | Some (ty, None) \<Rightarrow>
          (case construct ty of
             Inl e \<Rightarrow> Inl e
           | Inr instance \<Rightarrow> Inr (instance, AList.update tid (ty, Some instance) tm)))"

definition trait_set_at :: "nat \<Rightarrow> 'v \<Rightarrow> 'v \<Rightarrow> 'v trait_map \<Rightarrow> 'v trait_map" where
  "trait_set_at tid index v tm =
     (case map_of tm tid of
        Some (ty, _) \<Rightarrow> AList.update tid (ty, Some v) tm
      | None \<Rightarrow> tm @ [(tid, index, Some v)])"

definition trait_type_ids :: "('v \<Rightarrow> nat option) \<Rightarrow> 'v task \<Rightarrow> nat list" where
  "trait_type_ids id_of t = List.map_filter id_of (tk_traits t)"

text \<open>Before the first config file runs, the types of all tasks of the map are registered.\<close>

definition register_traits :: "('v \<Rightarrow> nat option) \<Rightarrow> 'v task_map \<Rightarrow> 'v trait_map" where
  "register_traits id_of ts =
     fold (\<lambda>t. fold (\<lambda>ty tm. case id_of ty of Some tid \<Rightarrow> trait_insert tid ty tm | None \<Rightarrow> tm)
       (tk_traits t)) ts []"

section \<open>Well-formed tasks\<close>

definition schema_wf :: "'v schema \<Rightarrow> bool" where
  "schema_wf sch \<longleftrightarrow> distinct (map fst sch) \<and>
     (\<forall>(name, a) \<in> set sch. validate_arg_name name = Inr () \<and>
       (\<forall>lo. long_override a = Some lo \<longrightarrow> CHR '':'' \<notin> set lo))"

definition overrides_wf :: "'v schema \<Rightarrow> 'v arguments \<Rightarrow> bool" where
  "overrides_wf sch ov \<longleftrightarrow> arguments_wf ov \<and> args_valid ov = Some (map fst sch) \<and>
     fst ` set (args_entries ov) \<subseteq> fst ` set sch"

definition task_wf :: "'v task \<Rightarrow> bool" where
  "task_wf t \<longleftrightarrow> (tk_kind t = [] \<or> validate_command_name (tk_kind t) = Inr ()) \<and>
     length (tk_group t) \<le> MAX_TASK_GROUPS \<and>
     (\<forall>g \<in> set (tk_group t). validate_command_name g = Inr ()) \<and>
     schema_wf (tk_args t) \<and> overrides_wf (tk_args t) (tk_overrides t)"

lemma check_groups_Inr:
  "check_groups gs = Inr () \<longleftrightarrow> (\<forall>g \<in> set gs. validate_command_name g = Inr ())"
  by (induction gs) (auto split: sum.splits)

lemma resolve_task_metadata_InrD:
  "resolve_task_metadata uc kind grp fk = Inr r \<Longrightarrow>
     length grp \<le> MAX_TASK_GROUPS \<and> (kind = [] \<or> validate_command_name kind = Inr ()) \<and>
     (\<forall>g \<in> set grp. validate_command_name g = Inr ())"
  using check_groups_Inr [of grp]
  by (auto simp: resolve_task_metadata_def split: if_splits sum.splits)

lemma schema_wf_update:
  assumes "schema_wf sch" and "validate_arg_name name = Inr ()"
    and "\<And>lo. long_override a = Some lo \<Longrightarrow> CHR '':'' \<notin> set lo"
  shows "schema_wf (AList.update name a sch)"
proof -
  have "set (AList.update name a sch) \<subseteq> insert (name, a) (set sch)"
    by (induction sch) auto
  with assms show ?thesis by (fastforce simp: schema_wf_def distinct_update)
qed

lemma parse_task_args_wf:
  "parse_task_args es acc = Inr sch \<Longrightarrow> schema_wf acc \<Longrightarrow> schema_wf sch"
proof (induction es acc rule: parse_task_args.induct)
  case (2 name v es acc)
  then obtain a where a: "validate_arg_name name = Inr ()" "v = Some a"
    "parse_task_args es (AList.update name a acc) = Inr sch"
    "\<And>lo. long_override a = Some lo \<Longrightarrow> CHR '':'' \<notin> set lo"
    by (auto split: sum.splits option.splits if_splits)
  have "\<not> (case long_override a of Some lo \<Rightarrow> CHR '':'' \<in> set lo | None \<Rightarrow> False)"
    using a(4) by (auto split: option.split)
  then show ?case
    using "2.IH" [OF a(1,2)] a(3) schema_wf_update [OF "2.prems"(2) a(1,4)] by simp
qed simp

text \<open>An alias keeps everything of an argument but its default.\<close>

primrec without_default :: "'v arg \<Rightarrow> 'v arg" where
  "without_default (StringArg fm _ vals bare) = StringArg fm [] vals bare"
| "without_default (BooleanArg fm _) = BooleanArg fm False"
| "without_default (IntArg fm _) = IntArg fm 0"
| "without_default (UIntArg fm _) = UIntArg fm 0"
| "without_default (PositionalArg lo hi _ desc) = PositionalArg lo hi None desc"
| "without_default (TrailingVarArgs desc) = TrailingVarArgs desc"
| "without_default (StringListArg fm _) = StringListArg fm []"
| "without_default (BooleanListArg fm _) = BooleanListArg fm []"
| "without_default (IntListArg fm _) = IntListArg fm []"
| "without_default (UIntListArg fm _) = UIntListArg fm []"
| "without_default (CustomArg ty _ desc) = CustomArg ty None desc"

definition same_flag :: "'v arg \<Rightarrow> 'v arg \<Rightarrow> bool" where
  "same_flag a b \<longleftrightarrow> without_default a = without_default b"

lemma with_default_same_flag: "with_default tc frozen n v a = Inr b \<Longrightarrow> same_flag a b"
  by (cases a) (auto simp: same_flag_def typed_def Let_def
      split: option.splits if_splits sum.splits bool.splits)

lemma same_flag_refl [simp]: "same_flag a a"
  by (simp add: same_flag_def)

lemma same_flag_trans: "same_flag a b \<Longrightarrow> same_flag b c \<Longrightarrow> same_flag a c"
  by (simp add: same_flag_def)

lemma arg_meta_without_default [simp]: "arg_meta (without_default a) = arg_meta a"
  by (cases a) simp_all

lemma same_flag_long: "same_flag a b \<Longrightarrow> long_override a = long_override b"
  unfolding same_flag_def long_override_def by (metis arg_meta_without_default)

lemma overlay_defaults_same:
  "overlay_defaults tc frozen base kvs sch = Inr sch' \<Longrightarrow> distinct (map fst sch) \<Longrightarrow>
   map fst sch' = map fst sch \<and> (\<forall>n a. map_of sch n = Some a \<longrightarrow>
     (\<exists>b. map_of sch' n = Some b \<and> same_flag a b))"
proof (induction tc frozen base kvs sch rule: overlay_defaults.induct)
  case (2 tc frozen base k v kvs sch)
  then obtain a a' where a: "map_of sch k = Some a" "with_default tc frozen k v a = Inr a'"
    "overlay_defaults tc frozen base kvs (AList.update k a' sch) = Inr sch'"
    by (auto split: option.splits sum.splits)
  have keys: "map fst (AList.update k a' sch) = map fst sch"
    using a(1) by (auto simp: update_keys intro: rev_image_eqI dest!: map_of_SomeD)
  then have IH: "map fst sch' = map fst sch"
    "\<And>n c. map_of (AList.update k a' sch) n = Some c \<Longrightarrow> \<exists>b. map_of sch' n = Some b \<and> same_flag c b"
    using "2.IH" [OF a] "2.prems"(2) by auto
  have "\<exists>b. map_of sch' n = Some b \<and> same_flag c b" if c: "map_of sch n = Some c" for n c
  proof (cases "n = k")
    case True
    with c a(1) have "c = a" by simp
    moreover have "same_flag a a'" using a(2) by (rule with_default_same_flag)
    ultimately show ?thesis using IH(2) [of n a'] True same_flag_trans
      by (fastforce simp: update_conv')
  qed (use c IH(2) [of n c] in \<open>simp add: update_conv'\<close>)
  with IH(1) show ?case by blast
qed auto

lemma overlay_defaults_wf:
  assumes "overlay_defaults tc frozen base kvs sch = Inr sch'" and "schema_wf sch"
  shows "schema_wf sch'"
proof -
  have keys: "map fst sch' = map fst sch" "distinct (map fst sch')"
    and same: "\<And>n a. map_of sch n = Some a \<Longrightarrow> \<exists>b. map_of sch' n = Some b \<and> same_flag a b"
    using overlay_defaults_same [OF assms(1)] assms(2) by (auto simp: schema_wf_def)
  have "validate_arg_name n = Inr () \<and> (\<forall>lo. long_override b = Some lo \<longrightarrow> CHR '':'' \<notin> set lo)"
    if nb: "(n, b) \<in> set sch'" for n b
  proof -
    have "n \<in> fst ` set sch" using nb keys(1) by (metis fst_conv image_eqI list.set_map)
    then obtain a where a: "map_of sch n = Some a" by (metis map_of_eq_None_iff not_None_eq)
    then have "(n, a) \<in> set sch" by (rule map_of_SomeD)
    moreover have "same_flag a b"
      using same [OF a] nb keys(2) by (metis map_of_is_SomeI option.inject)
    ultimately show ?thesis using assms(2) same_flag_long by (fastforce simp: schema_wf_def)
  qed
  with keys(2) show ?thesis by (auto simp: schema_wf_def)
qed

lemma overrides_wf_schema [simp]: "overrides_wf sch (arguments_with_schema (map fst sch))"
  by (simp add: overrides_wf_def) (simp add: arguments_with_schema_def)

lemma set_attr_wf:
  "overrides_wf sch ov \<Longrightarrow> set_attr n v ov = Inr ov' \<Longrightarrow> overrides_wf sch ov'"
proof -
  assume ov: "overrides_wf sch ov" "set_attr n v ov = Inr ov'"
  then have n: "n \<in> fst ` set sch" and ov': "ov' = arguments_insert n v ov"
    by (auto simp: overrides_wf_def set_attr_def split: if_splits)
  from n ov(1) show ?thesis
    by (simp add: ov' overrides_wf_def arguments_insert_def arguments_wf_def distinct_update
        dom_update)
qed

text \<open>The task values a program can get hold of.\<close>

inductive task_value :: "'v task \<Rightarrow> bool" where
  declared: "declare_task uc is_trait path td = Inr t \<Longrightarrow> task_value t"
| aliased: "task_value base \<Longrightarrow> build_alias uc tc frozen path defaults td base = Inr t \<Longrightarrow>
    task_value t"
| exported: "task_value t \<Longrightarrow> ascii_lowers lc \<Longrightarrow> export_task lc uc variable t = Inr t' \<Longrightarrow>
    task_value t'"
| thawed: "task_value t \<Longrightarrow> task_value (thaw_task t)"
| configured: "task_value t \<Longrightarrow> set_attr n v (tk_overrides t) = Inr ov \<Longrightarrow>
    task_value (t\<lparr>tk_overrides := ov\<rparr>)"

lemma declare_task_wf: "declare_task uc is_trait path td = Inr t \<Longrightarrow> task_wf t"
  using parse_task_args_wf [of "td_args td" "[]"]
  by (auto simp: declare_task_def task_wf_def schema_wf_def [of "[]"] dest: resolve_task_metadata_InrD
      split: sum.splits if_splits)

lemma build_alias_wf:
  "build_alias uc tc frozen path defaults td base = Inr t \<Longrightarrow> task_wf base \<Longrightarrow> task_wf t"
  by (auto simp: build_alias_def task_wf_def dest: resolve_task_metadata_InrD overlay_defaults_wf
      split: sum.splits)

lemma export_task_wf: "export_task lc uc variable t = Inr t' \<Longrightarrow> task_wf t \<Longrightarrow> task_wf t'"
  by (auto simp: export_task_def task_wf_def Let_def split: sum.splits if_splits)

lemma task_value_wf: "task_value t \<Longrightarrow> task_wf t"
proof (induction rule: task_value.induct)
  case (configured t n v ov)
  then show ?case using set_attr_wf by (auto simp: task_wf_def)
next
  case (thawed t)
  then show ?case by (simp add: task_wf_def thaw_task_def)
qed (blast intro: declare_task_wf build_alias_wf export_task_wf)+

lemma command_name_no_slash: "validate_command_name s = Inr () \<Longrightarrow> s \<noteq> [] \<and> CHR ''/'' \<notin> set s"
proof
  assume s: "validate_command_name s = Inr ()"
  then show "s \<noteq> []" by (simp add: validate_command_name_Inr)
  with s have "list_all command_char s"
    by (cases s) (auto simp: validate_command_name_Inr command_char_def)
  then show "CHR ''/'' \<notin> set s"
    by (auto simp: list_all_iff command_char_def is_lower_nat is_digit_nat)
qed

lemma task_key_path: "task_key grp name = join ''/'' (grp @ [name])"
proof (induction grp)
  case (Cons g grp)
  then show ?case by (cases grp) (simp_all add: task_key_def join_Cons)
qed (simp add: task_key_def)

lemma task_key_inject:
  assumes "\<And>g. g \<in> set (grp @ [name]) \<union> set (grp' @ [name']) \<Longrightarrow> validate_command_name g = Inr ()"
  shows "task_key grp name = task_key grp' name' \<longleftrightarrow> grp = grp' \<and> name = name'"
proof -
  have "split_on CHR ''/'' (join [CHR ''/''] (grp @ [name])) = grp @ [name]"
    "split_on CHR ''/'' (join [CHR ''/''] (grp' @ [name'])) = grp' @ [name']"
    using assms command_name_no_slash by (intro split_on_join; force)+
  then show ?thesis by (metis append1_eq_conv task_key_path)
qed

section \<open>Traits of a task\<close>

lemma trait_insert_keys:
  "map_of (trait_insert tid ty tm) i = None \<longleftrightarrow> map_of tm i = None \<and> i \<noteq> tid"
  by (auto simp: trait_insert_def map_add_def split: option.splits)

lemma register_types_keys:
  "map_of (fold (\<lambda>ty tm. case id_of ty of Some tid \<Rightarrow> trait_insert tid ty tm | None \<Rightarrow> tm) tys tm) i =
     None \<longleftrightarrow> map_of tm i = None \<and> i \<notin> set (List.map_filter id_of tys)"
  by (induction tys arbitrary: tm)
    (auto simp: trait_insert_keys map_filter_simps split: option.splits)

lemma register_traits_keys:
  "map_of (register_traits id_of ts) i = None \<longleftrightarrow> (\<forall>t \<in> set ts. i \<notin> set (trait_type_ids id_of t))"
proof -
  have "map_of (fold (\<lambda>t. fold (\<lambda>ty tm. case id_of ty of
        Some tid \<Rightarrow> trait_insert tid ty tm | None \<Rightarrow> tm) (tk_traits t)) ts tm) i = None \<longleftrightarrow>
      map_of tm i = None \<and> (\<forall>t \<in> set ts. i \<notin> set (trait_type_ids id_of t))" for tm
    by (induction ts arbitrary: tm) (auto simp: register_types_keys trait_type_ids_def)
  from this [of "[]"] show ?thesis by (simp add: register_traits_def)
qed

lemma trait_scoped_get:
  "map_of (trait_scoped tids tm) i = (if i \<in> set tids then map_of tm i else None)"
proof -
  have "map_of (fold (\<lambda>tid acc. case map_of tm tid of
        Some e \<Rightarrow> AList.update tid e acc | None \<Rightarrow> acc) tids acc) i =
      (if i \<in> set tids \<and> map_of tm i \<noteq> None then map_of tm i else map_of acc i)" for acc
    by (induction tids arbitrary: acc) (auto simp: update_conv' split: option.splits)
  from this [of "[]"] show ?thesis
    by (cases "map_of tm i") (simp_all add: trait_scoped_def)
qed

text \<open>A task that was known when the configuration began sees exactly the traits it declares, each
  with the instance the configuration left in the global map.\<close>

lemma task_sees_its_traits:
  assumes "t \<in> set ts" and "\<And>i. map_of tm i = None \<Longrightarrow> map_of (register_traits id_of ts) i = None"
  shows "(map_of (trait_scoped (trait_type_ids id_of t) tm) i \<noteq> None \<longleftrightarrow>
      i \<in> set (trait_type_ids id_of t)) \<and>
    (i \<in> set (trait_type_ids id_of t) \<longrightarrow>
      map_of (trait_scoped (trait_type_ids id_of t) tm) i = map_of tm i)"
proof -
  have "map_of (register_traits id_of ts) i \<noteq> None" if "i \<in> set (trait_type_ids id_of t)"
    using that assms(1) register_traits_keys [of id_of ts i] by blast
  with assms(2) [of i] have "map_of tm i \<noteq> None" if "i \<in> set (trait_type_ids id_of t)"
    using that by blast
  then show ?thesis
    unfolding trait_scoped_get by (cases "i \<in> set (trait_type_ids id_of t)") simp_all
qed

text \<open>A task that \<open>ctx.tasks.add\<close> adds later is not registered: a trait that no earlier task declares
  is missing for it, although it is in the list of its traits.\<close>

lemma added_task_lacks_its_trait:
  "i \<in> set (trait_type_ids id_of t) \<Longrightarrow> \<forall>u \<in> set ts. i \<notin> set (trait_type_ids id_of u) \<Longrightarrow>
   trait_at construct i (trait_scoped (trait_type_ids id_of t) (register_traits id_of ts)) =
     Inl ''not found in TraitMap''"
  using register_traits_keys [of id_of ts i] by (simp add: trait_at_def trait_scoped_get)

section \<open>Properties\<close>



end
