(* ===== verification/Task_Phases.thy ===== *)
theory Task_Phases
  imports Task_Name Names "HOL-Library.Word"
begin

text \<open>
  The timing of a task (crates/axl-runtime/src/engine/task_info.rs) and the lines that the runtime
  prints around it (crates/axl-runtime/src/eval/multi_phase.rs and banner.rs): the phases a task
  marks, their durations, the verdict, and the opening and closing lines. An \<open>Instant\<close> is the
  number of nanoseconds since some origin and a \<open>Duration\<close> a number of nanoseconds; a difference
  of instants saturates at zero, as \<open>duration_since\<close> does. The Unicode case mapping is the argument
  \<open>uc\<close>.
\<close>

section \<open>Phases\<close>

record phase_record =
  pr_name :: string
  pr_description :: string
  pr_duration :: nat
  pr_interrupted :: bool
  pr_emoji :: string
  pr_display_name :: string

record current_phase =
  cp_name :: string
  cp_description :: string
  cp_started_at :: nat
  cp_emoji :: string
  cp_display_name :: string

record task_info =
  ti_kind :: string
  ti_friendly_kind :: string
  ti_group :: "string list"
  ti_name :: string
  ti_friendly_name :: string
  ti_task_id :: string
  ti_started_at :: nat
  ti_phases :: "phase_record list"
  ti_current :: "current_phase option"

definition task_info_new ::
  "string \<Rightarrow> string \<Rightarrow> string list \<Rightarrow> string \<Rightarrow> string \<Rightarrow> string \<Rightarrow> nat \<Rightarrow> task_info" where
  "task_info_new kind friendly_kind grp name friendly_name task_id now =
     \<lparr>ti_kind = kind, ti_friendly_kind = friendly_kind, ti_group = grp, ti_name = name,
      ti_friendly_name = friendly_name, ti_task_id = task_id, ti_started_at = now,
      ti_phases = [], ti_current = None\<rparr>"

definition closed_phase :: "nat \<Rightarrow> bool \<Rightarrow> current_phase \<Rightarrow> phase_record" where
  "closed_phase now interrupted c =
     \<lparr>pr_name = cp_name c, pr_description = cp_description c, pr_duration = now - cp_started_at c,
      pr_interrupted = interrupted, pr_emoji = cp_emoji c, pr_display_name = cp_display_name c\<rparr>"

definition sprout :: string where
  "sprout = [CHR 0xF0, CHR 0x9F, CHR 0x8C, CHR 0xB1]"

definition init_phase :: "nat \<Rightarrow> phase_record" where
  "init_phase duration =
     \<lparr>pr_name = ''init'', pr_description = ''Aspect runtime startup'', pr_duration = duration,
      pr_interrupted = False, pr_emoji = sprout, pr_display_name = []\<rparr>"

definition mark_phase ::
  "nat \<Rightarrow> string \<Rightarrow> string \<Rightarrow> string \<Rightarrow> string \<Rightarrow> task_info \<Rightarrow> task_info" where
  "mark_phase now name description emoji display_name ti =
     (let opened = Some \<lparr>cp_name = name, cp_description = description, cp_started_at = now,
            cp_emoji = emoji, cp_display_name = display_name\<rparr>
      in case ti_current ti of
           None \<Rightarrow>
             ti\<lparr>ti_phases := ti_phases ti @
                  (if ti_phases ti = [] then [init_phase (now - ti_started_at ti)] else []),
                ti_current := opened\<rparr>
         | Some prev \<Rightarrow>
             if cp_name prev = name then ti
             else ti\<lparr>ti_phases := ti_phases ti @ [closed_phase now False prev],
                     ti_current := opened\<rparr>)"

definition close_active_phase :: "nat \<Rightarrow> task_info \<Rightarrow> task_info" where
  "close_active_phase now ti =
     (case ti_current ti of
        None \<Rightarrow> ti
      | Some active \<Rightarrow>
          ti\<lparr>ti_phases := ti_phases ti @ [closed_phase now True active], ti_current := None\<rparr>)"

text \<open>What a task sees of its phases. Milliseconds are cast from 128 to 64 bits.\<close>

definition as_millis :: "nat \<Rightarrow> nat" where
  "as_millis d = d div 1000000"

record task_phase =
  tp_name :: string
  tp_description :: string
  tp_duration_ms :: "64 word"
  tp_interrupted :: bool
  tp_emoji :: string
  tp_display_name :: string

definition from_record :: "phase_record \<Rightarrow> task_phase" where
  "from_record r =
     \<lparr>tp_name = pr_name r, tp_description = pr_description r,
      tp_duration_ms = of_nat (as_millis (pr_duration r)), tp_interrupted = pr_interrupted r,
      tp_emoji = pr_emoji r, tp_display_name = pr_display_name r\<rparr>"

definition from_current :: "nat \<Rightarrow> current_phase \<Rightarrow> task_phase" where
  "from_current now c =
     \<lparr>tp_name = cp_name c, tp_description = cp_description c,
      tp_duration_ms = of_nat (as_millis (now - cp_started_at c)), tp_interrupted = False,
      tp_emoji = cp_emoji c, tp_display_name = cp_display_name c\<rparr>"

definition phases_of :: "task_info \<Rightarrow> task_phase list" where
  "phases_of ti = map from_record (ti_phases ti)"

definition current_phase_of :: "nat \<Rightarrow> task_info \<Rightarrow> task_phase option" where
  "current_phase_of now ti = map_option (from_current now) (ti_current ti)"

definition elapsed_ms :: "nat \<Rightarrow> task_info \<Rightarrow> 64 word" where
  "elapsed_ms now ti = of_nat (as_millis (now - ti_started_at ti))"

section \<open>Rendering\<close>

definition format_duration :: "nat \<Rightarrow> string" where
  "format_duration d =
     (let total_ms = as_millis d
      in if total_ms < 1000 then show_nat total_ms @ ''ms''
         else if total_ms < 60000
         then show_nat (total_ms div 1000) @ ''.'' @ show_nat (total_ms mod 1000 div 100) @ ''s''
         else (let total_s = total_ms div 1000
           in show_nat (total_s div 60) @ ''m '' @ show_nat (total_s mod 60) @ ''s''))"

datatype timing_mode = NoTiming | TotalTiming | ShortTiming | DetailedTiming

definition default_timing :: timing_mode where
  "default_timing = DetailedTiming"

definition parse_timing_mode :: "string \<Rightarrow> timing_mode option" where
  "parse_timing_mode s =
     (if s = ''none'' then Some NoTiming
      else if s = ''total'' then Some TotalTiming
      else if s = ''short'' then Some ShortTiming
      else if s = ''detailed'' then Some DetailedTiming else None)"

definition render_timing_segment :: "timing_mode \<Rightarrow> nat \<Rightarrow> string" where
  "render_timing_segment mode elapsed =
     (if mode = NoTiming then [] else '' in '' @ format_duration elapsed)"

definition titlecase :: "(rchar \<Rightarrow> string) \<Rightarrow> string \<Rightarrow> string" where
  "titlecase uc s =
     (case utf8_chars s of
        [] \<Rightarrow> []
      | c # cs \<Rightarrow> uc c @ concat (map (\<lambda>ch. if ch = ''_'' then '' '' else ch) cs))"

definition variation_selector :: rchar where
  "variation_selector = [CHR 0xEF, CHR 0xB8, CHR 0x8F]"

definition char_width :: "rchar \<Rightarrow> nat" where
  "char_width c =
     (if c = variation_selector then 0 else if length c = 1 \<and> hd c \<le> CHR 0x7F then 1 else 2)"

definition display_width :: "string \<Rightarrow> nat" where
  "display_width s = sum_list (map char_width (utf8_chars s))"

definition em_dash :: string where
  "em_dash = [CHR 0xE2, CHR 0x80, CHR 0x94]"

definition middle_dot :: string where
  "middle_dot = [CHR 0xC2, CHR 0xB7]"

definition INIT_PHASE_HIDE_THRESHOLD_MS :: nat where
  "INIT_PHASE_HIDE_THRESHOLD_MS = 50"

definition phase_visible :: "phase_record \<Rightarrow> bool" where
  "phase_visible p \<longleftrightarrow>
     \<not> (pr_name p = ''init'' \<and> as_millis (pr_duration p) < INIT_PHASE_HIDE_THRESHOLD_MS)"

definition phase_label :: "(rchar \<Rightarrow> string) \<Rightarrow> phase_record \<Rightarrow> string" where
  "phase_label uc p =
     (let name = (if pr_display_name p = [] then titlecase uc (pr_name p) else pr_display_name p)
      in if pr_emoji p = [] then name else pr_emoji p @ '' '' @ name)"

definition format_phase :: "(rchar \<Rightarrow> string) \<Rightarrow> bool \<Rightarrow> phase_record \<Rightarrow> string" where
  "format_phase uc failed p =
     (if failed \<and> pr_interrupted p
      then phase_label uc p @ '' (failed after '' @ format_duration (pr_duration p) @ '')''
      else phase_label uc p @ '' '' @ format_duration (pr_duration p))"

text \<open>One row of the detailed breakdown, for columns of the widths \<open>name_w\<close> and \<open>dur_w\<close>.\<close>

definition detailed_row ::
  "(rchar \<Rightarrow> string) \<Rightarrow> bool \<Rightarrow> nat \<Rightarrow> nat \<Rightarrow> phase_record \<Rightarrow> string" where
  "detailed_row uc failed name_w dur_w p =
     (let label = phase_label uc p; dur = format_duration (pr_duration p)
      in newline @ spaces 4 @ label @ spaces (name_w - display_width label) @ spaces 2 @
         spaces (dur_w - length dur) @ dur @ spaces 2 @
         (if pr_description p = [] then em_dash else pr_description p) @
         (if failed \<and> pr_interrupted p then '' (failed)'' else []))"

definition render_phase_breakdown ::
  "(rchar \<Rightarrow> string) \<Rightarrow> phase_record list \<Rightarrow> timing_mode \<Rightarrow> bool \<Rightarrow> string" where
  "render_phase_breakdown uc phases mode failed =
     (let visible = filter phase_visible phases
      in if mode = NoTiming \<or> mode = TotalTiming \<or> visible = [] then []
         else if mode = ShortTiming
         then '' '' @ em_dash @ '' '' @ join ('' '' @ middle_dot @ '' '') (map (format_phase uc failed) visible)
         else (let name_w = Max (set (map (display_width \<circ> phase_label uc) visible));
                   dur_w = Max (set (map (\<lambda>p. length (format_duration (pr_duration p))) visible))
               in concat (map (detailed_row uc failed name_w dur_w) visible)))"

section \<open>Verdict\<close>

text \<open>What the implementation of a task returned: a \<open>TaskConclusion\<close>, an integer, or anything
  else. The runtime keeps the low eight bits of the exit code.\<close>

datatype task_return = TaskConclusion "32 word" string bool | ReturnInt "32 word" | ReturnOther

definition unpack_task_return :: "task_return \<Rightarrow> 8 word option \<times> bool \<times> string" where
  "unpack_task_return ret =
     (case ret of
        TaskConclusion code txt flagged \<Rightarrow> (Some (ucast code), flagged, txt)
      | ReturnInt code \<Rightarrow> (Some (ucast code), False, [])
      | ReturnOther \<Rightarrow> (None, False, []))"

datatype verdict = Passed | Flagged | Failed

definition pick_verdict :: "8 word option \<Rightarrow> bool \<Rightarrow> verdict" where
  "pick_verdict exit_code flagged =
     (case exit_code of
        Some code \<Rightarrow> if code = 0 then (if flagged then Flagged else Passed) else Failed
      | None \<Rightarrow> if flagged then Flagged else Passed)"

definition bk_shortcode :: "verdict \<Rightarrow> string" where
  "bk_shortcode v =
     (case v of Passed \<Rightarrow> '':white_check_mark:'' | Flagged \<Rightarrow> '':warning:'' | Failed \<Rightarrow> '':x:'')"

definition glyph :: "verdict \<Rightarrow> string" where
  "glyph v =
     (case v of
        Passed \<Rightarrow> [CHR 0xE2, CHR 0x9C, CHR 0x85]
      | Flagged \<Rightarrow> [CHR 0xE2, CHR 0x9A, CHR 0xA0, CHR 0xEF, CHR 0xB8, CHR 0x8F] @ '' ''
      | Failed \<Rightarrow> [CHR 0xE2, CHR 0x9D, CHR 0x8C])"

definition verb :: "verdict \<Rightarrow> string" where
  "verb v = (case v of Passed \<Rightarrow> ''Passed'' | Flagged \<Rightarrow> ''Flagged'' | Failed \<Rightarrow> ''Failed'')"

definition verdict_color :: "verdict \<Rightarrow> string" where
  "verdict_color v = (case v of Passed \<Rightarrow> ''1;32'' | Flagged \<Rightarrow> ''1;33'' | Failed \<Rightarrow> ''1;31'')"

section \<open>The lines around a task\<close>

definition task_command_path :: "string list \<Rightarrow> string \<Rightarrow> string" where
  "task_command_path grp kind = (if grp = [] then kind else join '' '' grp @ '' '' @ kind)"

definition task_label_for :: "string list \<Rightarrow> string \<Rightarrow> string \<Rightarrow> bool \<Rightarrow> bool \<Rightarrow> string" where
  "task_label_for grp kind name name_meaningful on_ci =
     (let path = task_command_path grp kind
      in if name \<noteq> kind \<and> (name_meaningful \<or> on_ci) then name @ '' ['' @ path @ '']''
         else path @ '' task'')"

text \<open>The surroundings of a run: whether the standard error is a terminal, and the environment.\<close>

definition on_recognized_ci :: "env \<Rightarrow> bool" where
  "on_recognized_ci get = is_ci_from (\<lambda>v. get v \<noteq> None)"

definition use_color :: "bool \<Rightarrow> env \<Rightarrow> bool" where
  "use_color tty get \<longleftrightarrow> tty \<or> on_recognized_ci get"

definition sgr_reset :: "bool \<Rightarrow> string" where
  "sgr_reset color = (if color then esc ''0'' else [])"

definition sgr :: "bool \<Rightarrow> string \<Rightarrow> string" where
  "sgr color params = (if color then esc params else [])"

definition DEFAULT_HIGHLIGHT_COLOR :: string where
  "DEFAULT_HIGHLIGHT_COLOR = ''1;36''"

definition running_verb_color :: "bool \<Rightarrow> env \<Rightarrow> string \<times> string" where
  "running_verb_color tty get =
     (let color = use_color tty get;
          highlight = (case get ''ASPECT_CLI_HIGHLIGHT_COLOR'' of
            Some h \<Rightarrow> h | None \<Rightarrow> DEFAULT_HIGHLIGHT_COLOR)
      in (if color \<and> highlight \<noteq> [] then esc highlight else [], sgr_reset color))"

definition show_runtime_banner :: "bool \<Rightarrow> env \<Rightarrow> bool" where
  "show_runtime_banner tty get \<longleftrightarrow>
     (tty \<or> on_recognized_ci get) \<and> get ''ASPECT_CLI_NO_BANNER'' = None"

definition banner_line :: "bool \<Rightarrow> bool \<Rightarrow> string \<Rightarrow> string" where
  "banner_line debug_build color version =
     (let body = ''Aspect CLI v'' @ version @ (if debug_build then '' (debug build)'' else []) @
            '' '' @ em_dash @ '' https://aspect.build/docs/cli''
      in if color then esc ''38;5;244'' @ body @ esc ''0'' else body)"

definition right_arrow :: string where
  "right_arrow = [CHR 0xE2, CHR 0x86, CHR 0x92]"

definition clapper :: string where
  "clapper = [CHR 0xF0, CHR 0x9F, CHR 0x8E, CHR 0xAC]"

definition running_header ::
  "bool \<Rightarrow> env \<Rightarrow> bool \<Rightarrow> string \<Rightarrow> string list \<Rightarrow> string \<Rightarrow> string \<Rightarrow> bool \<Rightarrow> string" where
  "running_header tty get debug_build version grp kind name name_meaningful =
     (let (verb_seq, reset) = running_verb_color tty get;
          label = task_label_for grp kind name name_meaningful (on_recognized_ci get)
      in (if show_runtime_banner tty get
          then banner_line debug_build True version @ newline @ newline else []) @
         (if get ''BUILDKITE'' \<noteq> None
          then ''--- :aspect: '' @ verb_seq @ ''Running'' @ reset @ '' '' @ label @ newline
          else right_arrow @ '' '' @ clapper @ '' '' @ verb_seq @ ''Running'' @ reset @ '' '' @
            label @ newline))"

text \<open>The end of a run at time \<open>now\<close>: the exit code and what is printed.\<close>

definition finish_task ::
  "(rchar \<Rightarrow> string) \<Rightarrow> bool \<Rightarrow> env \<Rightarrow> timing_mode \<Rightarrow> bool \<Rightarrow> nat \<Rightarrow> task_return \<Rightarrow> task_info \<Rightarrow>
   8 word option \<times> string" where
  "finish_task uc tty get timing name_meaningful now ret ti0 =
     (let (exit_code, flagged, conclusion) = unpack_task_return ret;
          ti = close_active_phase now ti0;
          color = use_color tty get;
          failed = (case exit_code of Some code \<Rightarrow> code \<noteq> 0 | None \<Rightarrow> False);
          breakdown = render_phase_breakdown uc (ti_phases ti) timing failed;
          segment = render_timing_segment timing (now - ti_started_at ti);
          conclusion_suffix =
            (if conclusion = [] then [] else '' '' @ middle_dot @ '' '' @ conclusion);
          exit_suffix = (case exit_code of
              Some code \<Rightarrow> if code \<noteq> 0 then '' (exit code '' @ show_nat (unat code) @ '')'' else []
            | None \<Rightarrow> []);
          on_bk = (case get ''BUILDKITE'' of Some v \<Rightarrow> v \<noteq> [] | None \<Rightarrow> False);
          label = task_label_for (ti_group ti) (ti_kind ti) (ti_name ti) name_meaningful
            (on_recognized_ci get);
          v = pick_verdict exit_code flagged;
          colored = sgr color (verdict_color v) @ verb v @ sgr_reset color;
          unclean = (failed \<or> flagged)
      in (exit_code,
          if on_bk
          then (if unclean then ''^^^ +++'' @ newline else []) @
            (if unclean then ''+++'' else ''---'') @ '' '' @ bk_shortcode v @ '' '' @ colored @
            '' '' @ middle_dot @ '' '' @ label @ exit_suffix @ segment @ conclusion_suffix @
            breakdown @ newline
          else newline @ right_arrow @ '' '' @ glyph v @ '' '' @ colored @ '' '' @ label @
            exit_suffix @ segment @ conclusion_suffix @ breakdown @ newline))"

section \<open>Durations reconcile\<close>

text \<open>A task that marks its phases at the given times.\<close>

record phase_mark =
  pm_time :: nat
  pm_name :: string
  pm_description :: string
  pm_emoji :: string
  pm_display_name :: string

definition mark_with :: "task_info \<Rightarrow> phase_mark \<Rightarrow> task_info" where
  "mark_with ti pm =
     mark_phase (pm_time pm) (pm_name pm) (pm_description pm) (pm_emoji pm) (pm_display_name pm) ti"

definition recorded :: "task_info \<Rightarrow> nat" where
  "recorded ti = sum_list (map pr_duration (ti_phases ti))"

text \<open>The durations of the closed phases add up to the time at which the open phase began.\<close>

definition phases_ok :: "nat \<Rightarrow> task_info \<Rightarrow> bool" where
  "phases_ok now ti \<longleftrightarrow> ti_started_at ti \<le> now \<and>
     list_all (\<lambda>p. \<not> pr_interrupted p) (ti_phases ti) \<and>
     (case ti_current ti of
        None \<Rightarrow> ti_phases ti = []
      | Some c \<Rightarrow> ti_phases ti \<noteq> [] \<and> cp_started_at c \<le> now \<and>
          ti_started_at ti + recorded ti = cp_started_at c)"

lemma phases_ok_new: "phases_ok now (task_info_new kind fk grp name fname tid now)"
  by (simp add: phases_ok_def task_info_new_def)

lemma phases_ok_mark:
  "phases_ok t ti \<Longrightarrow> t \<le> pm_time pm \<Longrightarrow> phases_ok (pm_time pm) (mark_with ti pm)"
  by (auto simp: phases_ok_def mark_with_def mark_phase_def recorded_def Let_def closed_phase_def
      init_phase_def split: option.splits)

lemma mark_with_fields:
  "ti_started_at (mark_with ti pm) = ti_started_at ti" "ti_current (mark_with ti pm) \<noteq> None"
  by (auto simp: mark_with_def mark_phase_def Let_def split: option.splits)

lemma phases_ok_marks:
  "phases_ok t ti \<Longrightarrow> sorted (t # map pm_time pms) \<Longrightarrow> last (t # map pm_time pms) \<le> now \<Longrightarrow>
   phases_ok now (foldl mark_with ti pms) \<and>
   (pms \<noteq> [] \<longrightarrow> ti_current (foldl mark_with ti pms) \<noteq> None) \<and>
   ti_started_at (foldl mark_with ti pms) = ti_started_at ti"
proof (induction pms arbitrary: t ti)
  case Nil
  then show ?case by (auto simp: phases_ok_def split: option.splits)
next
  case (Cons pm pms)
  have "phases_ok (pm_time pm) (mark_with ti pm)"
    using Cons.prems by (intro phases_ok_mark) auto
  from Cons.IH [OF this] Cons.prems show ?case
    by (cases pms) (auto simp: mark_with_fields)
qed

text \<open>The durations of the phases of a task add up to its running time: when a task that
  started at \<open>start\<close> marks at least one phase, at times that do not go backwards, and ends at \<open>now\<close>,
  the durations of its phases, the synthetic first one included, sum to \<open>now - start\<close>, and exactly
  the last phase is recorded as interrupted.\<close>

theorem phase_durations_reconcile:
  assumes "ti = task_info_new kind fk grp name fname tid start" and "pms \<noteq> []"
    and "sorted (start # map pm_time pms)" and "pm_time (last pms) \<le> now"
    and "ph = ti_phases (close_active_phase now (foldl mark_with ti pms))"
  shows "sum_list (map pr_duration ph) = now - start \<and> map pr_interrupted ph =
    replicate (length ph - 1) False @ [True]"
proof -
  let ?ti = "foldl mark_with ti pms"
  have "last (start # map pm_time pms) \<le> now" using assms(2,4) by (simp add: last_map)
  then have ok: "phases_ok now ?ti" and cur: "ti_current ?ti \<noteq> None"
    and start: "ti_started_at ?ti = start"
    using phases_ok_marks [OF _ assms(3)] assms(1,2) phases_ok_new
    by (auto simp: task_info_new_def)
  have "map pr_interrupted (ti_phases ?ti) = replicate (length (ti_phases ?ti)) False"
    using ok by (auto simp: phases_ok_def list_all_iff intro: map_replicate_const [symmetric]
        intro!: nth_equalityI split: option.splits)
  then show ?thesis
    using ok cur start by (auto simp: assms(5) close_active_phase_def phases_ok_def recorded_def
        closed_phase_def)
qed

lemma phase_durations_reconcile_witness:
  "let mark = (\<lambda>t n. \<lparr>pm_time = t, pm_name = n, pm_description = [], pm_emoji = [],
       pm_display_name = []\<rparr>);
     ph = ti_phases (close_active_phase 90 (foldl mark_with
       (task_info_new ''build'' [] [] ''b'' ''b'' ''u'' 10)
       [mark 15 ''setup'', mark 20 ''setup'', mark 40 ''build'']))
   in map pr_duration ph = [5, 25, 50] \<and> sum_list (map pr_duration ph) = 80"
proof -
  define mark where "mark = (\<lambda>t n. \<lparr>pm_time = t, pm_name = n, pm_description = [],
    pm_emoji = [], pm_display_name = []\<rparr>)"
  have "sum_list (map pr_duration (ti_phases (close_active_phase 90 (foldl mark_with
      (task_info_new ''build'' [] [] ''b'' ''b'' ''u'' 10)
      [mark 15 ''setup'', mark 20 ''setup'', mark 40 ''build''])))) = 90 - 10"
    using phase_durations_reconcile [OF refl, of "[mark 15 ''setup'', mark 20 ''setup'', mark 40 ''build'']"
        10 90 _ "''build''" "[]" "[]" "''b''" "''b''" "''u''"]
    by (simp add: mark_def)
  then show ?thesis
    unfolding mark_def Let_def
    by (simp add: mark_with_def mark_phase_def task_info_new_def close_active_phase_def
        closed_phase_def init_phase_def)
qed

section \<open>Durations, verdicts and headers\<close>

definition duration_floor :: "nat \<Rightarrow> nat" where
  "duration_floor d =
     (let ms = as_millis d
      in if ms < 1000 then ms else if ms < 60000 then ms div 100 * 100 else ms div 1000 * 1000)"

lemma show_nat_inj [simp]: "show_nat a = show_nat b \<longleftrightarrow> a = b"
  using read_show_nat by metis

lemma show_nat_absent: "\<not> is_digit c \<Longrightarrow> c \<notin> set (show_nat n)"
  using show_nat_digits by blast

lemma marks_absent [simp]:
  "CHR ''.'' \<notin> set (show_nat n)" "CHR ''m'' \<notin> set (show_nat n)" "CHR '' '' \<notin> set (show_nat n)"
  by (rule show_nat_absent, simp add: is_digit_def)+

lemma show_nat_split:
  assumes "\<not> is_digit c" "\<not> is_digit d"
  shows "show_nat a @ c # s = show_nat b @ d # t \<longleftrightarrow> a = b \<and> c = d \<and> s = t"
proof
  assume *: "show_nat a @ c # s = show_nat b @ d # t"
  have "takeWhile is_digit (show_nat n @ x # r) = show_nat n" if "\<not> is_digit x" for n x r
    using that show_nat_digits by (simp add: takeWhile_append)
  from this [OF assms(1), of a s] this [OF assms(2), of b t] have "show_nat a = show_nat b"
    using * by simp
  then show "a = b \<and> c = d \<and> s = t" using * by simp
qed simp

text \<open>A rendered duration is the duration, cut to milliseconds below a second, to tenths of a second
  below a minute and to seconds above: two durations read the same exactly when they are the same
  at that precision.\<close>

theorem format_duration_precision:
  "format_duration a = format_duration b \<longleftrightarrow> duration_floor a = duration_floor b"
proof -
  have nd: "\<not> is_digit CHR ''.''" "\<not> is_digit CHR ''m''" "\<not> is_digit CHR ''s''"
    by (simp_all add: is_digit_def)
  define fl where "fl x = (if x < 1000 then x else if x < 60000 then x div 100 * 100
      else x div 1000 * 1000)" for x :: nat
  define fmt where "fmt x = (if x < 1000 then show_nat x @ ''ms''
      else if x < 60000 then show_nat (x div 1000) @ ''.'' @ show_nat (x mod 1000 div 100) @ ''s''
      else show_nat (x div 1000 div 60) @ ''m '' @ show_nat (x div 1000 mod 60) @ ''s'')" for x :: nat
  have low: "fl x < 1000 \<longleftrightarrow> x < 1000" "fl x < 60000 \<longleftrightarrow> x < 60000" for x
    using div_le_mono [of 1000 x 100] div_times_less_eq_dividend [of x 100]
      div_le_mono [of 60000 x 1000]
    by (auto simp: fl_def)
  have "x mod 1000 div 100 = x div 100 mod 10" "x div 1000 = x div 100 div 10" for x :: nat
    using mod_mult2_eq [of x 100 10] div_mult2_eq [of x 100 10] by simp_all
  then have tenths: "(x div 1000 = y div 1000 \<and> x mod 1000 div 100 = y mod 1000 div 100) \<longleftrightarrow>
      x div 100 = y div 100" for x y :: nat
    by (metis div_mult_mod_eq)
  have seconds: "(x div 1000 div 60 = y div 1000 div 60 \<and> x div 1000 mod 60 = y div 1000 mod 60) \<longleftrightarrow>
      x div 1000 = y div 1000" for x y :: nat
    by (metis div_mult_mod_eq)
  have same: "fmt x = fmt y \<longleftrightarrow> (x < 1000 \<longleftrightarrow> y < 1000) \<and> (x < 60000 \<longleftrightarrow> y < 60000) \<and>
      (if x < 1000 then x = y else if x < 60000 then x div 100 = y div 100
       else x div 1000 = y div 1000)" for x y
    unfolding fmt_def using tenths [of x y] seconds [of x y]
    by (cases "x < 1000"; cases "y < 1000"; cases "x < 60000"; cases "y < 60000")
      (simp_all add: show_nat_split nd)
  have "fmt x = fmt y \<longleftrightarrow> fl x = fl y" for x y
  proof (cases "(x < 1000 \<longleftrightarrow> y < 1000) \<and> (x < 60000 \<longleftrightarrow> y < 60000)")
    case True
    then show ?thesis using same [of x y] by (simp add: fl_def)
  next
    case False
    then show ?thesis using same [of x y] low [of x] low [of y] by metis
  qed
  moreover have "format_duration d = fmt (as_millis d)" "duration_floor d = fl (as_millis d)" for d
    by (simp_all only: fmt_def fl_def format_duration_def duration_floor_def Let_def)
  ultimately show ?thesis by simp
qed

text \<open>The verdict follows the exit code that the process will have, not the one that the task
  returned.\<close>

lemma finish_task_exit:
  "fst (finish_task uc tty get timing nm now ret ti) =
     (case ret of TaskConclusion code _ _ \<Rightarrow> Some (ucast code) | ReturnInt code \<Rightarrow> Some (ucast code)
      | ReturnOther \<Rightarrow> None)"
  by (cases ret) (simp_all add: finish_task_def unpack_task_return_def Let_def)

lemma pick_verdict_failed:
  "pick_verdict exit_code flagged = Failed \<longleftrightarrow> (\<exists>code. exit_code = Some code \<and> code \<noteq> 0)"
  by (auto simp: pick_verdict_def split: option.splits)

text \<open>A task that returns a multiple of 256, a failure by the documentation of \<open>TaskConclusion\<close>,
  exits with 0 and is announced as passed.\<close>

lemma exit_code_256_passes:
  "unpack_task_return (TaskConclusion 256 txt False) = (Some 0, False, txt) \<and>
   pick_verdict (Some 0) False = Passed \<and> (256 :: 32 word) \<noteq> 0"
  by (simp add: unpack_task_return_def pick_verdict_def)

text \<open>A phase that the task itself names \<open>init\<close> is hidden when it is short, like the synthetic one.\<close>

lemma named_init_phase_hidden:
  "let ti = mark_phase 10 ''init'' ''Fetch tools'' [] [] (task_info_new k fk grp n fn u 10)
   in render_phase_breakdown uc (ti_phases (close_active_phase 40000000 ti)) ShortTiming False = []"
  by (simp add: mark_phase_def task_info_new_def close_active_phase_def closed_phase_def
      init_phase_def render_phase_breakdown_def phase_visible_def as_millis_def
      INIT_PHASE_HIDE_THRESHOLD_MS_def)

text \<open>With an empty \<open>BUILDKITE\<close> variable the opening line is a section header of Buildkite and the
  closing one is not.\<close>

lemma empty_buildkite_opens_a_section:
  "let get = [''BUILDKITE'' \<mapsto> []]
   in running_header False get False ver [] ''lint'' ''lint'' True =
        banner_line False True ver @ newline @ newline @ ''--- :aspect: '' @ esc ''1;36'' @
        ''Running'' @ esc ''0'' @ '' lint task'' @ newline \<and>
      snd (finish_task uc False get NoTiming True 5 (ReturnInt 0)
        (task_info_new ''lint'' [] [] ''lint'' ''lint'' u 0)) =
        newline @ right_arrow @ '' '' @ glyph Passed @ '' '' @ esc ''1;32'' @ ''Passed'' @ esc ''0'' @
        '' lint task'' @ newline"
  by (simp add: running_header_def running_verb_color_def show_runtime_banner_def use_color_def
      on_recognized_ci_def is_ci_from_def CI_MARKERS_def sgr_reset_def sgr_def Let_def
      DEFAULT_HIGHLIGHT_COLOR_def task_label_for_def task_command_path_def finish_task_def
      unpack_task_return_def task_info_new_def close_active_phase_def render_phase_breakdown_def
      render_timing_segment_def pick_verdict_def verb_def verdict_color_def)

end
