(* ===== verification/Cmd_Tree.thy ===== *)
theory Cmd_Tree
  imports Task_Defs Task_Phases
begin

text \<open>
  The command line that the tasks make up (crates/aspect-cli/src/cmd.rs): the tree of task groups,
  the clap commands built from it, which task a parsed command line selects, and the texts that
  list groups. A \<open>BTreeMap\<close> is an association list with increasing keys. A clap \<open>Command\<close> keeps
  what the code puts in: name, about text, arguments, subcommands and whether it is hidden. The
  hidden argument whose default is the index of a task is the field \<open>cm_task_id\<close>; help templates
  are left out.
\<close>

section \<open>Ordered maps\<close>

fun bt_insert :: "string \<Rightarrow> 'a \<Rightarrow> (string \<times> 'a) list \<Rightarrow> (string \<times> 'a) list" where
  "bt_insert k v [] = [(k, v)]"
| "bt_insert k v ((l, w) # m) =
     (if k = l then (k, v) # m
      else if k < l then (k, v) # (l, w) # m else (l, w) # bt_insert k v m)"

definition bt_ok :: "(string \<times> 'a) list \<Rightarrow> bool" where
  "bt_ok m \<longleftrightarrow> sorted_wrt (<) (map fst m)"

lemma map_of_bt_insert [simp]: "map_of (bt_insert k v m) = (map_of m)(k \<mapsto> v)"
  by (induction m) auto

lemma set_keys_bt_insert: "fst ` set (bt_insert k v m) = insert k (fst ` set m)"
  by (induction k v m rule: bt_insert.induct) auto

lemma set_bt_insert_subset: "e \<in> set (bt_insert k v m) \<Longrightarrow> e = (k, v) \<or> e \<in> set m"
  by (induction k v m rule: bt_insert.induct) (auto split: if_splits)

lemma bt_ok_insert: "bt_ok m \<Longrightarrow> bt_ok (bt_insert k v m)"
proof (induction m)
  case (Cons e m)
  obtain l w where e: "e = (l, w)" by (cases e)
  have tail: "bt_ok m" and less: "\<forall>x \<in> fst ` set m. l < x"
    using Cons.prems by (auto simp: bt_ok_def e)
  have "\<forall>x \<in> fst ` set (bt_insert k v m). l < x" if "l < k"
    using that less by (simp add: set_keys_bt_insert)
  then show ?case
    using Cons.IH [OF tail] tail less by (auto simp: bt_ok_def e)
qed (simp add: bt_ok_def)

lemma bt_ok_distinct: "bt_ok m \<Longrightarrow> distinct (map fst m)"
  unfolding bt_ok_def by (induction m) auto

section \<open>The tree of groups\<close>

datatype cmd_error =
    TooManyGroups string string nat
  | NameConflict string "string list" string
  | ReservedName string string string
  | NoTaskSelected

datatype 'c tree = Tree (subgroups: "(string \<times> 'c tree) list") (tasks: "(string \<times> 'c) list")

definition empty_tree :: "'c tree" where
  "empty_tree = Tree [] []"

definition RESERVED_TOP_LEVEL_COMMANDS :: "string list" where
  "RESERVED_TOP_LEVEL_COMMANDS = [''feature'', ''describe'', ''get'']"

fun insert_at ::
  "string \<Rightarrow> string list \<Rightarrow> string list \<Rightarrow> string \<Rightarrow> 'c \<Rightarrow> 'c tree \<Rightarrow> cmd_error + 'c tree" where
  "insert_at name full_group [] label cmd t =
     (if map_of (subgroups t) name \<noteq> None \<or> map_of (tasks t) name \<noteq> None
      then Inl (NameConflict name full_group label)
      else Inr (Tree (subgroups t) (bt_insert name cmd (tasks t))))"
| "insert_at name full_group (head # rest) label cmd t =
     (if map_of (tasks t) head \<noteq> None then Inl (NameConflict head full_group label)
      else (case insert_at name full_group rest label cmd
              (case map_of (subgroups t) head of Some sub \<Rightarrow> sub | None \<Rightarrow> empty_tree) of
          Inl e \<Rightarrow> Inl e
        | Inr sub \<Rightarrow> Inr (Tree (bt_insert head sub (subgroups t)) (tasks t))))"

definition tree_insert ::
  "string list \<Rightarrow> string \<Rightarrow> string \<Rightarrow> 'c \<Rightarrow> 'c tree \<Rightarrow> cmd_error + 'c tree" where
  "tree_insert grp kind label cmd t =
     (if length grp > MAX_TASK_GROUPS then Inl (TooManyGroups kind label MAX_TASK_GROUPS)
      else if grp = [] \<and> kind \<in> set RESERVED_TOP_LEVEL_COMMANDS
      then Inl (ReservedName kind label kind)
      else insert_at kind grp grp label cmd t)"

section \<open>Listing groups\<close>

definition MEMBER_LIST_WIDTH :: nat where
  "MEMBER_LIST_WIDTH = 58"

definition ellipsis :: string where
  "ellipsis = [CHR 0xE2, CHR 0x80, CHR 0xA6]"

fun elide_loop :: "nat \<Rightarrow> nat \<Rightarrow> string \<Rightarrow> string list \<Rightarrow> string" where
  "elide_loop width i out [] = out"
| "elide_loop width i out (item # items) =
     (let sep = (if i = 0 then [] else '', '')
      in if out \<noteq> [] \<and> length out + length sep + length item > width
         then out @ '', '' @ ellipsis @ '' (+'' @ show_nat (length (item # items)) @ '' more)''
         else elide_loop width (i + 1) (out @ sep @ item) items)"

definition elide :: "string list \<Rightarrow> nat \<Rightarrow> string" where
  "elide items width = elide_loop width 0 [] items"

definition member_list :: "'c tree \<Rightarrow> string" where
  "member_list t =
     elide (map fst (tasks t) @ map (\<lambda>(g, _). g @ ''/'') (subgroups t)) MEMBER_LIST_WIDTH"

definition group_rows :: "'c tree \<Rightarrow> (string \<times> string) list" where
  "group_rows t = map (\<lambda>(name, sub). (name, member_list sub)) (subgroups t)"

definition group_section :: "(string \<times> string) list \<Rightarrow> string" where
  "group_section rows =
     (if rows = [] then []
      else (let max_len = Max (length ` fst ` set rows)
        in newline @ newline @ esc ''1;4'' @ ''Task Groups:'' @ esc ''0'' @ newline @
           concat (map (\<lambda>(name, members). ''  '' @ esc ''1'' @ name @ esc ''0'' @
             replicate (max_len - length name + 2) CHR '' '' @ members @ newline) rows)))"

section \<open>Commands\<close>

datatype command = Command
  (cm_name: string) (cm_about: string) (cm_order: "nat option") (cm_hidden: bool)
  (cm_task_id: "nat option") (cm_args: "clap_arg list") (cm_subs: "command list")
  (cm_required_or_help: bool)

definition find_subcommand :: "string \<Rightarrow> command list \<Rightarrow> command option" where
  "find_subcommand name cs = find (\<lambda>c. cm_name c = name) cs"

definition add_subcommand :: "command \<Rightarrow> command list \<Rightarrow> cmd_error + command list" where
  "add_subcommand c cs =
     (if find_subcommand (cm_name c) cs \<noteq> None then Inl (NameConflict (cm_name c) [] [])
      else Inr (cs @ [c]))"

fun add_subcommands :: "command list \<Rightarrow> command list \<Rightarrow> cmd_error + command list" where
  "add_subcommands [] cs = Inr cs"
| "add_subcommands (c # new) cs =
     (case add_subcommand c cs of Inl e \<Rightarrow> Inl e | Inr cs' \<Rightarrow> add_subcommands new cs')"

definition TASK_COMMAND_DISPLAY_ORDER :: nat where
  "TASK_COMMAND_DISPLAY_ORDER = 0"

definition TASK_GROUP_DISPLAY_ORDER :: nat where
  "TASK_GROUP_DISPLAY_ORDER = 1"

text \<open>The command of a group, with the subcommands it has been given.\<close>

definition group_command :: "string \<Rightarrow> command tree \<Rightarrow> command list \<Rightarrow> command" where
  "group_command name sub members =
     Command name (esc ''3'' @ name @ esc ''0'' @ '': '' @ member_list sub)
       (Some TASK_GROUP_DISPLAY_ORDER) True None [] members (members \<noteq> [])"

text \<open>\<open>attach\<close> of a tree to a command whose subcommands are \<open>cs\<close>: the commands of the groups, each with
  its own tree attached, come before the tasks, each checked against those before it.\<close>

fun attach :: "command tree \<Rightarrow> command list \<Rightarrow> cmd_error + command list"
and attach_groups :: "(string \<times> command tree) list \<Rightarrow> command list \<Rightarrow> cmd_error + command list"
where
  "attach (Tree subs ts) cs =
     (case attach_groups subs cs of
        Inl e \<Rightarrow> Inl e
      | Inr cs' \<Rightarrow> add_subcommands (map snd ts) cs')"
| "attach_groups [] cs = Inr cs"
| "attach_groups ((name, sub) # subs) cs =
     (case attach sub [] of
        Inl e \<Rightarrow> Inl e
      | Inr members \<Rightarrow>
          (case add_subcommand (group_command name sub members) cs of
             Inl e \<Rightarrow> Inl e
           | Inr cs' \<Rightarrow> attach_groups subs cs'))"

section \<open>The tree as a set of paths\<close>

text \<open>The task at a path, the names of its groups followed by its kind.\<close>

fun tree_at :: "string list \<Rightarrow> 'c tree \<Rightarrow> 'c option" where
  "tree_at [] t = None"
| "tree_at [k] t = map_of (tasks t) k"
| "tree_at (g # k # p) t =
     (case map_of (subgroups t) g of Some s \<Rightarrow> tree_at (k # p) s | None \<Rightarrow> None)"

fun tree_ok :: "'c tree \<Rightarrow> bool" where
  "tree_ok (Tree subs ts) \<longleftrightarrow> bt_ok subs \<and> bt_ok ts \<and> fst ` set subs \<inter> fst ` set ts = {} \<and>
     list_all (\<lambda>e. tree_ok (snd e) \<and> snd e \<noteq> Tree [] []) subs"

lemma tree_at_group:
  "p \<noteq> [] \<Longrightarrow> tree_at (g # p) t =
     (case map_of (subgroups t) g of Some s \<Rightarrow> tree_at p s | None \<Rightarrow> None)"
  by (cases p) auto

lemma tree_at_Nil_Nil [simp]: "tree_at p (Tree [] []) = None"
  by (cases p; cases "tl p") (auto simp: neq_Nil_conv)

lemma tree_at_empty [simp]: "tree_at p empty_tree = None"
  by (simp add: empty_tree_def)

lemma tree_ok_group: "tree_ok t \<Longrightarrow> map_of (subgroups t) g = Some s \<Longrightarrow> tree_ok s \<and> s \<noteq> Tree [] []"
  by (cases t) (force simp: list_all_iff dest: map_of_SomeD)

lemma tree_ok_empty [simp]: "tree_ok empty_tree" "tree_ok (Tree [] [])"
  by (simp_all add: empty_tree_def bt_ok_def)

lemma bt_insert_not_Nil [simp]: "bt_insert k v m \<noteq> []"
  by (cases "(k, v, m)" rule: bt_insert.cases) auto

lemma tree_nonempty_path:
  assumes "tree_ok t" and "t \<noteq> Tree [] []"
  obtains p c where "p \<noteq> []" and "tree_at p t = Some c"
  using assms
proof (induction t arbitrary: thesis)
  case (Tree subs ts)
  show ?case
  proof (cases ts)
    case (Cons e es)
    obtain k c where e: "e = (k, c)" by (cases e)
    show ?thesis using Tree.prems(1) [of "[k]" c] by (simp add: Cons e)
  next
    case Nil
    then obtain g s subs' where subs: "subs = (g, s) # subs'"
      using Tree.prems(3) by (metis list.exhaust surj_pair)
    moreover have "tree_ok s" "s \<noteq> Tree [] []" using Tree.prems(2) subs by auto
    ultimately obtain p c where "p \<noteq> []" and "tree_at p s = Some c"
      using Tree.IH [of "(g, s)" s] by auto
    then show ?thesis
      using Tree.prems(1) [of "g # p" c] by (simp add: tree_at_group subs)
  qed
qed

lemma insert_at_Inr:
  assumes "insert_at name fg rem label cmd t = Inr t'"
  shows "tree_at p t' = (if p = rem @ [name] then Some cmd else tree_at p t)"
    and "tree_ok t \<Longrightarrow> tree_ok t' \<and> t' \<noteq> Tree [] []"
  using assms
proof (induction name fg rem label cmd t arbitrary: p t' rule: insert_at.induct)
  case (1 name fg label cmd t)
  {
    case 1
    then show ?case by (cases p; cases "tl p") (auto split: if_splits simp: neq_Nil_conv)
  next
    case 2
    then show ?case
      by (cases t) (auto split: if_splits simp: bt_ok_insert set_keys_bt_insert map_of_eq_None_iff)
  }
next
  case (2 name fg head rest label cmd t)
  define sub where
    "sub = (case map_of (subgroups t) head of Some s \<Rightarrow> s | None \<Rightarrow> empty_tree)"
  {
    case 1
    then obtain s where ins: "insert_at name fg rest label cmd sub = Inr s"
      and t': "t' = Tree (bt_insert head s (subgroups t)) (tasks t)"
      and nt: "map_of (tasks t) head = None"
      by (auto simp: sub_def split: if_splits sum.splits)
    note IH = "2.IH"(1) [OF _ ins [unfolded sub_def]]
    show ?case
    proof (cases p)
      case (Cons g q)
      show ?thesis
      proof (cases "q = []")
        case False
        then show ?thesis
          using IH [of q] nt by (auto simp: Cons t' tree_at_group split: option.splits)
      qed (simp add: Cons t')
    qed simp
  next
    case 2
    then obtain s where ins: "insert_at name fg rest label cmd sub = Inr s"
      and t': "t' = Tree (bt_insert head s (subgroups t)) (tasks t)"
      and nt: "map_of (tasks t) head = None"
      by (auto simp: sub_def split: if_splits sum.splits)
    have sub: "tree_ok sub"
      using tree_ok_group [OF 2(1)] by (auto simp: sub_def split: option.splits)
    have "tree_ok s \<and> s \<noteq> Tree [] []"
      using "2.IH"(2) [OF _ sub [unfolded sub_def] ins [unfolded sub_def]] nt by simp
    then show ?case
      using 2(1) nt
      by (cases t) (auto simp: t' bt_ok_insert set_keys_bt_insert map_of_eq_None_iff list_all_iff
          dest: set_bt_insert_subset)
  }
qed

abbreviation clash :: "string list \<Rightarrow> string list \<Rightarrow> bool" where
  "clash p q \<equiv> prefix p q \<or> prefix q p"

lemma insert_at_succeeds:
  assumes "tree_ok t"
  shows "(\<exists>t'. insert_at name fg rem label cmd t = Inr t') \<longleftrightarrow>
    (\<forall>q. tree_at q t \<noteq> None \<longrightarrow> \<not> clash q (rem @ [name]))"
  using assms
proof (induction name fg rem label cmd t rule: insert_at.induct)
  case (1 name fg label cmd t)
  show ?case
  proof (cases "map_of (subgroups t) name")
    case (Some s)
    then obtain p c where "p \<noteq> []" and "tree_at p s = Some c"
      using tree_ok_group [OF 1] tree_nonempty_path by metis
    then have "tree_at (name # p) t \<noteq> None" and "clash (name # p) [name]"
      by (simp_all add: tree_at_group Some)
    then show ?thesis using Some by (auto simp del: prefix_Cons)
  next
    case None
    have "tree_at q t \<noteq> None \<and> clash q [name] \<longleftrightarrow> q = [name] \<and> map_of (tasks t) name \<noteq> None" for q
      using None by (cases q; cases "tl q") (auto simp: tree_at_group neq_Nil_conv)
    then have "(\<forall>q. tree_at q t \<noteq> None \<longrightarrow> \<not> clash q [name]) \<longleftrightarrow> map_of (tasks t) name = None"
      by metis
    then show ?thesis using None by simp
  qed
next
  case (2 name fg head rest label cmd t)
  define sub where
    "sub = (case map_of (subgroups t) head of Some s \<Rightarrow> s | None \<Rightarrow> empty_tree)"
  have sub: "tree_ok sub"
    using tree_ok_group [OF 2(2)] by (auto simp: sub_def split: option.splits)
  show ?case
  proof (cases "map_of (tasks t) head")
    case (Some c)
    then have "\<exists>q. tree_at q t \<noteq> None \<and> clash q ((head # rest) @ [name])"
      by (intro exI [of _ "[head]"]) simp
    then show ?thesis using Some by simp
  next
    case None
    have at: "tree_at (head # q) t = tree_at q sub" for q
      using None by (cases q) (auto simp: sub_def tree_at_group split: option.splits)
    have "(\<forall>q. tree_at q t \<noteq> None \<longrightarrow> \<not> clash q ((head # rest) @ [name])) \<longleftrightarrow>
      (\<forall>q. tree_at q sub \<noteq> None \<longrightarrow> \<not> clash q (rest @ [name]))"
    proof (intro iffI allI impI)
      fix q
      assume "\<forall>q. tree_at q t \<noteq> None \<longrightarrow> \<not> clash q ((head # rest) @ [name])" "tree_at q sub \<noteq> None"
      then show "\<not> clash q (rest @ [name])" using at [of q] by (metis append_Cons Cons_prefix_Cons)
    next
      fix q
      assume *: "\<forall>q. tree_at q sub \<noteq> None \<longrightarrow> \<not> clash q (rest @ [name])" "tree_at q t \<noteq> None"
      then have "q \<noteq> []" by auto
      then obtain g q' where q: "q = g # q'" by (cases q) auto
      show "\<not> clash q ((head # rest) @ [name])"
        using * at [of q'] by (cases "g = head") (auto simp: q)
    qed
    moreover have "(\<exists>t'. insert_at name fg (head # rest) label cmd t = Inr t') \<longleftrightarrow>
      (\<exists>s. insert_at name fg rest label cmd sub = Inr s)"
      using None by (cases "insert_at name fg rest label cmd sub") (simp_all add: sub_def)
    ultimately show ?thesis
      using "2.IH" None sub by (simp only: sub_def) simp
  qed
qed

section \<open>Attaching\<close>

text \<open>The commands a tree stands for, without the checks of \<open>attach\<close>.\<close>

fun commands_of :: "command tree \<Rightarrow> command list" where
  "commands_of (Tree subs ts) =
     map (\<lambda>e. group_command (fst e) (snd e) (commands_of (snd e))) subs @ map snd ts"

fun names_ok :: "command tree \<Rightarrow> bool" where
  "names_ok (Tree subs ts) \<longleftrightarrow>
     list_all (\<lambda>e. cm_name (snd e) = fst e \<and> cm_subs (snd e) = [] \<and> cm_task_id (snd e) \<noteq> None) ts \<and>
     list_all (\<lambda>e. names_ok (snd e)) subs"

definition top_names :: "'c tree \<Rightarrow> string set" where
  "top_names t = fst ` set (subgroups t) \<union> fst ` set (tasks t)"

abbreviation cm_names :: "command list \<Rightarrow> string set" where
  "cm_names cs \<equiv> cm_name ` set cs"

lemma find_subcommand_None: "find_subcommand n cs = None \<longleftrightarrow> n \<notin> cm_names cs"
  by (auto simp: find_subcommand_def find_None_iff)

lemma add_subcommand_fresh:
  "cm_name c \<notin> cm_names cs \<Longrightarrow> add_subcommand c cs = Inr (cs @ [c])"
  "cm_name c \<in> cm_names cs \<Longrightarrow> add_subcommand c cs = Inl (NameConflict (cm_name c) [] [])"
  by (simp_all add: add_subcommand_def find_subcommand_None)

lemma add_subcommands_fresh:
  "distinct (map cm_name new) \<Longrightarrow> cm_names new \<inter> cm_names cs = {} \<Longrightarrow>
   add_subcommands new cs = Inr (cs @ new)"
  by (induction new arbitrary: cs) (auto simp: add_subcommand_fresh)

lemma add_subcommands_clash:
  "cm_names new \<inter> cm_names cs \<noteq> {} \<Longrightarrow>
   \<exists>n \<in> cm_names new. add_subcommands new cs = Inl (NameConflict n [] [])"
proof (induction new arbitrary: cs)
  case (Cons c new)
  show ?case
  proof (cases "cm_name c \<in> cm_names cs")
    case False
    then have "cm_names new \<inter> cm_names (cs @ [c]) \<noteq> {}" using Cons.prems by auto
    from Cons.IH [OF this] show ?thesis using False by (auto simp: add_subcommand_fresh)
  qed (simp add: add_subcommand_fresh)
qed simp

lemma cm_name_group_command [simp]: "cm_name (group_command n sub members) = n"
  by (simp add: group_command_def)

lemma attach_fresh:
  "tree_ok t \<Longrightarrow> names_ok t \<Longrightarrow> top_names t \<inter> cm_names cs = {} \<Longrightarrow>
   attach t cs = Inr (cs @ commands_of t)"
  "distinct (map fst subs) \<Longrightarrow> list_all (\<lambda>e. tree_ok (snd e) \<and> names_ok (snd e)) subs \<Longrightarrow>
   fst ` set subs \<inter> cm_names cs = {} \<Longrightarrow>
   attach_groups subs cs =
     Inr (cs @ map (\<lambda>e. group_command (fst e) (snd e) (commands_of (snd e))) subs)"
proof (induction t cs and subs cs rule: attach_attach_groups.induct)
  case (1 subs ts cs)
  let ?groups = "map (\<lambda>e. group_command (fst e) (snd e) (commands_of (snd e))) subs"
  have names: "map cm_name (map snd ts) = map fst ts" using 1(3) by (simp add: list_all_iff)
  then have ts: "cm_names (map snd ts) = fst ` set ts" by (metis list.set_map)
  have gs: "cm_names ?groups = fst ` set subs" by (simp add: image_image)
  have "attach_groups subs cs = Inr (cs @ ?groups)"
    using 1 by (auto simp: bt_ok_distinct top_names_def list_all_iff Int_Un_distrib2)
  moreover have "add_subcommands (map snd ts) (cs @ ?groups) = Inr ((cs @ ?groups) @ map snd ts)"
    using 1(2,4) by (intro add_subcommands_fresh)
      (unfold names ts set_append image_Un gs, auto simp: bt_ok_distinct top_names_def)
  ultimately show ?case by simp
next
  case (3 name sub subs cs)
  then show ?case
    by (auto simp: top_names_def add_subcommand_fresh)
qed simp

lemma attach_groups_clash:
  "list_all (\<lambda>e. tree_ok (snd e) \<and> names_ok (snd e)) subs \<Longrightarrow>
   fst ` set subs \<inter> cm_names cs \<noteq> {} \<Longrightarrow>
   \<exists>n \<in> fst ` set subs. attach_groups subs cs = Inl (NameConflict n [] [])"
proof (induction subs arbitrary: cs)
  case (Cons e subs)
  obtain name sub where e: "e = (name, sub)" by (cases e)
  have members: "attach sub [] = Inr (commands_of sub)"
    using Cons.prems(1) by (simp add: e attach_fresh(1))
  let ?g = "group_command name sub (commands_of sub)"
  show ?case
  proof (cases "name \<in> cm_names cs")
    case True
    then show ?thesis
      using members by (simp add: e add_subcommand_fresh(2))
  next
    case False
    then have "fst ` set subs \<inter> cm_names (cs @ [?g]) \<noteq> {}" using Cons.prems(2) by (auto simp: e)
    then obtain n where "n \<in> fst ` set subs"
      and "attach_groups subs (cs @ [?g]) = Inl (NameConflict n [] [])"
      using Cons.IH [of "cs @ [?g]"] Cons.prems(1) by auto
    then show ?thesis
      using members False by (auto simp: e add_subcommand_fresh(1))
  qed
qed simp

lemma attach_clash:
  assumes "tree_ok t" and "names_ok t" and "top_names t \<inter> cm_names cs \<noteq> {}"
  shows "\<exists>n \<in> top_names t. attach t cs = Inl (NameConflict n [] [])"
proof (cases t)
  case (Tree subs ts)
  have ok: "list_all (\<lambda>e. tree_ok (snd e) \<and> names_ok (snd e)) subs"
    using assms(1,2) by (auto simp: Tree list_all_iff)
  have ts: "cm_names (map snd ts) = fst ` set ts"
    using assms(2) by (force simp: Tree list_all_iff)
  show ?thesis
  proof (cases "fst ` set subs \<inter> cm_names cs = {}")
    case False
    from attach_groups_clash [OF ok this] obtain n where "n \<in> fst ` set subs"
      and "attach_groups subs cs = Inl (NameConflict n [] [])" by blast
    then show ?thesis by (auto simp: Tree top_names_def)
  next
    case True
    let ?cs = "cs @ map (\<lambda>e. group_command (fst e) (snd e) (commands_of (snd e))) subs"
    have "attach_groups subs cs = Inr ?cs"
      using attach_fresh(2) [OF _ ok True] assms(1) by (simp add: Tree bt_ok_distinct)
    moreover have "cm_names (map snd ts) \<inter> cm_names ?cs \<noteq> {}"
      using assms(3) True by (auto simp: ts [simplified] Tree top_names_def image_Un)
    from add_subcommands_clash [OF this] obtain n where "n \<in> fst ` set ts"
      and "add_subcommands (map snd ts) ?cs = Inl (NameConflict n [] [])"
      using ts by auto
    ultimately show ?thesis by (auto simp: Tree top_names_def)
  qed
qed

text \<open>Walking down a command by names, as clap does with the words of a command line.\<close>

fun command_at :: "string list \<Rightarrow> command list \<Rightarrow> command option" where
  "command_at [] cs = None"
| "command_at (n # p) cs =
     (case find_subcommand n cs of
        None \<Rightarrow> None
      | Some c \<Rightarrow> if p = [] then Some c else command_at p (cm_subs c))"

lemma find_subcommand_append:
  "find_subcommand n (cs @ ds) =
     (case find_subcommand n cs of Some c \<Rightarrow> Some c | None \<Rightarrow> find_subcommand n ds)"
  unfolding find_subcommand_def by (induction cs) auto

lemma find_subcommand_keyed:
  "(\<And>e. e \<in> set m \<Longrightarrow> cm_name (f e) = fst e) \<Longrightarrow>
   find_subcommand n (map f m) = map_option (\<lambda>v. f (n, v)) (map_of m n)"
  unfolding find_subcommand_def by (induction m) (auto simp: prod_eq_iff)

lemma find_commands_of:
  assumes "tree_ok t" and "names_ok t"
  shows "find_subcommand n (commands_of t) =
    (case map_of (subgroups t) n of
       Some s \<Rightarrow> Some (group_command n s (commands_of s))
     | None \<Rightarrow> map_of (tasks t) n)"
proof (cases t)
  case (Tree subs ts)
  have "find_subcommand n (map snd ts) = map_of ts n"
    using assms(2) find_subcommand_keyed [of ts snd n] by (simp add: Tree list_all_iff option.map_ident)
  then show ?thesis
    by (simp add: Tree find_subcommand_append find_subcommand_keyed option.map_comp split: option.splits)
qed

lemma command_at_tree:
  assumes "tree_ok t" and "names_ok t"
  shows "command_at p (commands_of t) = Some c \<and> cm_task_id c \<noteq> None \<longleftrightarrow> tree_at p t = Some c"
  using assms
proof (induction p arbitrary: t)
  case (Cons n p)
  note find = find_commands_of [OF Cons.prems, of n]
  show ?case
  proof (cases "map_of (subgroups t) n")
    case (Some s)
    have s: "tree_ok s" "names_ok s"
      using tree_ok_group [OF Cons.prems(1) Some] Cons.prems(2) map_of_SomeD [OF Some]
      by (cases t; force simp: list_all_iff)+
    have "map_of (tasks t) n = None"
      using Cons.prems(1) Some
      by (cases t) (force simp: map_of_eq_None_iff dest!: map_of_SomeD)
    then show ?thesis
      using find Some Cons.IH [OF s]
      by (cases "p = []") (auto simp: group_command_def tree_at_group)
  next
    case None
    show ?thesis
    proof (cases "map_of (tasks t) n")
      case (Some d)
      then have "cm_subs d = []" "cm_task_id d \<noteq> None"
        using Cons.prems(2) map_of_SomeD [OF Some] by (cases t; force simp: list_all_iff)+
      then show ?thesis
        using find None Some by (cases p) (auto simp: tree_at_group find_subcommand_def)
    next
      case 2: None
      then show ?thesis using find None by (cases p) (auto simp: tree_at_group)
    qed
  qed
qed simp

section \<open>The command tree of a repository\<close>

definition AXL_ROOT_MODULE_NAME :: string where
  "AXL_ROOT_MODULE_NAME = ''root''"

text \<open>Where a task is defined; a module is its name and its root directory.\<close>

fun defined_in_label :: "string \<Rightarrow> string \<Rightarrow> (string \<times> string) list \<Rightarrow> string" where
  "defined_in_label path aspect_root [] =
     (case path_strip_prefix aspect_root path of Some rel \<Rightarrow> rel | None \<Rightarrow> path)"
| "defined_in_label path aspect_root ((name, root) # mods) =
     (if name = AXL_ROOT_MODULE_NAME \<or> path_strip_prefix root path = None
      then defined_in_label path aspect_root mods
      else ''@'' @ name @ ''//'' @
        (case path_strip_prefix root path of Some rel \<Rightarrow> rel | None \<Rightarrow> path))"

definition needs_summary_warning :: "string \<Rightarrow> string \<Rightarrow> bool" where
  "needs_summary_warning summary defined_in \<longleftrightarrow> summary = [] \<and> \<not> starts_with ''@'' defined_in"

definition task_arg :: "(string \<times> string list) list \<Rightarrow> string \<times> 'v arg \<Rightarrow> clap_arg option" where
  "task_arg overrides e =
     map_option (\<lambda>ca. case map_of overrides (fst e) of
         Some over \<Rightarrow> with_override ca (snd e) over
       | None \<Rightarrow> ca) (arg_to_clap TaskScope (fst e) (snd e))"

definition hidden_args :: "'v feature_block \<Rightarrow> clap_arg option list" where
  "hidden_args block =
     map (\<lambda>(n, a). map_option (\<lambda>ca. ca\<lparr>ca_hidden := True\<rparr>)
       (arg_to_clap (FeatureScope (fb_prefix block)) n a)) (fb_args block)"

definition context_line :: "string \<Rightarrow> string \<Rightarrow> string" where
  "context_line kind label =
     esc ''3'' @ kind @ esc ''0'' @ '' task defined in '' @ esc ''3'' @ label @ esc ''0''"

text \<open>\<open>None\<close> is the panic of \<open>arg_to_clap\<close> on an argument that has no flag.\<close>

definition task_command ::
  "('v star \<Rightarrow> string) \<Rightarrow> nat \<Rightarrow> 'v task \<Rightarrow> string \<Rightarrow> 'v feature_block list \<Rightarrow> command option" where
  "task_command txt index t label blocks =
     map_option (\<lambda>args. Command (tk_kind t)
         (if tk_summary t = [] then context_line (tk_kind t) label else tk_summary t)
         (Some TASK_COMMAND_DISPLAY_ORDER) False (Some index) args [] False)
       (those (map (task_arg (stringify_overrides txt (Some (tk_overrides t))))
           (cli_args (tk_args t)) @ concat (map hidden_args blocks)))"

text \<open>The commands that \<open>main\<close> and clap handle themselves; their own arguments are left out.\<close>

definition builtin_commands :: "command list" where
  "builtin_commands =
     [Command ''feature'' ''List features and show a feature's flags'' None True None [] [] False,
      Command ''describe'' ''Print the resolved task, flag and feature surface as JSON''
        None True None [] [] False,
      Command ''version'' ''Print version'' None True None [] [] False,
      Command ''help'' ''Print this message or the help of the given subcommand(s)''
        None True None [] [] False]"

fun insert_tasks ::
  "('v star \<Rightarrow> string) \<Rightarrow> ('v task \<Rightarrow> string) \<Rightarrow> 'v feature_block list \<Rightarrow> nat \<Rightarrow> 'v task list \<Rightarrow>
   command tree \<Rightarrow> (cmd_error + command tree) option" where
  "insert_tasks txt label blocks index [] t = Some (Inr t)"
| "insert_tasks txt label blocks index (tk # tks) t =
     (case task_command txt index tk (label tk) blocks of
        None \<Rightarrow> None
      | Some cmd \<Rightarrow>
          (case tree_insert (tk_group tk) (tk_kind tk) (label tk) cmd t of
             Inl e \<Rightarrow> Some (Inl e)
           | Inr t' \<Rightarrow> insert_tasks txt label blocks (Suc index) tks t'))"

definition root_about :: string where
  "root_about = ''Aspect's programmable task runner built on top of Bazel'' @ newline @
     ''{ Correct, Fast, Usable } -- Choose three''"

definition build ::
  "('v star \<Rightarrow> string) \<Rightarrow> string \<Rightarrow> (string \<times> string) list \<Rightarrow> 'v feature list \<Rightarrow> 'v task list \<Rightarrow>
   (cmd_error + command) option" where
  "build txt aspect_root mods features tks =
     map_option (\<lambda>r. case r of
         Inl e \<Rightarrow> Inl e
       | Inr t \<Rightarrow> map_sum id
           (\<lambda>subs. Command ''aspect'' root_about None False None [] subs (subs \<noteq> []))
           (attach t builtin_commands))
       (insert_tasks txt (\<lambda>tk. defined_in_label (tk_path tk) aspect_root mods)
          (List.map_filter (feature_block txt) features) 0 tks empty_tree)"

definition command_path :: "'v task \<Rightarrow> string list" where
  "command_path tk = tk_group tk @ [tk_kind tk]"

lemma command_path_not_Nil [simp]: "command_path tk \<noteq> []"
  by (simp add: command_path_def)

text \<open>No argument that reaches clap lacks a flag.\<close>

lemma arg_to_clap_exposed: "is_cli_exposed a \<Longrightarrow> arg_to_clap sc n a \<noteq> None"
  by (cases a) (auto simp: is_cli_exposed_def arg_to_clap_def Let_def split: option.splits)

lemma bake_default_exposed [simp]: "is_cli_exposed (bake_default first a) = is_cli_exposed a"
  by (cases a) (auto simp: bake_default_def is_cli_exposed_def split: option.splits)

lemma feature_block_exposed:
  "feature_block txt f = Some b \<Longrightarrow> (n, a) \<in> set (fb_args b) \<Longrightarrow> is_cli_exposed a"
  by (auto simp: feature_block_def Let_def cli_args_def split: if_splits option.splits list.splits)

lemma those_Some_iff: "(\<exists>xs. those ys = Some xs) \<longleftrightarrow> None \<notin> set ys"
  by (induction ys) (auto split: option.splits)

lemma task_command_Some:
  assumes "\<And>b. b \<in> set blocks \<Longrightarrow> \<exists>f. feature_block txt f = Some b"
  obtains c where "task_command txt index tk label blocks = Some c" and "cm_name c = tk_kind tk"
    and "cm_task_id c = Some index" and "cm_subs c = []"
proof -
  have "None \<notin> set (map (task_arg ov) (cli_args (tk_args tk)))" for ov
    by (auto simp: task_arg_def cli_args_def arg_to_clap_exposed)
  moreover have "None \<notin> set (hidden_args b)" if b: "b \<in> set blocks" for b
  proof -
    obtain f where "feature_block txt f = Some b" using assms [OF b] by blast
    from feature_block_exposed [OF this] show ?thesis
      by (auto simp: hidden_args_def dest: arg_to_clap_exposed)
  qed
  ultimately have "None \<notin> set (map (task_arg (stringify_overrides txt (Some (tk_overrides tk))))
      (cli_args (tk_args tk)) @ concat (map hidden_args blocks))" by auto
  then show ?thesis
    unfolding those_Some_iff [symmetric]
    using that by (elim exE) (simp add: task_command_def)
qed

definition placeable :: "string list \<Rightarrow> bool" where
  "placeable p \<longleftrightarrow> length p \<le> MAX_TASK_GROUPS + 1 \<and>
     (length p = 1 \<longrightarrow> hd p \<notin> set RESERVED_TOP_LEVEL_COMMANDS)"

lemma tree_insert_iff:
  assumes "tree_ok t"
  shows "(\<exists>t'. tree_insert grp kind label cmd t = Inr t') \<longleftrightarrow>
    placeable (grp @ [kind]) \<and> (\<forall>q. tree_at q t \<noteq> None \<longrightarrow> \<not> clash q (grp @ [kind]))"
  using insert_at_succeeds [OF assms, of kind grp grp label cmd]
  by (auto simp: tree_insert_def placeable_def)

lemma names_ok_insert_at:
  assumes "insert_at name fg rem label cmd t = Inr t'" and "names_ok t"
    and "cm_name cmd = name" "cm_subs cmd = []" "cm_task_id cmd \<noteq> None"
  shows "names_ok t'"
  using assms
proof (induction name fg rem label cmd t arbitrary: t' rule: insert_at.induct)
  case (1 name fg label cmd t)
  then show ?case
    by (cases t) (auto split: if_splits simp: list_all_iff dest!: set_bt_insert_subset)
next
  case (2 name fg head rest label cmd t)
  let ?sub = "case map_of (subgroups t) head of Some s \<Rightarrow> s | None \<Rightarrow> empty_tree"
  obtain s where nt: "map_of (tasks t) head = None"
    and ins: "insert_at name fg rest label cmd ?sub = Inr s"
    and t': "t' = Tree (bt_insert head s (subgroups t)) (tasks t)"
    using "2.prems"(1) by (auto split: if_splits sum.splits)
  have "names_ok ?sub"
    using "2.prems"(2) by (cases t) (force simp: list_all_iff empty_tree_def split: option.splits
        dest: map_of_SomeD)
  then have "names_ok s" using "2.IH" nt ins "2.prems"(3-5) by simp
  then show ?case
    using "2.prems"(2) by (cases t) (auto simp: t' list_all_iff dest!: set_bt_insert_subset)
qed

text \<open>The tree after the tasks with the paths \<open>ps\<close>, in this order.\<close>

definition represents :: "command tree \<Rightarrow> string list list \<Rightarrow> bool" where
  "represents t ps \<longleftrightarrow> tree_ok t \<and> names_ok t \<and>
     (\<forall>p i. (\<exists>c. tree_at p t = Some c \<and> cm_task_id c = Some i) \<longleftrightarrow> i < length ps \<and> ps ! i = p)"

definition acceptable :: "string list list \<Rightarrow> bool" where
  "acceptable ps \<longleftrightarrow> list_all placeable ps \<and> sorted_wrt (\<lambda>p q. \<not> clash p q) ps"

lemma acceptable_snoc:
  "acceptable (ps @ [p]) \<longleftrightarrow> acceptable ps \<and> placeable p \<and> (\<forall>q \<in> set ps. \<not> clash q p)"
  by (auto simp: acceptable_def sorted_wrt_append)

lemma acceptable_append: "acceptable (ps @ qs) \<Longrightarrow> acceptable ps"
  by (simp add: acceptable_def sorted_wrt_append)

lemma names_ok_task_id:
  "names_ok t \<Longrightarrow> tree_at p t = Some c \<Longrightarrow> cm_task_id c \<noteq> None"
proof (induction p t rule: tree_at.induct)
  case (2 k t)
  then show ?case by (cases t) (auto simp: list_all_iff dest!: map_of_SomeD)
next
  case (3 g k p t)
  then show ?case
    by (cases t) (force simp: list_all_iff split: option.splits dest: map_of_SomeD)
qed simp

lemma represents_paths: "represents t ps \<Longrightarrow> tree_at q t \<noteq> None \<longleftrightarrow> q \<in> set ps"
  unfolding represents_def in_set_conv_nth by (metis names_ok_task_id option.exhaust option.distinct(1))

lemma represents_insert:
  assumes "represents t ps" and "tree_insert grp kind label cmd t = Inr t'"
    and "cm_name cmd = kind" "cm_subs cmd = []" "cm_task_id cmd = Some (length ps)"
  shows "represents t' (ps @ [grp @ [kind]])"
proof -
  have ins: "insert_at kind grp grp label cmd t = Inr t'"
    using assms(2) by (simp add: tree_insert_def split: if_splits)
  have "tree_at (grp @ [kind]) t = None"
    using tree_insert_iff [of t grp kind label cmd] assms(1,2) by (auto simp: represents_def)
  then have "i < length ps \<Longrightarrow> ps ! i \<noteq> grp @ [kind]" for i
    using assms(1) by (metis represents_def option.distinct(1))
  then show ?thesis
    using assms insert_at_Inr(2) [OF ins] names_ok_insert_at [OF ins]
    by (auto simp: represents_def insert_at_Inr(1) [OF ins] nth_append less_Suc_eq)
qed

lemma insert_tasks_spec:
  assumes "represents t ps" and "acceptable ps"
    and blocks: "\<And>b. b \<in> set blocks \<Longrightarrow> \<exists>f. feature_block txt f = Some b"
  shows "if acceptable (ps @ map command_path tks)
    then \<exists>t'. insert_tasks txt label blocks (length ps) tks t = Some (Inr t') \<and>
      represents t' (ps @ map command_path tks)
    else \<exists>e. insert_tasks txt label blocks (length ps) tks t = Some (Inl e)"
  using assms(1,2)
proof (induction tks arbitrary: t ps)
  case (Cons tk tks)
  obtain c where c: "task_command txt (length ps) tk (label tk) blocks = Some c"
    "cm_name c = tk_kind tk" "cm_task_id c = Some (length ps)" "cm_subs c = []"
    using task_command_Some [OF blocks] by blast
  have iff: "(\<exists>t'. tree_insert (tk_group tk) (tk_kind tk) (label tk) c t = Inr t') \<longleftrightarrow>
      acceptable (ps @ [command_path tk])"
    using tree_insert_iff [of t] Cons.prems represents_paths [OF Cons.prems(1)]
    by (auto simp: represents_def acceptable_snoc command_path_def)
  show ?case
  proof (cases "tree_insert (tk_group tk) (tk_kind tk) (label tk) c t")
    case (Inl e)
    then have "\<not> acceptable (ps @ map command_path (tk # tks))"
      using iff acceptable_append [of "ps @ [command_path tk]" "map command_path tks"] by auto
    then show ?thesis using c(1) Inl by simp
  next
    case (Inr t')
    have "represents t' (ps @ [command_path tk])"
      using represents_insert [OF Cons.prems(1) Inr c(2,4,3)] by (simp add: command_path_def)
    moreover have "acceptable (ps @ [command_path tk])" using iff Inr by blast
    ultimately show ?thesis
      using Cons.IH [of t' "ps @ [command_path tk]"] c(1) Inr by (simp split: if_splits)
  qed
qed simp

definition builtin_names :: "string set" where
  "builtin_names = {''feature'', ''describe'', ''version'', ''help''}"

lemma builtin_names: "cm_names builtin_commands = builtin_names"
  by (auto simp: builtin_commands_def builtin_names_def)

lemma top_names_represents:
  assumes "represents t ps" shows "top_names t = hd ` set ps"
proof -
  obtain subs ts where t: "t = Tree subs ts" by (cases t)
  have "n \<in> hd ` set ps" if n: "n \<in> top_names t" for n
  proof (cases "map_of (subgroups t) n")
    case (Some s)
    then obtain p c where "p \<noteq> []" "tree_at p s = Some c"
      using tree_ok_group [OF _ Some] assms tree_nonempty_path by (metis represents_def)
    then have "tree_at (n # p) t \<noteq> None" by (simp add: tree_at_group Some)
    then have "n # p \<in> set ps" using represents_paths [OF assms] by blast
    from imageI [OF this, of hd] show ?thesis by simp
  next
    case None
    then have "tree_at [n] t \<noteq> None"
      using n by (auto simp: t top_names_def map_of_eq_None_iff)
    then have "[n] \<in> set ps" using represents_paths [OF assms] by blast
    from imageI [OF this, of hd] show ?thesis by simp
  qed
  moreover have "hd p \<in> top_names t" if "p \<in> set ps" for p
  proof -
    have "tree_at p t \<noteq> None" using that represents_paths [OF assms] by simp
    then show ?thesis
      by (cases p; cases "tl p")
        (auto simp: t top_names_def neq_Nil_conv rev_image_eqI split: option.splits
          dest: map_of_SomeD)
  qed
  ultimately show ?thesis by blast
qed

lemma feature_blocks_from:
  "b \<in> set (List.map_filter (feature_block txt) features) \<Longrightarrow> \<exists>f. feature_block txt f = Some b"
  by (auto simp: List.map_filter_def)

lemma represents_Nil: "represents empty_tree []" "acceptable []"
  by (simp_all add: represents_def acceptable_def) (simp add: empty_tree_def)

lemma find_builtin: "find_subcommand n builtin_commands = Some c \<Longrightarrow> cm_task_id c = None \<and> cm_subs c = []"
proof -
  assume "find_subcommand n builtin_commands = Some c"
  then have "c \<in> set builtin_commands" by (auto simp: find_subcommand_def find_Some_iff)
  then show ?thesis by (auto simp: builtin_commands_def)
qed

definition reachable_paths :: "'v task list \<Rightarrow> bool" where
  "reachable_paths tks \<longleftrightarrow> acceptable (map command_path tks) \<and>
     builtin_names \<inter> (hd \<circ> command_path) ` set tks = {}"

lemma build_spec:
  "if reachable_paths tks
   then \<exists>t subs. build txt aspect_root mods features tks =
          Some (Inr (Command ''aspect'' root_about None False None [] subs True)) \<and>
        subs = builtin_commands @ commands_of t \<and> represents t (map command_path tks)
   else \<exists>e. build txt aspect_root mods features tks = Some (Inl e)"
proof -
  let ?ps = "map command_path tks"
  let ?label = "\<lambda>tk. defined_in_label (tk_path tk) aspect_root mods"
  have spec: "if acceptable ?ps
    then \<exists>t'. insert_tasks txt ?label (List.map_filter (feature_block txt) features) 0 tks empty_tree =
        Some (Inr t') \<and> represents t' ?ps
    else \<exists>e. insert_tasks txt ?label (List.map_filter (feature_block txt) features) 0 tks empty_tree =
        Some (Inl e)"
    using insert_tasks_spec [OF represents_Nil feature_blocks_from] by (simp only: append_Nil list.size)
  show ?thesis
  proof (cases "acceptable ?ps")
    case False
    then show ?thesis using spec by (auto simp: build_def reachable_paths_def)
  next
    case True
    then obtain t where t: "insert_tasks txt ?label (List.map_filter (feature_block txt) features) 0
        tks empty_tree = Some (Inr t)" and rep: "represents t ?ps"
      using spec by auto
    have top: "top_names t = (hd \<circ> command_path) ` set tks"
      using top_names_represents [OF rep] by (simp add: image_image)
    have ok: "tree_ok t" "names_ok t" using rep by (simp_all add: represents_def)
    show ?thesis
    proof (cases "top_names t \<inter> cm_names builtin_commands = {}")
      case True
      have "builtin_commands \<noteq> []" by (simp add: builtin_commands_def)
      then show ?thesis
        using attach_fresh(1) [OF ok True] rep True \<open>acceptable ?ps\<close> t
        by (auto simp: build_def reachable_paths_def top builtin_names Int_commute)
    next
      case False
      then show ?thesis
        using attach_clash [OF ok False] t
        by (auto simp: build_def reachable_paths_def top builtin_names Int_commute)
    qed
  qed
qed

lemma command_at_builtin:
  "command_at p (builtin_commands @ cs) = Some c \<Longrightarrow> cm_task_id c \<noteq> None \<Longrightarrow>
   command_at p cs = Some c"
  by (cases p; cases "find_subcommand (hd p) builtin_commands"; cases "tl p")
    (auto simp: find_subcommand_append find_subcommand_def [of _ "[]"] dest: find_builtin)

lemma command_at_fresh:
  "hd p \<notin> builtin_names \<Longrightarrow> command_at p (builtin_commands @ cs) = command_at p cs"
  using find_subcommand_None [of "hd p" builtin_commands]
  by (cases p) (auto simp: find_subcommand_append builtin_names)

text \<open>Both halves of this are about the paths of all tasks, so every failure is a name conflict, a
  reserved name or too many groups, and the command line cannot reach a task in a second way.\<close>

theorem build_succeeds_iff:
  "build txt aspect_root mods features tks \<noteq> None \<and>
   ((\<exists>root. build txt aspect_root mods features tks = Some (Inr root)) \<longleftrightarrow> reachable_paths tks)"
  using build_spec [of tks "txt" aspect_root mods features] by (cases "reachable_paths tks") auto

text \<open>In a command tree that was built, the commands that stand for the task with index \<open>i\<close> are
  exactly the one at the path of that task: every task can be selected, by one path only, and no
  built-in command or group stands for a task.\<close>

lemma built_command_selects:
  assumes "build txt aspect_root mods features tks = Some (Inr root)"
  shows "(\<exists>c. command_at p (cm_subs root) = Some c \<and> cm_task_id c = Some i) \<longleftrightarrow>
    i < length tks \<and> p = command_path (tks ! i)"
proof -
  obtain t where ok: "reachable_paths tks" and subs: "cm_subs root = builtin_commands @ commands_of t"
    and rep: "represents t (map command_path tks)"
    using build_spec [of tks "txt" aspect_root mods features] assms
    by (cases "reachable_paths tks") auto
  have t: "tree_ok t" "names_ok t"
    and at: "\<And>p i. (\<exists>c. tree_at p t = Some c \<and> cm_task_id c = Some i) \<longleftrightarrow>
      i < length tks \<and> p = command_path (tks ! i)"
    using rep by (auto simp: represents_def)
  have eq: "(\<exists>c. command_at p (commands_of t) = Some c \<and> cm_task_id c = Some i) \<longleftrightarrow>
      i < length tks \<and> p = command_path (tks ! i)"
    using command_at_tree [OF t, of p] at [of p i] by (metis option.distinct(1))
  show ?thesis
  proof
    assume "\<exists>c. command_at p (cm_subs root) = Some c \<and> cm_task_id c = Some i"
    then show "i < length tks \<and> p = command_path (tks ! i)"
      using eq command_at_builtin [of p "commands_of t"] by (auto simp: subs)
  next
    assume *: "i < length tks \<and> p = command_path (tks ! i)"
    then have "hd p \<notin> builtin_names"
      using ok by (auto simp: reachable_paths_def)
    then show "\<exists>c. command_at p (cm_subs root) = Some c \<and> cm_task_id c = Some i"
      using eq * by (simp add: subs command_at_fresh)
  qed
qed

section \<open>Dispatch\<close>

text \<open>What clap makes of a command line: per command the value of the hidden argument that holds the
  task index, the global flags, and the subcommand that follows.\<close>

record run_flags =
  rf_names :: name_flags
  rf_friendly_name :: "string option"
  rf_uuid :: "string option"
  rf_timing :: "timing_mode option"

datatype arg_matches =
  Matches (am_task_id: "nat option") (am_flags: run_flags) (am_sub: "(string \<times> arg_matches) option")

fun leaf_of :: "string \<Rightarrow> arg_matches \<Rightarrow> string \<times> arg_matches" where
  "leaf_of n (Matches i fl None) = (n, Matches i fl None)"
| "leaf_of n (Matches i fl (Some (m, s))) = leaf_of m s"

definition deepest_subcommand :: "arg_matches \<Rightarrow> arg_matches option" where
  "deepest_subcommand m = map_option (\<lambda>(n, s). snd (leaf_of n s)) (am_sub m)"

definition leaf_command_name :: "arg_matches \<Rightarrow> string option" where
  "leaf_command_name m = map_option (\<lambda>(n, s). fst (leaf_of n s)) (am_sub m)"

record dispatched =
  di_task_id :: nat
  di_task_name :: string
  di_meaningful :: bool
  di_friendly_name :: "string option"
  di_uuid :: "string option"
  di_timing :: timing_mode

definition dispatch ::
  "env \<Rightarrow> bool \<Rightarrow> (string \<Rightarrow> bool) \<Rightarrow> string \<Rightarrow> string set \<Rightarrow> arg_matches \<Rightarrow>
   cmd_error + dispatched \<times> string set" where
  "dispatch get dir_ok fails random_suffix taken m =
     (case deepest_subcommand m of
        None \<Rightarrow> Inl NoTaskSelected
      | Some leaf \<Rightarrow>
          (case am_task_id leaf of
             None \<Rightarrow> Inl NoTaskSelected
           | Some task_id \<Rightarrow>
               (let fl = am_flags leaf;
                    kind = (case leaf_command_name m of Some n \<Rightarrow> n | None \<Rightarrow> []);
                    (name, taken') =
                      dispatch_task_name get dir_ok fails (rf_names fl) kind random_suffix taken
                in Inr (\<lparr>di_task_id = task_id, di_task_name = at_name name,
                    di_meaningful = at_meaningful name, di_friendly_name = rf_friendly_name fl,
                    di_uuid = rf_uuid fl,
                    di_timing = (case rf_timing fl of Some t \<Rightarrow> t | None \<Rightarrow> default_timing)\<rparr>,
                  taken'))))"

text \<open>The words of a command line that name commands.\<close>

fun command_words :: "arg_matches \<Rightarrow> string list" where
  "command_words (Matches i fl None) = []"
| "command_words (Matches i fl (Some (n, s))) = n # command_words s"

lemma leaf_of_name: "fst (leaf_of n m) = last (n # command_words m)"
  by (induction n m rule: leaf_of.induct) (auto split: if_splits)

lemma leaf_command_name_words:
  "leaf_command_name m = (if command_words m = [] then None else Some (last (command_words m)))"
  by (cases m rule: command_words.cases) (auto simp: leaf_command_name_def leaf_of_name)

text \<open>C12. The command line selects the task it names. Let clap give the last command of the line the
  index that \<open>build\<close> put there as a default. Then the run is that of a task exactly when the words of
  the line are the groups and the kind of some task, and of no other task; a default name is made
  from the kind of that task.\<close>

theorem command_line_selects_its_task:
  assumes "build txt aspect_root mods features tks = Some (Inr root)"
    and "map_option am_task_id (deepest_subcommand m) =
      map_option cm_task_id (command_at (command_words m) (cm_subs root))"
  shows "(case dispatch get dir_ok fails random_suffix taken m of
      Inl e \<Rightarrow> e = NoTaskSelected \<and> command_words m \<notin> set (map command_path tks)
    | Inr (d, taken') \<Rightarrow> di_task_id d < length tks \<and>
        command_words m = command_path (tks ! di_task_id d) \<and>
        (\<exists>leaf. deepest_subcommand m = Some leaf \<and>
          (\<lparr>at_name = di_task_name d, at_meaningful = di_meaningful d\<rparr>, taken') =
            dispatch_task_name get dir_ok fails (rf_names (am_flags leaf))
              (tk_kind (tks ! di_task_id d)) random_suffix taken))"
proof -
  note sel = built_command_selects [OF assms(1), of "command_words m"]
  show ?thesis
  proof (cases "Option.bind (deepest_subcommand m) am_task_id")
    case None
    then have "command_words m \<noteq> command_path (tks ! i)" if "i < length tks" for i
      using sel [of i] assms(2) that
      by (cases "deepest_subcommand m"; cases "command_at (command_words m) (cm_subs root)") auto
    then have "command_words m \<notin> set (map command_path tks)"
      by (metis in_set_conv_nth length_map nth_map)
    then show ?thesis using None
      by (auto simp: dispatch_def bind_eq_None_conv split: option.splits)
  next
    case (Some i)
    then have i: "i < length tks" "command_words m = command_path (tks ! i)"
      using sel [of i] assms(2)
      by (cases "command_at (command_words m) (cm_subs root)"; auto simp: bind_eq_Some_conv)+
    then have "leaf_command_name m = Some (tk_kind (tks ! i))"
      by (simp add: leaf_command_name_words) (simp add: command_path_def)
    then show ?thesis
      using Some i by (auto simp: dispatch_def bind_eq_Some_conv Let_def split: prod.splits)
  qed
qed

section \<open>Describing the surface\<close>

definition command_text :: "'v task \<Rightarrow> string" where
  "command_text tk = ''aspect '' @ join '' '' (command_path tk)"

definition describe_index :: "string \<Rightarrow> 'v task list \<Rightarrow> 'v feature list \<Rightarrow> json" where
  "describe_index version tks features =
     JObj [(''aspect_cli_version'', JStr version),
       (''commands'', JArr (map (\<lambda>tk. JObj [(''command'', JStr (command_text tk)),
          (''summary'', JStr (tk_summary tk))]) (sort_key command_text tks))),
       (''features'', jstrs (map fe_name features)),
       (''next'', JObj [
          (''task_detail'', JStr (''aspect describe '' @ [CHR 0x27] @
             ''<command without the leading '' @ [CHR 0x60] @ ''aspect '' @ [CHR 0x60] @ ''>'' @
             [CHR 0x27] @ '' '' @ em_dash @ '' e.g. aspect describe '' @ [CHR 0x27] @
             ''cache diff'')),
          (''feature_flags'', JStr ''aspect feature <name>'')])]"

definition describe_task ::
  "('v star \<Rightarrow> string) \<Rightarrow> string \<Rightarrow> (string \<times> string) list \<Rightarrow> 'v task \<Rightarrow> json" where
  "describe_task txt aspect_root mods tk =
     (let overrides = stringify_overrides txt (Some (tk_overrides tk))
      in JObj [(''command'', JStr (command_text tk)), (''path'', jstrs (command_path tk)),
        (''name'', JStr (tk_kind tk)), (''summary'', JStr (tk_summary tk)),
        (''description'', JStr (tk_description tk)),
        (''defined_in'', JStr (defined_in_label (tk_path tk) aspect_root mods)),
        (''args'', JArr (map (\<lambda>(n, a). describe_with_override TaskScope overrides n a)
          (cli_args (tk_args tk))))])"

definition describe_feature ::
  "('v star \<Rightarrow> string) \<Rightarrow> string \<Rightarrow> (string \<times> string) list \<Rightarrow> 'v feature \<Rightarrow> json option" where
  "describe_feature txt aspect_root mods fe =
     map_option (\<lambda>block.
       let overrides = stringify_overrides txt (Some (fe_overrides fe))
       in JObj [(''name'', JStr (fe_name fe)), (''summary'', JStr (fe_summary fe)),
         (''description'', JStr (fe_description fe)),
         (''defined_in'', JStr (defined_in_label (fe_path fe) aspect_root mods)),
         (''flags'', JArr (map (\<lambda>(n, a).
            describe_with_override (FeatureScope (fb_prefix block)) overrides n a)
          (fb_args block)))]) (feature_block txt fe)"

definition describe_json ::
  "('v star \<Rightarrow> string) \<Rightarrow> string \<Rightarrow> string \<Rightarrow> (string \<times> string) list \<Rightarrow> 'v task list \<Rightarrow>
   'v feature list \<Rightarrow> json" where
  "describe_json txt version aspect_root mods tks features =
     JObj [(''aspect_cli_version'', JStr version),
       (''tasks'', JArr (map (describe_task txt aspect_root mods) tks)),
       (''features'', JArr (List.map_filter (describe_feature txt aspect_root mods) features))]"

definition strip_aspect :: "string \<Rightarrow> string" where
  "strip_aspect s = trim_start_any [''aspect ''] s"

definition command_is :: "string \<Rightarrow> json \<Rightarrow> bool" where
  "command_is want t \<longleftrightarrow>
     (case jget ''command'' t of Some (JStr cmd) \<Rightarrow> strip_aspect cmd = want | _ \<Rightarrow> False)"

definition select_task :: "json \<Rightarrow> string \<Rightarrow> json option" where
  "select_task full name =
     (let want = trim (strip_aspect (trim name))
      in case jget ''tasks'' full of
           Some (JArr ts) \<Rightarrow> find (command_is want) ts
         | _ \<Rightarrow> None)"

lemma select_describe:
  "select_task (describe_json txt version aspect_root mods tks features) name =
     map_option (describe_task txt aspect_root mods)
       (find (\<lambda>tk. strip_aspect (command_text tk) = trim (strip_aspect (trim name))) tks)"
proof -
  have "command_is want (describe_task txt aspect_root mods tk) \<longleftrightarrow>
      strip_aspect (command_text tk) = want" for want tk
    by (simp add: command_is_def describe_task_def Let_def)
  then have "find (command_is want) (map (describe_task txt aspect_root mods) tks) =
      map_option (describe_task txt aspect_root mods)
        (find (\<lambda>tk. strip_aspect (command_text tk) = want) tks)" for want
    by (induction tks) auto
  then show ?thesis by (simp add: select_task_def describe_json_def Let_def)
qed

lemma strip_aspect_id: "\<not> starts_with ''aspect '' s \<Longrightarrow> strip_aspect s = s"
  unfolding strip_aspect_def by (rule trim_start_any_id) (auto simp: str_simps)

lemma strip_aspect_once: "strip_aspect (''aspect '' @ s) = strip_aspect s"
  unfolding strip_aspect_def by (subst trim_start_any.simps) (simp add: str_simps)

lemma command_name_chars:
  assumes "validate_command_name s = Inr ()"
  shows "s \<noteq> []" and "c \<in> set s \<Longrightarrow> command_char c"
proof -
  obtain b bs where "s = b # bs" "is_lower b" "list_all command_char bs"
    using assms by (cases s) (auto simp: validate_command_name_Inr)
  then show "s \<noteq> []" and "c \<in> set s \<Longrightarrow> command_char c"
    by (auto simp: list_all_iff command_char_def)
qed

lemma command_char_not_blank: "command_char c \<Longrightarrow> \<not> white_space_byte c \<and> c \<noteq> CHR '' ''"
  by (auto simp: command_char_def is_lower_def is_digit_def white_space_byte_def white_space_def
      char_le_nat)

lemma words_text:
  assumes "ws \<noteq> []" and "\<And>w. w \<in> set ws \<Longrightarrow> validate_command_name w = Inr ()"
  shows "split_on CHR '' '' (join '' '' ws) = ws" and "trim (join '' '' ws) = join '' '' ws"
    and "trim (''aspect '' @ join '' '' ws) = ''aspect '' @ join '' '' ws"
proof -
  have clean: "c \<in> set w \<Longrightarrow> \<not> white_space_byte c \<and> c \<noteq> CHR '' ''" if "w \<in> set ws" for c w
    using command_name_chars(2) [OF assms(2) [OF that]] command_char_not_blank by blast
  show "split_on CHR '' '' (join '' '' ws) = ws"
    using clean by (intro split_on_join [OF assms(1)]) blast
  have ne: "w \<in> set ws \<Longrightarrow> w \<noteq> []" for w using command_name_chars(1) assms(2) by blast
  have ends: "hd (join '' '' ws) = hd (hd ws) \<and> last (join '' '' ws) = last (last ws) \<and>
      join '' '' ws \<noteq> []"
    using assms(1) ne by (induction "'' ''" ws rule: join.induct) (auto simp: join_Cons)
  then have "\<not> white_space_byte (hd (join '' '' ws))" "\<not> white_space_byte (last (join '' '' ws))"
    using clean [OF hd_in_set [OF assms(1)] hd_in_set] clean [OF last_in_set [OF assms(1)] last_in_set]
      ne [OF hd_in_set [OF assms(1)]] ne [OF last_in_set [OF assms(1)]] by simp_all
  then show "trim (join '' '' ws) = join '' '' ws"
    "trim (''aspect '' @ join '' '' ws) = ''aspect '' @ join '' '' ws"
    using ends by (auto intro!: trim_id_ends simp: white_space_byte_def white_space_def)
qed

text \<open>A task value that a \<open>.axl\<close> file has given a name.\<close>

definition named_task :: "'v task \<Rightarrow> bool" where
  "named_task tk \<longleftrightarrow> (\<forall>w \<in> set (command_path tk). validate_command_name w = Inr ())"

lemma path_text_inject:
  assumes "named_task t" and "named_task u"
  shows "join '' '' (command_path t) = join '' '' (command_path u) \<longleftrightarrow> command_path t = command_path u"
  using words_text(1) [of "command_path t"] words_text(1) [of "command_path u"] assms
  unfolding named_task_def by (metis command_path_not_Nil)

lemma strip_aspect_path:
  assumes "named_task t" and "hd (command_path t) \<noteq> ''aspect''"
  shows "strip_aspect (join '' '' (command_path t)) = join '' '' (command_path t)"
proof (rule strip_aspect_id)
  have split: "split_on CHR '' '' (join '' '' (command_path t)) = command_path t"
    using assms(1) by (intro words_text(1)) (auto simp: named_task_def)
  show "\<not> starts_with ''aspect '' (join '' '' (command_path t))"
  proof
    assume "starts_with ''aspect '' (join '' '' (command_path t))"
    then obtain r where "join '' '' (command_path t) = ''aspect'' @ CHR '' '' # r"
      by (auto simp: str_simps)
    then have "command_path t = ''aspect'' # split_on CHR '' '' r"
      using split split_on_append [of "CHR '' ''" "''aspect''" r] by simp
    then show False using assms(2) by simp
  qed
qed

lemma find_unique:
  "x \<in> set xs \<Longrightarrow> P x \<Longrightarrow> (\<And>y. y \<in> set xs \<Longrightarrow> P y \<Longrightarrow> y = x) \<Longrightarrow> find P xs = Some x"
proof (induction xs)
  case (Cons a xs)
  show ?case
  proof (cases "P a")
    case True
    then show ?thesis using Cons.prems(3) [of a] by simp
  next
    case False
    then have "x \<in> set xs" using Cons.prems(1,2) by auto
    from Cons.IH [OF this Cons.prems(2)] have "find P xs = Some x"
      by (meson Cons.prems(3) list.set_intros(2))
    then show ?thesis using False by simp
  qed
qed simp

text \<open>C36. \<open>aspect describe\<close> describes the task it is asked for: in a command tree that was built from
  named tasks of which no group or kind is \<open>aspect\<close> at the top level, the text of a command that the
  index lists, with or without the leading \<open>aspect\<close>, selects the description of that task.\<close>

theorem describe_selects_the_task:
  assumes "reachable_paths tks" and "tk \<in> set tks"
    and "\<forall>u \<in> set tks. named_task u \<and> hd (command_path u) \<noteq> ''aspect''"
    and "name \<in> {command_text tk, join '' '' (command_path tk)}"
  shows "select_task (describe_json txt version aspect_root mods tks features) name =
    Some (describe_task txt aspect_root mods tk)"
proof -
  let ?text = "join '' '' (command_path tk)"
  have tk: "named_task tk" "hd (command_path tk) \<noteq> ''aspect''" using assms(2,3) by auto
  have "trim ?text = ?text" "trim (command_text tk) = command_text tk"
    using words_text(2,3) [of "command_path tk"] tk(1)
    by (auto simp: named_task_def command_text_def)
  then have want: "trim (strip_aspect (trim name)) = ?text"
    using assms(4) strip_aspect_path [OF tk] strip_aspect_once [of ?text]
    by (auto simp: command_text_def)
  have "strip_aspect (command_text u) = ?text \<longleftrightarrow> command_path u = command_path tk"
    if "u \<in> set tks" for u
    using bspec [OF assms(3) that] strip_aspect_path [of u] path_text_inject [OF _ tk(1), of u]
    by (simp add: command_text_def strip_aspect_once del: append.simps)
  moreover have "u = tk" if "u \<in> set tks" "command_path u = command_path tk" for u
  proof -
    have "sorted_wrt (\<lambda>p q. \<not> clash p q) (map command_path tks)"
      using assms(1) by (simp add: reachable_paths_def acceptable_def)
    then have "distinct (map command_path tks)"
      by (induction tks) auto
    then show ?thesis using that assms(2) by (metis distinct_map inj_onD)
  qed
  ultimately have "find (\<lambda>u. strip_aspect (command_text u) = ?text) tks = Some tk"
    using assms(2) by (intro find_unique) auto
  then show ?thesis by (simp add: select_describe want)
qed

text \<open>A small repository.\<close>

definition sample_task :: "string list \<Rightarrow> string \<Rightarrow> unit task" where
  "sample_task grp kind =
     \<lparr>tk_impl = (), tk_args = [], tk_summary = kind, tk_description = [], tk_friendly_kind = kind,
      tk_group = grp, tk_kind = kind, tk_traits = [], tk_path = ''/r/a.axl'',
      tk_overrides = arguments_new\<rparr>"

definition sample_tasks :: "unit task list" where
  "sample_tasks = [sample_task [''cache''] ''diff'', sample_task [] ''lint'', sample_task [''get''] ''diff'']"

lemma sample_paths:
  "map command_path sample_tasks = [[''cache'', ''diff''], [''lint''], [''get'', ''diff'']]"
  by (simp add: sample_tasks_def sample_task_def command_path_def)

lemma sample_reachable: "reachable_paths sample_tasks"
proof -
  have "(hd \<circ> command_path) ` set sample_tasks = set (map hd (map command_path sample_tasks))"
    by (simp add: image_image)
  then have "(hd \<circ> command_path) ` set sample_tasks = {''cache'', ''lint'', ''get''}"
    by (simp add: sample_paths)
  then show ?thesis
    by (simp add: reachable_paths_def acceptable_def sample_paths placeable_def MAX_TASK_GROUPS_def
        RESERVED_TOP_LEVEL_COMMANDS_def builtin_names_def)
qed

lemma sample_named: "\<forall>u \<in> set sample_tasks. named_task u \<and> hd (command_path u) \<noteq> ''aspect''"
proof -
  have "list_all (\<lambda>p. (\<forall>w \<in> set p. validate_command_name w = Inr ()) \<and> hd p \<noteq> ''aspect'')
      (map command_path sample_tasks)"
    unfolding sample_paths by code_simp
  then show ?thesis by (simp add: list_all_iff named_task_def)
qed

theorem describe_selects_the_task_witness:
  "select_task (describe_json (\<lambda>_. []) ''1'' ''/r'' [] sample_tasks []) ''aspect cache diff'' =
     Some (describe_task (\<lambda>_. []) ''/r'' [] (sample_task [''cache''] ''diff''))"
proof (rule describe_selects_the_task [OF sample_reachable _ sample_named])
  show "sample_task [''cache''] ''diff'' \<in> set sample_tasks" by (simp add: sample_tasks_def)
qed (simp add: command_text_def command_path_def sample_task_def)

definition sample_flags :: run_flags where
  "sample_flags = \<lparr>rf_names = \<lparr>nf_task_name = Some ''n'', nf_task_key = None\<rparr>,
     rf_friendly_name = None, rf_uuid = None, rf_timing = None\<rparr>"

definition sample_matches :: arg_matches where
  "sample_matches = Matches None sample_flags (Some (''cache'', Matches None sample_flags
     (Some (''diff'', Matches (Some 0) sample_flags None))))"

theorem command_line_selects_its_task_witness:
  "case dispatch (\<lambda>_. None) True (\<lambda>_. False) ''calm-owl'' {} sample_matches of
     Inl _ \<Rightarrow> False
   | Inr (d, _) \<Rightarrow> [''cache'', ''diff''] = command_path (sample_tasks ! di_task_id d)"
proof -
  obtain root where root: "build (\<lambda>_. []) ''/r'' [] [] sample_tasks = Some (Inr root)"
    using build_succeeds_iff [of "\<lambda>_. []" "''/r''" "[]" "[]" sample_tasks] sample_reachable by auto
  have "\<exists>c. command_at [''cache'', ''diff''] (cm_subs root) = Some c \<and> cm_task_id c = Some 0"
    using built_command_selects [OF root, of "[''cache'', ''diff'']" 0] sample_paths
    by (simp add: sample_tasks_def)
  then have "map_option am_task_id (deepest_subcommand sample_matches) =
      map_option cm_task_id (command_at (command_words sample_matches) (cm_subs root))"
    by (auto simp: deepest_subcommand_def sample_matches_def)
  moreover have "command_words sample_matches = [''cache'', ''diff'']"
    by (simp add: sample_matches_def)
  ultimately show ?thesis
    using command_line_selects_its_task [OF root, of sample_matches "\<lambda>_. None" True "\<lambda>_. False"
        "''calm-owl''" "{}"]
    by (auto simp: sample_paths split: sum.splits)
qed

section \<open>What is rejected, and what is not\<close>

text \<open>\<open>main\<close> takes \<open>aspect get\<close> for itself, and a top-level task of that kind is rejected. A top-level
  group of that name is not, and its tasks are in the tree though they cannot be run.\<close>

lemma get_group_is_accepted:
  "\<exists>root. build txt ''/r'' [] [] sample_tasks = Some (Inr root) \<and>
     (\<exists>c. command_at [''get'', ''diff''] (cm_subs root) = Some c \<and> cm_task_id c = Some 2)"
proof -
  obtain root where root: "build txt ''/r'' [] [] sample_tasks = Some (Inr root)"
    using build_succeeds_iff [of "txt" "''/r''" "[]" "[]" sample_tasks] sample_reachable by auto
  then show ?thesis
    using built_command_selects [OF root, of "[''get'', ''diff'']" 2] sample_paths
    by (simp add: sample_tasks_def)
qed

text \<open>A task of the group \<open>aspect\<close> is not told from the top-level task of the same kind.\<close>

lemma aspect_group_is_confused:
  "select_task (describe_json txt v ''/r'' [] [sample_task [] ''lint'', sample_task [''aspect''] ''lint''] [])
     ''aspect aspect lint'' = Some (describe_task txt ''/r'' [] (sample_task [] ''lint''))"
proof -
  have "strip_aspect (command_text (sample_task [] ''lint'')) =
      trim (strip_aspect (trim ''aspect aspect lint''))" by code_simp
  then show ?thesis by (simp add: select_describe)
qed

section \<open>The width of a listing\<close>

text \<open>An elided list stays within its width, up to the first item and the note on what is missing,
  and it is not elided when all of it fits.\<close>

lemma elide_loop_full:
  "length (out @ concat (map (\<lambda>x. '', '' @ x) items)) \<le> width \<Longrightarrow> 0 < i \<Longrightarrow>
   elide_loop width i out items = out @ concat (map (\<lambda>x. '', '' @ x) items)"
  by (induction items arbitrary: i out) (auto simp: Let_def)

lemma elide_fits:
  "length (join '', '' items) \<le> width \<Longrightarrow> elide items width = join '', '' items"
proof (cases items)
  case (Cons x xs)
  have "join '', '' (x # xs) = x @ concat (map (\<lambda>x. '', '' @ x) xs)" for x
    by (induction xs arbitrary: x) auto
  then show "length (join '', '' items) \<le> width \<Longrightarrow> ?thesis"
    using elide_loop_full [of x xs width 1] by (simp add: Cons elide_def Let_def)
qed (simp add: elide_def)

lemma elide_loop_bound:
  "[] \<notin> set items \<Longrightarrow> length out \<le> max width b \<Longrightarrow>
   (out = [] \<longrightarrow> items \<noteq> [] \<longrightarrow> i = 0 \<and> length (hd items) \<le> b) \<Longrightarrow>
   \<exists>shown. length shown \<le> max width b \<and>
     (elide_loop width i out items = shown \<or>
      (\<exists>n. elide_loop width i out items =
         shown @ '', '' @ ellipsis @ '' (+'' @ show_nat n @ '' more)''))"
proof (induction items arbitrary: i out)
  case (Cons item items)
  let ?sep = "if i = 0 then [] else '', ''"
  show ?case
  proof (cases "out \<noteq> [] \<and> length out + length ?sep + length item > width")
    case True
    then show ?thesis
      using Cons.prems(2) by (intro exI [of _ out]) (auto simp: Let_def)
  next
    case False
    have "length (out @ ?sep @ item) \<le> max width b"
      using False Cons.prems by (cases "out = []") auto
    then show ?thesis using Cons.IH [of "out @ ?sep @ item" "i + 1"] False Cons.prems
      by (cases "out = []") (auto simp: Let_def)
  qed
qed auto

end
