(* ===== verification/Bes_Stream.thy ===== *)
theory Bes_Stream
  imports Retry
begin

text \<open>
  One connection of the gRPC event sink: \<open>drive_stream\<close> with \<open>preload_first_event\<close>,
  \<open>send_bounded\<close> and \<open>drain_acks\<close>, and the state that survives reconnects
  (crates/axl-runtime/src/engine/bazel/sink/grpc.rs).

  The asynchronous function is a state machine: a phase for every await point, and an input
  for everything that can happen there (what a channel, the RPC or a timer delivers).
  \<open>drive_step\<close> runs the code from one await point to the next; it is \<open>None\<close> where the
  code does not wait for that input. Deadlines are armed or not; when they elapse is
  an input. Building a request (\<open>build_tool::bazel_event\<close>), its encoded size and the event's
  \<open>last_message\<close> flag are the record \<open>bes_api\<close>.
\<close>

section \<open>State\<close>

record 'r stream_state =
  st_buffer :: "'r retry_buffer"
  next_seq :: int
  max_acked :: int
  last_message_sent :: bool

definition record_ack :: "int \<Rightarrow> 'r stream_state \<Rightarrow> 'r stream_state" where
  "record_ack seq st =
     st\<lparr>st_buffer := prune_until seq (st_buffer st), max_acked := max (max_acked st) seq\<rparr>"

datatype drive_outcome = Done | Transient client_error | Fatal client_error | UpstreamClosed

definition show_client_error :: "client_error \<Rightarrow> string" where
  "show_client_error e =
     (case e of Transport m \<Rightarrow> m | InvalidEndpoint m \<Rightarrow> m | Status _ m \<Rightarrow> m)"

definition outcome_label :: "drive_outcome \<Rightarrow> string" where
  "outcome_label out =
     (case out of
        Done \<Rightarrow> ''Done''
      | UpstreamClosed \<Rightarrow> ''UpstreamClosed''
      | Transient e \<Rightarrow> ''Transient('' @ show_client_error e @ '')''
      | Fatal e \<Rightarrow> ''Fatal('' @ show_client_error e @ '')'')"

definition classify :: "client_error \<Rightarrow> drive_outcome" where
  "classify e = (if is_retryable e then Transient e else Fatal e)"

record ('e, 'r) bes_api =
  be_request :: "int \<Rightarrow> 'e \<Rightarrow> 'r"
  be_last :: "'e \<Rightarrow> bool"
  be_enc :: "'r \<Rightarrow> nat"

text \<open>The part of the select loop's locals that is state: \<open>sender_opt.is_some()\<close> and the two
  deadlines.\<close>

record conn =
  sender_open :: bool
  ack_armed :: bool
  half_close_armed :: bool

datatype 'r drive_phase =
    AwaitFirst \<comment> \<open>\<open>event_rx.recv()\<close> in \<open>preload_first_event\<close>\<close>
  | PreloadSend int bool \<comment> \<open>the pre-loaded number, and whether it is a fresh last message\<close>
  | Opening "int option"
  | Replaying "(int \<times> 'r) list"
  | Streaming conn
  | MidSend conn bool
  | Draining drive_outcome
  | Returned drive_outcome

datatype send_result = Sent | SendClosed | SendStalled
datatype open_result = Opened | OpenFailed client_error | OpenTimedOut
datatype response = Ack int | ErrStatus grpc_code string | ResponseClosed

datatype 'e input =
    NextEvent "'e option" \<comment> \<open>\<open>None\<close>: the upstream broadcaster closed\<close>
  | FirstEventTimeout
  | SendResult send_result
  | OpenResult open_result
  | Response response
  | DrainResult "int option" \<comment> \<open>an ack read while draining, or the end of the drain\<close>
  | HalfCloseElapsed
  | AckElapsed

section \<open>Steps\<close>

definition status :: "grpc_code \<Rightarrow> string \<Rightarrow> drive_outcome" where
  "status code m = Transient (Status code m)"

definition send_failure :: "send_result \<Rightarrow> string \<Rightarrow> drive_outcome" where
  "send_failure r context =
     (case r of
        SendStalled \<Rightarrow> status DeadlineExceeded (''request stream stalled '' @ context)
      | _ \<Rightarrow> status Unavailable (''request stream closed '' @ context))"

text \<open>Assign the next number, build the request and retain it.\<close>

definition take_event :: "('e, 'r) bes_api \<Rightarrow> 'e \<Rightarrow> 'r stream_state \<Rightarrow> 'r stream_state" where
  "take_event api ev st =
     (let seq = next_seq st; req = be_request api seq ev
      in st\<lparr>next_seq := seq + 1, st_buffer := rb_push (be_enc api) seq req (st_buffer st)\<rparr>)"

definition buffer_empty :: "'r stream_state \<Rightarrow> bool" where
  "buffer_empty st \<longleftrightarrow> rb_items (st_buffer st) = []"

definition drive_start :: "'r stream_state \<Rightarrow> 'r drive_phase" where
  "drive_start st =
     (case rb_iter (st_buffer st) of
        (seq, req) # _ \<Rightarrow> PreloadSend seq False
      | [] \<Rightarrow> if last_message_sent st then Opening None else AwaitFirst)"

text \<open>The locals as they are initialised before the select loop.\<close>

definition enter_loop :: "'r stream_state \<Rightarrow> conn" where
  "enter_loop st =
     \<lparr>sender_open = \<not> last_message_sent st, ack_armed = \<not> buffer_empty st,
      half_close_armed = last_message_sent st\<rparr>"

definition replay_queue :: "int option \<Rightarrow> 'r stream_state \<Rightarrow> (int \<times> 'r) list" where
  "replay_queue preloaded st =
     filter (\<lambda>(seq, req). Some seq \<noteq> preloaded) (rb_iter (st_buffer st))"

definition after_replay :: "(int \<times> 'r) list \<Rightarrow> 'r stream_state \<Rightarrow> 'r drive_phase" where
  "after_replay queue st = (if queue = [] then Streaming (enter_loop st) else Replaying queue)"

text \<open>A step returns the phase, the state, and the number of evicted events it warned about.\<close>

type_synonym 'r drive_result = "('r drive_phase \<times> 'r stream_state \<times> nat) option"

definition go :: "'r drive_phase \<Rightarrow> 'r stream_state \<Rightarrow> 'r drive_result" where
  "go phase st = Some (phase, st, 0)"

definition on_response :: "conn \<Rightarrow> response \<Rightarrow> 'r stream_state \<Rightarrow> 'r drive_result" where
  "on_response c r st =
     (case r of
        Ack seq \<Rightarrow>
          (let st' = record_ack seq st; c' = c\<lparr>ack_armed := \<not> buffer_empty st'\<rparr>
           in if last_message_sent st' \<and> buffer_empty st' then go (Returned Done) st'
              else if \<not> sender_open c' \<and> buffer_empty st' then go (Returned UpstreamClosed) st'
              else go (Streaming c') st')
      | ErrStatus code m \<Rightarrow> go (Returned (classify (Status code m))) st
      | ResponseClosed \<Rightarrow>
          if last_message_sent st \<and> buffer_empty st then go (Returned Done) st
          else if \<not> sender_open c \<and> buffer_empty st then go (Returned UpstreamClosed) st
          else go (Returned (status Unavailable ''response stream closed prematurely'')) st)"

definition on_event ::
  "('e, 'r) bes_api \<Rightarrow> conn \<Rightarrow> 'e option \<Rightarrow> 'r stream_state \<Rightarrow> 'r drive_result" where
  "on_event api c ev st =
     (case ev of
        None \<Rightarrow>
          if buffer_empty st then go (Returned UpstreamClosed) st
          else go (Streaming (c\<lparr>sender_open := False, half_close_armed := True\<rparr>)) st
      | Some e \<Rightarrow> go (MidSend (c\<lparr>ack_armed := True\<rparr>) (be_last api e)) (take_event api e st))"

definition await_first_step ::
  "('e, 'r) bes_api \<Rightarrow> 'r stream_state \<Rightarrow> 'e input \<Rightarrow> 'r drive_result" where
  "await_first_step api st inp =
     (case inp of
        NextEvent ev \<Rightarrow> (case ev of
            Some e \<Rightarrow> go (PreloadSend (next_seq st) (be_last api e)) (take_event api e st)
          | None \<Rightarrow> go (Opening None) st)
      | FirstEventTimeout \<Rightarrow> go (Opening None) st
      | _ \<Rightarrow> None)"

definition preload_step :: "int \<Rightarrow> bool \<Rightarrow> 'r stream_state \<Rightarrow> 'e input \<Rightarrow> 'r drive_result" where
  "preload_step seq fin st inp =
     (case inp of
        SendResult r \<Rightarrow> (case r of
            Sent \<Rightarrow> go (Opening (Some seq)) (if fin then st\<lparr>last_message_sent := True\<rparr> else st)
          | SendClosed \<Rightarrow> go (Returned (send_failure SendClosed ''before bidi open'')) st
          | SendStalled \<Rightarrow> None)
      | _ \<Rightarrow> None)"

definition opening_step :: "int option \<Rightarrow> 'r stream_state \<Rightarrow> 'e input \<Rightarrow> 'r drive_result" where
  "opening_step preloaded st inp =
     (case inp of
        OpenResult r \<Rightarrow> (case r of
            Opened \<Rightarrow>
              (let (evicted, buffer) = take_evicted (st_buffer st); st' = st\<lparr>st_buffer := buffer\<rparr>
               in Some (after_replay (replay_queue preloaded st') st', st', evicted))
          | OpenFailed e \<Rightarrow> go (Returned (classify e)) st
          | OpenTimedOut \<Rightarrow> go (Returned (status DeadlineExceeded ''stream open timed out'')) st)
      | _ \<Rightarrow> None)"

definition replaying_step ::
  "(int \<times> 'r) list \<Rightarrow> 'r stream_state \<Rightarrow> 'e input \<Rightarrow> 'r drive_result" where
  "replaying_step queue st inp =
     (case inp of
        SendResult r \<Rightarrow>
          if r = Sent then go (after_replay (tl queue) st) st
          else go (Draining (send_failure r ''during replay'')) st
      | _ \<Rightarrow> None)"

definition half_close_step :: "conn \<Rightarrow> 'r stream_state \<Rightarrow> 'r drive_result" where
  "half_close_step c st =
     (if \<not> half_close_armed c then None
      else if \<not> buffer_empty st then
        go (Returned (status DeadlineExceeded ''half-close deadline elapsed with events unacked'')) st
      else go (Returned (if last_message_sent st then Done else UpstreamClosed)) st)"

definition streaming_step ::
  "('e, 'r) bes_api \<Rightarrow> conn \<Rightarrow> 'r stream_state \<Rightarrow> 'e input \<Rightarrow> 'r drive_result" where
  "streaming_step api c st inp =
     (case inp of
        NextEvent ev \<Rightarrow>
          if \<not> last_message_sent st \<and> sender_open c then on_event api c ev st else None
      | Response r \<Rightarrow> on_response c r st
      | HalfCloseElapsed \<Rightarrow> half_close_step c st
      | AckElapsed \<Rightarrow>
          if ack_armed c \<and> \<not> half_close_armed c
          then go (Returned (status DeadlineExceeded ''no BES ack progress'')) st else None
      | _ \<Rightarrow> None)"

definition mid_send_step :: "conn \<Rightarrow> bool \<Rightarrow> 'r stream_state \<Rightarrow> 'e input \<Rightarrow> 'r drive_result" where
  "mid_send_step c fin st inp =
     (case inp of
        SendResult r \<Rightarrow>
          if r \<noteq> Sent then go (Draining (send_failure r ''mid-send'')) st
          else if fin then
            go (Streaming (c\<lparr>sender_open := False, half_close_armed := True\<rparr>))
              (st\<lparr>last_message_sent := True\<rparr>)
          else go (Streaming c) st
      | _ \<Rightarrow> None)"

definition draining_step :: "drive_outcome \<Rightarrow> 'r stream_state \<Rightarrow> 'e input \<Rightarrow> 'r drive_result" where
  "draining_step out st inp =
     (case inp of
        DrainResult r \<Rightarrow> (case r of
            Some seq \<Rightarrow> go (Draining out) (record_ack seq st)
          | None \<Rightarrow> go (Returned out) st)
      | _ \<Rightarrow> None)"

definition drive_step ::
  "('e, 'r) bes_api \<Rightarrow> 'r drive_phase \<Rightarrow> 'r stream_state \<Rightarrow> 'e input \<Rightarrow> 'r drive_result" where
  "drive_step api phase st inp =
     (case phase of
        AwaitFirst \<Rightarrow> await_first_step api st inp
      | PreloadSend seq fin \<Rightarrow> preload_step seq fin st inp
      | Opening preloaded \<Rightarrow> opening_step preloaded st inp
      | Replaying queue \<Rightarrow> replaying_step queue st inp
      | Streaming c \<Rightarrow> streaming_step api c st inp
      | MidSend c fin \<Rightarrow> mid_send_step c fin st inp
      | Draining out \<Rightarrow> draining_step out st inp
      | Returned out \<Rightarrow> None)"

lemmas step_defs = drive_step_def await_first_step_def preload_step_def opening_step_def
  replaying_step_def streaming_step_def on_event_def on_response_def half_close_step_def
  mid_send_step_def draining_step_def go_def

section \<open>The invariant of a connection\<close>

text \<open>
  \<open>missing\<close> holds the numbers that were assigned, are not covered by an ack and can no
  longer be replayed; \<open>stream_inv lost st\<close> says that at most \<open>lost\<close> events of evictions already
  reported plus the ones still to be reported account for all of them.
\<close>

definition missing :: "'r stream_state \<Rightarrow> int set" where
  "missing st = {max_acked st<..<next_seq st} - set (seqs (st_buffer st))"

definition stream_inv :: "nat \<Rightarrow> 'r stream_state \<Rightarrow> bool" where
  "stream_inv lost st \<longleftrightarrow>
     rb_inv (st_buffer st) \<and> (\<forall>s \<in> set (seqs (st_buffer st)). s < next_seq st) \<and>
     1 \<le> next_seq st \<and> 0 \<le> max_acked st \<and>
     card (missing st) \<le> lost + rb_evicted (st_buffer st)"

definition stream_init :: "nat \<Rightarrow> 'r stream_state" where
  "stream_init cap =
     \<lparr>st_buffer = rb_new cap, next_seq = 1, max_acked = 0, last_message_sent = False\<rparr>"

lemma stream_inv_init: "stream_inv 0 (stream_init cap)"
  by (simp add: stream_inv_def stream_init_def missing_def seqs_def rb_new_def rb_inv_def)

lemma stream_inv_last [simp]: "stream_inv lost (st\<lparr>last_message_sent := x\<rparr>) = stream_inv lost st"
  by (simp add: stream_inv_def missing_def)

lemma stream_inv_take_event:
  assumes "stream_inv lost st" shows "stream_inv lost (take_event api ev st)"
proof -
  let ?b = "st_buffer st" and ?seq = "next_seq st"
  let ?r = "be_request api ?seq ev"
  let ?b' = "rb_push (be_enc api) ?seq ?r ?b"
  have inv: "rb_inv ?b" and below: "\<And>s. s \<in> set (seqs ?b) \<Longrightarrow> s < ?seq"
    using assms by (simp_all add: stream_inv_def)
  have "card ({max_acked st<..<?seq + 1} - set (seqs ?b')) + rb_evicted ?b \<le>
      card ({max_acked st<..<?seq} - set (seqs ?b)) + rb_evicted ?b'"
    by (rule replay.missing_add [OF inv below])
  then have "card (missing (take_event api ev st)) \<le> lost + rb_evicted ?b'"
    using assms by (simp add: stream_inv_def missing_def take_event_def Let_def)
  moreover have "rb_inv ?b'" by (rule replay.ok_add [OF inv below])
  moreover have "\<forall>s \<in> set (seqs ?b'). s < ?seq + 1"
    using replay.stored_add [OF inv, of "be_enc api" ?seq ?r] below by fastforce
  ultimately show ?thesis
    using assms by (simp add: stream_inv_def take_event_def Let_def)
qed

lemma stream_inv_record_ack:
  assumes "stream_inv lost st" shows "stream_inv lost (record_ack seq st)"
proof -
  let ?b = "st_buffer st"
  have inv: "rb_inv ?b" using assms by (simp add: stream_inv_def)
  have "card (missing (record_ack seq st)) \<le> card (missing st)"
    using replay.missing_prune [OF inv, of "max_acked st" seq "next_seq st"]
    by (simp add: missing_def record_ack_def)
  then show ?thesis
    using assms replay.ok_prune [OF inv, of seq] replay.dropped_prune [OF inv, of seq]
      replay.stored_prune [OF inv, of seq]
    by (simp add: stream_inv_def record_ack_def le_max_iff_disj)
qed

lemma stream_inv_take_evicted:
  "stream_inv lost st \<Longrightarrow>
   stream_inv (lost + rb_evicted (st_buffer st)) (st\<lparr>st_buffer := snd (take_evicted (st_buffer st))\<rparr>)"
  by (simp add: stream_inv_def missing_def take_evicted_def rb_inv_def seqs_def)

lemma stream_inv_step:
  assumes "stream_inv lost st" and "drive_step api phase st inp = Some (phase', st', w)"
  shows "stream_inv (lost + w) st'"
  using assms
  by (cases phase; cases inp)
    (auto simp: step_defs after_replay_def take_evicted_def Let_def
      intro: stream_inv_take_event stream_inv_record_ack
        stream_inv_take_evicted [unfolded take_evicted_def snd_conv]
      split: option.splits send_result.splits open_result.splits response.splits if_splits)

text \<open>What the select loop keeps about its locals.\<close>

definition conn_ok :: "conn \<Rightarrow> 'r stream_state \<Rightarrow> bool" where
  "conn_ok c st \<longleftrightarrow>
     (half_close_armed c \<longleftrightarrow> \<not> sender_open c) \<and> (last_message_sent st \<longrightarrow> \<not> sender_open c) \<and>
     (\<not> buffer_empty st \<longrightarrow> ack_armed c \<or> half_close_armed c)"

definition outcome_ok :: "drive_outcome \<Rightarrow> 'r stream_state \<Rightarrow> bool" where
  "outcome_ok out st \<longleftrightarrow>
     (out = Done \<longrightarrow> last_message_sent st \<and> buffer_empty st) \<and>
     (out = UpstreamClosed \<longrightarrow> buffer_empty st)"

definition phase_ok :: "'r drive_phase \<Rightarrow> 'r stream_state \<Rightarrow> bool" where
  "phase_ok phase st \<longleftrightarrow>
     (case phase of
        Streaming c \<Rightarrow> conn_ok c st
      | MidSend c fin \<Rightarrow>
          sender_open c \<and> ack_armed c \<and> \<not> half_close_armed c \<and> \<not> last_message_sent st
      | Draining out \<Rightarrow> (\<exists>e. out = Transient e)
      | Returned out \<Rightarrow> outcome_ok out st
      | Replaying queue \<Rightarrow> queue \<noteq> []
      | _ \<Rightarrow> True)"

lemma phase_ok_after_replay: "phase_ok (after_replay queue st) st"
  by (auto simp: after_replay_def phase_ok_def conn_ok_def enter_loop_def)

lemma outcome_ok_error [simp]:
  "outcome_ok (Transient e) st" "outcome_ok (Fatal e) st" "outcome_ok (classify e) st"
  "outcome_ok (status code m) st" "outcome_ok (send_failure r context) st"
  by (auto simp: outcome_ok_def classify_def status_def send_failure_def split: send_result.split)

lemma error_not_clean [simp]:
  "classify e \<noteq> Done" "classify e \<noteq> UpstreamClosed"
  "status code m \<noteq> Done" "status code m \<noteq> UpstreamClosed"
  by (simp_all add: classify_def status_def)

lemma send_failure_transient: "\<exists>e. send_failure r context = Transient e"
  by (cases r) (auto simp: send_failure_def status_def)

lemma phase_ok_on_response:
  "on_response c r st = Some (phase', st', w) \<Longrightarrow> conn_ok c st \<Longrightarrow> phase_ok phase' st'"
  by (cases r)
    (auto simp: on_response_def go_def Let_def phase_ok_def conn_ok_def record_ack_def outcome_ok_def
      split: if_splits)

lemma phase_ok_streaming:
  "streaming_step api c st inp = Some (phase', st', w) \<Longrightarrow> conn_ok c st \<Longrightarrow> phase_ok phase' st'"
proof (cases inp)
  case (Response r)
  assume "streaming_step api c st inp = Some (phase', st', w)" and "conn_ok c st"
  with Response show ?thesis by (simp add: streaming_step_def phase_ok_on_response)
qed (auto simp: streaming_step_def on_event_def half_close_step_def go_def phase_ok_def conn_ok_def
      outcome_ok_def take_event_def Let_def split: option.splits if_splits)

lemma phase_ok_step:
  assumes "phase_ok phase st" and "drive_step api phase st inp = Some (phase', st', w)"
  shows "phase_ok phase' st'"
proof (cases phase)
  case (Streaming c)
  with assms show ?thesis
    by (intro phase_ok_streaming [of api c st inp]) (simp_all add: drive_step_def phase_ok_def)
next
  case (MidSend c fin)
  with assms show ?thesis
    by (cases inp)
      (auto simp: drive_step_def mid_send_step_def go_def phase_ok_def conn_ok_def
        intro: send_failure_transient split: if_splits)
next
  case (Draining out)
  with assms show ?thesis
    by (cases inp)
      (auto simp: drive_step_def draining_step_def go_def phase_ok_def split: option.splits)
next
  case (Replaying queue)
  with assms show ?thesis
    by (cases inp)
      (auto simp: drive_step_def replaying_step_def go_def phase_ok_after_replay
        phase_ok_def [of "Draining _"] intro: send_failure_transient split: if_splits)
next
  case (Opening pre)
  with assms show ?thesis
    by (cases inp)
      (auto simp: drive_step_def opening_step_def go_def phase_ok_after_replay Let_def
        phase_ok_def [of "Returned _"] split: open_result.splits prod.splits)
next
  case (PreloadSend seq fin)
  with assms show ?thesis
    by (cases inp)
      (auto simp: drive_step_def preload_step_def go_def phase_ok_def split: send_result.splits)
next
  case AwaitFirst
  with assms show ?thesis
    by (cases inp)
      (auto simp: drive_step_def await_first_step_def go_def phase_ok_def split: option.splits)
qed (use assms in \<open>simp add: drive_step_def\<close>)

lemma phase_ok_start: "phase_ok (drive_start st) st"
  by (auto simp: drive_start_def phase_ok_def split: list.splits)

fun drive_run ::
  "('e, 'r) bes_api \<Rightarrow> 'r drive_phase \<Rightarrow> 'r stream_state \<Rightarrow> 'e input list \<Rightarrow> 'r drive_result" where
  "drive_run api phase st [] = Some (phase, st, 0)"
| "drive_run api phase st (inp # inps) =
     (case drive_step api phase st inp of
        None \<Rightarrow> None
      | Some (phase', st', w) \<Rightarrow>
          map_option (\<lambda>(p, s, w'). (p, s, w + w')) (drive_run api phase' st' inps))"

lemma drive_run_ok:
  "drive_run api phase st inps = Some (phase', st', w) \<Longrightarrow> stream_inv lost st \<Longrightarrow> phase_ok phase st \<Longrightarrow>
   stream_inv (lost + w) st' \<and> phase_ok phase' st'"
proof (induction inps arbitrary: phase st lost w)
  case (Cons inp inps)
  then obtain p s v w' where step: "drive_step api phase st inp = Some (p, s, v)"
    and rest: "drive_run api p s inps = Some (phase', st', w')" "w = v + w'"
    by (auto split: option.splits)
  from Cons.IH [OF rest(1) stream_inv_step [OF Cons.prems(2) step] phase_ok_step [OF Cons.prems(3) step]]
  show ?case by (simp add: rest(2) add.assoc)
qed simp

section \<open>Properties\<close>

text \<open>One connection never claims a delivery it cannot account for: from any consistent state
  and through any interleaving of events, acks, errors and timeouts, \<open>Done\<close> is returned only
  with the last message sent and nothing left to replay, \<open>UpstreamClosed\<close> only with nothing
  left to replay, and every assigned number that is neither acked nor replayable is one of
  the evictions that are reported.\<close>

theorem connection_outcome_sound:
  assumes "stream_inv lost st"
    and "drive_run api (drive_start st) st inps = Some (Returned out, st', w)"
  shows "(out = Done \<longrightarrow> last_message_sent st' \<and> buffer_empty st') \<and>
    (out = UpstreamClosed \<longrightarrow> buffer_empty st') \<and>
    card (missing st') \<le> lost + w + rb_evicted (st_buffer st')"
  using drive_run_ok [OF assms(2,1) phase_ok_start]
  by (simp add: phase_ok_def outcome_ok_def stream_inv_def)

definition text_api :: "(string, string) bes_api" where
  "text_api = \<lparr>be_request = (\<lambda>seq e. e), be_last = (\<lambda>e. e = ''end''), be_enc = length\<rparr>"

definition two_event_inputs :: "string input list" where
  "two_event_inputs =
     [NextEvent (Some ''begin''), SendResult Sent, OpenResult Opened, Response (Ack 1),
      NextEvent (Some ''end''), SendResult Sent, Response (Ack 2)]"

lemmas run_eval = step_defs take_event_def drive_start_def rb_iter_def rb_push_eq rb_new_def
  stream_init_def text_api_def two_event_inputs_def after_replay_def replay_queue_def enter_loop_def
  take_evicted_def buffer_empty_def record_ack_def prune_until_eq

lemma two_event_run:
  "\<exists>st'. drive_run text_api (drive_start (stream_init 100)) (stream_init 100) two_event_inputs =
     Some (Returned Done, st', 0)"
  by (simp add: run_eval Let_def)

theorem connection_outcome_sound_witness:
  "\<exists>st'. drive_run text_api (drive_start (stream_init 100)) (stream_init 100) two_event_inputs =
     Some (Returned Done, st', 0) \<and> last_message_sent st' \<and> buffer_empty st'"
proof -
  obtain st' where "drive_run text_api (drive_start (stream_init 100)) (stream_init 100)
      two_event_inputs = Some (Returned Done, st', 0)" using two_event_run by blast
  with connection_outcome_sound [OF stream_inv_init this] show ?thesis by blast
qed



text \<open>An eviction can end a connection with \<open>Done\<close> although neither of its two events was acked:
  the last event is larger than the budget, so nothing is left to replay, and an ack of 0
  satisfies the exit condition.\<close>

lemma done_with_unacked_events:
  "\<exists>st'. drive_run text_api (drive_start (stream_init 2)) (stream_init 2)
     [NextEvent (Some ''b''), SendResult Sent, OpenResult Opened,
      NextEvent (Some ''end''), SendResult Sent, Response (Ack 0)] =
     Some (Returned Done, st', 0) \<and> next_seq st' = 3 \<and> max_acked st' = 0"
  by (simp add: run_eval Let_def)

end
