(* ===== verification/Bes_Work.thy ===== *)
theory Bes_Work
  imports Bes_Stream
begin

text \<open>
  The whole life of a gRPC event sink: \<open>work\<close>, \<open>retry_lifecycle\<close>, \<open>send_lifecycle_logged\<close>,
  \<open>finalize\<close> (crates/axl-runtime/src/engine/bazel/sink/grpc.rs): client setup, the lifecycle
  calls before the stream, the reconnect loop around \<open>drive_stream\<close>, the lifecycle calls
  after it. It is the step function \<open>work_step\<close> on \<open>work_state\<close>; the inputs are what the
  network and the timers deliver. The log holds the lines written for a reader of the
  build: warnings, and the debug line that announces a connection attempt. Sleeping between
  attempts changes no state and is not a step.
\<close>

section \<open>Lifecycle calls\<close>

datatype lifecycle_answer = LAcked | LFailed client_error | LTimedOut

definition lifecycle_error :: "lifecycle_answer \<Rightarrow> client_error option" where
  "lifecycle_error a =
     (case a of
        LAcked \<Rightarrow> None
      | LFailed e \<Rightarrow> Some e
      | LTimedOut \<Rightarrow> Some (Status DeadlineExceeded ''lifecycle attempt timed out''))"

text \<open>\<open>rpc n\<close> is the answer to attempt \<open>n\<close>; the result is the number of attempts made and the
  error, if any.\<close>

function retry_lifecycle ::
  "nat \<Rightarrow> (nat \<Rightarrow> lifecycle_answer) \<Rightarrow> nat \<Rightarrow> nat \<times> client_error option" where
  "retry_lifecycle retries rpc attempt =
     (case lifecycle_error (rpc attempt) of
        None \<Rightarrow> (attempt + 1, None)
      | Some err \<Rightarrow>
          if \<not> is_retryable err \<or> attempt \<ge> retries then (attempt + 1, Some err)
          else retry_lifecycle retries rpc (attempt + 1))"
  by pat_completeness auto
termination
  by (relation "measure (\<lambda>(retries, rpc, attempt). retries - attempt)") auto

declare retry_lifecycle.simps [simp del]

section \<open>The sink\<close>

datatype lifecycle_call = BuildEnqueued | InvocationStarted | InvocationFinished | BuildFinished

definition call_name :: "lifecycle_call \<Rightarrow> string" where
  "call_name c =
     (case c of
        BuildEnqueued \<Rightarrow> ''build_enqueued''
      | InvocationStarted \<Rightarrow> ''invocation_started''
      | InvocationFinished \<Rightarrow> ''invocation_finished''
      | BuildFinished \<Rightarrow> ''build_finished'')"

datatype 'r work_phase =
    SettingUp
  | Lifecycle lifecycle_call
  | Driving "'r drive_phase"
  | Finished sink_stats "string option"

datatype log_line =
    EnterDrive nat \<comment> \<open>the attempt\<close>
  | LostEvents nat
  | Unreachable string
  | GaveUp string

record 'r work_state =
  ws_phase :: "'r work_phase"
  ws_stream :: "'r stream_state"
  ws_attempt :: nat
  ws_acked_before :: int
  ws_warned :: bool
  ws_log :: "log_line list"

datatype 'e work_input =
    SetupOk
  | SetupFailed string
  | SetupStalled
  | LifecycleRpc "nat \<Rightarrow> lifecycle_answer"
  | Drive "'e input"
  | PostStreamTimeout

definition default_stats :: sink_stats where
  "default_stats = \<lparr>ss_sent = 0, ss_acked = 0\<rparr>"

definition stream_stats :: "'r work_state \<Rightarrow> sink_stats" where
  "stream_stats ws = from_counters (next_seq (ws_stream ws)) (max_acked (ws_stream ws))"

definition log :: "log_line \<Rightarrow> 'r work_state \<Rightarrow> 'r work_state" where
  "log line ws = ws\<lparr>ws_log := ws_log ws @ [line]\<rparr>"

definition fail :: "string \<Rightarrow> string \<Rightarrow> sink_stats \<Rightarrow> 'r work_state \<Rightarrow> 'r work_state" where
  "fail user_msg last_error stats ws =
     (log (GaveUp user_msg) ws)\<lparr>ws_phase := Finished stats (Some last_error)\<rparr>"

definition finalize :: "string \<Rightarrow> sink_stats \<Rightarrow> 'r work_state \<Rightarrow> 'r work_state" where
  "finalize last_error stats ws =
     fail (''giving up, build events were not delivered: '' @ last_error) last_error stats ws"

definition enter_drive :: "'r work_state \<Rightarrow> 'r work_state" where
  "enter_drive ws =
     (log (EnterDrive (ws_attempt ws)) ws)
       \<lparr>ws_phase := Driving (drive_start (ws_stream ws)),
        ws_acked_before := max_acked (ws_stream ws)\<rparr>"

definition start_stream :: "retry_config \<Rightarrow> 'r work_state \<Rightarrow> 'r work_state" where
  "start_stream cfg ws =
     enter_drive (ws\<lparr>ws_stream := stream_init (retry_max_buffer_bytes cfg), ws_attempt := 0,
       ws_warned := False\<rparr>)"

definition is_post_stream :: "lifecycle_call \<Rightarrow> bool" where
  "is_post_stream c \<longleftrightarrow> c = InvocationFinished \<or> c = BuildFinished"

definition lifecycle_step ::
  "retry_config \<Rightarrow> lifecycle_call \<Rightarrow> (nat \<Rightarrow> lifecycle_answer) \<Rightarrow> 'r work_state \<Rightarrow> 'r work_state" where
  "lifecycle_step cfg c rpc ws =
     (let stats = (if is_post_stream c then stream_stats ws else default_stats)
      in case snd (retry_lifecycle (max_retries cfg) rpc 0) of
           Some e \<Rightarrow> finalize (call_name c @ '': '' @ show_client_error e) stats ws
         | None \<Rightarrow> (case c of
               BuildEnqueued \<Rightarrow> ws\<lparr>ws_phase := Lifecycle InvocationStarted\<rparr>
             | InvocationStarted \<Rightarrow> start_stream cfg ws
             | InvocationFinished \<Rightarrow> ws\<lparr>ws_phase := Lifecycle BuildFinished\<rparr>
             | BuildFinished \<Rightarrow> ws\<lparr>ws_phase := Finished stats None\<rparr>))"

definition retry_step :: "retry_config \<Rightarrow> client_error \<Rightarrow> 'r work_state \<Rightarrow> 'r work_state" where
  "retry_step cfg err ws =
     (let made_progress = (max_acked (ws_stream ws) > ws_acked_before ws);
          again = (\<lambda>ws. enter_drive
            (if made_progress then ws else ws\<lparr>ws_attempt := ws_attempt ws + 1\<rparr>))
      in if made_progress \<and> max_retries cfg > 0 then again (ws\<lparr>ws_attempt := 0\<rparr>)
         else if ws_attempt ws \<ge> max_retries cfg then
           finalize (''giving up after '' @ show_nat (ws_attempt ws) @ '' attempts: '' @
             show_client_error err) (stream_stats ws) ws
         else if \<not> ws_warned ws then
           again ((log (Unreachable (''backend unreachable, retrying (up to '' @
             show_nat (max_retries cfg) @ '' times): '' @ show_client_error err)) ws)
             \<lparr>ws_warned := True\<rparr>)
         else again ws)"

definition outcome_step :: "retry_config \<Rightarrow> drive_outcome \<Rightarrow> 'r work_state \<Rightarrow> 'r work_state" where
  "outcome_step cfg out ws =
     (case out of
        Done \<Rightarrow> ws\<lparr>ws_phase := Lifecycle InvocationFinished\<rparr>
      | UpstreamClosed \<Rightarrow> ws\<lparr>ws_phase := Lifecycle InvocationFinished\<rparr>
      | Transient err \<Rightarrow> retry_step cfg err ws
      | Fatal err \<Rightarrow> finalize (''non-retryable: '' @ show_client_error err) (stream_stats ws) ws)"

definition driving_step ::
  "retry_config \<Rightarrow> ('e, 'r) bes_api \<Rightarrow> 'r drive_phase \<Rightarrow> 'e input \<Rightarrow> 'r work_state \<Rightarrow>
   'r work_state option" where
  "driving_step cfg api phase inp ws =
     (case drive_step api phase (ws_stream ws) inp of
        None \<Rightarrow> None
      | Some (phase', st, w) \<Rightarrow>
          (let ws' = (if w > 0 then log (LostEvents w) else id)
                 (ws\<lparr>ws_stream := st, ws_phase := Driving phase'\<rparr>)
           in Some (case phase' of Returned out \<Rightarrow> outcome_step cfg out ws' | _ \<Rightarrow> ws')))"

definition work_step ::
  "retry_config \<Rightarrow> ('e, 'r) bes_api \<Rightarrow> 'r work_state \<Rightarrow> 'e work_input \<Rightarrow> 'r work_state option" where
  "work_step cfg api ws inp =
     (case ws_phase ws of
        SettingUp \<Rightarrow> (case inp of
            SetupOk \<Rightarrow> Some (ws\<lparr>ws_phase := Lifecycle BuildEnqueued\<rparr>)
          | SetupFailed e \<Rightarrow>
              Some (fail ''invalid backend configuration, build events will not be delivered''
                (''client setup failed: '' @ e) default_stats ws)
          | SetupStalled \<Rightarrow>
              Some (fail ''client setup stalled for 10s, build events will not be delivered''
                ''client setup timed out after 10s'' default_stats ws)
          | _ \<Rightarrow> None)
      | Lifecycle c \<Rightarrow> (case inp of
            LifecycleRpc rpc \<Rightarrow> Some (lifecycle_step cfg c rpc ws)
          | PostStreamTimeout \<Rightarrow>
              if is_post_stream c \<and> rc_timeout cfg \<noteq> None then
                Some (finalize ''post-stream lifecycle exceeded its budget'' (stream_stats ws) ws)
              else None
          | _ \<Rightarrow> None)
      | Driving phase \<Rightarrow> (case inp of
            Drive i \<Rightarrow> driving_step cfg api phase i ws
          | _ \<Rightarrow> None)
      | Finished _ _ \<Rightarrow> None)"

definition work_init :: "'r work_state" where
  "work_init =
     \<lparr>ws_phase = SettingUp, ws_stream = stream_init 0, ws_attempt = 0, ws_acked_before = 0,
      ws_warned = False, ws_log = []\<rparr>"

text \<open>The states of a sink, whatever the network does.\<close>

inductive sink_reachable :: "retry_config \<Rightarrow> ('e, 'r) bes_api \<Rightarrow> 'r work_state \<Rightarrow> bool"
  for cfg api where
  init: "sink_reachable cfg api work_init"
| step: "sink_reachable cfg api ws \<Longrightarrow> work_step cfg api ws inp = Some ws' \<Longrightarrow>
    sink_reachable cfg api ws'"

inductive_cases sink_reachableE: "sink_reachable cfg api ws"

section \<open>The invariant of a sink\<close>

definition lost_total :: "log_line list \<Rightarrow> nat" where
  "lost_total l = sum_list (map (\<lambda>x. case x of LostEvents n \<Rightarrow> n | _ \<Rightarrow> 0) l)"

definition connections :: "log_line list \<Rightarrow> nat" where
  "connections l = length (filter (\<lambda>x. case x of EnterDrive _ \<Rightarrow> True | _ \<Rightarrow> False) l)"

lemma log_counts [simp]:
  "lost_total [] = 0" "lost_total (l @ [x]) = lost_total l + (case x of LostEvents n \<Rightarrow> n | _ \<Rightarrow> 0)"
  "connections [] = 0"
  "connections (l @ [x]) = connections l + (case x of EnterDrive _ \<Rightarrow> 1 | _ \<Rightarrow> 0)"
  by (simp_all add: lost_total_def connections_def split: log_line.split)

definition stage_ok :: "'r work_state \<Rightarrow> bool" where
  "stage_ok ws \<longleftrightarrow>
     (case ws_phase ws of
        SettingUp \<Rightarrow> ws_log ws = []
      | Lifecycle c \<Rightarrow> if is_post_stream c then buffer_empty (ws_stream ws) else ws_log ws = []
      | Driving phase \<Rightarrow> phase_ok phase (ws_stream ws)
      | Finished stats err \<Rightarrow> err = None \<longrightarrow> buffer_empty (ws_stream ws) \<and> stats = stream_stats ws)"

definition budget_ok :: "nat \<Rightarrow> 'r work_state \<Rightarrow> bool" where
  "budget_ok R ws \<longleftrightarrow>
     ws_attempt ws \<le> R \<and> 0 \<le> ws_acked_before ws \<and>
     ws_acked_before ws \<le> max_acked (ws_stream ws) \<and>
     connections (ws_log ws) \<le> (R + 1) * nat (ws_acked_before ws) + ws_attempt ws + 1"

definition work_inv :: "nat \<Rightarrow> 'r work_state \<Rightarrow> bool" where
  "work_inv R ws \<longleftrightarrow>
     stream_inv (lost_total (ws_log ws)) (ws_stream ws) \<and> budget_ok R ws \<and> stage_ok ws"

lemma drive_step_acked:
  "drive_step api phase st inp = Some (phase', st', w) \<Longrightarrow> max_acked st \<le> max_acked st'"
  by (cases phase; cases inp)
    (auto simp: step_defs take_event_def record_ack_def take_evicted_def Let_def
      split: option.splits send_result.splits open_result.splits response.splits if_splits)

text \<open>What a new line of the log or a new phase leaves alone.\<close>

lemma log_fields [simp]:
  "ws_phase (log x ws) = ws_phase ws" "ws_stream (log x ws) = ws_stream ws"
  "ws_attempt (log x ws) = ws_attempt ws" "ws_acked_before (log x ws) = ws_acked_before ws"
  "ws_warned (log x ws) = ws_warned ws" "ws_log (log x ws) = ws_log ws @ [x]"
  by (simp_all add: log_def)

lemma budget_ok_fields:
  "ws_stream ws' = ws_stream ws \<Longrightarrow> ws_attempt ws' = ws_attempt ws \<Longrightarrow>
   ws_acked_before ws' = ws_acked_before ws \<Longrightarrow> connections (ws_log ws') = connections (ws_log ws) \<Longrightarrow>
   budget_ok R ws' = budget_ok R ws"
  by (simp add: budget_ok_def)

lemma work_inv_fail:
  assumes "stream_inv (lost_total (ws_log ws)) (ws_stream ws)" and "budget_ok R ws"
  shows "work_inv R (fail m e stats ws)" and "work_inv R (finalize e stats ws)"
  using assms by (simp_all add: work_inv_def fail_def finalize_def stage_ok_def budget_ok_def)

lemma work_inv_enter:
  assumes "stream_inv (lost_total (ws_log ws)) (ws_stream ws)"
    and "ws_attempt ws \<le> R"
    and "connections (ws_log ws) \<le> (R + 1) * nat (max_acked (ws_stream ws)) + ws_attempt ws"
  shows "work_inv R (enter_drive ws)"
  using assms phase_ok_start [of "ws_stream ws"]
  by (simp add: work_inv_def enter_drive_def stage_ok_def budget_ok_def stream_inv_def)

lemma work_inv_retry:
  assumes inv: "stream_inv (lost_total (ws_log ws)) (ws_stream ws)" and budget: "budget_ok R ws"
    and R: "max_retries cfg = R"
  shows "work_inv R (retry_step cfg err ws)"
proof (cases "max_acked (ws_stream ws) > ws_acked_before ws \<and> 0 < R")
  case True
  let ?a = "ws_acked_before ws" and ?m = "max_acked (ws_stream ws)"
  have "nat ?a + 1 \<le> nat ?m" using True budget by (auto simp: budget_ok_def)
  then have "(R + 1) * (nat ?a + 1) \<le> (R + 1) * nat ?m" by (rule mult_le_mono2)
  moreover have "connections (ws_log ws) \<le> (R + 1) * nat ?a + (R + 1)"
    using budget by (simp add: budget_ok_def)
  ultimately have "connections (ws_log ws) \<le> (R + 1) * nat ?m" by (simp add: distrib_left)
  then show ?thesis
    using True inv R by (auto simp: retry_step_def Let_def intro!: work_inv_enter)
next
  case False
  show ?thesis
  proof (cases "ws_attempt ws \<ge> R")
    case True
    with False R show ?thesis
      using work_inv_fail(2) [OF inv budget] by (auto simp: retry_step_def Let_def)
  next
    case more: False
    then have no: "\<not> max_acked (ws_stream ws) > ws_acked_before ws" using False by auto
    have "(R + 1) * nat (ws_acked_before ws) \<le> (R + 1) * nat (max_acked (ws_stream ws))"
      using budget by (intro mult_le_mono2 nat_mono) (simp add: budget_ok_def)
    then have "connections (ws_log ws) \<le>
        (R + 1) * nat (max_acked (ws_stream ws)) + (ws_attempt ws + 1)"
      using budget by (simp add: budget_ok_def)
    with more no inv R show ?thesis
      by (auto simp: retry_step_def Let_def intro!: work_inv_enter)
  qed
qed

lemma work_inv_outcome:
  assumes "stream_inv (lost_total (ws_log ws)) (ws_stream ws)" and "budget_ok R ws"
    and "max_retries cfg = R" and "outcome_ok out (ws_stream ws)"
  shows "work_inv R (outcome_step cfg out ws)"
  using assms
  by (cases out)
    (auto simp: outcome_step_def work_inv_retry work_inv_fail outcome_ok_def,
     auto simp: work_inv_def stage_ok_def budget_ok_def is_post_stream_def)

lemma work_inv_driving:
  assumes inv: "work_inv (max_retries cfg) ws" and "ws_phase ws = Driving phase"
    and "driving_step cfg api phase inp ws = Some ws'"
  shows "work_inv (max_retries cfg) ws'"
proof -
  from assms(3) obtain phase' st w where
    d: "drive_step api phase (ws_stream ws) inp = Some (phase', st, w)"
    by (auto simp: driving_step_def split: option.splits)
  define mid where
    "mid = (if w > 0 then log (LostEvents w) else id) (ws\<lparr>ws_stream := st, ws_phase := Driving phase'\<rparr>)"
  have ws': "ws' = (case phase' of Returned out \<Rightarrow> outcome_step cfg out mid | _ \<Rightarrow> mid)"
    using assms(3) unfolding driving_step_def d mid_def by (simp only: option.case prod.case Let_def option.inject)
  have "stream_inv (lost_total (ws_log ws) + w) st"
    using inv stream_inv_step [OF _ d] by (simp add: work_inv_def)
  then have stream: "stream_inv (lost_total (ws_log mid)) (ws_stream mid)"
    by (cases "w = 0") (simp_all add: mid_def)
  have "phase_ok phase (ws_stream ws)" using inv assms(2) by (simp add: work_inv_def stage_ok_def)
  then have phase: "phase_ok phase' (ws_stream mid)" using phase_ok_step [OF _ d] by (simp add: mid_def)
  have budget: "budget_ok (max_retries cfg) mid"
    using inv drive_step_acked [OF d] by (auto simp: work_inv_def budget_ok_def mid_def)
  show ?thesis
  proof (cases "\<exists>out. phase' = Returned out")
    case True
    then obtain out where out: "phase' = Returned out" by blast
    with phase have "outcome_ok out (ws_stream mid)" by (simp add: phase_ok_def)
    from work_inv_outcome [OF stream budget refl this] out ws' show ?thesis by simp
  next
    case False
    then have "ws' = mid" using ws' by (cases phase') auto
    moreover have "ws_phase mid = Driving phase'" by (simp add: mid_def)
    ultimately show ?thesis using stream budget phase by (simp add: work_inv_def stage_ok_def)
  qed
qed

lemma work_inv_start:
  assumes "ws_log ws = []" shows "work_inv R (start_stream cfg ws)"
  unfolding start_stream_def
  by (rule work_inv_enter) (use stream_inv_init assms in \<open>simp_all add: stream_init_def\<close>)

lemma work_inv_lifecycle:
  assumes inv: "work_inv (max_retries cfg) ws" and phase: "ws_phase ws = Lifecycle c"
  shows "work_inv (max_retries cfg) (lifecycle_step cfg c rpc ws)"
proof (cases "snd (retry_lifecycle (max_retries cfg) rpc 0)")
  case (Some e)
  then show ?thesis
    using inv by (auto simp: lifecycle_step_def Let_def work_inv_def intro!: work_inv_fail(2) [unfolded work_inv_def])
next
  case None
  have stage: "if is_post_stream c then buffer_empty (ws_stream ws) else ws_log ws = []"
    using inv phase by (simp add: work_inv_def stage_ok_def)
  show ?thesis
  proof (cases c)
    case InvocationStarted
    with None stage show ?thesis
      by (simp add: lifecycle_step_def is_post_stream_def work_inv_start Let_def)
  qed (use None inv stage in \<open>auto simp: lifecycle_step_def is_post_stream_def work_inv_def stage_ok_def
         budget_ok_def stream_stats_def Let_def\<close>)
qed

lemma work_inv_step:
  assumes inv: "work_inv (max_retries cfg) ws" and step: "work_step cfg api ws inp = Some ws'"
  shows "work_inv (max_retries cfg) ws'"
proof (cases "ws_phase ws")
  case SettingUp
  have base: "stream_inv (lost_total (ws_log ws)) (ws_stream ws)" "budget_ok (max_retries cfg) ws"
    "ws_log ws = []" using inv SettingUp by (auto simp: work_inv_def stage_ok_def)
  with SettingUp step show ?thesis
    by (cases inp)
      (auto simp: work_step_def work_inv_fail,
       auto simp: work_inv_def stage_ok_def budget_ok_def is_post_stream_def)
next
  case (Lifecycle c)
  with step inv show ?thesis
    by (cases inp)
      (auto simp: work_step_def work_inv_lifecycle split: if_splits
        intro!: work_inv_fail(2) intro: work_inv_def [THEN iffD1, THEN conjunct1]
          work_inv_def [THEN iffD1, THEN conjunct2, THEN conjunct1])
next
  case (Driving phase)
  with step inv show ?thesis
    by (cases inp) (auto simp: work_step_def intro: work_inv_driving)
qed (use step in \<open>simp add: work_step_def\<close>)

lemma work_inv_init: "work_inv R work_init"
  using stream_inv_init [of 0]
  by (simp add: work_inv_def work_init_def stage_ok_def budget_ok_def stream_init_def)

lemma reachable_inv: "sink_reachable cfg api ws \<Longrightarrow> work_inv (max_retries cfg) ws"
  by (induction rule: sink_reachable.induct) (auto intro: work_inv_init work_inv_step)

section \<open>A complete run\<close>

fun work_run ::
  "retry_config \<Rightarrow> ('e, 'r) bes_api \<Rightarrow> 'r work_state \<Rightarrow> 'e work_input list \<Rightarrow> 'r work_state option" where
  "work_run cfg api ws [] = Some ws"
| "work_run cfg api ws (inp # inps) =
     (case work_step cfg api ws inp of None \<Rightarrow> None | Some ws' \<Rightarrow> work_run cfg api ws' inps)"

lemma reachable_run:
  "sink_reachable cfg api ws \<Longrightarrow> work_run cfg api ws inps = Some ws' \<Longrightarrow> sink_reachable cfg api ws'"
  by (induction inps arbitrary: ws) (auto split: option.splits intro: sink_reachable.step)

definition test_config :: retry_config where
  "test_config = default_retry_config 100"

definition full_run :: "string work_input list" where
  "full_run =
     [SetupOk, LifecycleRpc (\<lambda>_. LAcked), LifecycleRpc (\<lambda>_. LAcked)] @
     map Drive two_event_inputs @ [LifecycleRpc (\<lambda>_. LAcked), LifecycleRpc (\<lambda>_. LAcked)]"

lemma retry_lifecycle_acked: "retry_lifecycle R (\<lambda>_. LAcked) n = (n + 1, None)"
  by (subst retry_lifecycle.simps) (simp add: lifecycle_error_def)

lemmas work_eval = work_step_def lifecycle_step_def retry_lifecycle_acked start_stream_def
  enter_drive_def log_def driving_step_def outcome_step_def is_post_stream_def full_run_def
  work_init_def test_config_def default_retry_config_def stream_stats_def from_counters_def

lemma short_run:
  obtains ws where "work_run test_config text_api work_init (take 3 full_run) = Some ws"
    and "connections (ws_log ws) = 1"
  by (simp add: work_eval run_eval connections_def Let_def)

lemma finished_run:
  obtains ws where "work_run test_config text_api work_init full_run = Some ws"
    and "ws_phase ws = Finished \<lparr>ss_sent = 2, ss_acked = 2\<rparr> None"
    and "lost_total (ws_log ws) = 0" and "rb_evicted (st_buffer (ws_stream ws)) = 0"
  by (simp add: work_eval run_eval lost_total_def Let_def)

section \<open>Properties\<close>

text \<open>C3. No build event is lost silently: in every state a sink can reach, whatever the backend,
  the network and the timers do, the sequence numbers that are assigned, not covered by an
  ack and no longer replayable are at most as many as the evictions that the user was warned
  about or that are still counted for the next warning.\<close>

theorem no_silent_loss:
  assumes "sink_reachable cfg api ws"
  shows "card (missing (ws_stream ws)) \<le>
    lost_total (ws_log ws) + rb_evicted (st_buffer (ws_stream ws))"
  using reachable_inv [OF assms] by (simp add: work_inv_def stream_inv_def)

theorem no_silent_loss_witness:
  "\<exists>ws. sink_reachable test_config text_api ws \<and> connections (ws_log ws) = 1 \<and>
     card (missing (ws_stream ws)) \<le> lost_total (ws_log ws) + rb_evicted (st_buffer (ws_stream ws))"
proof -
  obtain ws where run: "work_run test_config text_api work_init (take 3 full_run) = Some ws"
    "connections (ws_log ws) = 1" by (rule short_run)
  from no_silent_loss [OF reachable_run [OF sink_reachable.init run(1)]] run show ?thesis
    using reachable_run [OF sink_reachable.init run(1)] by blast
qed

text \<open>C19. A sink that finishes without an error and never had to evict an event has delivered
  everything: the count of acked events it reports is at least the count it sent.\<close>

theorem clean_finish_delivers_all:
  assumes "sink_reachable cfg api ws" and "ws_phase ws = Finished stats None"
    and "lost_total (ws_log ws) = 0" and "rb_evicted (st_buffer (ws_stream ws)) = 0"
  shows "ss_sent stats \<le> ss_acked stats"
proof -
  let ?st = "ws_stream ws"
  have inv: "work_inv (max_retries cfg) ws" by (rule reachable_inv [OF assms(1)])
  then have empty: "buffer_empty ?st" and stats: "stats = stream_stats ws"
    using assms(2) by (auto simp: work_inv_def stage_ok_def)
  have "card (missing ?st) = 0" and pos: "1 \<le> next_seq ?st"
    using inv assms(3,4) by (simp_all add: work_inv_def stream_inv_def)
  then have "{max_acked ?st<..<next_seq ?st} = {}"
    using empty by (simp add: missing_def buffer_empty_def seqs_def)
  then have "next_seq ?st - 1 \<le> max_acked ?st"
    by (metis diff_ge_0_iff_ge greaterThanLessThan_empty_iff2 linorder_not_le zle_diff1_eq
        add_le_imp_le_diff zless_imp_add1_zle greaterThanLessThan_iff empty_iff less_le_not_le)
  with stats pos show ?thesis by (simp add: stream_stats_def from_counters_def)
qed

theorem clean_finish_delivers_all_witness:
  "\<exists>ws stats. sink_reachable test_config text_api ws \<and> ws_phase ws = Finished stats None \<and>
     ss_sent stats = 2 \<and> ss_sent stats \<le> ss_acked stats"
proof -
  obtain ws where run: "work_run test_config text_api work_init full_run = Some ws"
    "ws_phase ws = Finished \<lparr>ss_sent = 2, ss_acked = 2\<rparr> None"
    "lost_total (ws_log ws) = 0" "rb_evicted (st_buffer (ws_stream ws)) = 0" by (rule finished_run)
  have reach: "sink_reachable test_config text_api ws"
    by (rule reachable_run [OF sink_reachable.init run(1)])
  from clean_finish_delivers_all [OF reach run(2-4)] reach run(2) show ?thesis
    by (intro exI [of _ ws] exI [of _ "\<lparr>ss_sent = 2, ss_acked = 2\<rparr>"]) simp
qed

text \<open>C26. Reconnecting is bounded by progress: with \<open>R\<close> the configured retries, a sink opens at most
  \<open>(R + 1) * (acked + 1)\<close> connections in its whole life, where \<open>acked\<close> is the highest number
  the server acked; so a backend that acks nothing more is given up after finitely many
  attempts, while every ack of a new event buys a fresh budget.\<close>

theorem reconnects_bounded:
  assumes "sink_reachable cfg api ws"
  shows "connections (ws_log ws) \<le> (max_retries cfg + 1) * (nat (max_acked (ws_stream ws)) + 1)"
proof -
  let ?R = "max_retries cfg"
  have b: "budget_ok ?R ws" using reachable_inv [OF assms] by (simp add: work_inv_def)
  have "connections (ws_log ws) \<le> (?R + 1) * nat (ws_acked_before ws) + (?R + 1)"
    using b by (simp add: budget_ok_def)
  also have "\<dots> = (?R + 1) * (nat (ws_acked_before ws) + 1)" by simp
  also have "\<dots> \<le> (?R + 1) * (nat (max_acked (ws_stream ws)) + 1)"
    using b by (intro mult_le_mono2) (simp add: budget_ok_def nat_mono)
  finally show ?thesis .
qed

theorem reconnects_bounded_witness:
  "connections (ws_log (work_init :: string work_state)) \<le>
   (max_retries test_config + 1) * (nat (max_acked (ws_stream (work_init :: string work_state))) + 1)"
  by (rule reconnects_bounded [of test_config text_api]) (rule sink_reachable.init)

text \<open>A lifecycle call makes at most one attempt more than the configured retries, and ends with
  the answer to its last attempt: success, an error that must not be retried, or any error
  once the budget is used up.\<close>

theorem lifecycle_attempts_bounded:
  "case retry_lifecycle R rpc 0 of (n, err) \<Rightarrow>
     n \<le> R + 1 \<and> lifecycle_error (rpc (n - 1)) = err \<and>
     (err = None \<or> n = R + 1 \<or> (\<exists>e. err = Some e \<and> \<not> is_retryable e))"
proof -
  have "case retry_lifecycle R rpc a of (n, err) \<Rightarrow>
      a < n \<and> n \<le> R + 1 \<and> lifecycle_error (rpc (n - 1)) = err \<and>
      (err = None \<or> n = R + 1 \<or> (\<exists>e. err = Some e \<and> \<not> is_retryable e))" if "a \<le> R" for a
    using that
  proof (induction R rpc a rule: retry_lifecycle.induct)
    case (1 R rpc a)
    show ?case
    proof (cases "lifecycle_error (rpc a)")
      case None
      with "1.prems" show ?thesis by (subst retry_lifecycle.simps) simp
    next
      case (Some e)
      show ?thesis
      proof (cases "\<not> is_retryable e \<or> a \<ge> R")
        case True
        with Some "1.prems" show ?thesis by (subst retry_lifecycle.simps) auto
      next
        case False
        with "1.IH" [OF Some False] Some show ?thesis
          by (subst retry_lifecycle.simps) auto
      qed
    qed
  qed
  from this [of 0] show ?thesis by auto
qed

end
