(* ===== verification/Auth_Deploy.thy ===== *)
theory Auth_Deploy
  imports Rust_Path
begin

text \<open>
  Deployments (crates/axl-runtime/src/engine/aspect/auth.rs): the configured deployments, which
  one a command selects, which one owns an endpoint host, and how \<open>configure\<close> records one.

  Outside the model and parameters of it: \<open>lc\<close> is \<open>str::to_lowercase\<close> with Unicode's tables,
  \<open>parse\<close> and \<open>ser\<close> are serde_json on a file's content of type \<open>'j\<close>, \<open>registrable\<close> is
  \<open>psl::domain_str\<close>, and \<open>http_get\<close> is reqwest. The host the program runs on is the record
  \<open>host_env\<close>.
\<close>

section \<open>Data\<close>

record endpoints =
  ep_cache :: string
  ep_bes :: string
  ep_exec :: string
  ep_results_url :: string

definition endpoints_empty :: "endpoints \<Rightarrow> bool" where
  "endpoints_empty e \<longleftrightarrow> ep_cache e = [] \<and> ep_bes e = [] \<and> ep_exec e = [] \<and> ep_results_url e = []"

definition no_endpoints :: endpoints where
  "no_endpoints = \<lparr>ep_cache = [], ep_bes = [], ep_exec = [], ep_results_url = []\<rparr>"

record deployment =
  dp_name :: string
  dp_default :: bool
  dp_issuer :: "string option"
  dp_client_id :: "string option"
  dp_api_url :: "string option"
  dp_hosts :: "string list"
  dp_scopes :: "string list"
  dp_endpoints :: endpoints

record auth_env =
  ae_domain :: string
  ae_client_id :: string
  ae_scopes :: "string list"

definition default_login_scopes :: "string list" where
  "default_login_scopes = [''openid'', ''profile'', ''email'', ''offline_access'']"

definition default_deployment_name :: string where
  "default_deployment_name = ''aspect''"

definition default_api_url :: string where
  "default_api_url = ''https://api.aspect.build''"

definition default_deployment :: deployment where
  "default_deployment =
     \<lparr>dp_name = default_deployment_name, dp_default = True,
      dp_issuer = Some ''https://auth.aspect.build'',
      dp_client_id = Some ''771ff228-18a1-43f0-bc83-62c9df0d72ca'',
      dp_api_url = Some default_api_url, dp_hosts = [],
      dp_scopes = [''openid'', ''profile'', ''email''], dp_endpoints = no_endpoints\<rparr>"

datatype auth_error =
  NoHome
| ReadFailed string string
| ParseFailed string string
| WriteFailed string string
| UnknownDeployment string
| NoDeployments
| NoLoginConfig string
| BuiltinCannotBeRemoved

section \<open>The configuration files\<close>

datatype 'j file_read = Content 'j | NotFound | Unreadable string

record 'j host_env =
  he_home :: "string option"
  he_workspace :: "string option"
  he_files :: "string \<Rightarrow> 'j file_read"
  he_write_error :: "string \<Rightarrow> string option" \<comment> \<open>why creating or writing the path fails\<close>

definition config_path :: "'j host_env \<Rightarrow> auth_error + string" where
  "config_path h =
     (case he_home h of
        None \<Rightarrow> Inl NoHome
      | Some home \<Rightarrow> Inr (path_join (path_join home ''.aspect'') ''config.json''))"

definition repo_config_path :: "'j host_env \<Rightarrow> string option" where
  "repo_config_path h =
     map_option (\<lambda>root. path_join (path_join root ''.aspect'') ''config.json'') (he_workspace h)"

definition load_config_file ::
  "('j \<Rightarrow> string + deployment list) \<Rightarrow> 'j host_env \<Rightarrow> string \<Rightarrow> auth_error + deployment list" where
  "load_config_file parse h path =
     (case he_files h path of
        Content j \<Rightarrow> (case parse j of Inl e \<Rightarrow> Inl (ParseFailed path e) | Inr ds \<Rightarrow> Inr ds)
      | NotFound \<Rightarrow> Inr []
      | Unreadable e \<Rightarrow> Inl (ReadFailed path e))"

definition write_user_config ::
  "(deployment list \<Rightarrow> 'j) \<Rightarrow> 'j host_env \<Rightarrow> deployment list \<Rightarrow> auth_error + 'j host_env" where
  "write_user_config ser h ds =
     (case config_path h of
        Inl e \<Rightarrow> Inl e
      | Inr path \<Rightarrow>
          (case he_write_error h path of
             Some e \<Rightarrow> Inl (WriteFailed path e)
           | None \<Rightarrow> Inr (h\<lparr>he_files := (he_files h)(path := Content (ser ds))\<rparr>)))"

section \<open>The effective deployments\<close>

text \<open>The first entry with the name of \<open>d\<close> is replaced by \<open>d\<close>, or \<open>d\<close> is pushed.\<close>

fun put_named :: "deployment \<Rightarrow> deployment list \<Rightarrow> deployment list" where
  "put_named d [] = [d]"
| "put_named d (x # xs) = (if dp_name x = dp_name d then d # xs else x # put_named d xs)"

definition overlay :: "deployment list \<Rightarrow> deployment list \<Rightarrow> deployment list" where
  "overlay merged entries = fold put_named entries merged"

fun clear_first_default :: "string \<Rightarrow> deployment list \<Rightarrow> deployment list" where
  "clear_first_default n [] = []"
| "clear_first_default n (d # ds) =
     (if dp_name d = n then d\<lparr>dp_default := False\<rparr> # ds else d # clear_first_default n ds)"

definition reconcile_seed_default :: "deployment list \<Rightarrow> deployment list" where
  "reconcile_seed_default ds =
     (if list_ex (\<lambda>d. dp_default d \<and> dp_name d \<noteq> default_deployment_name) ds
      then clear_first_default default_deployment_name ds else ds)"

definition load_deployments ::
  "('j \<Rightarrow> string + deployment list) \<Rightarrow> 'j host_env \<Rightarrow> auth_error + deployment list" where
  "load_deployments parse h =
     (let seed = [default_deployment]
      in case (case repo_config_path h of
                 None \<Rightarrow> Inr seed
               | Some path \<Rightarrow>
                   (case load_config_file parse h path of
                      Inl e \<Rightarrow> Inl e | Inr ds \<Rightarrow> Inr (overlay seed ds))) of
           Inl e \<Rightarrow> Inl e
         | Inr merged \<Rightarrow>
             (case config_path h of
                Inl e \<Rightarrow> Inl e
              | Inr path \<Rightarrow>
                  (case load_config_file parse h path of
                     Inl e \<Rightarrow> Inl e
                   | Inr ds \<Rightarrow> Inr (reconcile_seed_default (overlay merged ds)))))"

section \<open>Selection\<close>

definition non_empty :: "string option \<Rightarrow> string option" where
  "non_empty s = (case s of Some (c # cs) \<Rightarrow> Some (c # cs) | _ \<Rightarrow> None)"

definition select_deployment ::
  "deployment list \<Rightarrow> string option \<Rightarrow> auth_error + deployment" where
  "select_deployment ds name =
     (case non_empty name of
        Some n \<Rightarrow>
          (case find (\<lambda>d. dp_name d = n) ds of
             Some d \<Rightarrow> Inr d | None \<Rightarrow> Inl (UnknownDeployment n))
      | None \<Rightarrow>
          (case find dp_default ds of
             Some d \<Rightarrow> Inr d
           | None \<Rightarrow>
               (case find (\<lambda>d. dp_name d = default_deployment_name) ds of
                  Some d \<Rightarrow> Inr d | None \<Rightarrow> Inl NoDeployments)))"

definition select_account_or_deployment ::
  "deployment list \<Rightarrow> string option \<Rightarrow> auth_error + deployment" where
  "select_account_or_deployment ds name =
     (case non_empty name of
        Some _ \<Rightarrow> select_deployment ds name
      | None \<Rightarrow> select_deployment ds (Some default_deployment_name))"

definition owns :: "(string \<Rightarrow> string) \<Rightarrow> string \<Rightarrow> string \<Rightarrow> bool" where
  "owns lc h0 host =
     (let h = lc (trim_end_by (\<lambda>c. c = CHR ''.'') (dropWhile (\<lambda>c. c = CHR ''.'') (trim h0)))
      in h \<noteq> [] \<and> (host = h \<or> ends_with (CHR ''.'' # h) host))"

definition deployment_name_for_host ::
  "(string \<Rightarrow> string) \<Rightarrow> deployment list \<Rightarrow> string \<Rightarrow> string option" where
  "deployment_name_for_host lc ds host0 =
     (let host = lc (trim_end_by (\<lambda>c. c = CHR ''.'') host0)
      in map_option dp_name (find (\<lambda>d. list_ex (\<lambda>h. owns lc h host) (dp_hosts d)) ds))"

definition resolve_api_url ::
  "('j \<Rightarrow> string + deployment list) \<Rightarrow> 'j host_env \<Rightarrow> auth_error + string" where
  "resolve_api_url parse h =
     (case load_deployments parse h of
        Inl e \<Rightarrow> Inl e
      | Inr ds \<Rightarrow> Inr (case List.map_filter dp_api_url ds of u # _ \<Rightarrow> u | [] \<Rightarrow> default_api_url))"

section \<open>Login configuration\<close>

definition google_issuer :: string where
  "google_issuer = ''https://accounts.google.com''"

definition trim_slashes :: "string \<Rightarrow> string" where
  "trim_slashes s = trim_end_by (\<lambda>c. c = CHR ''/'') s"

definition issuer_is_google :: "string \<Rightarrow> bool" where
  "issuer_is_google issuer \<longleftrightarrow> eq_ignore_case (trim_slashes issuer) google_issuer"

definition login_scopes :: "string list \<Rightarrow> bool \<Rightarrow> string \<Rightarrow> string list" where
  "login_scopes advertised needs_refresh issuer =
     (let scopes = (if advertised = [] then default_login_scopes else advertised)
      in if issuer_is_google issuer then filter (\<lambda>s. s \<noteq> ''offline_access'') scopes
         else if needs_refresh \<and> ''offline_access'' \<notin> set scopes
         then scopes @ [''offline_access''] else scopes)"

definition auth_env_from :: "deployment \<Rightarrow> auth_error + auth_env" where
  "auth_env_from d =
     (case (dp_issuer d, dp_client_id d) of
        (Some domain, Some client_id) \<Rightarrow>
          Inr \<lparr>ae_domain = trim_slashes domain, ae_client_id = client_id,
               ae_scopes = login_scopes (dp_scopes d) (dp_hosts d \<noteq> []) domain\<rparr>
      | _ \<Rightarrow> Inl (NoLoginConfig (dp_name d)))"

definition resolve_auth_env ::
  "('j \<Rightarrow> string + deployment list) \<Rightarrow> 'j host_env \<Rightarrow> string option \<Rightarrow> auth_error + auth_env" where
  "resolve_auth_env parse h name =
     (case load_deployments parse h of
        Inl e \<Rightarrow> Inl e
      | Inr ds \<Rightarrow> (case select_deployment ds name of Inl e \<Rightarrow> Inl e | Inr d \<Rightarrow> auth_env_from d))"

definition extra_authorize_params :: "string \<Rightarrow> (string \<times> string) list" where
  "extra_authorize_params issuer =
     (if issuer_is_google issuer
      then [(''access_type'', ''offline''), (''prompt'', ''consent'')] else [])"

section \<open>Hosts and addresses\<close>

definition after_last :: "char \<Rightarrow> string \<Rightarrow> string" where
  "after_last c s = rev (takeWhile (\<lambda>x. x \<noteq> c) (rev s))"

definition before_last :: "char \<Rightarrow> string \<Rightarrow> string" where
  "before_last c s = (if c \<in> set s then rev (tl (dropWhile (\<lambda>x. x \<noteq> c) (rev s))) else s)"

definition endpoint_host_str :: "(string \<Rightarrow> string) \<Rightarrow> string \<Rightarrow> string" where
  "endpoint_host_str lc arg =
     (let rest1 = (case find_sub ''://'' arg of Some i \<Rightarrow> drop (i + 3) arg | None \<Rightarrow> arg);
          rest2 = hd (split_on (CHR ''/'') rest1);
          rest3 = after_last (CHR ''@'') rest2;
          rest4 = before_last (CHR '':'') rest3
      in lc rest4)"

definition profile_for_uri ::
  "(string \<Rightarrow> string) \<Rightarrow> ('j \<Rightarrow> string + deployment list) \<Rightarrow> 'j host_env \<Rightarrow> string \<Rightarrow>
   auth_error + (string \<times> string option)" where
  "profile_for_uri lc parse h uri =
     (let host = endpoint_host_str lc uri
      in if host = [] then Inr (host, None)
         else (case load_deployments parse h of
                 Inl e \<Rightarrow> Inl e
               | Inr ds \<Rightarrow> Inr (host, deployment_name_for_host lc ds host)))"

text \<open>The address parsers of \<open>std::net\<close>, as readers that return the rest of the input.\<close>

definition hex_value :: "char \<Rightarrow> nat option" where
  "hex_value c =
     (if is_digit c then Some (char_digit c)
      else if CHR ''a'' \<le> c \<and> c \<le> CHR ''f'' then Some (of_char c - 87)
      else if CHR ''A'' \<le> c \<and> c \<le> CHR ''F'' then Some (of_char c - 55) else None)"

definition radix_digit :: "nat \<Rightarrow> char \<Rightarrow> bool" where
  "radix_digit radix c \<longleftrightarrow> (case hex_value c of None \<Rightarrow> False | Some v \<Rightarrow> v < radix)"

definition read_number :: "nat \<Rightarrow> nat \<Rightarrow> bool \<Rightarrow> nat \<Rightarrow> string \<Rightarrow> string option" where
  "read_number radix max_digits zero_prefix bound s =
     (let ds = takeWhile (radix_digit radix) s;
          v = foldl (\<lambda>acc c. radix * acc + the (hex_value c)) 0 ds
      in if ds = [] \<or> length ds > max_digits \<or> bound < v \<or>
            (\<not> zero_prefix \<and> hd ds = CHR ''0'' \<and> length ds > 1)
         then None else Some (drop (length ds) s))"

definition read_sep :: "char \<Rightarrow> nat \<Rightarrow> (string \<Rightarrow> string option) \<Rightarrow> string \<Rightarrow> string option" where
  "read_sep c i p s =
     (if i = 0 then p s else (case s of x # xs \<Rightarrow> if x = c then p xs else None | [] \<Rightarrow> None))"

definition read_ipv4 :: "string \<Rightarrow> string option" where
  "read_ipv4 s =
     foldl (\<lambda>acc i. Option.bind acc (read_sep (CHR ''.'') i (read_number 10 3 False 255)))
       (Some s) [0, 1, 2, 3]"

text \<open>\<open>read_groups left i\<close> reads at most \<open>left\<close> more groups, the next one being number \<open>i\<close>; it
  returns how many were read and whether the last two were a dotted address.\<close>

fun read_groups :: "nat \<Rightarrow> nat \<Rightarrow> string \<Rightarrow> nat \<times> bool \<times> string" where
  "read_groups 0 i s = (i, False, s)"
| "read_groups (Suc left) i s =
     (case (if left > 0 then read_sep (CHR '':'') i read_ipv4 s else None) of
        Some rest \<Rightarrow> (i + 2, True, rest)
      | None \<Rightarrow>
          (case read_sep (CHR '':'') i (read_number 16 4 True 65535) s of
             Some rest \<Rightarrow> read_groups left (i + 1) rest
           | None \<Rightarrow> (i, False, s)))"

definition read_ipv6 :: "string \<Rightarrow> string option" where
  "read_ipv6 s =
     (case read_groups 8 0 s of (n, v4, rest) \<Rightarrow>
        if n = 8 then Some rest
        else if v4 then None
        else (case strip_prefix ''::'' rest of
                None \<Rightarrow> None
              | Some r \<Rightarrow> Some (snd (snd (read_groups (7 - n) 0 r)))))"

definition is_ip_addr :: "string \<Rightarrow> bool" where
  "is_ip_addr s =
     ((case read_ipv4 s of Some r \<Rightarrow> Some r | None \<Rightarrow> read_ipv6 s) = Some [])"

definition deployment_name_from_host :: "(string \<Rightarrow> string option) \<Rightarrow> string \<Rightarrow> string" where
  "deployment_name_from_host registrable host0 =
     (let host = trim_by (\<lambda>c. c = CHR ''.'') host0
      in if is_ip_addr host then host
         else (case split_once (CHR ''.'') host of
                 None \<Rightarrow> host
               | Some (first, rest) \<Rightarrow>
                   (case registrable host of
                      None \<Rightarrow> rest
                    | Some reg \<Rightarrow>
                        (case strip_suffix reg rest of
                           None \<Rightarrow> rest
                         | Some pre \<Rightarrow>
                             (let name = trim_end_by (\<lambda>c. c = CHR ''.'') pre
                              in if name = [] then reg else name)))))"

section \<open>Discovery\<close>

record aspect_auth_server =
  as_issuer :: string
  as_client_id :: string
  as_scopes :: "string list"

text \<open>\<open>AuthServer\<close> and its Starlark view \<open>AuthServerInfo\<close> have these same three fields.\<close>

record protected_resource =
  pr_resource :: string
  pr_aspect_servers :: "aspect_auth_server list"
  pr_servers :: "string list"
  pr_client_id :: string
  pr_scopes :: "string list"
  pr_endpoints :: endpoints
  pr_results_url :: string

definition issuers_match :: "string \<Rightarrow> string \<Rightarrow> bool" where
  "issuers_match a b \<longleftrightarrow>
     (let normalize = (\<lambda>s. trim_start_any [''http://'']
            (trim_start_any [''https://''] (trim_slashes (lower (trim s)))))
      in normalize a = normalize b)"

definition auth_servers :: "protected_resource \<Rightarrow> aspect_auth_server list" where
  "auth_servers p =
     (let nested = filter (\<lambda>s. as_issuer s \<noteq> [] \<and> as_client_id s \<noteq> []) (pr_aspect_servers p)
      in if nested \<noteq> [] then nested
         else map (\<lambda>i. \<lparr>as_issuer = i, as_client_id = pr_client_id p, as_scopes = pr_scopes p\<rparr>)
                (filter (\<lambda>s. s \<noteq> []) (pr_servers p)))"

datatype auth_server_choice = NoServer | Selected aspect_auth_server | Ambiguous | NotAdvertised

definition resolve_auth_server ::
  "aspect_auth_server list \<Rightarrow> string option \<Rightarrow> auth_server_choice" where
  "resolve_auth_server candidates requested =
     (case requested of
        Some r \<Rightarrow>
          (case find (\<lambda>c. issuers_match (as_issuer c) r) candidates of
             Some c \<Rightarrow> Selected c | None \<Rightarrow> NotAdvertised)
      | None \<Rightarrow>
          (case candidates of [] \<Rightarrow> NoServer | [only] \<Rightarrow> Selected only | _ \<Rightarrow> Ambiguous))"

datatype transport_error = TimedOut | ConnectFailed | OtherTransport

definition transport_error_reason :: "transport_error \<Rightarrow> string" where
  "transport_error_reason e =
     (case e of
        TimedOut \<Rightarrow> ''connection timed out''
      | ConnectFailed \<Rightarrow> ''could not connect''
      | OtherTransport \<Rightarrow> ''network error'')"

datatype discovery = Reachable protected_resource | Unreachable string | NotADeployment

text \<open>\<open>http_get\<close> returns whether the status is a success and the body, when it parses.\<close>

definition probe_protected_resource ::
  "(string \<Rightarrow> transport_error + (bool \<times> protected_resource option)) \<Rightarrow> string \<Rightarrow> discovery" where
  "probe_protected_resource http_get host =
     (case http_get (''https://'' @ trim_slashes host @ ''/.well-known/oauth-protected-resource'') of
        Inl e \<Rightarrow> Unreachable (transport_error_reason e)
      | Inr (success, body) \<Rightarrow>
          if \<not> success then NotADeployment
          else (case body of
                  Some info \<Rightarrow>
                    if \<not> endpoints_empty (pr_endpoints info) then Reachable info else NotADeployment
                | None \<Rightarrow> NotADeployment))"

definition push_host :: "(string \<Rightarrow> string) \<Rightarrow> string \<Rightarrow> string list \<Rightarrow> string list" where
  "push_host lc h0 hosts =
     (let h = endpoint_host_str lc h0
      in if h \<noteq> [] \<and> h \<notin> set hosts then hosts @ [h] else hosts)"

definition deployment_from_discovery ::
  "(string \<Rightarrow> string) \<Rightarrow> string \<Rightarrow> string \<Rightarrow> protected_resource \<Rightarrow> aspect_auth_server option \<Rightarrow>
   deployment" where
  "deployment_from_discovery lc name configured_host info selected =
     (let eps = \<lparr>ep_cache = endpoint_host_str lc (ep_cache (pr_endpoints info)),
                 ep_bes = endpoint_host_str lc (ep_bes (pr_endpoints info)),
                 ep_exec = endpoint_host_str lc (ep_exec (pr_endpoints info)),
                 ep_results_url = pr_results_url info\<rparr>
      in \<lparr>dp_name = name, dp_default = False,
          dp_issuer = map_option as_issuer selected, dp_client_id = map_option as_client_id selected,
          dp_api_url = None,
          dp_hosts = fold (push_host lc)
            [configured_host, pr_resource info, ep_cache eps, ep_bes eps, ep_exec eps] [],
          dp_scopes = (case selected of Some s \<Rightarrow> as_scopes s | None \<Rightarrow> []),
          dp_endpoints = eps\<rparr>)"

section \<open>Recording deployments\<close>

definition upsert_deployment :: "deployment list \<Rightarrow> deployment \<Rightarrow> deployment list \<times> bool" where
  "upsert_deployment existing d0 =
     (let replacing_default = list_ex (\<lambda>d. dp_name d = dp_name d0 \<and> dp_default d) existing;
          none_default = (\<not> list_ex dp_default existing);
          d = (if none_default \<or> replacing_default then d0\<lparr>dp_default := True\<rparr> else d0);
          cleared = (if dp_default d then map (\<lambda>e. e\<lparr>dp_default := False\<rparr>) existing else existing)
      in (put_named d cleared, dp_default d))"

definition save_user_deployment ::
  "('j \<Rightarrow> string + deployment list) \<Rightarrow> (deployment list \<Rightarrow> 'j) \<Rightarrow> 'j host_env \<Rightarrow> deployment \<Rightarrow>
   auth_error + ('j host_env \<times> bool)" where
  "save_user_deployment parse ser h d =
     (case config_path h of
        Inl e \<Rightarrow> Inl e
      | Inr path \<Rightarrow>
          (case load_config_file parse h path of
             Inl e \<Rightarrow> Inl e
           | Inr existing \<Rightarrow>
               (let (ds, is_default) = upsert_deployment existing d
                in case write_user_config ser h ds of
                     Inl e \<Rightarrow> Inl e | Inr h' \<Rightarrow> Inr (h', is_default))))"

definition apply_set_default ::
  "deployment list \<Rightarrow> string option \<Rightarrow> auth_error + deployment list" where
  "apply_set_default ds name =
     (let target = (case name of
          Some n \<Rightarrow> if n \<noteq> default_deployment_name then Some n else None | None \<Rightarrow> None);
          flags = map (\<lambda>d. d\<lparr>dp_default := Some (dp_name d) = target\<rparr>) ds
      in case target of
           Some n \<Rightarrow>
             if \<not> list_ex (\<lambda>d. dp_name d = n) ds then Inl (UnknownDeployment n) else Inr flags
         | None \<Rightarrow> Inr flags)"

definition set_default_deployment ::
  "('j \<Rightarrow> string + deployment list) \<Rightarrow> (deployment list \<Rightarrow> 'j) \<Rightarrow> 'j host_env \<Rightarrow> string option \<Rightarrow>
   auth_error + 'j host_env" where
  "set_default_deployment parse ser h name =
     (case config_path h of
        Inl e \<Rightarrow> Inl e
      | Inr path \<Rightarrow>
          (case load_config_file parse h path of
             Inl e \<Rightarrow> Inl e
           | Inr existing \<Rightarrow>
               (case apply_set_default existing name of
                  Inl e \<Rightarrow> Inl e | Inr ds \<Rightarrow> write_user_config ser h ds)))"

record deployment_info =
  di_status :: string
  di_reason :: string
  di_name :: string
  di_can_login :: bool
  di_is_default :: bool
  di_hosts :: "string list"
  di_auth_servers :: "aspect_auth_server list"

definition info_failed :: "string \<Rightarrow> string \<Rightarrow> string \<Rightarrow> aspect_auth_server list \<Rightarrow> deployment_info" where
  "info_failed status reason name servers =
     \<lparr>di_status = status, di_reason = reason, di_name = name, di_can_login = False,
      di_is_default = False, di_hosts = [], di_auth_servers = servers\<rparr>"

definition configure ::
  "(string \<Rightarrow> string) \<Rightarrow> (string \<Rightarrow> string option) \<Rightarrow>
   (string \<Rightarrow> transport_error + (bool \<times> protected_resource option)) \<Rightarrow>
   ('j \<Rightarrow> string + deployment list) \<Rightarrow> (deployment list \<Rightarrow> 'j) \<Rightarrow> 'j host_env \<Rightarrow>
   string \<Rightarrow> string option \<Rightarrow> bool \<Rightarrow> string option \<Rightarrow>
   auth_error + ('j host_env \<times> deployment_info)" where
  "configure lc registrable http_get parse ser h host0 name0 make_default issuer =
     (let host = endpoint_host_str lc host0
      in case probe_protected_resource http_get host of
           Unreachable reason \<Rightarrow> Inr (h, info_failed ''unreachable'' reason [] [])
         | NotADeployment \<Rightarrow> Inr (h, info_failed ''not_a_deployment'' [] [] [])
         | Reachable info \<Rightarrow>
             (let name = (case non_empty name0 of
                  Some n \<Rightarrow> n | None \<Rightarrow> deployment_name_from_host registrable host);
                  candidates = auth_servers info;
                  record_it = (\<lambda>selected.
                    let d = (deployment_from_discovery lc name host info selected)
                              \<lparr>dp_default := make_default\<rparr>;
                        can_login = (dp_issuer d \<noteq> None \<and> dp_client_id d \<noteq> None)
                    in case save_user_deployment parse ser h d of
                         Inl e \<Rightarrow> Inl e
                       | Inr (h', is_default) \<Rightarrow>
                           Inr (h', \<lparr>di_status = ''ok'', di_reason = [], di_name = name,
                             di_can_login = can_login, di_is_default = is_default,
                             di_hosts = dp_hosts d, di_auth_servers = []\<rparr>))
              in case resolve_auth_server candidates (non_empty issuer) of
                   Ambiguous \<Rightarrow> Inr (h, info_failed ''needs_issuer'' [] name candidates)
                 | NotAdvertised \<Rightarrow> Inr (h, info_failed ''issuer_not_advertised'' [] name candidates)
                 | Selected s \<Rightarrow> record_it (Some s)
                 | NoServer \<Rightarrow> record_it None))"

definition deployment_endpoints ::
  "('j \<Rightarrow> string + deployment list) \<Rightarrow> 'j host_env \<Rightarrow> string option \<Rightarrow>
   auth_error + (string \<times> endpoints)" where
  "deployment_endpoints parse h name =
     (case load_deployments parse h of
        Inl e \<Rightarrow> Inl e
      | Inr ds \<Rightarrow>
          (case select_deployment ds name of
             Inl e \<Rightarrow> Inl e | Inr d \<Rightarrow> Inr (dp_name d, dp_endpoints d)))"

definition deployment_for_host ::
  "(string \<Rightarrow> string) \<Rightarrow> ('j \<Rightarrow> string + deployment list) \<Rightarrow> 'j host_env \<Rightarrow> string \<Rightarrow>
   auth_error + string option" where
  "deployment_for_host lc parse h host =
     (case load_deployments parse h of
        Inl e \<Rightarrow> Inl e | Inr ds \<Rightarrow> Inr (deployment_name_for_host lc ds host))"

section \<open>Lists of deployments keyed by name\<close>

definition named :: "string \<Rightarrow> deployment list \<Rightarrow> deployment option" where
  "named n ds = find (\<lambda>d. dp_name d = n) ds"

lemma named_simps [simp]:
  "named n [] = None" "named n (d # ds) = (if dp_name d = n then Some d else named n ds)"
  by (simp_all add: named_def)

lemma named_Some: "named n ds = Some d \<Longrightarrow> dp_name d = n \<and> d \<in> set ds"
  by (induction ds) (auto split: if_splits)

lemma named_None: "named n ds = None \<longleftrightarrow> n \<notin> dp_name ` set ds"
  by (induction ds) auto

lemma named_put [simp]: "named n (put_named d ds) = (if n = dp_name d then Some d else named n ds)"
  by (induction ds) auto

lemma put_named_names: "dp_name ` set (put_named d ds) = insert (dp_name d) (dp_name ` set ds)"
  by (induction ds) auto

lemma put_named_distinct:
  "distinct (map dp_name ds) \<Longrightarrow> distinct (map dp_name (put_named d ds))"
proof (induction ds)
  case (Cons x ds)
  have "set (map dp_name (put_named d ds)) = insert (dp_name d) (dp_name ` set ds)"
    using put_named_names by simp
  with Cons show ?case by auto
qed simp

lemma set_put_named:
  "set (put_named d ds) \<subseteq> insert d (set ds)" "d \<in> set (put_named d ds)"
  by (induction ds) auto

lemma named_map [simp]:
  "(\<And>d. dp_name (f d) = dp_name d) \<Longrightarrow> named n (map f ds) = map_option f (named n ds)"
  by (induction ds) auto

lemma default_idem [simp]: "dp_default d \<Longrightarrow> d\<lparr>dp_default := True\<rparr> = d"
    "\<not> dp_default d \<Longrightarrow> d\<lparr>dp_default := False\<rparr> = d"
  by (cases d; simp)+

text \<open>How many entries carry the default flag.\<close>

definition defaults :: "deployment list \<Rightarrow> nat" where
  "defaults ds = length (filter dp_default ds)"

lemma defaults_simps [simp]:
  "defaults [] = 0" "defaults (d # ds) = (if dp_default d then Suc (defaults ds) else defaults ds)"
  by (simp_all add: defaults_def)

lemma defaults_0: "defaults ds = 0 \<longleftrightarrow> \<not> list_ex dp_default ds"
  by (induction ds) auto

lemma defaults_cleared [simp]: "defaults (map (\<lambda>e. e\<lparr>dp_default := False\<rparr>) ds) = 0"
  by (induction ds) auto

lemma defaults_put:
  "distinct (map dp_name ds) \<Longrightarrow>
   defaults (put_named d ds) + (case named (dp_name d) ds of Some e \<Rightarrow> of_bool (dp_default e) | None \<Rightarrow> 0)
   = defaults ds + of_bool (dp_default d)"
  by (induction ds) (auto split: option.splits)

text \<open>Recording a deployment keeps a configuration with at most one default one with exactly
  one; the record is stored under its name with the flag that is reported, its name stays
  unique, and every other deployment keeps everything but its flag.\<close>

theorem upsert_keeps_one_default:
  assumes "distinct (map dp_name ds)" and "defaults ds \<le> 1" and "upsert_deployment ds d = (ds', is_def)"
  shows "distinct (map dp_name ds') \<and> defaults ds' = 1 \<and>
    named (dp_name d) ds' = Some (d\<lparr>dp_default := is_def\<rparr>) \<and>
    (\<forall>n. n \<noteq> dp_name d \<longrightarrow> map_option (\<lambda>e. e\<lparr>dp_default := False\<rparr>) (named n ds') =
       map_option (\<lambda>e. e\<lparr>dp_default := False\<rparr>) (named n ds))"
proof (cases "list_ex dp_default ds \<longrightarrow> dp_default d \<or> list_ex (\<lambda>e. dp_name e = dp_name d \<and> dp_default e) ds")
  case True
  let ?cleared = "map (\<lambda>e. e\<lparr>dp_default := False\<rparr>) ds"
  let ?d = "d\<lparr>dp_default := True\<rparr>"
  have up: "ds' = put_named ?d ?cleared \<and> is_def"
    using assms(3) True by (auto simp: upsert_deployment_def Let_def split: if_splits)
  have dist: "distinct (map dp_name ?cleared)" using assms(1) by (simp add: comp_def)
  have "defaults (put_named ?d ?cleared) = 1"
    using defaults_put [OF dist, of ?d]
    by (auto simp: split: option.splits)
  then show ?thesis
    using up put_named_distinct [OF dist] by (simp add: option.map_comp comp_def)
next
  case False
  have up: "ds' = put_named d ds \<and> \<not> is_def \<and> \<not> dp_default d"
    using assms(3) False by (auto simp: upsert_deployment_def Let_def split: if_splits)
  have kept: "\<not> dp_default e" if "named (dp_name d) ds = Some e" for e
    using named_Some [OF that] False by (auto simp: list_ex_iff)
  have "defaults (put_named d ds) = 1"
    using defaults_put [OF assms(1), of d] kept up False assms(2) defaults_0 [of ds]
    by (auto split: option.splits)
  then show ?thesis using up put_named_distinct [OF assms(1)] by simp
qed

theorem upsert_keeps_one_default_witness:
  "defaults (fst (upsert_deployment [default_deployment]
     (default_deployment\<lparr>dp_name := ''acme'', dp_default := False\<rparr>))) = 1"
proof -
  let ?d = "default_deployment\<lparr>dp_name := ''acme'', dp_default := False\<rparr>"
  have "distinct (map dp_name [default_deployment])" "defaults [default_deployment] \<le> 1" by simp_all
  from upsert_keeps_one_default [OF this, of ?d] show ?thesis
    by (cases "upsert_deployment [default_deployment] ?d") simp
qed

lemma named_overlay:
  "distinct (map dp_name es) \<Longrightarrow>
   named n (overlay m es) = (case named n es of Some d \<Rightarrow> Some d | None \<Rightarrow> named n m)"
proof (induction es arbitrary: m)
  case (Cons e es)
  then have "named n (overlay (put_named e m) es) =
      (case named n es of Some d \<Rightarrow> Some d | None \<Rightarrow> named n (put_named e m))" by simp
  moreover have "dp_name e = n \<Longrightarrow> named n es = None" using Cons.prems by (auto simp: named_None)
  ultimately show ?case by (auto simp: overlay_def split: option.split)
qed (simp add: overlay_def)

lemma set_overlay: "d \<in> set (overlay m es) \<Longrightarrow> d \<in> set m \<or> d \<in> set es"
proof (induction es arbitrary: m)
  case (Cons e es)
  then have "d \<in> set (put_named e m) \<or> d \<in> set es" by (simp add: overlay_def)
  then show ?case using set_put_named(1) [of e m] by auto
qed (simp add: overlay_def)

lemma distinct_overlay:
  "distinct (map dp_name m) \<Longrightarrow> distinct (map dp_name (overlay m es))"
  by (induction es arbitrary: m) (simp_all add: overlay_def put_named_distinct)

lemma named_clear [simp]:
  "named n (clear_first_default s ds) =
     (if n = s then map_option (\<lambda>d. d\<lparr>dp_default := False\<rparr>) (named n ds) else named n ds)"
  by (induction ds) auto

lemma set_named: "distinct (map dp_name ds) \<Longrightarrow> d \<in> set ds \<longleftrightarrow> named (dp_name d) ds = Some d"
  by (induction ds) (auto dest: named_Some simp: rev_image_eqI)

lemma distinct_clear:
  "distinct (map dp_name ds) \<Longrightarrow> distinct (map dp_name (clear_first_default s ds))"
proof -
  have "map dp_name (clear_first_default s ds) = map dp_name ds" by (induction ds) auto
  then show "distinct (map dp_name ds) \<Longrightarrow> ?thesis" by simp
qed

text \<open>Where only the entries named \<open>n\<close> may be the default and one is, it is selected.\<close>

lemma select_unique_default:
  assumes "d \<in> set ds" "dp_default d" "\<And>e. e \<in> set ds \<Longrightarrow> dp_default e \<Longrightarrow> dp_name e = n"
  shows "\<exists>e. select_deployment ds None = Inr e \<and> dp_name e = n"
proof -
  obtain e where "find dp_default ds = Some e"
    using assms(1,2) by (auto simp: find_None_iff intro: option.exhaust [of "find dp_default ds"])
  moreover from this have "dp_name e = n" using assms(3) by (auto simp: find_Some_iff)
  ultimately show ?thesis by (simp add: select_deployment_def non_empty_def)
qed

lemma reload_after_set_default:
  assumes dist: "distinct (map dp_name ds)" and "apply_set_default ds (Some n) = Inr flags"
  shows "\<exists>e. select_deployment (reconcile_seed_default (overlay [default_deployment] flags)) None
    = Inr e \<and> dp_name e = n"
proof -
  let ?seed = default_deployment_name and ?m = "overlay [default_deployment] flags"
  let ?flag = "\<lambda>d. d\<lparr>dp_default := dp_name d = n \<and> n \<noteq> ?seed\<rparr>"
  have flags: "flags = map ?flag ds" and known: "n \<noteq> ?seed \<Longrightarrow> named n ds \<noteq> None"
    using assms(2) by (auto simp: apply_set_default_def Let_def list_ex_iff named_None
        split: if_splits)
  have dm: "distinct (map dp_name ?m)" by (rule distinct_overlay) simp
  have df: "distinct (map dp_name flags)" using dist by (simp add: flags comp_def)
  have seed_name [simp]: "dp_name default_deployment = ?seed" by (simp add: default_deployment_def)
  have of_m: "e = default_deployment \<or> e \<in> set flags" if "e \<in> set ?m" for e
    using set_overlay [OF that] by auto
  show ?thesis
  proof (cases "n = ?seed")
    case True
    have all_off: "\<not> dp_default e" if "e \<in> set flags" for e using that True by (auto simp: flags)
    then have def_seed: "e = default_deployment" if "e \<in> set ?m" "dp_default e" for e
      using of_m that by blast
    have same: "reconcile_seed_default ?m = ?m"
      using def_seed by (fastforce simp: reconcile_seed_default_def list_ex_iff)
    obtain e where e: "named n ?m = Some e"
      using True by (cases "named n flags") (auto simp: named_overlay [OF df])
    show ?thesis
    proof (cases "find dp_default ?m")
      case None
      then show ?thesis
        using e True named_Some [OF e] by (simp add: same select_deployment_def non_empty_def named_def)
    next
      case (Some d)
      then have d: "d \<in> set ?m" "dp_default d" by (auto simp: find_Some_iff)
      have "dp_name e = n" if "e \<in> set ?m" "dp_default e" for e
        using def_seed [OF that] True by simp
      from select_unique_default [OF d this] show ?thesis by (simp add: same)
    qed
  next
    case False
    let ?c = "clear_first_default ?seed ?m"
    obtain d where d: "named n ds = Some d" using known [OF False] by auto
    have "named n flags = Some (?flag d)" by (simp add: flags d)
    then have nm: "named n ?m = Some (?flag d)" by (simp add: named_overlay [OF df])
    have name: "dp_name (?flag d) = n" using named_Some [OF d] by simp
    have "list_ex (\<lambda>d. dp_default d \<and> dp_name d \<noteq> ?seed) ?m"
      using named_Some [OF nm] name False by (auto simp: list_ex_iff intro!: bexI [of _ "?flag d"])
    then have rec: "reconcile_seed_default ?m = ?c" by (simp add: reconcile_seed_default_def)
    have "named n ?c = Some (?flag d)" using nm False by simp
    then have in_c: "?flag d \<in> set ?c" by (rule named_Some [THEN conjunct2])
    have only: "dp_name e = n" if "e \<in> set ?c" "dp_default e" for e
    proof -
      have "named (dp_name e) ?c = Some e" using that(1) set_named [OF distinct_clear [OF dm]] by blast
      then have ne: "dp_name e \<noteq> ?seed" and nm_e: "named (dp_name e) ?m = Some e"
        using that(2) by (auto split: if_splits)
      then have "e \<in> set ?m" using named_Some by blast
      moreover have "e \<noteq> default_deployment" using ne by auto
      ultimately have "e \<in> set flags" using of_m by blast
      then show ?thesis using that(2) by (auto simp: flags)
    qed
    show ?thesis unfolding rec
      by (rule select_unique_default [OF in_c]) (use only name False in auto)
  qed
qed

text \<open>The default is what was chosen: outside a workspace, after \<open>aspect auth use n\<close> has been
  written to a configuration with unique names, a command that names no deployment selects the
  deployment \<open>n\<close>, for the built-in one as for a configured one.\<close>

theorem set_default_is_selected:
  assumes "\<And>ds. parse (ser ds) = Inr ds" and "he_workspace h = None"
    and "config_path h = Inr path" and "load_config_file parse h path = Inr ds"
    and "distinct (map dp_name ds)"
    and "set_default_deployment parse ser h (Some n) = Inr h'"
  shows "\<exists>merged d. load_deployments parse h' = Inr merged \<and>
    select_deployment merged None = Inr d \<and> dp_name d = n"
proof -
  obtain flags where flags: "apply_set_default ds (Some n) = Inr flags"
    and h': "h' = h\<lparr>he_files := (he_files h)(path := Content (ser flags))\<rparr>"
    using assms(3,4,6) by (auto simp: set_default_deployment_def write_user_config_def
        split: sum.splits option.splits)
  have "config_path h' = Inr path" "repo_config_path h' = None"
    using assms(2,3) by (simp_all add: h' config_path_def repo_config_path_def)
  then have "load_deployments parse h' =
      Inr (reconcile_seed_default (overlay [default_deployment] flags))"
    by (simp add: load_deployments_def load_config_file_def h' assms(1))
  then show ?thesis using reload_after_set_default [OF assms(5) flags] by simp
qed

text \<open>A host with the configuration \<open>ds\<close>, stored as it is.\<close>

definition stored_host :: "deployment list \<Rightarrow> deployment list host_env" where
  "stored_host ds =
     \<lparr>he_home = Some ''/h'', he_workspace = None, he_files = (\<lambda>_. Content ds),
      he_write_error = (\<lambda>_. None)\<rparr>"

theorem set_default_is_selected_witness:
  "\<exists>h' merged d. set_default_deployment Inr id (stored_host
       [default_deployment\<lparr>dp_name := ''acme''\<rparr>,
        default_deployment\<lparr>dp_name := ''corp'', dp_default := False\<rparr>]) (Some ''corp'') = Inr h' \<and>
     load_deployments Inr h' = Inr merged \<and>
     select_deployment merged None = Inr d \<and> dp_name d = ''corp''"
proof -
  let ?ds = "[default_deployment\<lparr>dp_name := ''acme''\<rparr>,
        default_deployment\<lparr>dp_name := ''corp'', dp_default := False\<rparr>]"
  let ?h = "stored_host ?ds"
  have ws: "he_workspace ?h = None" by (simp add: stored_host_def)
  have path: "config_path ?h = Inr ''/h/.aspect/config.json''"
    by (simp add: stored_host_def config_path_def path_join_def starts_with_def)
  have load: "load_config_file Inr ?h ''/h/.aspect/config.json'' = Inr ?ds"
    by (simp add: stored_host_def load_config_file_def)
  have dist: "distinct (map dp_name ?ds)" by simp
  obtain h' where h': "set_default_deployment Inr id ?h (Some ''corp'') = Inr h'"
    by (simp add: set_default_deployment_def path load apply_set_default_def
        default_deployment_name_def write_user_config_def) (simp add: stored_host_def)
  have "\<exists>merged d. load_deployments Inr h' = Inr merged \<and>
      select_deployment merged None = Inr d \<and> dp_name d = ''corp''"
    by (rule set_default_is_selected [OF _ ws path load dist h']) simp
  with h' show ?thesis by blast
qed

section \<open>What the configuration code does not promise\<close>

text \<open>The authority of a URI ends at a question mark too; \<open>endpoint_host_str\<close> only stops at a slash,
  so a query can name the host that is looked up.\<close>

lemma query_is_taken_for_host:
  "endpoint_host_str lc ''https://evil.example?@remote.acme.io'' = lc ''remote.acme.io''"
  by (simp add: endpoint_host_str_def Let_def after_last_def before_last_def starts_with_def)

text \<open>A default of the repository and a default of the user are both kept.\<close>

lemma two_configured_defaults:
  "defaults (reconcile_seed_default (overlay (overlay [default_deployment]
     [default_deployment\<lparr>dp_name := ''repo''\<rparr>]) [default_deployment\<lparr>dp_name := ''user''\<rparr>])) = 2"
  by (simp add: overlay_def reconcile_seed_default_def default_deployment_def
      default_deployment_name_def)

text \<open>A flat discovery document with an issuer but no client id still offers a server.\<close>

lemma legacy_server_without_client:
  "auth_servers \<lparr>pr_resource = [], pr_aspect_servers = [], pr_servers = [''https://idp''],
     pr_client_id = [], pr_scopes = [], pr_endpoints = no_endpoints, pr_results_url = []\<rparr> =
   [\<lparr>as_issuer = ''https://idp'', as_client_id = [], as_scopes = []\<rparr>]"
  by (simp add: auth_servers_def)

section \<open>Hosts of well-formed URIs\<close>

lemma find_sub_scheme:
  "CHR '':'' \<notin> set scheme \<Longrightarrow> find_sub ''://'' (scheme @ ''://'' @ r) = Some (length scheme)"
  by (induction scheme) (auto simp: starts_with_def)

lemma after_last_absent [simp]: "c \<notin> set s \<Longrightarrow> after_last c s = s"
proof -
  assume "c \<notin> set s"
  then have "takeWhile (\<lambda>x. x \<noteq> c) (rev s) = rev s" by (subst takeWhile_eq_all_conv) auto
  then show "after_last c s = s" by (simp only: after_last_def rev_rev_ident)
qed

lemma before_last_absent [simp]: "c \<notin> set s \<Longrightarrow> before_last c s = s"
  by (simp add: before_last_def)

lemma before_last_append: "c \<notin> set b \<Longrightarrow> before_last c (a @ c # b) = a"
  by (simp add: before_last_def dropWhile_append)

text \<open>The characters that end or split an authority.\<close>

definition authority_text :: "string \<Rightarrow> bool" where
  "authority_text s \<longleftrightarrow> CHR ''/'' \<notin> set s \<and> CHR ''@'' \<notin> set s \<and> CHR '':'' \<notin> set s"

lemma hd_split_path:
  "CHR ''/'' \<notin> set a \<Longrightarrow> path = [] \<or> hd path = CHR ''/'' \<Longrightarrow> hd (split_on (CHR ''/'') (a @ path)) = a"
proof -
  assume a: "CHR ''/'' \<notin> set a" and path: "path = [] \<or> hd path = CHR ''/''"
  have "takeWhile (\<lambda>x. x \<noteq> CHR ''/'') path = []" using path by (cases path) auto
  moreover have "\<And>x. x \<in> set a \<Longrightarrow> x \<noteq> CHR ''/''" using a by auto
  ultimately show "hd (split_on (CHR ''/'') (a @ path)) = a" by (simp add: hd_split_on takeWhile_append2)
qed

lemma endpoint_host_of_uri:
  assumes "CHR '':'' \<notin> set scheme" "authority_text host" "path = [] \<or> hd path = CHR ''/''"
    and "port = [] \<or> (\<exists>p. port = CHR '':'' # p \<and> authority_text p)"
  shows "endpoint_host_str lc (scheme @ ''://'' @ host @ port @ path) = lc host"
proof -
  have slash: "CHR ''/'' \<notin> set (host @ port)" and at: "CHR ''@'' \<notin> set (host @ port)"
    using assms(2,4) by (auto simp: authority_text_def)
  have "hd (split_on (CHR ''/'') ((host @ port) @ path)) = host @ port"
    using hd_split_path [OF slash assms(3)] .
  moreover have "before_last (CHR '':'') (host @ port) = host"
    using assms(2,4) by (auto simp: authority_text_def before_last_append)
  ultimately show ?thesis
    using find_sub_scheme [OF assms(1), of "host @ port @ path"] at
    by (simp add: endpoint_host_str_def Let_def)
qed

section \<open>Selection for the account commands\<close>

text \<open>Without a name, \<open>logout\<close> (and \<open>login\<close>) take the account, also when another deployment is the
  configured default.\<close>

lemma bare_logout_is_account:
  "select_account_or_deployment [default_deployment\<lparr>dp_default := False\<rparr>,
     default_deployment\<lparr>dp_name := ''acme''\<rparr>] None = Inr (default_deployment\<lparr>dp_default := False\<rparr>) \<and>
   select_deployment [default_deployment\<lparr>dp_default := False\<rparr>,
     default_deployment\<lparr>dp_name := ''acme''\<rparr>] None = Inr (default_deployment\<lparr>dp_name := ''acme''\<rparr>)"
  by (simp add: select_account_or_deployment_def select_deployment_def non_empty_def
      default_deployment_name_def default_deployment_def)

end
