(* ===== verification/Auth_Url.thy ===== *)
theory Auth_Url
  imports Glob Auth_Deploy "HOL-Library.Word"
begin

text \<open>
  The URL side of the login flow (crates/axl-runtime/src/engine/aspect/auth.rs): percent
  encoding and decoding of query values, the authorize URL, and reading the browser's callback.
\<close>

section \<open>Percent coding\<close>

definition hex_char :: "nat \<Rightarrow> char" where
  "hex_char n = (if n < 10 then digit_char n else char_of (n + 55))"

definition unreserved :: "char \<Rightarrow> bool" where
  "unreserved b \<longleftrightarrow> is_alnum b \<or> b \<in> {CHR ''-'', CHR ''_'', CHR ''.'', CHR ''~''}"

definition urlencode :: "string \<Rightarrow> string" where
  "urlencode s = concat (map (\<lambda>b.
     if unreserved b then [b]
     else [CHR ''%'', hex_char (of_char b div 16), hex_char (of_char b mod 16)]) s)"

text \<open>\<open>u8::from_str_radix(hex, 16)\<close> of at most two characters, which cannot overflow.\<close>

definition hex_byte :: "string \<Rightarrow> char option" where
  "hex_byte s =
     (let ds = (case s of c # d # cs \<Rightarrow> if c = CHR ''+'' then d # cs else s | _ \<Rightarrow> s)
      in if ds \<noteq> [] \<and> list_all (\<lambda>c. hex_value c \<noteq> None) ds
         then Some (char_of (foldl (\<lambda>acc c. 16 * acc + the (hex_value c)) 0 ds)) else None)"

function url_bytes :: "rchar list \<Rightarrow> string" where
  "url_bytes [] = []"
| "url_bytes (c # cs) =
     (if c = ''%'' then
        (case hex_byte (concat (take 2 cs)) of Some b \<Rightarrow> [b] | None \<Rightarrow> []) @ url_bytes (drop 2 cs)
      else if c = ''+'' then CHR '' '' # url_bytes cs
      else c @ url_bytes cs)"
  by pat_completeness auto
termination
  by (relation "measure length") auto

definition urldecode :: "string \<Rightarrow> string" where
  "urldecode s = from_utf8_lossy (url_bytes (utf8_chars s))"

text \<open>A \<open>splitn(2, '=')\<close> yields the key and, if there is an equals sign, the value.\<close>

fun query_lookup :: "string \<Rightarrow> string list \<Rightarrow> string option" where
  "query_lookup key [] = None"
| "query_lookup key (pair # pairs) =
     (case split_once (CHR ''='') pair of
        Some (k, v) \<Rightarrow> if k = key then Some (urldecode v) else query_lookup key pairs
      | None \<Rightarrow> if pair = key then None else query_lookup key pairs)"

definition extract_query_param :: "string \<Rightarrow> string \<Rightarrow> string option" where
  "extract_query_param path key =
     (case split_on (CHR ''?'') path of
        _ # query # _ \<Rightarrow> query_lookup key (split_on (CHR ''&'') query)
      | _ \<Rightarrow> None)"

section \<open>The authorize URL and the callback\<close>

definition login_state :: "string \<Rightarrow> 16 word \<Rightarrow> string" where
  "login_state nonce port = nonce @ ''.'' @ show_nat (unat port)"

definition build_authorize_url ::
  "string \<Rightarrow> string \<Rightarrow> string \<Rightarrow> string list \<Rightarrow> string \<Rightarrow> string option \<Rightarrow> (string \<times> string) list \<Rightarrow>
   string" where
  "build_authorize_url authorize_endpoint client_id redirect_uri scopes code_challenge state extra =
     (let sep = (if CHR ''?'' \<in> set authorize_endpoint then ''&'' else ''?'');
          url = authorize_endpoint @ sep @ ''client_id='' @ urlencode client_id @
            ''&redirect_uri='' @ urlencode redirect_uri @ ''&response_type=code'' @
            ''&scope='' @ urlencode (join '' '' scopes) @
            ''&code_challenge='' @ urlencode code_challenge @ ''&code_challenge_method=S256'';
          with_extra = fold (\<lambda>(k, v) u. u @ ''&'' @ urlencode k @ ''='' @ urlencode v) extra url
      in (case state of None \<Rightarrow> with_extra | Some st \<Rightarrow> with_extra @ ''&state='' @ urlencode st))"

datatype callback_error = EmptyRequest | MalformedRequestLine | Denied string string

text \<open>The first line, without its terminator; \<open>None\<close> of the empty text.\<close>

definition first_line :: "string \<Rightarrow> string option" where
  "first_line s =
     (if s = [] then None
      else let l = hd (split_on (CHR 0x0A) s)
           in Some (if CHR 0x0A \<in> set s \<and> ends_with [CHR 0x0D] l then butlast l else l))"

fun take_word :: "string \<Rightarrow> string \<times> string" where
  "take_word [] = ([], [])"
| "take_word (c # cs) =
     (if strip_any white_space (c # cs) \<noteq> None then ([], c # cs) else apfst (Cons c) (take_word cs))"

definition second_word :: "string \<Rightarrow> string option" where
  "second_word s =
     (let w = fst (take_word (trim_start (snd (take_word (trim_start s)))))
      in if w = [] then None else Some w)"

text \<open>What \<open>accept_callback\<close> reads of the at most 4096 bytes of a request.\<close>

definition accept_callback :: "string \<Rightarrow> callback_error + (string \<times> string option)" where
  "accept_callback bytes =
     (case first_line (from_utf8_lossy (take 4096 bytes)) of
        None \<Rightarrow> Inl EmptyRequest
      | Some line \<Rightarrow>
          (case second_word line of
             None \<Rightarrow> Inl MalformedRequestLine
           | Some path \<Rightarrow>
               (case extract_query_param path ''code'' of
                  Some code \<Rightarrow> Inr (code, extract_query_param path ''state'')
                | None \<Rightarrow>
                    Inl (Denied
                      (case extract_query_param path ''error'' of Some e \<Rightarrow> e | None \<Rightarrow> ''unknown'')
                      (case extract_query_param path ''error_description'' of
                         Some d \<Rightarrow> d | None \<Rightarrow> [])))))"

section \<open>Decoding reads back what was encoded\<close>

lemma hex_digits: "list_all (\<lambda>n. hex_value (hex_char n) = Some n \<and> is_alnum (hex_char n)) [0..<16]"
  by code_simp

lemma hex_value_char [simp]: "n < 16 \<Longrightarrow> hex_value (hex_char n) = Some n"
  and hex_char_unreserved: "n < 16 \<Longrightarrow> is_alnum (hex_char n)"
  using hex_digits by (auto simp: list_all_iff)

lemma urlencode_simps [simp]:
  "urlencode [] = []"
  "urlencode (b # s) =
     (if unreserved b then [b]
      else [CHR ''%'', hex_char (of_char b div 16), hex_char (of_char b mod 16)]) @ urlencode s"
  by (simp_all add: urlencode_def)

lemma char_halves: "(of_char b :: nat) div 16 < 16" "(of_char b :: nat) mod 16 < 16"
  using nat_of_char_less_256 [of b] by (simp_all del: nat_of_char_less_256)

lemma set_urlencode: "c \<in> set (urlencode s) \<Longrightarrow> unreserved c \<or> c = CHR ''%''"
  by (induction s) (auto split: if_splits simp: unreserved_def char_halves hex_char_unreserved)

lemma unreserved_plain:
  "unreserved c \<Longrightarrow> c \<noteq> CHR ''&'' \<and> c \<noteq> CHR ''?'' \<and> c \<noteq> CHR ''='' \<and> c \<noteq> CHR ''%'' \<and> c \<noteq> CHR ''+'' \<and>
     \<not> utf8_cont c"
  by (auto simp: unreserved_def is_alnum_def is_upper_nat is_lower_nat is_digit_nat utf8_cont_def
      char_le_nat)

lemma urlencode_clean [simp]:
  "CHR ''&'' \<notin> set (urlencode s)" "CHR ''?'' \<notin> set (urlencode s)" "CHR ''='' \<notin> set (urlencode s)"
  using set_urlencode [of _ s] unreserved_plain by fastforce+

lemma utf8_chars_urlencode: "utf8_chars (urlencode s) = map (\<lambda>b. [b]) (urlencode s)"
proof (rule utf8_chars_ascii)
  fix b assume "b \<in> set (urlencode s)"
  then show "\<not> utf8_cont b"
    using set_urlencode [of b s] unreserved_plain [of b]
    by (auto simp: utf8_cont_def char_le_nat)
qed

lemma url_bytes_urlencode: "url_bytes (map (\<lambda>b. [b]) (urlencode s)) = s"
proof (induction s)
  case (Cons b s)
  have ne: "hex_char n \<noteq> CHR ''+''" if "n < 16" for n
    using hex_char_unreserved [OF that] unreserved_plain by (auto simp: unreserved_def)
  have byte: "hex_byte [hex_char (of_char b div 16), hex_char (of_char b mod 16)] = Some b"
    using char_halves [of b] ne by (simp add: hex_byte_def)
  show ?case
    using Cons byte unreserved_plain [of b] by auto
qed simp

lemma urldecode_urlencode: "valid_utf8 s \<Longrightarrow> urldecode (urlencode s) = s"
  by (simp add: urldecode_def utf8_chars_urlencode url_bytes_urlencode lossy_valid)

section \<open>The authorize URL can be read back\<close>

definition query_pair :: "string \<Rightarrow> string \<Rightarrow> string" where
  "query_pair k v = k @ CHR ''='' # v"

definition authorize_pairs ::
  "string \<Rightarrow> string \<Rightarrow> string list \<Rightarrow> string \<Rightarrow> (string \<times> string) list \<Rightarrow> string option \<Rightarrow> string list" where
  "authorize_pairs client_id redirect_uri scopes challenge extra state =
     [query_pair ''client_id'' (urlencode client_id),
      query_pair ''redirect_uri'' (urlencode redirect_uri),
      query_pair ''response_type'' ''code'',
      query_pair ''scope'' (urlencode (join '' '' scopes)),
      query_pair ''code_challenge'' (urlencode challenge),
      query_pair ''code_challenge_method'' ''S256''] @
     map (\<lambda>(k, v). query_pair (urlencode k) (urlencode v)) extra @
     (case state of None \<Rightarrow> [] | Some st \<Rightarrow> [query_pair ''state'' (urlencode st)])"

lemma join_snoc: "ws \<noteq> [] \<Longrightarrow> join sep (ws @ [w]) = join sep ws @ sep @ w"
  by (induction sep ws rule: join.induct) (auto simp: join_Cons)

lemma fold_extra:
  "ps \<noteq> [] \<Longrightarrow>
   fold (\<lambda>(k, v) u. u @ ''&'' @ urlencode k @ ''='' @ urlencode v) extra (pre @ join ''&'' ps) =
   pre @ join ''&'' (ps @ map (\<lambda>(k, v). query_pair (urlencode k) (urlencode v)) extra)"
proof (induction extra arbitrary: ps)
  case (Cons kv extra)
  obtain k v where kv: "kv = (k, v)" by (cases kv)
  have "(pre @ join ''&'' ps) @ ''&'' @ urlencode k @ ''='' @ urlencode v =
      pre @ join ''&'' (ps @ [query_pair (urlencode k) (urlencode v)])"
    using Cons.prems by (simp add: join_snoc query_pair_def)
  then show ?case
    using Cons.IH [of "ps @ [query_pair (urlencode k) (urlencode v)]"] kv by simp
qed simp

lemma authorize_url_shape:
  "build_authorize_url ep client_id redirect_uri scopes challenge state extra =
     ep @ (if CHR ''?'' \<in> set ep then ''&'' else ''?'') @
     join ''&'' (authorize_pairs client_id redirect_uri scopes challenge extra state)"
proof -
  let ?base = "[query_pair ''client_id'' (urlencode client_id),
      query_pair ''redirect_uri'' (urlencode redirect_uri),
      query_pair ''response_type'' ''code'',
      query_pair ''scope'' (urlencode (join '' '' scopes)),
      query_pair ''code_challenge'' (urlencode challenge),
      query_pair ''code_challenge_method'' ''S256'']"
  let ?ex = "map (\<lambda>(k, v). query_pair (urlencode k) (urlencode v)) extra"
  let ?pre = "ep @ (if CHR ''?'' \<in> set ep then ''&'' else ''?'')"
  have flat: "?pre @ ''client_id='' @ urlencode client_id @
      ''&redirect_uri='' @ urlencode redirect_uri @ ''&response_type=code'' @
      ''&scope='' @ urlencode (join '' '' scopes) @
      ''&code_challenge='' @ urlencode challenge @ ''&code_challenge_method=S256'' =
      ?pre @ join ''&'' ?base" by (simp add: query_pair_def)
  let ?url = "?pre @ join ''&'' (?base @ ?ex)"
  have folded: "fold (\<lambda>(k, v) u. u @ ''&'' @ urlencode k @ ''='' @ urlencode v) extra
      (?pre @ join ''&'' ?base) = ?url" by (rule fold_extra) simp
  have "build_authorize_url ep client_id redirect_uri scopes challenge state extra =
      (case state of None \<Rightarrow> ?url | Some st \<Rightarrow> ?url @ ''&state='' @ urlencode st)"
    unfolding folded [symmetric] flat [symmetric]
    by (simp only: build_authorize_url_def Let_def append_assoc)
  also have "\<dots> = ?pre @ join ''&'' (authorize_pairs client_id redirect_uri scopes challenge extra state)"
  proof (cases state)
    case None
    then show ?thesis by (simp only: option.case authorize_pairs_def append_Nil2)
  next
    case (Some st)
    have "join ''&'' ((?base @ ?ex) @ [query_pair ''state'' (urlencode st)]) =
        join ''&'' (?base @ ?ex) @ ''&'' @ query_pair ''state'' (urlencode st)"
      by (rule join_snoc) simp
    moreover have "''&'' @ query_pair ''state'' (urlencode st) = ''&state='' @ urlencode st"
      by (simp add: query_pair_def)
    ultimately show ?thesis
      by (simp only: Some option.case authorize_pairs_def append_assoc)
  qed
  finally show ?thesis by (simp only: append_assoc)
qed

lemma query_lookup_pair:
  "CHR ''='' \<notin> set k \<Longrightarrow> query_lookup key (query_pair k v # ps) =
     (if k = key then Some (urldecode v) else query_lookup key ps)"
  by (simp add: query_pair_def)

lemma extract_from_url:
  assumes "CHR ''?'' \<notin> set ep" "ps \<noteq> []"
    and "\<And>p. p \<in> set ps \<Longrightarrow> CHR ''?'' \<notin> set p \<and> CHR ''&'' \<notin> set p"
  shows "extract_query_param (ep @ ''?'' @ join ''&'' ps) key = query_lookup key ps"
proof -
  have "CHR ''?'' \<notin> set (join ''&'' ps)"
    using assms(3) by (induction "''&''" ps rule: join.induct) auto
  then have "split_on (CHR ''?'') (ep @ ''?'' @ join ''&'' ps) = [ep, join ''&'' ps]"
    using assms(1) by (simp add: split_on_append split_on_clean)
  moreover have "split_on (CHR ''&'') (join ''&'' ps) = ps"
    by (rule split_on_join) (use assms in auto)
  ultimately show ?thesis by (simp add: extract_query_param_def)
qed

lemma urlencode_unreserved: "list_all unreserved s \<Longrightarrow> urlencode s = s"
  by (induction s) auto

lemma google_params_plain:
  "(k, v) \<in> set (extra_authorize_params issuer) \<Longrightarrow> urlencode k = k \<and> urlencode v = v \<and>
     k \<in> {''access_type'', ''prompt''}"
  by (auto simp: extra_authorize_params_def split: if_splits
      intro!: urlencode_unreserved) (simp_all add: unreserved_def is_alnum_def is_upper_nat is_lower_nat is_digit_nat)

lemma authorize_pairs_clean:
  "p \<in> set (authorize_pairs client_id redirect_uri scopes challenge extra state) \<Longrightarrow>
   CHR ''?'' \<notin> set p \<and> CHR ''&'' \<notin> set p"
  by (auto simp: authorize_pairs_def query_pair_def split: option.splits)

lemma query_lookup_extra:
  "key \<notin> fst ` set extra \<Longrightarrow> (\<And>k v. (k, v) \<in> set extra \<Longrightarrow> urlencode k = k) \<Longrightarrow>
   query_lookup key (map (\<lambda>(k, v). query_pair (urlencode k) (urlencode v)) extra @ ps) =
   query_lookup key ps"
proof (induction extra)
  case (Cons kv extra)
  obtain k v where kv: "kv = (k, v)" by (cases kv)
  have "urlencode k = k" by (rule Cons.prems(2) [of k v]) (simp add: kv)
  moreover from this have "CHR ''='' \<notin> set k" by (metis urlencode_clean(3))
  moreover have "query_lookup key (map (\<lambda>(k, v). query_pair (urlencode k) (urlencode v)) extra @ ps) =
      query_lookup key ps"
    by (rule Cons.IH) (use Cons.prems in auto)
  ultimately show ?case using Cons.prems(1) kv
    by (auto simp: query_lookup_pair simp del: query_lookup.simps)
qed simp

text \<open>C32. The authorize URL says what it was built from: for an endpoint without a query, decoding
  its parameters gives back the client, the redirect, the scopes, the challenge and the state
  (none if there is none), and an issuer's extra parameters hide none of them.\<close>

theorem authorize_url_reads_back:
  assumes "CHR ''?'' \<notin> set ep" and "valid_utf8 client_id" and "valid_utf8 redirect_uri"
    and "valid_utf8 (join '' '' scopes)" and "valid_utf8 challenge"
    and "\<And>st. state = Some st \<Longrightarrow> valid_utf8 st"
    and "url = build_authorize_url ep client_id redirect_uri scopes challenge state
      (extra_authorize_params issuer)"
  shows "extract_query_param url ''client_id'' = Some client_id \<and>
    extract_query_param url ''redirect_uri'' = Some redirect_uri \<and>
    extract_query_param url ''scope'' = Some (join '' '' scopes) \<and>
    extract_query_param url ''code_challenge'' = Some challenge \<and>
    extract_query_param url ''state'' = state"
proof -
  let ?extra = "extra_authorize_params issuer"
  have "extract_query_param url key =
      query_lookup key (authorize_pairs client_id redirect_uri scopes challenge ?extra state)" for key
    unfolding assms(7) authorize_url_shape using assms(1)
    by (simp only: if_False)
      (rule extract_from_url [OF assms(1)],
        simp add: authorize_pairs_def, rule authorize_pairs_clean)
  moreover have skip: "query_lookup ''state''
      (map (\<lambda>(k, v). query_pair (urlencode k) (urlencode v)) ?extra @ ps) = query_lookup ''state'' ps" for ps
    by (rule query_lookup_extra) (use google_params_plain in force)+
  moreover have "query_lookup ''state''
      (map (\<lambda>(k, v). query_pair (urlencode k) (urlencode v)) ?extra) = None"
    using skip [of "[]"] by simp
  moreover have "state = Some st \<Longrightarrow> urldecode (urlencode st) = st" for st
    using assms(6) urldecode_urlencode by blast
  ultimately show ?thesis
    using urldecode_urlencode [OF assms(2)] urldecode_urlencode [OF assms(3)]
      urldecode_urlencode [OF assms(4)] urldecode_urlencode [OF assms(5)]
    by (cases state) (simp_all add: authorize_pairs_def query_lookup_pair
        del: query_lookup.simps(2))
qed

theorem authorize_url_reads_back_witness:
  "extract_query_param (build_authorize_url ''https://i/a'' ''id'' ''http://l/c'' [''a b'', ''c''] ''x-y''
     (Some ''n.1'') (extra_authorize_params ''https://accounts.google.com/'')) ''state'' = Some ''n.1''"
proof -
  have ascii: "valid_utf8 s" if "list_all (\<lambda>b. b \<le> CHR 0x7F) s" for s
    using that by (intro ascii_valid) (simp add: list_all_iff)
  have args: "valid_utf8 ''id''" "valid_utf8 ''http://l/c''" "valid_utf8 (join '' '' [''a b'', ''c''])"
    "valid_utf8 ''x-y''" "valid_utf8 ''n.1''" by (rule ascii, simp add: less_eq_char_def)+
  then have "\<And>st. Some ''n.1'' = Some st \<Longrightarrow> valid_utf8 st" by simp
  from authorize_url_reads_back [where ep = "''https://i/a''" and state = "Some ''n.1''" and
      issuer = "''https://accounts.google.com/''", OF _ args(1-4) this refl]
  show ?thesis by simp
qed

end
