(* ===== verification/Auth_Token.thy ===== *)
theory Auth_Token
  imports Auth_Url "HOL-Library.AList"
begin

text \<open>
  Credentials (crates/axl-runtime/src/engine/aspect/auth.rs and credential_store.rs, and the
  Bazel credential helper of crates/aspect-cli/src/credential_helper.rs): the stored sessions,
  when a token is used, refreshed or refused, and which requests get one.

  The environment of a process is the record \<open>machine\<close>. The libraries and servers it relies on
  are the fields of \<open>services\<close>: serde_json on the two kinds of files, base64 and JSON on a token's
  payload, Unicode lower-casing, and the answers of the HTTP endpoints. A map of credentials is an
  association list. Operations return the machine they leave, also when they fail.
\<close>

section \<open>Data\<close>

record credentials_entry =
  ce_access_token :: string
  ce_refresh_token :: string
  ce_email :: string
  ce_name :: string
  ce_tenant_id :: string
  ce_auth_domain :: "string option"
  ce_auth_client_id :: "string option"
  ce_prefer_id_token :: bool

record jwt_claims =
  jc_email :: "string option"
  jc_name :: "string option"
  jc_tenant_id :: string
  jc_exp :: "64 word option"

record token_response =
  tr_access_token :: string
  tr_id_token :: string
  tr_refresh_token :: string

datatype token_error =
  Auth auth_error
| JwtParts nat
| JwtPayload string
| JwtClaimsUnparsable string
| NoIdToken
| NoToken
| NoAuthDomain
| NoAuthClientId
| Http string
| ApiTokenFormat
| Callback callback_error
| StateMismatch
| SessionConsumed
| SessionExpired string
| StoreRead string
| StoreWrite string
| NotLoggedIn string

type_synonym creds = "(string \<times> credentials_entry) list"

record ('j, 'k) services =
  sv_parse :: "'j \<Rightarrow> string + deployment list"
  sv_ser :: "deployment list \<Rightarrow> 'j"
  sv_parse_creds :: "'k \<Rightarrow> creds option"
  sv_ser_creds :: "creds \<Rightarrow> 'k"
  sv_base64 :: "string \<Rightarrow> string + string"
  sv_claims :: "string \<Rightarrow> string + jwt_claims"
  sv_exp_only :: "string \<Rightarrow> 64 word option option" \<comment> \<open>\<open>None\<close>: does not parse\<close>
  sv_lowercase :: "string \<Rightarrow> string"
  sv_oidc :: "string \<Rightarrow> (string \<times> string) option" \<comment> \<open>the endpoints of a discovery document\<close>
  sv_post_form :: "string \<Rightarrow> (string \<times> string) list \<Rightarrow> string + token_response"
  sv_api_token :: "string \<Rightarrow> string \<Rightarrow> string \<Rightarrow> string + string"

record api_token_cache_entry =
  ac_source_token :: string
  ac_auth_domain :: string
  ac_entry :: credentials_entry

record ('j, 'k) machine =
  m_host :: "'j host_env"
  m_now :: "64 word" \<comment> \<open>seconds since the epoch\<close>
  m_cred_file :: "string option" \<comment> \<open>\<open>ASPECT_CREDENTIALS_FILE\<close>\<close>
  m_profile :: "string option" \<comment> \<open>\<open>ASPECT_AUTH_PROFILE\<close>\<close>
  m_api_token :: "string option" \<comment> \<open>\<open>ASPECT_API_TOKEN\<close>\<close>
  m_buildkite :: bool \<comment> \<open>\<open>BUILDKITE_AGENT_ACCESS_TOKEN\<close> is set\<close>
  m_buildkite_secret :: "string option" \<comment> \<open>the agent's answer, if it succeeds\<close>
  m_keyring_ok :: bool
  m_keyring :: "'k file_read"
  m_keyring_error :: "string option" \<comment> \<open>why writing the keyring fails\<close>
  m_files :: "string \<Rightarrow> 'k file_read"
  m_file_error :: "string \<Rightarrow> string option"
  m_cache :: "api_token_cache_entry option"

section \<open>The credential store\<close>

datatype credential_store = Keyring | File string

definition default_file_path :: "('j, 'k) machine \<Rightarrow> token_error + string" where
  "default_file_path m =
     (case he_home (m_host m) of
        None \<Rightarrow> Inl (Auth NoHome)
      | Some home \<Rightarrow> Inr (path_join (path_join home ''.aspect'') ''credentials.json''))"

definition store_resolve :: "('j, 'k) machine \<Rightarrow> token_error + credential_store" where
  "store_resolve m =
     (case m_cred_file m of
        Some path \<Rightarrow> Inr (File path)
      | None \<Rightarrow>
          if m_keyring_ok m then Inr Keyring
          else (case default_file_path m of Inl e \<Rightarrow> Inl e | Inr path \<Rightarrow> Inr (File path)))"

definition parse_stored_map :: "('j, 'k) services \<Rightarrow> 'k \<Rightarrow> creds" where
  "parse_stored_map sv raw = (case sv_parse_creds sv raw of Some m \<Rightarrow> m | None \<Rightarrow> [])"

definition read_stored :: "('j, 'k) services \<Rightarrow> 'k file_read \<Rightarrow> token_error + creds" where
  "read_stored sv r =
     (case r of
        Content raw \<Rightarrow> Inr (parse_stored_map sv raw)
      | NotFound \<Rightarrow> Inr []
      | Unreadable e \<Rightarrow> Inl (StoreRead e))"

definition load_all :: "('j, 'k) services \<Rightarrow> ('j, 'k) machine \<Rightarrow> token_error + creds" where
  "load_all sv m =
     (case store_resolve m of
        Inl e \<Rightarrow> Inl e
      | Inr Keyring \<Rightarrow> read_stored sv (m_keyring m)
      | Inr (File path) \<Rightarrow> read_stored sv (m_files m path))"

definition keyring_save_all ::
  "('j, 'k) services \<Rightarrow> creds \<Rightarrow> ('j, 'k) machine \<Rightarrow> ('j, 'k) machine \<times> (token_error + unit)" where
  "keyring_save_all sv c m =
     (case m_keyring_error m of
        Some e \<Rightarrow> if c = [] \<and> m_keyring m = NotFound then (m, Inr ()) else (m, Inl (StoreWrite e))
      | None \<Rightarrow>
          (m\<lparr>m_keyring := if c = [] then NotFound else Content (sv_ser_creds sv c)\<rparr>, Inr ()))"

definition file_save_all ::
  "('j, 'k) services \<Rightarrow> string \<Rightarrow> creds \<Rightarrow> ('j, 'k) machine \<Rightarrow>
   ('j, 'k) machine \<times> (token_error + unit)" where
  "file_save_all sv path c m =
     (case m_file_error m path of
        Some e \<Rightarrow> (m, Inl (StoreWrite e))
      | None \<Rightarrow> (m\<lparr>m_files := (m_files m)(path := Content (sv_ser_creds sv c))\<rparr>, Inr ()))"

definition save_all ::
  "('j, 'k) services \<Rightarrow> creds \<Rightarrow> ('j, 'k) machine \<Rightarrow> ('j, 'k) machine \<times> (token_error + unit)" where
  "save_all sv c m =
     (case store_resolve m of
        Inl e \<Rightarrow> (m, Inl e)
      | Inr Keyring \<Rightarrow> keyring_save_all sv c m
      | Inr (File path) \<Rightarrow> file_save_all sv path c m)"

section \<open>Tokens\<close>

definition decode_jwt_claims :: "('j, 'k) services \<Rightarrow> string \<Rightarrow> token_error + jwt_claims" where
  "decode_jwt_claims sv token =
     (let parts = split_on (CHR ''.'') token
      in if length parts \<noteq> 3 then Inl (JwtParts (length parts))
         else (case sv_base64 sv (parts ! 1) of
                 Inl e \<Rightarrow> Inl (JwtPayload e)
               | Inr payload \<Rightarrow>
                   (case sv_claims sv payload of
                      Inl e \<Rightarrow> Inl (JwtClaimsUnparsable e) | Inr c \<Rightarrow> Inr c)))"

definition or_default :: "string \<Rightarrow> string option \<Rightarrow> string" where
  "or_default d s = (case s of Some x \<Rightarrow> x | None \<Rightarrow> d)"

definition from_bearer ::
  "('j, 'k) services \<Rightarrow> string \<Rightarrow> string \<Rightarrow> string option \<Rightarrow> string option \<Rightarrow> bool \<Rightarrow>
   token_error + credentials_entry" where
  "from_bearer sv bearer refresh_token auth_domain auth_client_id prefer_id_token =
     (case decode_jwt_claims sv bearer of
        Inl e \<Rightarrow> Inl e
      | Inr claims \<Rightarrow>
          Inr \<lparr>ce_access_token = bearer, ce_refresh_token = refresh_token,
               ce_email = or_default [] (jc_email claims),
               ce_name = or_default ''Unknown'' (jc_name claims),
               ce_tenant_id = jc_tenant_id claims, ce_auth_domain = auth_domain,
               ce_auth_client_id = auth_client_id, ce_prefer_id_token = prefer_id_token\<rparr>)"

definition format_token_status :: "64 word \<Rightarrow> 64 word option \<Rightarrow> string" where
  "format_token_status now exp =
     (case exp of
        None \<Rightarrow> ''no expiry''
      | Some e \<Rightarrow>
          if e \<le> now then ''expired''
          else (let remaining = unat (e - now);
                    hours = remaining div 3600;
                    minutes = remaining mod 3600 div 60
                in if 0 < hours
                   then ''expires in '' @ show_nat hours @ ''h '' @ show_nat minutes @ ''m''
                   else ''expires in '' @ show_nat minutes @ ''m''))"

definition is_expired_jwt ::
  "('j, 'k) services \<Rightarrow> 64 word \<Rightarrow> credentials_entry \<Rightarrow> bool" where
  "is_expired_jwt sv now entry =
     (let parts = split_on (CHR ''.'') (ce_access_token entry)
      in if length parts \<noteq> 3 then True
         else (case sv_base64 sv (parts ! 1) of
                 Inl _ \<Rightarrow> True
               | Inr payload \<Rightarrow>
                   (case sv_exp_only sv payload of
                      None \<Rightarrow> True
                    | Some None \<Rightarrow> False
                    | Some (Some exp) \<Rightarrow> exp \<le> now + 60)))"

definition can_refresh :: "credentials_entry \<Rightarrow> bool" where
  "can_refresh entry \<longleftrightarrow> ce_refresh_token entry \<noteq> [] \<and> ce_auth_domain entry \<noteq> None \<and>
     ce_auth_client_id entry \<noteq> None"

definition bearer :: "bool \<Rightarrow> token_response \<Rightarrow> token_error + string" where
  "bearer prefer_id_token r =
     (if prefer_id_token then
        (if tr_id_token r \<noteq> [] then Inr (tr_id_token r) else Inl NoIdToken)
      else if tr_access_token r \<noteq> [] then Inr (tr_access_token r)
      else if tr_id_token r \<noteq> [] then Inr (tr_id_token r)
      else Inl NoToken)"

datatype token_action = Use | Refresh | Expired

definition classify_token ::
  "('j, 'k) services \<Rightarrow> 64 word \<Rightarrow> credentials_entry \<Rightarrow> token_action" where
  "classify_token sv now entry =
     (if \<not> is_expired_jwt sv now entry then Use
      else if can_refresh entry then Refresh else Expired)"

section \<open>OIDC endpoints and refreshing\<close>

definition is_https :: "string \<Rightarrow> bool" where
  "is_https url =
     eq_ignore_case (take (case find_sub ''://'' url of Some i \<Rightarrow> i | None \<Rightarrow> 0) url) ''https''"

definition oidc_endpoints_fallback :: "string \<Rightarrow> string \<times> string" where
  "oidc_endpoints_fallback issuer = (issuer @ ''/oauth/authorize'', issuer @ ''/oauth/token'')"

definition resolve_oidc_endpoints :: "('j, 'k) services \<Rightarrow> string \<Rightarrow> string \<times> string" where
  "resolve_oidc_endpoints sv issuer0 =
     (let issuer = trim_slashes issuer0
      in case sv_oidc sv (issuer @ ''/.well-known/openid-configuration'') of
           Some (authorize, token) \<Rightarrow>
             if is_https authorize \<and> is_https token then (authorize, token)
             else oidc_endpoints_fallback issuer
         | None \<Rightarrow> oidc_endpoints_fallback issuer)"

definition merged_refresh_token :: "string \<Rightarrow> string \<Rightarrow> string" where
  "merged_refresh_token prior fresh = (if fresh = [] then prior else fresh)"

definition refresh_access_token ::
  "('j, 'k) services \<Rightarrow> credentials_entry \<Rightarrow> token_error + credentials_entry" where
  "refresh_access_token sv entry =
     (case ce_auth_domain entry of
        None \<Rightarrow> Inl NoAuthDomain
      | Some auth_domain \<Rightarrow>
          (case ce_auth_client_id entry of
             None \<Rightarrow> Inl NoAuthClientId
           | Some client_id \<Rightarrow>
               (case sv_post_form sv (snd (resolve_oidc_endpoints sv auth_domain))
                       [(''grant_type'', ''refresh_token''),
                        (''refresh_token'', ce_refresh_token entry),
                        (''client_id'', client_id)] of
                  Inl e \<Rightarrow> Inl (Http e)
                | Inr resp \<Rightarrow>
                    (case bearer (ce_prefer_id_token entry) resp of
                       Inl e \<Rightarrow> Inl e
                     | Inr b \<Rightarrow>
                         from_bearer sv b
                           (merged_refresh_token (ce_refresh_token entry) (tr_refresh_token resp))
                           (ce_auth_domain entry) (ce_auth_client_id entry)
                           (ce_prefer_id_token entry)))))"

section \<open>Profiles and the API token\<close>

definition default_profile :: string where
  "default_profile = ''default''"

definition resolve_profile :: "('j, 'k) machine \<Rightarrow> string option \<Rightarrow> string" where
  "resolve_profile m explicit =
     (case non_empty explicit of
        Some p \<Rightarrow> p
      | None \<Rightarrow> (case non_empty (m_profile m) of Some p \<Rightarrow> p | None \<Rightarrow> default_profile))"

definition login_hint :: "string \<Rightarrow> string" where
  "login_hint profile =
     (if profile = default_profile then ''aspect auth login''
      else ''aspect auth login --deployment '' @ profile)"

definition buildkite_aspect_api_token :: "('j, 'k) machine \<Rightarrow> string option" where
  "buildkite_aspect_api_token m =
     (if \<not> m_buildkite m then None
      else (case m_buildkite_secret m of None \<Rightarrow> None | Some out \<Rightarrow> non_empty (Some (trim out))))"

definition exchange_api_token ::
  "('j, 'k) services \<Rightarrow> string \<Rightarrow> string \<Rightarrow> auth_env \<Rightarrow> token_error + credentials_entry" where
  "exchange_api_token sv client_id secret env =
     (case sv_api_token sv (ae_domain env @ ''/identity/resources/auth/v1/api-token'') client_id secret of
        Inl e \<Rightarrow> Inl (Http e)
      | Inr token \<Rightarrow> from_bearer sv token [] None None False)"

definition lift_auth :: "auth_error + 'a \<Rightarrow> token_error + 'a" where
  "lift_auth r = (case r of Inl e \<Rightarrow> Inl (Auth e) | Inr x \<Rightarrow> Inr x)"

definition credentials_from_api_token_env ::
  "('j, 'k) services \<Rightarrow> ('j, 'k) machine \<Rightarrow>
   ('j, 'k) machine \<times> (token_error + credentials_entry option)" where
  "credentials_from_api_token_env sv m =
     (case (case non_empty (m_api_token m) of
              Some t \<Rightarrow> Some t | None \<Rightarrow> buildkite_aspect_api_token m) of
        None \<Rightarrow> (m, Inr None)
      | Some token \<Rightarrow>
          (case lift_auth (resolve_auth_env (sv_parse sv) (m_host m) None) of
             Inl e \<Rightarrow> (m, Inl e)
           | Inr env \<Rightarrow>
               (let exchange =
                     (case split_once (CHR '':'') token of
                        None \<Rightarrow> (m, Inl ApiTokenFormat)
                      | Some (client_id, secret) \<Rightarrow>
                          (case exchange_api_token sv client_id secret env of
                             Inl e \<Rightarrow> (m, Inl e)
                           | Inr entry \<Rightarrow>
                               (m\<lparr>m_cache := Some \<lparr>ac_source_token = token,
                                  ac_auth_domain = ae_domain env, ac_entry = entry\<rparr>\<rparr>,
                                Inr (Some entry))))
                in case m_cache m of
                     Some c \<Rightarrow>
                       if ac_source_token c = token \<and> ac_auth_domain c = ae_domain env \<and>
                          \<not> is_expired_jwt sv (m_now m) (ac_entry c)
                       then (m, Inr (Some (ac_entry c))) else exchange
                   | None \<Rightarrow> exchange)))"

definition resolve_access_token ::
  "('j, 'k) services \<Rightarrow> string \<Rightarrow> ('j, 'k) machine \<Rightarrow>
   ('j, 'k) machine \<times> (token_error + string option)" where
  "resolve_access_token sv profile m0 =
     (let (m, env_token) =
        (if profile = default_profile then credentials_from_api_token_env sv m0 else (m0, Inr None))
      in case env_token of
           Inl e \<Rightarrow> (m, Inl e)
         | Inr (Some entry) \<Rightarrow> (m, Inr (Some (ce_access_token entry)))
         | Inr None \<Rightarrow>
             (case load_all sv m of
                Inl e \<Rightarrow> (m, Inl e)
              | Inr creds \<Rightarrow>
                  (case map_of creds profile of
                     None \<Rightarrow> (m, Inr None)
                   | Some entry \<Rightarrow>
                       (case classify_token sv (m_now m) entry of
                          Use \<Rightarrow> (m, Inr (Some (ce_access_token entry)))
                        | Expired \<Rightarrow> (m, Inl (SessionExpired profile))
                        | Refresh \<Rightarrow>
                            (case refresh_access_token sv entry of
                               Inl _ \<Rightarrow> (m, Inl (SessionExpired profile))
                             | Inr refreshed \<Rightarrow>
                                 (case save_all sv (AList.update profile refreshed creds) m of
                                    (m', Inl e) \<Rightarrow> (m', Inl e)
                                  | (m', Inr _) \<Rightarrow> (m', Inr (Some (ce_access_token refreshed)))))))))"

section \<open>The commands\<close>

text \<open>\<open>Auth::credentials\<close>; the result is \<open>None\<close> where Starlark gets \<open>None\<close>.\<close>

definition credentials ::
  "('j, 'k) services \<Rightarrow> string option \<Rightarrow> bool \<Rightarrow> ('j, 'k) machine \<Rightarrow>
   ('j, 'k) machine \<times> (token_error + credentials_entry option)" where
  "credentials sv profile0 required m0 =
     (let profile = resolve_profile m0 profile0;
          (m, env_token) =
            (if profile = default_profile then credentials_from_api_token_env sv m0
             else (m0, Inr None));
          expired = (\<lambda>m. if required then (m, Inl (SessionExpired profile)) else (m, Inr None))
      in case env_token of
           Inl e \<Rightarrow> (m, Inl e)
         | Inr (Some entry) \<Rightarrow> (m, Inr (Some entry))
         | Inr None \<Rightarrow>
             (case load_all sv m of
                Inl e \<Rightarrow> (m, Inl e)
              | Inr creds \<Rightarrow>
                  (case map_of creds profile of
                     None \<Rightarrow> (m, Inr None)
                   | Some entry \<Rightarrow>
                       (case classify_token sv (m_now m) entry of
                          Use \<Rightarrow> (m, Inr (Some entry))
                        | Expired \<Rightarrow> expired m
                        | Refresh \<Rightarrow>
                            (case refresh_access_token sv entry of
                               Inl _ \<Rightarrow> expired m
                             | Inr refreshed \<Rightarrow>
                                 (case save_all sv (AList.update profile refreshed creds) m of
                                    (m', Inl e) \<Rightarrow> (m', Inl e)
                                  | (m', Inr _) \<Rightarrow> (m', Inr (Some refreshed))))))))"

definition persist ::
  "('j, 'k) services \<Rightarrow> credentials_entry \<Rightarrow> string option \<Rightarrow> ('j, 'k) machine \<Rightarrow>
   ('j, 'k) machine \<times> (token_error + unit)" where
  "persist sv entry profile m =
     (case load_all sv m of
        Inl e \<Rightarrow> (m, Inl e)
      | Inr creds \<Rightarrow> save_all sv (AList.update (resolve_profile m profile) entry creds) m)"

definition login_profile_for :: "('j, 'k) machine \<Rightarrow> deployment \<Rightarrow> string" where
  "login_profile_for m d = (if dp_hosts d = [] then resolve_profile m None else dp_name d)"

definition logout ::
  "('j, 'k) services \<Rightarrow> string option \<Rightarrow> string option \<Rightarrow> bool \<Rightarrow> ('j, 'k) machine \<Rightarrow>
   ('j, 'k) machine \<times> (token_error + string)" where
  "logout sv name profile0 everything m =
     (if everything then
        (case save_all sv [] m of (m', Inl e) \<Rightarrow> (m', Inl e) | (m', Inr _) \<Rightarrow> (m', Inr []))
      else
        (case lift_auth (load_deployments (sv_parse sv) (m_host m)) of
           Inl e \<Rightarrow> (m, Inl e)
         | Inr ds \<Rightarrow>
             (case lift_auth (select_account_or_deployment ds name) of
                Inl e \<Rightarrow> (m, Inl e)
              | Inr selected \<Rightarrow>
                  (let profile = (case non_empty profile0 of
                         Some p \<Rightarrow> p | None \<Rightarrow> login_profile_for m selected)
                   in case load_all sv m of
                        Inl e \<Rightarrow> (m, Inl e)
                      | Inr creds \<Rightarrow>
                          (case save_all sv (AList.delete profile creds) m of
                             (m', Inl e) \<Rightarrow> (m', Inl e)
                           | (m', Inr _) \<Rightarrow>
                               if dp_default selected \<and> dp_name selected \<noteq> default_deployment_name
                               then (case set_default_deployment (sv_parse sv) (sv_ser sv) (m_host m') None of
                                       Inl e \<Rightarrow> (m', Inl (Auth e))
                                     | Inr h \<Rightarrow> (m'\<lparr>m_host := h\<rparr>, Inr (dp_name selected)))
                               else (m', Inr (dp_name selected)))))))"

definition remove_deployment ::
  "('j, 'k) services \<Rightarrow> string \<Rightarrow> ('j, 'k) machine \<Rightarrow> ('j, 'k) machine \<times> (token_error + unit)" where
  "remove_deployment sv name m =
     (if name = default_deployment_name then (m, Inl (Auth BuiltinCannotBeRemoved))
      else
        (case lift_auth (config_path (m_host m)) of
           Inl e \<Rightarrow> (m, Inl e)
         | Inr path \<Rightarrow>
             (case lift_auth (load_config_file (sv_parse sv) (m_host m) path) of
                Inl e \<Rightarrow> (m, Inl e)
              | Inr existing \<Rightarrow>
                  (let kept = filter (\<lambda>d. dp_name d \<noteq> name) existing
                   in if length kept = length existing then (m, Inl (Auth (UnknownDeployment name)))
                      else
                        (case lift_auth (write_user_config (sv_ser sv) (m_host m) kept) of
                           Inl e \<Rightarrow> (m, Inl e)
                         | Inr h \<Rightarrow>
                             (let m' = m\<lparr>m_host := h\<rparr>
                              in case load_all sv m' of
                                   Inl e \<Rightarrow> (m', Inl e)
                                 | Inr creds \<Rightarrow>
                                     if map_of creds name \<noteq> None
                                     then save_all sv (AList.delete name creds) m'
                                     else (m', Inr ())))))))"

section \<open>The browser session\<close>

datatype session_kind = Cloud | Endpoint string \<comment> \<open>the expected state\<close>

record auth_session =
  se_code_verifier :: string
  se_redirect_uri :: string
  se_env :: auth_env
  se_kind :: session_kind

definition exchange_code ::
  "('j, 'k) services \<Rightarrow> string \<Rightarrow> string \<Rightarrow> string \<Rightarrow> string \<Rightarrow> string \<Rightarrow>
   token_error + token_response" where
  "exchange_code sv token_url client_id redirect_uri code code_verifier =
     (case sv_post_form sv token_url
             [(''grant_type'', ''authorization_code''), (''code'', code),
              (''redirect_uri'', redirect_uri), (''client_id'', client_id),
              (''code_verifier'', code_verifier)] of
        Inl e \<Rightarrow> Inl (Http e) | Inr r \<Rightarrow> Inr r)"

text \<open>\<open>wait\<close> takes the session out of its cell; \<open>request\<close> is what the browser sends.\<close>

definition wait ::
  "('j, 'k) services \<Rightarrow> string \<Rightarrow> auth_session option \<Rightarrow>
   auth_session option \<times> (token_error + credentials_entry)" where
  "wait sv request cell =
     (case cell of
        None \<Rightarrow> (None, Inl SessionConsumed)
      | Some s \<Rightarrow>
          (None,
           case accept_callback request of
             Inl e \<Rightarrow> Inl (Callback e)
           | Inr (code, state) \<Rightarrow>
               (case (case se_kind s of
                        Cloud \<Rightarrow> Inr (ae_domain (se_env s) @ ''/oauth/token'')
                      | Endpoint expected \<Rightarrow>
                          if state \<noteq> Some expected then Inl StateMismatch
                          else Inr (snd (resolve_oidc_endpoints sv (ae_domain (se_env s))))) of
                  Inl e \<Rightarrow> Inl e
                | Inr token_url \<Rightarrow>
                    (case exchange_code sv token_url (ae_client_id (se_env s)) (se_redirect_uri s)
                            code (se_code_verifier s) of
                       Inl e \<Rightarrow> Inl e
                     | Inr resp \<Rightarrow>
                         (let prefer = (se_kind s \<noteq> Cloud)
                          in case bearer prefer resp of
                               Inl e \<Rightarrow> Inl e
                             | Inr b \<Rightarrow>
                                 from_bearer sv b (tr_refresh_token resp)
                                   (Some (ae_domain (se_env s))) (Some (ae_client_id (se_env s)))
                                   prefer)))))"

section \<open>The credential helper\<close>

text \<open>\<open>uri\<close> is the request's URI, the empty string when the request has none. The response is the
  bearer token to attach, or \<open>None\<close> for the empty headers.\<close>

definition helper_get ::
  "('j, 'k) services \<Rightarrow> string \<Rightarrow> ('j, 'k) machine \<Rightarrow>
   ('j, 'k) machine \<times> (token_error + string option)" where
  "helper_get sv uri m =
     (case profile_for_uri (sv_lowercase sv) (sv_parse sv) (m_host m) uri of
        Inl e \<Rightarrow> (m, Inl (Auth e))
      | Inr (host, None) \<Rightarrow> (m, Inr None)
      | Inr (host, Some deployment) \<Rightarrow>
          (case resolve_access_token sv deployment m of
             (m', Inl e) \<Rightarrow> (m', Inl e)
           | (m', Inr None) \<Rightarrow> (m', Inl (NotLoggedIn deployment))
           | (m', Inr (Some token)) \<Rightarrow> (m', Inr (Some token))))"

section \<open>The life of a token\<close>

lemma load_after_save:
  assumes "\<And>c. sv_parse_creds sv (sv_ser_creds sv c) = Some c"
    and "save_all sv c m = (m', Inr ())" and "c \<noteq> []"
  shows "load_all sv m' = Inr c"
proof -
  have parse: "read_stored sv (Content (sv_ser_creds sv c)) = Inr c"
    by (simp add: read_stored_def parse_stored_map_def assms(1))
  show ?thesis
    using assms(2,3) parse
    by (auto simp: save_all_def load_all_def store_resolve_def default_file_path_def
        keyring_save_all_def file_save_all_def
        split: sum.splits option.splits credential_store.splits if_splits)
qed

lemma failed_save: "save_all sv c m = (m', Inl e) \<Longrightarrow> m' = m"
  by (auto simp: save_all_def keyring_save_all_def file_save_all_def
      split: sum.splits option.splits credential_store.splits if_splits)

text \<open>A refreshed session is one of the same kind, and can be refreshed again.\<close>

lemma refreshed_session:
  assumes "refresh_access_token sv e = Inr e'" and "can_refresh e"
  shows "can_refresh e' \<and> ce_prefer_id_token e' = ce_prefer_id_token e \<and>
    ce_auth_domain e' = ce_auth_domain e \<and> ce_auth_client_id e' = ce_auth_client_id e"
  using assms
  by (auto simp: refresh_access_token_def from_bearer_def can_refresh_def merged_refresh_token_def
      split: option.splits sum.splits if_splits)

lemma update_not_Nil [simp]: "AList.update k v xs \<noteq> []"
  by (cases xs) auto


text \<open>Services that store values as they are and know two tokens, an old one and a new one.\<close>

definition plain_services :: "(deployment list, creds) services" where
  "plain_services =
     \<lparr>sv_parse = Inr, sv_ser = id, sv_parse_creds = Some, sv_ser_creds = id, sv_base64 = Inr,
      sv_claims = (\<lambda>_. Inr \<lparr>jc_email = None, jc_name = None, jc_tenant_id = [], jc_exp = None\<rparr>),
      sv_exp_only = (\<lambda>p. Some (Some (if p = ''old'' then 10 else 1000))),
      sv_lowercase = map to_lower, sv_oidc = (\<lambda>_. None),
      sv_post_form = (\<lambda>_ _. Inr \<lparr>tr_access_token = ''h.acc.s'', tr_id_token = ''h.new.s'',
        tr_refresh_token = []\<rparr>),
      sv_api_token = (\<lambda>_ _ _. Inl ''offline'')\<rparr>"

definition old_session :: credentials_entry where
  "old_session =
     \<lparr>ce_access_token = ''h.old.s'', ce_refresh_token = ''r'', ce_email = [], ce_name = [],
      ce_tenant_id = [], ce_auth_domain = Some ''https://idp'', ce_auth_client_id = Some ''id'',
      ce_prefer_id_token = True\<rparr>"

definition acme_machine :: "(deployment list, creds) machine" where
  "acme_machine =
     \<lparr>m_host = stored_host [default_deployment\<lparr>dp_name := ''acme'', dp_hosts := [''remote.acme.io'']\<rparr>],
      m_now = 100, m_cred_file = None, m_profile = None, m_api_token = None, m_buildkite = False,
      m_buildkite_secret = None, m_keyring_ok = True, m_keyring = Content [(''acme'', old_session)],
      m_keyring_error = None, m_files = (\<lambda>_. NotFound), m_file_error = (\<lambda>_. None), m_cache = None\<rparr>"

lemma acme_token: "snd (resolve_access_token plain_services ''acme'' acme_machine) = Inr (Some ''h.new.s'')"
  by (simp add: resolve_access_token_def plain_services_def acme_machine_def old_session_def
      default_profile_def load_all_def store_resolve_def read_stored_def parse_stored_map_def
      classify_token_def is_expired_jwt_def can_refresh_def refresh_access_token_def bearer_def
      from_bearer_def decode_jwt_claims_def save_all_def keyring_save_all_def)


section \<open>Who gets a token\<close>



section \<open>Sessions and the account token\<close>

text \<open>The API token of the account stands in for the profile \<open>default\<close>, whoever it belongs to: the
  helper passes a deployment's name as the profile.\<close>

lemma deployment_named_default_gets_account_token:
  "credentials_from_api_token_env sv m = (m', Inr (Some e)) \<Longrightarrow>
   resolve_access_token sv ''default'' m = (m', Inr (Some (ce_access_token e)))"
  by (simp add: resolve_access_token_def default_profile_def)

text \<open>C33. A browser login ends in a session only if it is this login's callback: the session of an
  endpoint is taken out of its cell, the callback carries a code and exactly the state the login
  was started with, the bearer is the identity token, and the session is refreshed against the
  same issuer and client.\<close>

theorem endpoint_login_checks_state:
  assumes "se_kind s = Endpoint expected" and "wait sv request (Some s) = (cell, Inr e)"
  shows "cell = None \<and>
    (\<exists>code resp. accept_callback request = Inr (code, Some expected) \<and>
       exchange_code sv (snd (resolve_oidc_endpoints sv (ae_domain (se_env s))))
         (ae_client_id (se_env s)) (se_redirect_uri s) code (se_code_verifier s) = Inr resp \<and>
       tr_id_token resp \<noteq> [] \<and> ce_access_token e = tr_id_token resp \<and>
       ce_refresh_token e = tr_refresh_token resp) \<and>
    ce_prefer_id_token e \<and> ce_auth_domain e = Some (ae_domain (se_env s)) \<and>
    ce_auth_client_id e = Some (ae_client_id (se_env s))"
  using assms
  by (auto simp: wait_def bearer_def from_bearer_def Let_def
      split: sum.splits if_splits prod.splits)

theorem endpoint_login_checks_state_witness:
  "\<exists>code. accept_callback ''GET /cb?code=c%20d&state=n.1 HTTP/1.1'' = Inr (code, Some ''n.1'')"
proof -
  let ?s = "\<lparr>se_code_verifier = ''v'', se_redirect_uri = ''https://h/oauth2/callback'',
      se_env = \<lparr>ae_domain = ''https://idp'', ae_client_id = ''id'', ae_scopes = []\<rparr>,
      se_kind = Endpoint ''n.1''\<rparr>"
  let ?r = "''GET /cb?code=c%20d&state=n.1 HTTP/1.1''"
  have callback: "accept_callback ?r = Inr (''c d'', Some ''n.1'')" by code_simp
  obtain e where "wait plain_services ?r (Some ?s) = (None, Inr e)"
    by (simp add: wait_def callback exchange_code_def plain_services_def bearer_def from_bearer_def
        decode_jwt_claims_def)
  from endpoint_login_checks_state [OF _ this] show ?thesis by auto
qed

end
