(* ===== verification/Load_Path.thy ===== *)
theory Load_Path
  imports Rust_Path Names
begin

text \<open>
  The text of a \<open>load()\<close> statement (crates/axl-runtime/src/eval/load_path.rs): which strings are
  load paths, how they are normalised, and how a sub-path is joined to a module root without
  leaving it. Paths are lists of components.
\<close>

section \<open>Joining and normalising\<close>

datatype confine_error = OutsideBase path path | InvalidComponent path_component path

fun confine_loop ::
  "path \<Rightarrow> path \<Rightarrow> path \<Rightarrow> path_component list \<Rightarrow> confine_error + path" where
  "confine_loop base sub dest [] = Inr dest"
| "confine_loop base sub dest (CurDir # cs) = confine_loop base sub dest cs"
| "confine_loop base sub dest (ParentDir # cs) =
     (if dest = base then Inl (OutsideBase sub base)
      else confine_loop base sub (path_pop dest) cs)"
| "confine_loop base sub dest (NormalComp s # cs) =
     confine_loop base sub (dest @ [NormalComp s]) cs"
| "confine_loop base sub dest (RootDir # cs) = Inl (InvalidComponent RootDir sub)"

definition join_confined :: "path \<Rightarrow> path \<Rightarrow> confine_error + path" where
  "join_confined base sub = confine_loop base sub base sub"

fun normalize_loop :: "path_component list \<Rightarrow> path_component list \<Rightarrow> path_component list" where
  "normalize_loop acc [] = acc"
| "normalize_loop acc (ParentDir # cs) =
     (if acc \<noteq> [] \<and> is_normal (last acc) then normalize_loop (butlast acc) cs
      else normalize_loop (acc @ [ParentDir]) cs)"
| "normalize_loop acc (CurDir # cs) = normalize_loop acc cs"
| "normalize_loop acc (c # cs) = normalize_loop (acc @ [c]) cs"

definition normalize_rel_path_lexically :: "path \<Rightarrow> path" where
  "normalize_rel_path_lexically p =
     (let result = normalize_loop [] p
      in if p \<noteq> [] \<and> hd p = CurDir \<and>
            (result = [] \<or> (hd result \<noteq> ParentDir \<and> hd result \<noteq> CurDir))
         then path_push [CurDir] result else result)"

section \<open>Names\<close>

datatype module_name_error =
    EmptyModuleName | BadModuleStart | BadModuleEnd | BadModuleChar rchar

definition module_char :: "char \<Rightarrow> bool" where
  "module_char c \<longleftrightarrow> is_lower c \<or> is_digit c \<or> c = CHR ''.'' \<or> c = CHR ''-'' \<or> c = CHR ''_''"

definition validate_module_name :: "string \<Rightarrow> module_name_error + unit" where
  "validate_module_name name =
     (let cs = utf8_chars name
      in if cs = [] then Inl EmptyModuleName
         else if \<not> ascii_char is_lower (hd cs) then Inl BadModuleStart
         else if \<not> ascii_char (\<lambda>c. is_lower c \<or> is_digit c) (last cs) then Inl BadModuleEnd
         else (case find (\<lambda>c. \<not> ascii_char module_char c) cs of
             Some c \<Rightarrow> Inl (BadModuleChar c)
           | None \<Rightarrow> Inr ()))"

datatype segment_error =
    EmptySegment | SegmentWhitespace | SegmentTooLong | SegmentEnding | ReservedName
  | SegmentChar rchar

text \<open>The device names are ASCII and have no letter that a non-ASCII character is upper-cased
  to, so \<open>to_uppercase\<close> meets them exactly when the ASCII mapping does.\<close>

definition reserved_names :: "string list" where
  "reserved_names =
     [''CON'', ''PRN'', ''AUX'', ''NUL'',
      ''COM0'', ''COM1'', ''COM2'', ''COM3'', ''COM4'', ''COM5'', ''COM6'', ''COM7'', ''COM8'',
      ''COM9'',
      ''LPT0'', ''LPT1'', ''LPT2'', ''LPT3'', ''LPT4'', ''LPT5'', ''LPT6'', ''LPT7'', ''LPT8'',
      ''LPT9'']"

definition is_control :: "rchar \<Rightarrow> bool" where
  "is_control c \<longleftrightarrow>
     (case c of
        [b] \<Rightarrow> (of_char b :: nat) < 32 \<or> b = CHR 0x7F
      | [a, b] \<Rightarrow> a = CHR 0xC2 \<and> (128 :: nat) \<le> of_char b \<and> (of_char b :: nat) \<le> 159
      | _ \<Rightarrow> False)"

definition segment_char_bad :: "rchar \<Rightarrow> bool" where
  "segment_char_bad c \<longleftrightarrow> is_control c \<or>
     c \<in> set [[CHR 0x5C], ''/'', '':'', ''*'', ''?'', [CHR 0x22], ''<'', ''>'', ''|'']"

definition validate_path_segment :: "string \<Rightarrow> segment_error + unit" where
  "validate_path_segment segment =
     (if segment = [] then Inl EmptySegment
      else if trim segment \<noteq> segment then Inl SegmentWhitespace
      else if 255 < length segment then Inl SegmentTooLong
      else if ends_with '' '' segment \<or> ends_with ''.'' segment then Inl SegmentEnding
      else if hd (split_on (CHR ''.'') (map to_upper segment)) \<in> set reserved_names
      then Inl ReservedName
      else (case find segment_char_bad (utf8_chars segment) of
          Some c \<Rightarrow> Inl (SegmentChar c)
        | None \<Rightarrow> Inr ()))"

section \<open>Load paths\<close>

datatype load_path =
    ModuleSpecifier string path
  | ModuleSubpath path
  | RelativePath path

datatype load_path_error =
    PathWhitespace
  | LeadingSlash
  | Backslash
  | DoubleAt
  | NotAxl
  | ModuleNameError module_name_error
  | DoubleSlashAfterModule
  | DoubleSlash
  | MultipleDots
  | SegmentError segment_error

definition last_segment :: "string \<Rightarrow> string" where
  "last_segment s = last (split_on (CHR ''/'') s)"

definition split_module :: "string \<Rightarrow> load_path_error + (string option \<times> string)" where
  "split_module load_path =
     (if starts_with ''@'' load_path then
        (case find_sub ''//'' load_path of
           Some double_pos \<Rightarrow>
             (let candidate_module = drop 1 (take double_pos load_path)
              in if find_char (CHR ''/'') candidate_module = None then
                   (case validate_module_name candidate_module of
                      Inl e \<Rightarrow> Inl (ModuleNameError e)
                    | Inr _ \<Rightarrow> Inr (Some candidate_module, drop (double_pos + 2) load_path))
                 else Inr (None, load_path))
         | None \<Rightarrow> Inr (None, load_path))
      else Inr (None, load_path))"

fun check_segments :: "bool \<Rightarrow> bool \<Rightarrow> string list \<Rightarrow> load_path_error + unit" where
  "check_segments allowing_relative seen_dot [] = Inr ()"
| "check_segments allowing_relative seen_dot (seg # segs) =
     (if allowing_relative \<and> seg = ''.'' then
        (if seen_dot then Inl MultipleDots else check_segments True True segs)
      else if allowing_relative \<and> seg = ''..'' then check_segments True seen_dot segs
      else (case validate_path_segment seg of
          Inl e \<Rightarrow> Inl (SegmentError e)
        | Inr _ \<Rightarrow> check_segments False seen_dot segs))"

definition parse_load_path :: "string \<Rightarrow> load_path_error + load_path" where
  "parse_load_path load_path =
     (if trim load_path \<noteq> load_path then Inl PathWhitespace
      else if starts_with ''/'' load_path then Inl LeadingSlash
      else if CHR 0x5C \<in> set load_path then Inl Backslash
      else if starts_with ''@@'' load_path then Inl DoubleAt
      else if last_segment load_path = [] \<or> \<not> ends_with ''.axl'' (last_segment load_path)
      then Inl NotAxl
      else (case split_module load_path of
          Inl e \<Rightarrow> Inl e
        | Inr (module_name_option, path_to_validate) \<Rightarrow>
            if module_name_option \<noteq> None \<and> contains_sub ''//'' path_to_validate
            then Inl DoubleSlashAfterModule
            else if module_name_option = None \<and> contains_sub ''//'' load_path
            then Inl DoubleSlash
            else (case check_segments True False (split_on (CHR ''/'') path_to_validate) of
                Inl e \<Rightarrow> Inl e
              | Inr _ \<Rightarrow>
                  (let normalized_path =
                         normalize_rel_path_lexically (path_components path_to_validate)
                   in Inr (case module_name_option of
                        Some module \<Rightarrow> ModuleSpecifier module normalized_path
                      | None \<Rightarrow>
                          if normalized_path \<noteq> [] \<and>
                             (hd normalized_path = CurDir \<or> hd normalized_path = ParentDir)
                          then RelativePath normalized_path
                          else ModuleSubpath normalized_path)))))"

section \<open>Joining stays inside, and agrees with normalising\<close>

lemma is_normal_simps [simp]:
  "is_normal (NormalComp s)" "\<not> is_normal RootDir" "\<not> is_normal CurDir" "\<not> is_normal ParentDir"
  by (simp_all add: is_normal_def)

lemma normalize_loop_stuck:
  "p \<noteq> [] \<Longrightarrow> \<not> is_normal (last p) \<Longrightarrow> normalize_loop (p @ q) cs = p @ normalize_loop q cs"
proof (induction cs arbitrary: q)
  case (Cons c cs)
  show ?case
  proof (cases c)
    case ParentDir
    have "q \<noteq> [] \<Longrightarrow> butlast (p @ q) = p @ butlast q" by (simp add: butlast_append)
    then show ?thesis
      using Cons ParentDir by (cases "q = []") (auto simp: Cons.IH [of "[ParentDir]", simplified])
  qed (use Cons in simp_all)
qed simp

lemma confine_loop_normalize:
  assumes "RootDir \<notin> set cs" and "list_all is_normal acc"
  shows "confine_loop base sub (base @ acc) cs =
    (if list_all is_normal (normalize_loop acc cs) then Inr (base @ normalize_loop acc cs)
     else Inl (OutsideBase sub base))"
  using assms
proof (induction cs arbitrary: acc)
  case (Cons c cs)
  show ?case
  proof (cases c)
    case ParentDir
    show ?thesis
    proof (cases "acc = []")
      case True
      have "normalize_loop [ParentDir] cs = ParentDir # normalize_loop [] cs"
        using normalize_loop_stuck [of "[ParentDir]" "[]" cs] by simp
      with True ParentDir show ?thesis by simp
    next
      case False
      with Cons.prems have last: "is_normal (last acc)" "last acc \<noteq> RootDir"
        by (auto simp: list_all_iff is_normal_def split: path_component.splits)
      have "list_all is_normal (butlast acc)"
        using Cons.prems by (auto simp: list_all_iff dest: in_set_butlastD)
      moreover have "path_pop (base @ acc) = base @ butlast acc"
        using False last by (simp add: path_pop_def butlast_append)
      ultimately show ?thesis using Cons False ParentDir last by simp
    qed
  qed (use Cons in simp_all)
qed simp

lemma confine_loop_root: "confine_loop base sub dest cs = Inr d \<Longrightarrow> RootDir \<notin> set cs"
  by (induction base sub dest cs rule: confine_loop.induct) (auto split: if_splits)

lemma join_confined_eq:
  assumes "RootDir \<notin> set sub"
  shows "join_confined base sub =
    (let n = normalize_rel_path_lexically sub
     in if ParentDir \<in> set n then Inl (OutsideBase sub base)
        else Inr (base @ filter is_normal n))"
proof -
  define r where "r = normalize_loop [] sub"
  have r: "set (normalize_loop acc cs) \<subseteq> set acc \<union> (set cs - {CurDir})" for acc cs
    by (induction acc cs rule: normalize_loop.induct) (auto dest: in_set_butlastD)
  then have no_root: "RootDir \<notin> set r" and no_cur: "CurDir \<notin> set r"
    using assms unfolding r_def by fastforce+
  have "list_all is_normal r \<longleftrightarrow> ParentDir \<notin> set r"
    using no_root no_cur
    by (auto simp: list_all_iff is_normal_def split: path_component.splits)
  moreover have "ParentDir \<in> set (normalize_rel_path_lexically sub) \<longleftrightarrow> ParentDir \<in> set r"
    and "filter is_normal (normalize_rel_path_lexically sub) = filter is_normal r"
    using no_root no_cur
    by (auto simp: normalize_rel_path_lexically_def Let_def path_push_def r_def [symmetric]
        split: list.splits path_component.splits)
  moreover have "list_all is_normal r \<Longrightarrow> filter is_normal r = r"
    by (simp add: list_all_iff)
  ultimately show ?thesis
    using confine_loop_normalize [OF assms, of "[]" base sub] unfolding r_def
    by (simp add: join_confined_def Let_def)
qed

text \<open>Joining a sub-path to a module root succeeds exactly when the lexical normal form of the
  sub-path climbs nowhere, and then the result is the root followed by the names of that
  normal form: the two routines of the file agree, and nothing outside the root is reached.\<close>

theorem join_confined_normalized:
  assumes "RootDir \<notin> set sub"
  shows "join_confined base sub =
    (let n = normalize_rel_path_lexically sub
     in if ParentDir \<in> set n then Inl (OutsideBase sub base)
        else Inr (base @ filter is_normal n))"
  using assms by (rule join_confined_eq)

theorem join_confined_normalized_witness:
  "join_confined [RootDir, NormalComp ''m''] [ParentDir, NormalComp ''x''] =
     Inl (OutsideBase [ParentDir, NormalComp ''x''] [RootDir, NormalComp ''m''])"
  by (subst join_confined_normalized) (simp, code_simp)

lemma join_confined_Inr:
  "join_confined base sub = Inr d \<Longrightarrow> \<exists>names. d = base @ map NormalComp names"
proof -
  assume ok: "join_confined base sub = Inr d"
  then have "RootDir \<notin> set sub" by (auto simp: join_confined_def dest: confine_loop_root)
  with ok have "d = base @ filter is_normal (normalize_rel_path_lexically sub)"
    by (simp add: join_confined_normalized Let_def split: if_splits)
  moreover have "\<exists>names. filter is_normal cs = map NormalComp names" for cs
  proof (induction cs)
    case (Cons c cs)
    then obtain names where "filter is_normal cs = map NormalComp names" by blast
    then show ?case
      by (cases c) (auto intro: exI [of _ names] exI [of _ "x # names" for x])
  qed simp
  ultimately show ?thesis by metis
qed

section \<open>What a load path is\<close>

lemma last_segment_append: "last_segment (a @ CHR ''/'' # b) = last_segment b"
  by (simp add: last_segment_def split_on_append_sep)

lemma split_module_rest:
  "split_module s = Inr (m, rest) \<Longrightarrow>
   (case m of
      None \<Rightarrow> rest = s
    | Some name \<Rightarrow> s = ''@'' @ name @ ''//'' @ rest \<and> validate_module_name name = Inr ())"
proof -
  assume ok: "split_module s = Inr (m, rest)"
  show ?thesis
  proof (cases m)
    case None
    with ok show ?thesis
      by (auto simp: split_module_def Let_def split: if_splits option.splits sum.splits)
  next
    case (Some name)
    with ok obtain i where at: "starts_with ''@'' s" "find_sub ''//'' s = Some i"
      and name: "name = drop 1 (take i s)" "rest = drop (i + 2) s"
      and valid: "validate_module_name name = Inr ()"
      by (auto simp: split_module_def Let_def split: if_splits option.splits sum.splits)
    from at(2) obtain a b where s: "s = a @ ''//'' @ b" "length a = i"
      by (blast dest: find_sub_SomeD)
    with at(1) obtain a' where "a = CHR ''@'' # a'"
      by (cases a) (auto simp: starts_with_def split: if_splits)
    with s name have "s = ''@'' @ name @ ''//'' @ rest" by auto
    with Some valid show ?thesis by simp
  qed
qed

lemma split_module_last: "split_module s = Inr (m, rest) \<Longrightarrow> last_segment rest = last_segment s"
proof -
  assume "split_module s = Inr (m, rest)"
  from split_module_rest [OF this] show ?thesis
    using last_segment_append [of "''@'' @ n @ ''/''" rest for n]
    by (cases m) simp_all
qed

definition valid_segments :: "string list \<Rightarrow> bool" where
  "valid_segments ws \<longleftrightarrow> list_all (\<lambda>w. validate_path_segment w = Inr ()) ws"

lemma check_segments_valid:
  "check_segments False d segs = Inr () \<longleftrightarrow> valid_segments segs"
  by (induction segs) (auto simp: valid_segments_def split: sum.splits)

lemma check_segments_split:
  "check_segments True d segs = Inr () \<Longrightarrow>
   \<exists>rel names. segs = rel @ names \<and> set rel \<subseteq> {''.'', ''..''} \<and>
     count_list rel ''.'' \<le> (if d then 0 else 1) \<and> valid_segments names"
proof (induction segs arbitrary: d)
  case (Cons seg segs)
  consider (dot) "seg = ''.''" | (up) "seg = ''..''" | (name) "seg \<noteq> ''.''" "seg \<noteq> ''..''"
    by blast
  then show ?case
  proof cases
    case dot
    with Cons.prems have "\<not> d" "check_segments True True segs = Inr ()"
      by (auto split: if_splits)
    with Cons.IH obtain rel names where "segs = rel @ names" "set rel \<subseteq> {''.'', ''..''}"
      "count_list rel ''.'' \<le> (if True then 0 else 1)" "valid_segments names" by blast
    with dot \<open>\<not> d\<close> show ?thesis
      by (intro exI [of _ "''.'' # rel"] exI [of _ names]) simp
  next
    case up
    with Cons.prems have "check_segments True d segs = Inr ()" by simp
    with Cons.IH obtain rel names where "segs = rel @ names" "set rel \<subseteq> {''.'', ''..''}"
      "count_list rel ''.'' \<le> (if d then 0 else 1)" "valid_segments names" by blast
    with up show ?thesis
      by (intro exI [of _ "''..'' # rel"] exI [of _ names]) simp
  next
    case name
    with Cons.prems have "valid_segments (seg # segs)"
      by (simp add: check_segments_valid split: sum.splits) (simp add: valid_segments_def)
    then show ?thesis by (intro exI [of _ "[]"] exI [of _ "seg # segs"]) simp
  qed
qed (simp add: valid_segments_def)

lemma valid_segment_name:
  "validate_path_segment w = Inr () \<Longrightarrow> w \<noteq> [] \<and> w \<noteq> ''.'' \<and> w \<noteq> ''..''"
  by (auto simp: validate_path_segment_def ends_with_iff split: if_splits)

definition clean_pieces :: "string list \<Rightarrow> path" where
  "clean_pieces ps = map name_component (filter (\<lambda>w. w \<noteq> [] \<and> w \<noteq> ''.'') ps)"

lemma clean_pieces_append: "clean_pieces (a @ b) = clean_pieces a @ clean_pieces b"
  by (simp add: clean_pieces_def)

lemma clean_pieces_names: "valid_segments names \<Longrightarrow> clean_pieces names = map NormalComp names"
  by (induction names)
    (auto simp: valid_segments_def clean_pieces_def name_component_def dest: valid_segment_name)

lemma clean_pieces_rel:
  "set rel \<subseteq> {''.'', ''..''} \<Longrightarrow> \<exists>k. clean_pieces rel = replicate k ParentDir"
proof (induction rel)
  case (Cons w rel)
  then obtain k where k: "clean_pieces rel = replicate k ParentDir" by auto
  from Cons.prems consider "w = ''.''" | "w = ''..''" by auto
  then show ?case
  proof cases
    case 1
    with k show ?thesis by (simp add: clean_pieces_def)
  next
    case 2
    with k have "clean_pieces (w # rel) = replicate (Suc k) ParentDir"
      by (simp add: clean_pieces_def name_component_def)
    then show ?thesis ..
  qed
qed (simp add: clean_pieces_def)

lemma normalize_loop_names:
  "normalize_loop acc (map NormalComp names) = acc @ map NormalComp names"
  by (induction names arbitrary: acc) simp_all

lemma normalize_loop_up:
  "normalize_loop (replicate n ParentDir) (replicate k ParentDir @ map NormalComp names) =
     replicate (n + k) ParentDir @ map NormalComp names"
proof (induction k arbitrary: n)
  case (Suc k)
  have "normalize_loop (replicate n ParentDir) (ParentDir # cs) =
      normalize_loop (replicate (Suc n) ParentDir) cs" for cs
    by (cases n) (simp_all add: replicate_append_same)
  with Suc.IH [of "Suc n"] show ?case by simp
qed (simp add: normalize_loop_names)

definition climbs :: "path \<Rightarrow> bool" where
  "climbs up \<longleftrightarrow> up = [CurDir] \<or> (\<exists>k. up = replicate (Suc k) ParentDir)"

lemma normalized_shape:
  assumes split: "split_on (CHR ''/'') s = rel @ names"
    and rel: "set rel \<subseteq> {''.'', ''..''}" and names: "valid_segments names" "names \<noteq> []"
  shows "\<exists>up. normalize_rel_path_lexically (path_components s) = up @ map NormalComp names \<and>
    (up = [] \<or> climbs up)"
proof -
  have hd: "hd (split_on (CHR ''/'') s) \<noteq> []"
    using split rel names by (cases rel; cases names) (auto simp: valid_segments_def dest: valid_segment_name)
  then have rooted: "\<not> starts_with ''/'' s"
    by (auto simp: hd_split_on starts_with_iff)
  obtain k where k: "clean_pieces rel = replicate k ParentDir" using clean_pieces_rel [OF rel] ..
  then have all: "clean_pieces (rel @ names) = replicate k ParentDir @ map NormalComp names"
    by (simp add: clean_pieces_append clean_pieces_names names)
  define cur where "cur \<longleftrightarrow> hd (rel @ names) = ''.''"
  have comps: "path_components s =
      (if cur then [CurDir] else []) @ replicate k ParentDir @ map NormalComp names"
  proof (cases cur)
    case True
    then have "clean_pieces (tl (rel @ names)) = clean_pieces (rel @ names)"
      using names by (cases "rel @ names") (auto simp: clean_pieces_def cur_def)
    then show ?thesis using True rooted split all
      by (simp add: path_components_def Let_def cur_def clean_pieces_def)
  next
    case False
    then show ?thesis using rooted split all
      by (simp add: path_components_def Let_def cur_def clean_pieces_def)
  qed
  have loop: "normalize_loop [] (path_components s) = replicate k ParentDir @ map NormalComp names"
    using normalize_loop_up [of 0 k names] by (simp add: comps)
  show ?thesis
  proof (cases k)
    case 0
    obtain w ws where "names = w # ws" using names by (cases names) auto
    with 0 have "normalize_rel_path_lexically (path_components s) =
        (if cur then [CurDir] else []) @ map NormalComp names"
      using loop comps by (simp add: normalize_rel_path_lexically_def path_push_def)
    then show ?thesis by (intro exI [of _ "if cur then [CurDir] else []"]) (simp add: climbs_def)
  next
    case (Suc n)
    then have "normalize_rel_path_lexically (path_components s) =
        replicate k ParentDir @ map NormalComp names"
      using loop by (simp add: normalize_rel_path_lexically_def)
    with Suc show ?thesis by (intro exI [of _ "replicate k ParentDir"]) (auto simp: climbs_def)
  qed
qed

primrec load_subpath :: "load_path \<Rightarrow> path" where
  "load_subpath (ModuleSpecifier m p) = p"
| "load_subpath (ModuleSubpath p) = p"
| "load_subpath (RelativePath p) = p"

lemma parse_load_path_rest:
  assumes "parse_load_path s = Inr lp"
  obtains m rest where "split_module s = Inr (m, rest)"
    and "ends_with ''.axl'' (last_segment s)"
    and "check_segments True False (split_on (CHR ''/'') rest) = Inr ()"
    and "lp = (let p = normalize_rel_path_lexically (path_components rest)
          in case m of
               Some name \<Rightarrow> ModuleSpecifier name p
             | None \<Rightarrow> if p \<noteq> [] \<and> (hd p = CurDir \<or> hd p = ParentDir)
                 then RelativePath p else ModuleSubpath p)"
  using assms by (auto simp: parse_load_path_def Let_def split: if_splits sum.splits prod.splits)

definition load_path_wf :: "load_path \<Rightarrow> bool" where
  "load_path_wf lp \<longleftrightarrow>
     (\<exists>up names. load_subpath lp = up @ map NormalComp names \<and> names \<noteq> [] \<and>
        valid_segments names \<and> ends_with ''.axl'' (last names) \<and>
        (case lp of
           ModuleSpecifier m _ \<Rightarrow> validate_module_name m = Inr () \<and> (up = [] \<or> climbs up)
         | ModuleSubpath _ \<Rightarrow> up = []
         | RelativePath _ \<Rightarrow> climbs up))"

lemma parse_load_path_wf:
  assumes ok: "parse_load_path s = Inr lp"
  shows "load_path_wf lp"
proof -
  obtain m rest where m: "split_module s = Inr (m, rest)"
    and axl: "ends_with ''.axl'' (last_segment s)"
    and segs: "check_segments True False (split_on (CHR ''/'') rest) = Inr ()"
    and lp: "lp = (let p = normalize_rel_path_lexically (path_components rest)
          in case m of
               Some name \<Rightarrow> ModuleSpecifier name p
             | None \<Rightarrow> if p \<noteq> [] \<and> (hd p = CurDir \<or> hd p = ParentDir)
                 then RelativePath p else ModuleSubpath p)"
    using parse_load_path_rest [OF ok] .
  obtain rel names where split: "split_on (CHR ''/'') rest = rel @ names"
    and rel: "set rel \<subseteq> {''.'', ''..''}" and names: "valid_segments names"
    using check_segments_split [OF segs] by blast
  have last: "ends_with ''.axl'' (last (rel @ names))"
    using axl split_module_last [OF m] split by (simp add: last_segment_def)
  have ne: "names \<noteq> []"
  proof
    assume "names = []"
    then have "rel \<noteq> []" using split by (metis append_Nil2 split_on_not_Nil)
    then have "last rel = ''.'' \<or> last rel = ''..''" using rel last_in_set [of rel] by blast
    with last \<open>names = []\<close> show False
      by (auto simp: ends_with_iff Cons_eq_append_conv append_eq_Cons_conv)
  qed
  obtain up where up: "normalize_rel_path_lexically (path_components rest) = up @ map NormalComp names"
    and climb: "up = [] \<or> climbs up"
    using normalized_shape [OF split rel names ne] by blast
  have heads: "hd (up @ map NormalComp names) = CurDir \<or> hd (up @ map NormalComp names) = ParentDir
      \<longleftrightarrow> up \<noteq> []"
    using climb ne by (cases names) (auto simp: climbs_def)
  show ?thesis
    unfolding load_path_wf_def
  proof (intro exI conjI)
    show "load_subpath lp = up @ map NormalComp names"
      by (simp add: lp up Let_def split: option.splits)
    show "names \<noteq> []" "valid_segments names" by fact+
    show "ends_with ''.axl'' (last names)" using last ne by simp
    show "case lp of
        ModuleSpecifier m _ \<Rightarrow> validate_module_name m = Inr () \<and> (up = [] \<or> climbs up)
      | ModuleSubpath _ \<Rightarrow> up = []
      | RelativePath _ \<Rightarrow> climbs up"
      using split_module_rest [OF m] climb heads ne
      by (auto simp: lp up Let_def split: option.splits)
  qed
qed

text \<open>Every accepted \<open>load()\<close> string is a well-formed load path: after at most one \<open>./\<close> or some
  \<open>../\<close> come only valid file names, the last one ends in \<open>.axl\<close>; a sub-path of a module has no
  such prefix, a relative path always has one, and a module named by the string has a valid
  module name.\<close>

theorem parsed_load_path_is_wf: "parse_load_path s = Inr lp \<Longrightarrow> load_path_wf lp"
  by (rule parse_load_path_wf)

lemma load_path_sample:
  "parse_load_path ''@tools//../lint/a.axl'' =
     Inr (ModuleSpecifier ''tools'' [ParentDir, NormalComp ''lint'', NormalComp ''a.axl''])"
  by code_simp

theorem parsed_load_path_is_wf_witness:
  "load_path_wf (ModuleSpecifier ''tools'' [ParentDir, NormalComp ''lint'', NormalComp ''a.axl''])"
  by (rule parsed_load_path_is_wf [OF load_path_sample])

text \<open>A sub-path of a module never leaves it; a relative path may try to, and then
  \<open>join_confined\<close> is what refuses.\<close>

lemma module_subpath_joins:
  assumes "load_path_wf (ModuleSubpath p)"
  shows "join_confined base p = Inr (base @ p)"
proof -
  obtain names where p: "p = map NormalComp names"
    using assms by (auto simp: load_path_wf_def)
  have "confine_loop base sub dest (map NormalComp names) = Inr (dest @ map NormalComp names)"
    for sub dest
    by (induction names arbitrary: dest) simp_all
  then show ?thesis by (simp add: join_confined_def p)
qed

end
