(* ===== verification/Module_Loader.thy ===== *)
theory Module_Loader
  imports Load_Path
begin

text \<open>
  The loader of \<open>.axl\<close> files (crates/axl-runtime/src/eval/load.rs): what a \<open>load()\<close> resolves to, the
  cache that doubles as the cycle detector, and the two stacks that give the caller's scope.

  The Starlark evaluator is not under src/. A file's evaluation is the argument
  \<open>interp\<close> of the environment, as a tree: it ends with a frozen module or an error, or asks the
  loader for a string and goes on with the module it is given. A failed load ends the
  evaluation, as a load statement's error does in Starlark. Files are read through the arguments
  \<open>read_file\<close> and \<open>is_file\<close>; \<open>embedded\<close> holds the directories built into the binary.
\<close>

datatype 'm run = Finished 'm | Failed string | LoadStmt string "'m \<Rightarrow> 'm run"

record mod_scope =
  mod_name :: string
  mod_root :: path

record 'm axl_env =
  modules :: "mod_scope list"
  read_file :: "path \<Rightarrow> string + string"
  is_file :: "path \<Rightarrow> bool"
  embedded :: "string \<Rightarrow> string \<Rightarrow> string option"
  interp :: "path \<Rightarrow> string \<Rightarrow> bool \<Rightarrow> 'm run"

datatype 'm load_state = Loading | Loaded 'm

record 'm axl_loader =
  load_stack :: "path list"
  module_stack :: "mod_scope list"
  loaded_modules :: "path \<Rightarrow> 'm load_state option"

datatype load_error =
    BadLoadPath load_path_error
  | NotAbsolute path
  | CycleDetected "path list" path
  | ReadError path string
  | EvalFailed string
  | ModuleNotDeclared string
  | NoSuchBuiltin string string
  | NotInModule path string
  | NoModuleOnStack
  | NoScriptOnStack
  | ParentNotInModule path path
  | Confined confine_error

type_synonym 'm loaded = "((load_error + 'm) \<times> 'm axl_loader) option"

definition new_loader :: "'m axl_loader" where
  "new_loader = \<lparr>load_stack = [], module_stack = [], loaded_modules = (\<lambda>_. None)\<rparr>"

section \<open>Embedded files\<close>

definition proto_shims :: "(string \<times> string) list" where
  "proto_shims =
     [(''v2'', ''v2 = _proto.v2'' @ [CHR 0x0A]),
      (''bytestream'', ''bytestream = _proto.bytestream'' @ [CHR 0x0A]),
      (''longrunning'', ''longrunning = _proto.longrunning'' @ [CHR 0x0A]),
      (''rpc'', ''rpc = _proto.rpc'' @ [CHR 0x0A]),
      (''semver'', ''semver = _proto.semver'' @ [CHR 0x0A]),
      (''remote_logging'', ''remote_logging = _proto.remote_logging'' @ [CHR 0x0A])]"

definition file_stem :: "string \<Rightarrow> string option" where
  "file_stem s =
     (case rev (path_components s) of
        NormalComp w # _ \<Rightarrow>
          (let pieces = split_on (CHR ''.'') w; before = join ''.'' (butlast pieces)
           in Some (if length pieces = 1 \<or> before = [] then w else before))
      | _ \<Rightarrow> None)"

definition builtins_get :: "'m axl_env \<Rightarrow> string \<Rightarrow> string \<Rightarrow> string option" where
  "builtins_get env module filename =
     (let proto = module = ''bazel'' \<and> starts_with ''proto/'' filename \<and> ends_with ''.axl'' filename;
          from_dir = (if module = ''std'' \<or> module = ''bazel'' then embedded env module filename
                      else None)
      in if proto then
           (case file_stem filename of
              None \<Rightarrow> None
            | Some base \<Rightarrow>
                (case map_of proto_shims base of Some content \<Rightarrow> Some content | None \<Rightarrow> from_dir))
         else from_dir)"

section \<open>Resolving a load\<close>

definition lookup_module :: "'m axl_env \<Rightarrow> string \<Rightarrow> load_error + mod_scope" where
  "lookup_module env name =
     (case find (\<lambda>m. mod_name m = name) (modules env) of
        Some m \<Rightarrow> Inr m
      | None \<Rightarrow> Inl (ModuleNotDeclared name))"

definition current_module :: "'m axl_loader \<Rightarrow> load_error + mod_scope" where
  "current_module s =
     (if module_stack s = [] then Inl NoModuleOnStack else Inr (last (module_stack s)))"

definition current_script :: "'m axl_loader \<Rightarrow> load_error + path" where
  "current_script s = (if load_stack s = [] then Inl NoScriptOnStack else Inr (last (load_stack s)))"

definition confined :: "confine_error + path \<Rightarrow> load_error + path" where
  "confined r = (case r of Inl e \<Rightarrow> Inl (Confined e) | Inr p \<Rightarrow> Inr p)"

datatype load_target = StdTarget string | ModTarget mod_scope

definition std_path :: "string \<Rightarrow> string \<Rightarrow> path" where
  "std_path module filename = path_components (''/@'' @ module @ ''/'' @ filename)"

definition resolve_load ::
  "'m axl_env \<Rightarrow> load_path \<Rightarrow> 'm axl_loader \<Rightarrow> load_error + (path \<times> load_target)" where
  "resolve_load env lp s =
     (case lp of
        ModuleSpecifier module subpath \<Rightarrow>
          if module = ''std'' \<or> module = ''bazel'' then
            (let filename = path_text subpath
             in case builtins_get env module filename of
                  None \<Rightarrow> Inl (NoSuchBuiltin filename module)
                | Some content \<Rightarrow> Inr (std_path module filename, StdTarget content))
          else
            (case lookup_module env module of
               Inl e \<Rightarrow> Inl e
             | Inr dep \<Rightarrow>
                 (case confined (join_confined (mod_root dep) subpath) of
                    Inl e \<Rightarrow> Inl e
                  | Inr p \<Rightarrow>
                      if is_file env p then Inr (p, ModTarget dep)
                      else Inl (NotInModule subpath module)))
      | ModuleSubpath subpath \<Rightarrow>
          (case current_module s of
             Inl e \<Rightarrow> Inl e
           | Inr scope \<Rightarrow>
               (case confined (join_confined (mod_root scope) subpath) of
                  Inl e \<Rightarrow> Inl e
                | Inr p \<Rightarrow> Inr (p, ModTarget scope)))
      | RelativePath relpath \<Rightarrow>
          (case current_module s of
             Inl e \<Rightarrow> Inl e
           | Inr scope \<Rightarrow>
               (case current_script s of
                  Inl e \<Rightarrow> Inl e
                | Inr parent_script \<Rightarrow>
                    (case strip_components (mod_root scope) parent_script of
                       None \<Rightarrow> Inl (ParentNotInModule parent_script (mod_root scope))
                     | Some parent_in_module \<Rightarrow>
                         (case confined (join_confined (mod_root scope)
                              (case path_parent parent_in_module of
                                 Some parent_dir \<Rightarrow> path_push parent_dir relpath
                               | None \<Rightarrow> relpath)) of
                            Inl e \<Rightarrow> Inl e
                          | Inr p \<Rightarrow> Inr (p, ModTarget scope))))))"

section \<open>Evaluating\<close>

primrec drive :: "(string \<Rightarrow> 'm axl_loader \<Rightarrow> 'm loaded) \<Rightarrow> 'm run \<Rightarrow> 'm axl_loader \<Rightarrow> 'm loaded" where
  "drive ld (Finished m) s = Some (Inr m, s)"
| "drive ld (Failed e) s = Some (Inl (EvalFailed e), s)"
| "drive ld (LoadStmt raw k) s =
     (case ld raw s of
        None \<Rightarrow> None
      | Some (Inl e, s') \<Rightarrow> Some (Inl e, s')
      | Some (Inr m, s') \<Rightarrow> drive ld (k m) s')"

definition source_text :: "'m axl_env \<Rightarrow> path \<Rightarrow> string option \<Rightarrow> load_error + string" where
  "source_text env p content =
     (case content of
        Some raw \<Rightarrow> Inr raw
      | None \<Rightarrow> (case read_file env p of Inl e \<Rightarrow> Inl (ReadError p e) | Inr raw \<Rightarrow> Inr raw))"

definition eval_module_inner ::
  "'m axl_env \<Rightarrow> (string \<Rightarrow> 'm axl_loader \<Rightarrow> 'm loaded) \<Rightarrow> path \<Rightarrow> string option \<Rightarrow> bool \<Rightarrow>
   'm axl_loader \<Rightarrow> 'm loaded" where
  "eval_module_inner env ld p content is_std s =
     (case source_text env p content of
        Inl e \<Rightarrow> Some (Inl e, s)
      | Inr raw \<Rightarrow> drive ld (interp env p raw is_std) s)"

definition eval_module_with ::
  "(path \<Rightarrow> string option \<Rightarrow> bool \<Rightarrow> 'm axl_loader \<Rightarrow> 'm loaded) \<Rightarrow> mod_scope \<Rightarrow> path \<Rightarrow>
   'm axl_loader \<Rightarrow> 'm loaded" where
  "eval_module_with ev scope p s =
     (case ev p None False (s\<lparr>module_stack := module_stack s @ [scope]\<rparr>) of
        None \<Rightarrow> None
      | Some (r, s') \<Rightarrow> Some (r, s'\<lparr>module_stack := butlast (module_stack s')\<rparr>))"

definition load_with ::
  "'m axl_env \<Rightarrow> (path \<Rightarrow> string option \<Rightarrow> bool \<Rightarrow> 'm axl_loader \<Rightarrow> 'm loaded) \<Rightarrow> string \<Rightarrow>
   'm axl_loader \<Rightarrow> 'm loaded" where
  "load_with env ev raw s =
     (case parse_load_path raw of
        Inl e \<Rightarrow> Some (Inl (BadLoadPath e), s)
      | Inr lp \<Rightarrow>
          (case resolve_load env lp s of
             Inl e \<Rightarrow> Some (Inl e, s)
           | Inr (p, StdTarget content) \<Rightarrow> ev p (Some content) True s
           | Inr (p, ModTarget scope) \<Rightarrow> eval_module_with ev scope p s))"

definition enter_load :: "path \<Rightarrow> 'm axl_loader \<Rightarrow> 'm axl_loader" where
  "enter_load p s =
     s\<lparr>loaded_modules := (loaded_modules s)(p \<mapsto> Loading), load_stack := load_stack s @ [p]\<rparr>"

definition leave_load :: "path \<Rightarrow> load_error + 'm \<Rightarrow> 'm axl_loader \<Rightarrow> 'm axl_loader" where
  "leave_load p result s =
     s\<lparr>load_stack := butlast (load_stack s),
       loaded_modules := (loaded_modules s)
         (p := (case result of Inr m \<Rightarrow> Some (Loaded m) | Inl e \<Rightarrow> None))\<rparr>"

primrec eval_module_impl ::
  "nat \<Rightarrow> 'm axl_env \<Rightarrow> path \<Rightarrow> string option \<Rightarrow> bool \<Rightarrow> 'm axl_loader \<Rightarrow> 'm loaded" where
  "eval_module_impl 0 env p content is_std s = None"
| "eval_module_impl (Suc fuel) env p content is_std s =
     (if p = [] \<or> hd p \<noteq> RootDir then Some (Inl (NotAbsolute p), s)
      else case loaded_modules s p of
        Some (Loaded m) \<Rightarrow> Some (Inr m, s)
      | Some Loading \<Rightarrow> Some (Inl (CycleDetected (load_stack s) p), s)
      | None \<Rightarrow>
          (case eval_module_inner env (load_with env (eval_module_impl fuel env)) p content is_std
              (enter_load p s) of
             None \<Rightarrow> None
           | Some (result, s') \<Rightarrow> Some (result, leave_load p result s')))"

definition eval_module ::
  "nat \<Rightarrow> 'm axl_env \<Rightarrow> mod_scope \<Rightarrow> path \<Rightarrow> 'm axl_loader \<Rightarrow> 'm loaded" where
  "eval_module fuel env = eval_module_with (eval_module_impl fuel env)"

definition load :: "nat \<Rightarrow> 'm axl_env \<Rightarrow> string \<Rightarrow> 'm axl_loader \<Rightarrow> 'm loaded" where
  "load fuel env = load_with env (eval_module_impl fuel env)"

section \<open>The loader as a big-step relation\<close>

text \<open>
  The same evaluation without fuel: \<open>evals\<close> is a call of \<open>eval_module_impl\<close> that returns, \<open>runs\<close> a
  file's evaluation and \<open>loads\<close> one \<open>load()\<close>. The state properties below are rule inductions over
  it.
\<close>

definition push_scope :: "mod_scope \<Rightarrow> 'm axl_loader \<Rightarrow> 'm axl_loader" where
  "push_scope sc s = s\<lparr>module_stack := module_stack s @ [sc]\<rparr>"

definition pop_scope :: "'m axl_loader \<Rightarrow> 'm axl_loader" where
  "pop_scope s = s\<lparr>module_stack := butlast (module_stack s)\<rparr>"

definition is_absolute :: "path \<Rightarrow> bool" where
  "is_absolute p \<longleftrightarrow> p \<noteq> [] \<and> hd p = RootDir"

inductive evals ::
    "'m axl_env \<Rightarrow> path \<Rightarrow> string option \<Rightarrow> bool \<Rightarrow> 'm axl_loader \<Rightarrow> load_error + 'm \<Rightarrow>
     'm axl_loader \<Rightarrow> bool"
  and runs ::
    "'m axl_env \<Rightarrow> 'm run \<Rightarrow> 'm axl_loader \<Rightarrow> load_error + 'm \<Rightarrow> 'm axl_loader \<Rightarrow> bool"
  and loads ::
    "'m axl_env \<Rightarrow> string \<Rightarrow> 'm axl_loader \<Rightarrow> load_error + 'm \<Rightarrow> 'm axl_loader \<Rightarrow> bool"
  for env :: "'m axl_env"
where
  evals_relative: "\<not> is_absolute p \<Longrightarrow> evals env p c b s (Inl (NotAbsolute p)) s"
| evals_cached: "\<lbrakk>is_absolute p; loaded_modules s p = Some (Loaded m)\<rbrakk> \<Longrightarrow>
    evals env p c b s (Inr m) s"
| evals_cycle: "\<lbrakk>is_absolute p; loaded_modules s p = Some Loading\<rbrakk> \<Longrightarrow>
    evals env p c b s (Inl (CycleDetected (load_stack s) p)) s"
| evals_unreadable: "\<lbrakk>is_absolute p; loaded_modules s p = None; source_text env p c = Inl e\<rbrakk> \<Longrightarrow>
    evals env p c b s (Inl e) (leave_load p (Inl e) (enter_load p s))"
| evals_run: "\<lbrakk>is_absolute p; loaded_modules s p = None; source_text env p c = Inr raw;
     runs env (interp env p raw b) (enter_load p s) r s'\<rbrakk> \<Longrightarrow>
    evals env p c b s r (leave_load p r s')"
| runs_finished: "runs env (Finished m) s (Inr m) s"
| runs_failed: "runs env (Failed e) s (Inl (EvalFailed e)) s"
| runs_load_error: "loads env raw s (Inl e) s' \<Longrightarrow> runs env (LoadStmt raw k) s (Inl e) s'"
| runs_load: "\<lbrakk>loads env raw s (Inr m) s'; runs env (k m) s' r s''\<rbrakk> \<Longrightarrow>
    runs env (LoadStmt raw k) s r s''"
| loads_bad: "parse_load_path raw = Inl e \<Longrightarrow> loads env raw s (Inl (BadLoadPath e)) s"
| loads_unresolved: "\<lbrakk>parse_load_path raw = Inr lp; resolve_load env lp s = Inl e\<rbrakk> \<Longrightarrow>
    loads env raw s (Inl e) s"
| loads_std: "\<lbrakk>parse_load_path raw = Inr lp; resolve_load env lp s = Inr (p, StdTarget c);
     evals env p (Some c) True s r s'\<rbrakk> \<Longrightarrow>
    loads env raw s r s'"
| loads_module: "\<lbrakk>parse_load_path raw = Inr lp; resolve_load env lp s = Inr (p, ModTarget sc);
     evals env p None False (push_scope sc s) r s'\<rbrakk> \<Longrightarrow>
    loads env raw s r (pop_scope s')"

lemma eval_module_with_eq:
  "eval_module_with ev sc p s =
     map_option (map_prod id pop_scope) (ev p None False (push_scope sc s))"
  by (simp add: eval_module_with_def push_scope_def pop_scope_def split: option.splits)

lemma load_with_sound:
  assumes ev: "\<And>p c b s r s'. ev p c b s = Some (r, s') \<Longrightarrow> evals env p c b s r s'"
    and ld: "load_with env ev raw s = Some (r, s')"
  shows "loads env raw s r s'"
proof (cases "parse_load_path raw")
  case (Inl e)
  with ld show ?thesis by (auto simp: load_with_def intro: loads_bad)
next
  case (Inr lp)
  show ?thesis
  proof (cases "resolve_load env lp s")
    case (Inl e)
    with Inr ld show ?thesis by (auto simp: load_with_def intro: loads_unresolved)
  next
    case res: (Inr target)
    obtain p t where t: "target = (p, t)" by (cases target)
    show ?thesis
    proof (cases t)
      case (StdTarget c)
      with Inr res t ld show ?thesis by (auto simp: load_with_def intro: loads_std ev)
    next
      case (ModTarget sc)
      with Inr res t ld obtain s1 where "ev p None False (push_scope sc s) = Some (r, s1)"
        "s' = pop_scope s1"
        by (auto simp: load_with_def eval_module_with_eq)
      with Inr res t ModTarget show ?thesis by (auto intro: loads_module ev)
    qed
  qed
qed

lemma drive_sound:
  assumes ld: "\<And>raw s r s'. ld raw s = Some (r, s') \<Longrightarrow> loads env raw s r s'"
  shows "drive ld t s = Some (r, s') \<Longrightarrow> runs env t s r s'"
  by (induction t arbitrary: s)
    (auto split: option.splits sum.splits prod.splits
      intro: runs_finished runs_failed runs_load_error runs_load dest: ld)

lemma eval_module_impl_sound:
  "eval_module_impl fuel env p c b s = Some (r, s') \<Longrightarrow> evals env p c b s r s'"
proof (induction fuel arbitrary: p c b s r s')
  case (Suc fuel)
  show ?case
  proof (cases "is_absolute p \<and> loaded_modules s p = None")
    case False
    with Suc.prems show ?thesis
      by (auto simp: is_absolute_def split: option.splits load_state.splits if_splits
          intro: evals_relative evals_cached evals_cycle)
  next
    case True
    then obtain s1 where inner: "eval_module_inner env (load_with env (eval_module_impl fuel env)) p c b
        (enter_load p s) = Some (r, s1)" and s': "s' = leave_load p r s1"
      using Suc.prems by (auto simp: is_absolute_def split: option.splits)
    show ?thesis
    proof (cases "source_text env p c")
      case (Inl e)
      with inner s' True show ?thesis by (auto simp: eval_module_inner_def intro: evals_unreadable)
    next
      case (Inr raw)
      with inner have "drive (load_with env (eval_module_impl fuel env)) (interp env p raw b)
          (enter_load p s) = Some (r, s1)"
        by (simp add: eval_module_inner_def)
      then have "runs env (interp env p raw b) (enter_load p s) r s1"
        by (rule drive_sound [rotated]) (rule load_with_sound [OF Suc.IH])
      with True Inr show ?thesis unfolding s' by (intro evals_run) auto
    qed
  qed
qed simp

lemma load_sound: "load fuel env raw s = Some (r, s') \<Longrightarrow> loads env raw s r s'"
  unfolding load_def by (rule load_with_sound [OF eval_module_impl_sound])

lemma eval_module_sound:
  assumes "eval_module fuel env sc p s = Some (r, s')"
  shows "\<exists>s1. evals env p None False (push_scope sc s) r s1 \<and> s' = pop_scope s1"
  using assms by (auto simp: eval_module_def eval_module_with_eq intro: eval_module_impl_sound)

section \<open>What every evaluation keeps\<close>

definition keeps :: "'m axl_loader \<Rightarrow> 'm axl_loader \<Rightarrow> bool" where
  "keeps s s' \<longleftrightarrow> load_stack s' = load_stack s \<and> module_stack s' = module_stack s \<and>
     (\<forall>q. loaded_modules s q \<noteq> None \<longrightarrow> loaded_modules s' q = loaded_modules s q) \<and>
     (\<forall>q. loaded_modules s' q = Some Loading \<longleftrightarrow> loaded_modules s q = Some Loading)"

lemma keeps_refl [simp]: "keeps s s"
  by (simp add: keeps_def)

lemma keeps_trans: "keeps s t \<Longrightarrow> keeps t u \<Longrightarrow> keeps s u"
  by (simp add: keeps_def)

lemma keeps_leave:
  "loaded_modules s p = None \<Longrightarrow> keeps (enter_load p s) s' \<Longrightarrow> keeps s (leave_load p r s')"
  by (auto simp: keeps_def enter_load_def leave_load_def split: sum.splits if_splits)

lemma keeps_scope: "keeps (push_scope sc s) s' \<Longrightarrow> keeps s (pop_scope s')"
  by (simp add: keeps_def push_scope_def pop_scope_def)

lemma leave_load_cache [simp]: "loaded_modules (leave_load p (Inr m) s) p = Some (Loaded m)"
  by (simp add: leave_load_def)

lemma keeps_induct:
  shows "evals env p c b s r s' \<Longrightarrow>
      keeps s s' \<and> (\<forall>m. r = Inr m \<longrightarrow> loaded_modules s' p = Some (Loaded m))"
    and "runs env t s r s' \<Longrightarrow> keeps s s'"
    and "loads env raw s r s' \<Longrightarrow> keeps s s'"
  by (induction rule: evals_runs_loads.inducts)
    (auto intro: keeps_trans keeps_leave keeps_scope)

lemmas evals_keeps = keeps_induct(1) [THEN conjunct1]
lemmas runs_keeps = keeps_induct(2)
lemmas loads_keeps = keeps_induct(3)

lemma eval_module_keeps:
  assumes "eval_module fuel env sc p s = Some (r, s')"
  shows "keeps s s' \<and> (\<forall>m. r = Inr m \<longrightarrow> loaded_modules s' p = Some (Loaded m))"
proof -
  obtain s1 where ev: "evals env p None False (push_scope sc s) r s1" and s': "s' = pop_scope s1"
    using eval_module_sound [OF assms] by blast
  from keeps_induct(1) [OF ev] show ?thesis
    unfolding s' by (auto intro: keeps_scope) (simp add: pop_scope_def)
qed

text \<open>C35. Evaluating a module leaves both stacks of the loader as they were, whether it succeeds
  or fails, keeps every cached module, leaves no file marked as loading, and on success has
  the module in the cache: one failed load does not poison the loader.\<close>

theorem eval_module_restores_loader:
  assumes "eval_module fuel env sc p s = Some (r, s')"
  shows "load_stack s' = load_stack s \<and> module_stack s' = module_stack s \<and>
    (\<forall>q m. loaded_modules s q = Some (Loaded m) \<longrightarrow> loaded_modules s' q = Some (Loaded m)) \<and>
    (\<forall>q. loaded_modules s' q = Some Loading \<longleftrightarrow> loaded_modules s q = Some Loading) \<and>
    (\<forall>m. r = Inr m \<longrightarrow> loaded_modules s' p = Some (Loaded m))"
  using eval_module_keeps [OF assms] by (simp add: keeps_def)

section \<open>Cycles\<close>

definition loader_wf :: "'m axl_loader \<Rightarrow> bool" where
  "loader_wf s \<longleftrightarrow> distinct (load_stack s) \<and>
     (\<forall>q. loaded_modules s q = Some Loading \<longleftrightarrow> q \<in> set (load_stack s))"

lemma new_loader_wf [simp]: "loader_wf new_loader"
  by (simp add: loader_wf_def new_loader_def)

lemma enter_load_wf: "loader_wf s \<Longrightarrow> loaded_modules s p = None \<Longrightarrow> loader_wf (enter_load p s)"
  by (auto simp: loader_wf_def enter_load_def) (metis option.distinct(1))

lemma keeps_wf: "loader_wf s \<Longrightarrow> keeps s s' \<Longrightarrow> loader_wf s'"
  by (simp add: loader_wf_def keeps_def)

lemma push_scope_wf [simp]: "loader_wf (push_scope sc s) = loader_wf s"
  by (simp add: loader_wf_def push_scope_def)

lemma source_text_error: "source_text env p c = Inl e \<Longrightarrow> \<exists>msg. e = ReadError p msg"
  by (auto simp: source_text_def split: option.splits sum.splits)

lemma resolve_load_error:
  "resolve_load env lp s = Inl e \<Longrightarrow> e \<noteq> CycleDetected tr t \<and> e \<noteq> NotAbsolute p"
  by (auto simp: resolve_load_def lookup_module_def current_module_def current_script_def
      confined_def Let_def split: load_path.splits option.splits sum.splits if_splits)

definition real_cycle :: "path list \<Rightarrow> load_error + 'm \<Rightarrow> bool" where
  "real_cycle stack r \<longleftrightarrow>
     (\<forall>tr t. r = Inl (CycleDetected tr t) \<longrightarrow> prefix stack tr \<and> distinct tr \<and> t \<in> set tr)"

lemma real_cycle_induct:
  shows "evals env p c b s r s' \<Longrightarrow> loader_wf s \<Longrightarrow> real_cycle (load_stack s) r"
    and "runs env t s r s' \<Longrightarrow> loader_wf s \<Longrightarrow> real_cycle (load_stack s) r"
    and "loads env raw s r s' \<Longrightarrow> loader_wf s \<Longrightarrow> real_cycle (load_stack s) r"
proof (induction rule: evals_runs_loads.inducts)
  case (evals_cycle p s c b)
  then show ?case by (simp add: real_cycle_def loader_wf_def)
next
  case (evals_unreadable p s c e b)
  then show ?case by (auto simp: real_cycle_def dest: source_text_error)
next
  case (evals_run p s c raw b r s')
  then have "real_cycle (load_stack (enter_load p s)) r" by (simp add: enter_load_wf)
  then show ?case by (auto simp: real_cycle_def enter_load_def dest: append_prefixD)
next
  case (runs_load raw s m s' k r s'')
  then have "keeps s s'" by (blast dest: loads_keeps)
  with runs_load keeps_wf show ?case by (fastforce simp: keeps_def)
next
  case (loads_unresolved raw lp s e)
  then show ?case by (auto simp: real_cycle_def dest: resolve_load_error)
next
  case (loads_module raw lp s p sc r s')
  then show ?case by (simp add: push_scope_def loader_wf_def)
qed (auto simp: real_cycle_def)


section \<open>Enough fuel\<close>

text \<open>
  \<open>loadable\<close> are the paths whose evaluation can load something: the files that can be read and the
  embedded ones. Each nested evaluation enters one that is not in the cache. The proto shims
  exist under infinitely many paths (only the last component counts), but their text, one
  assignment each, has no load statement; that is \<open>shims_load_nothing\<close>.
\<close>

definition loadable :: "'m axl_env \<Rightarrow> path set" where
  "loadable env = {p. \<exists>raw. read_file env p = Inr raw} \<union>
     {std_path m f | m f. embedded env m f \<noteq> None}"

definition no_load :: "'m run \<Rightarrow> bool" where
  "no_load t = (case t of LoadStmt raw k \<Rightarrow> False | _ \<Rightarrow> True)"

definition shims_load_nothing :: "'m axl_env \<Rightarrow> bool" where
  "shims_load_nothing env \<longleftrightarrow>
     (\<forall>p. \<forall>shim \<in> set proto_shims. no_load (interp env p (snd shim) True))"

definition may_enter :: "'m axl_env \<Rightarrow> path \<Rightarrow> string option \<Rightarrow> bool \<Rightarrow> bool" where
  "may_enter env p c b \<longleftrightarrow>
     (case c of None \<Rightarrow> True | Some raw \<Rightarrow> p \<in> loadable env \<or> no_load (interp env p raw b))"

lemma drive_no_load: "no_load t \<Longrightarrow> \<exists>r. drive ld t s = Some (r, s)"
  by (cases t) (simp_all add: no_load_def)

definition unvisited_files :: "'m axl_env \<Rightarrow> 'm axl_loader \<Rightarrow> nat" where
  "unvisited_files env s = card (loadable env - {p. loaded_modules s p \<noteq> None})"

lemma drive_total:
  assumes ld: "\<And>raw s. P s \<Longrightarrow> \<exists>r s'. ld raw s = Some (r, s') \<and> P s'"
  shows "P s \<Longrightarrow> \<exists>r s'. drive ld t s = Some (r, s')"
proof (induction t arbitrary: s)
  case (LoadStmt raw k)
  from ld [OF LoadStmt.prems] obtain r s' where r: "ld raw s = Some (r, s')" "P s'" by blast
  show ?case
  proof (cases r)
    case (Inr m)
    with r LoadStmt.IH [OF rangeI, of s' m] show ?thesis by simp
  qed (use r in simp)
qed auto

lemma unvisited_files_keeps:
  "finite (loadable env) \<Longrightarrow> keeps s s' \<Longrightarrow> unvisited_files env s' \<le> unvisited_files env s"
  unfolding unvisited_files_def by (rule card_mono) (auto simp: keeps_def)

lemma unvisited_files_enter:
  assumes "finite (loadable env)" and "p \<in> loadable env" and "loaded_modules s p = None"
  shows "unvisited_files env (enter_load p s) < unvisited_files env s"
proof -
  have "loadable env - {q. loaded_modules (enter_load p s) q \<noteq> None} \<subset>
      loadable env - {q. loaded_modules s q \<noteq> None}"
    using assms by (auto simp: enter_load_def)
  then show ?thesis using assms(1) by (simp add: unvisited_files_def psubset_card_mono)
qed

lemma unvisited_files_push [simp]: "unvisited_files env (push_scope sc s) = unvisited_files env s"
  by (simp add: unvisited_files_def push_scope_def)

lemma builtins_get_cases:
  assumes "builtins_get env m f = Some c"
  shows "embedded env m f \<noteq> None \<or> c \<in> snd ` set proto_shims"
proof (cases "map_of proto_shims (the (file_stem f)) = Some c")
  case True
  then have "c \<in> snd ` set proto_shims" by (force dest: map_of_SomeD)
  then show ?thesis ..
next
  case False
  with assms show ?thesis by (auto simp: builtins_get_def Let_def split: if_splits option.splits)
qed

lemma resolve_load_std:
  assumes "resolve_load env lp s = Inr (p, StdTarget c)" and "shims_load_nothing env"
  shows "may_enter env p (Some c) True"
proof -
  obtain m f where "builtins_get env m f = Some c" "p = std_path m f"
    using assms(1)
    by (auto simp: resolve_load_def Let_def split: load_path.splits option.splits sum.splits if_splits)
  with builtins_get_cases [of env m f c] assms(2) show ?thesis
    by (auto simp: may_enter_def loadable_def shims_load_nothing_def)
qed

lemma load_with_total:
  assumes ev: "\<And>p c b s. may_enter env p c b \<Longrightarrow> unvisited_files env s < n \<Longrightarrow>
      \<exists>r s'. ev p c b s = Some (r, s')"
    and shims: "shims_load_nothing env" and n: "unvisited_files env s < n"
  shows "\<exists>r s'. load_with env ev raw s = Some (r, s')"
proof (cases "parse_load_path raw")
  case (Inr lp)
  show ?thesis
  proof (cases "resolve_load env lp s")
    case res: (Inr target)
    obtain p t where t: "target = (p, t)" by (cases target)
    show ?thesis
    proof (cases t)
      case (StdTarget c)
      with res t have "may_enter env p (Some c) True" by (blast intro: resolve_load_std shims)
      with ev [of p "Some c" True s] n Inr res t StdTarget show ?thesis
        by (simp add: load_with_def)
    next
      case (ModTarget sc)
      from ev [of p None False "push_scope sc s"] n
      obtain r s1 where "ev p None False (push_scope sc s) = Some (r, s1)"
        by (auto simp: may_enter_def)
      with Inr res t ModTarget show ?thesis by (simp add: load_with_def eval_module_with_eq)
    qed
  qed (simp add: load_with_def Inr)
qed (simp add: load_with_def)

lemma eval_module_impl_total:
  assumes fin: "finite (loadable env)" and shims: "shims_load_nothing env"
  shows "may_enter env p c b \<Longrightarrow> unvisited_files env s < fuel \<Longrightarrow>
    \<exists>r s'. eval_module_impl fuel env p c b s = Some (r, s')"
proof (induction fuel arbitrary: p c b s)
  case (Suc fuel)
  show ?case
  proof (cases "is_absolute p \<and> loaded_modules s p = None")
    case False
    then show ?thesis by (auto simp: is_absolute_def split: option.splits load_state.splits)
  next
    case True
    let ?ld = "load_with env (eval_module_impl fuel env)"
    have nested: "\<exists>r s'. ?ld raw s = Some (r, s') \<and> unvisited_files env s' < fuel"
      if small: "unvisited_files env s < fuel" for raw s
    proof -
      have "\<exists>r s'. ?ld raw s = Some (r, s')"
        by (rule load_with_total [OF _ shims small]) (rule Suc.IH)
      then obtain r s' where ld: "?ld raw s = Some (r, s')" by blast
      then have "keeps s s'"
        by (blast intro: loads_keeps load_with_sound eval_module_impl_sound)
      with ld small show ?thesis using unvisited_files_keeps [OF fin] by fastforce
    qed
    have "\<exists>r s'. drive ?ld (interp env p raw b) (enter_load p s) = Some (r, s')"
      if raw: "source_text env p c = Inr raw" for raw
    proof (cases "p \<in> loadable env")
      case True
      then have "unvisited_files env (enter_load p s) < fuel"
        using unvisited_files_enter [OF fin, of p s] \<open>is_absolute p \<and> loaded_modules s p = None\<close>
          Suc.prems by simp
      with nested show ?thesis
        by (rule drive_total [of "\<lambda>s. unvisited_files env s < fuel"])
    next
      case False
      then have "no_load (interp env p raw b)"
        using Suc.prems raw
        by (auto simp: may_enter_def source_text_def loadable_def split: option.splits sum.splits)
      then show ?thesis by (blast dest: drive_no_load)
    qed
    then have "\<exists>r s'. eval_module_inner env ?ld p c b (enter_load p s) = Some (r, s')"
      by (simp add: eval_module_inner_def split: sum.splits)
    with True show ?thesis by (auto simp: is_absolute_def)
  qed
qed simp

text \<open>C25. Loading always comes to an end, cycles of files included: a recursion as deep as the
  files that exist and are not cached yet, and one more, is enough for every module.\<close>

theorem eval_module_terminates:
  assumes "finite (loadable env)" and "shims_load_nothing env"
    and "unvisited_files env s < fuel"
  shows "\<exists>r s'. eval_module fuel env sc p s = Some (r, s')"
proof -
  from eval_module_impl_total [OF assms(1,2), of p None False "push_scope sc s" fuel] assms(3)
  obtain r s1 where "eval_module_impl fuel env p None False (push_scope sc s) = Some (r, s1)"
    by (auto simp: may_enter_def)
  then show ?thesis by (simp add: eval_module_def eval_module_with_eq)
qed

section \<open>Confinement\<close>

definition owned :: "mod_scope set \<Rightarrow> path set" where
  "owned S = {p. \<exists>sc \<in> S. \<exists>names. p = mod_root sc @ map NormalComp names}"

definition same_inside :: "mod_scope set \<Rightarrow> 'm axl_env \<Rightarrow> 'm axl_env \<Rightarrow> bool" where
  "same_inside S env env' \<longleftrightarrow>
     modules env' = modules env \<and> embedded env' = embedded env \<and> interp env' = interp env \<and>
     (\<forall>p \<in> owned S. read_file env' p = read_file env p \<and> is_file env' p = is_file env p)"

definition scoped :: "mod_scope set \<Rightarrow> 'm axl_loader \<Rightarrow> bool" where
  "scoped S s \<longleftrightarrow> set (module_stack s) \<subseteq> S"

lemma scoped_simps [simp]:
  "scoped S (enter_load p s) = scoped S s"
  "scoped S (push_scope sc s) \<longleftrightarrow> scoped S s \<and> sc \<in> S"
  by (auto simp: scoped_def enter_load_def push_scope_def)

lemma scoped_keeps: "scoped S s \<Longrightarrow> keeps s s' \<Longrightarrow> scoped S s'"
  by (simp add: scoped_def keeps_def)

lemma current_module_scoped: "current_module s = Inr sc \<Longrightarrow> scoped S s \<Longrightarrow> sc \<in> S"
  by (auto simp: current_module_def scoped_def split: if_splits dest: last_in_set)

lemma lookup_module_member: "lookup_module env n = Inr sc \<Longrightarrow> sc \<in> set (modules env)"
  by (auto simp: lookup_module_def find_Some_iff split: option.splits)

lemma confined_owned: "confined (join_confined (mod_root sc) sub) = Inr p \<Longrightarrow> sc \<in> S \<Longrightarrow> p \<in> owned S"
  using join_confined_Inr [of "mod_root sc" sub]
  by (auto simp: confined_def owned_def split: sum.splits)

lemma resolve_load_owned:
  assumes "resolve_load env lp s = Inr (p, ModTarget sc)"
    and "scoped S s" and "set (modules env) \<subseteq> S"
  shows "sc \<in> S \<and> p \<in> owned S"
  using assms
  by (auto simp: resolve_load_def Let_def
      split: load_path.splits option.splits sum.splits if_splits
      dest!: lookup_module_member dest: confined_owned current_module_scoped)

lemma resolve_load_same:
  assumes same: "same_inside S env env'" and mods: "set (modules env) \<subseteq> S"
  shows "resolve_load env' lp s = resolve_load env lp s"
proof -
  have "is_file env' p = is_file env p"
    if "lookup_module env n = Inr sc" "confined (join_confined (mod_root sc) sub) = Inr p" for n sc sub p
    using that mods same lookup_module_member [of env n sc] confined_owned [of sc sub p S]
    by (auto simp: same_inside_def)
  moreover have "builtins_get env' = builtins_get env" "lookup_module env' = lookup_module env"
    using same by (auto simp: same_inside_def builtins_get_def lookup_module_def fun_eq_iff)
  ultimately show ?thesis
    by (auto simp: resolve_load_def split: load_path.splits sum.splits)
qed

lemma drive_same:
  assumes same: "\<And>raw s. Q s \<Longrightarrow> ld' raw s = ld raw s"
    and inv: "\<And>raw s r s'. Q s \<Longrightarrow> ld raw s = Some (r, s') \<Longrightarrow> Q s'"
  shows "Q s \<Longrightarrow> drive ld' t s = drive ld t s"
  by (induction t arbitrary: s) (auto simp: same split: option.splits sum.splits dest: inv)

lemma load_with_same:
  assumes same: "same_inside S env env'" and mods: "set (modules env) \<subseteq> S" and s: "scoped S s"
    and ev: "\<And>p c b s. p \<in> owned S \<or> c \<noteq> None \<Longrightarrow> scoped S s \<Longrightarrow> ev' p c b s = ev p c b s"
  shows "load_with env' ev' raw s = load_with env ev raw s"
  using s resolve_load_owned [OF _ s mods]
  by (auto simp: load_with_def eval_module_with_eq resolve_load_same [OF same mods] ev
      split: sum.splits load_target.splits)

lemma eval_module_impl_same:
  assumes same: "same_inside S env env'" and mods: "set (modules env) \<subseteq> S"
  shows "p \<in> owned S \<or> c \<noteq> None \<Longrightarrow> scoped S s \<Longrightarrow>
    eval_module_impl fuel env' p c b s = eval_module_impl fuel env p c b s"
proof (induction fuel arbitrary: p c b s)
  case (Suc fuel)
  let ?ld = "\<lambda>e. load_with e (eval_module_impl fuel e)"
  have "drive (?ld env') t (enter_load p s) = drive (?ld env) t (enter_load p s)" for t
  proof (rule drive_same [of "scoped S"])
    show "scoped S (enter_load p s)" using Suc.prems by simp
    show "?ld env' raw s = ?ld env raw s" if "scoped S s" for raw s
      using same mods that Suc.IH by (rule load_with_same)
    show "scoped S s'" if "scoped S s" "?ld env raw s = Some (r, s')" for raw s r s'
      using that by (blast intro: scoped_keeps loads_keeps load_with_sound eval_module_impl_sound)
  qed
  moreover have "source_text env' p c = source_text env p c" "interp env' = interp env"
    using same Suc.prems by (auto simp: source_text_def same_inside_def split: option.splits)
  ultimately have "eval_module_inner env' (?ld env') p c b (enter_load p s) =
      eval_module_inner env (?ld env) p c b (enter_load p s)"
    by (simp add: eval_module_inner_def split: sum.splits)
  then show ?case by (simp split: option.splits load_state.splits)
qed simp

text \<open>C5. Nothing outside the module roots is ever consulted: two file systems that agree on the
  files below the roots of the declared modules and of the scopes in use give the same
  evaluation, whatever the loaded files ask for.\<close>

theorem loads_stay_in_modules:
  assumes "same_inside S env env'" and "set (modules env) \<subseteq> S"
    and "sc \<in> S" and "set (module_stack s) \<subseteq> S" and "p \<in> owned S"
  shows "eval_module fuel env' sc p s = eval_module fuel env sc p s"
  using eval_module_impl_same [OF assms(1,2), of p None "push_scope sc s" fuel False] assms(3-)
  by (simp add: eval_module_def eval_module_with_eq scoped_def push_scope_def)

section \<open>Absolute paths\<close>

definition rooted :: "mod_scope set \<Rightarrow> bool" where
  "rooted S \<longleftrightarrow> (\<forall>sc \<in> S. is_absolute (mod_root sc))"

lemma std_path_absolute: "is_absolute (std_path m f)"
  by (simp add: std_path_def is_absolute_def path_components_def Let_def starts_with_def)

lemma resolve_load_absolute:
  assumes "resolve_load env lp s = Inr (p, t)" and "scoped S s" and "set (modules env) \<subseteq> S"
    and "rooted S"
  shows "is_absolute p"
proof (cases t)
  case (StdTarget c)
  with assms(1) show ?thesis
    by (auto simp: resolve_load_def Let_def std_path_absolute
        split: load_path.splits option.splits sum.splits if_splits)
next
  case (ModTarget sc)
  with assms resolve_load_owned have "p \<in> owned S" by blast
  with assms(4) show ?thesis by (auto simp: owned_def rooted_def is_absolute_def)
qed

lemma no_assert_induct:
  assumes mods: "set (modules env) \<subseteq> S" and root: "rooted S"
  shows "evals env p c b s r s' \<Longrightarrow> is_absolute p \<longrightarrow> scoped S s \<longrightarrow> r \<noteq> Inl (NotAbsolute q)"
    and "runs env t s r s' \<Longrightarrow> scoped S s \<longrightarrow> r \<noteq> Inl (NotAbsolute q)"
    and "loads env raw s r s' \<Longrightarrow> scoped S s \<longrightarrow> r \<noteq> Inl (NotAbsolute q)"
proof (induction rule: evals_runs_loads.inducts)
  case (runs_load raw s m s' k r s'')
  then show ?case by (blast dest: loads_keeps scoped_keeps)
next
  case (loads_std raw lp s p c r s')
  then show ?case by (blast dest: resolve_load_absolute [OF _ _ mods root])
next
  case (loads_module raw lp s p sc r s')
  then show ?case
    using resolve_load_absolute [OF _ _ mods root] resolve_load_owned [OF _ _ mods] by auto
qed (auto dest: source_text_error resolve_load_error)

text \<open>With absolute module roots the loader's assertion that every path is absolute cannot
  fail, whatever the files load.\<close>

theorem loader_assert_holds:
  assumes "eval_module fuel env sc p s = Some (r, s')" and "is_absolute p"
    and "\<forall>sc' \<in> insert sc (set (modules env) \<union> set (module_stack s)). is_absolute (mod_root sc')"
  shows "r \<noteq> Inl (NotAbsolute q)"
proof -
  let ?S = "insert sc (set (modules env) \<union> set (module_stack s))"
  obtain s1 where "evals env p None False (push_scope sc s) r s1"
    using eval_module_sound [OF assms(1)] by blast
  from no_assert_induct(1) [OF _ _ this, of ?S] assms(2,3) show ?thesis
    by (auto simp: rooted_def scoped_def push_scope_def)
qed

section \<open>What a loaded module means\<close>

text \<open>
  The meaning of a file without cache and stacks: \<open>means env sc p raw b m\<close> says that evaluating the
  text \<open>raw\<close> of \<open>p\<close> in the scope \<open>sc\<close> gives \<open>m\<close>, each of its loads answered by a module that
  the file it names means. A file that is loaded from two scopes is evaluated in the first.
\<close>

definition caller :: "mod_scope list \<Rightarrow> path \<Rightarrow> 'm axl_loader" where
  "caller scs p = \<lparr>load_stack = [p], module_stack = scs, loaded_modules = (\<lambda>_. None)\<rparr>"

inductive means :: "'m axl_env \<Rightarrow> path \<Rightarrow> 'm \<Rightarrow> bool"
  and yields :: "'m axl_env \<Rightarrow> mod_scope list \<Rightarrow> path \<Rightarrow> 'm run \<Rightarrow> 'm \<Rightarrow> bool"
  for env :: "'m axl_env"
where
  means_file: "\<lbrakk>source_text env p c = Inr raw; yields env scs p (interp env p raw b) m\<rbrakk> \<Longrightarrow>
    means env p m"
| yields_finished: "yields env scs p (Finished m) m"
| yields_load: "\<lbrakk>parse_load_path raw = Inr lp; resolve_load env lp (caller scs p) = Inr (q, t);
     means env q m; yields env scs p (k m) m'\<rbrakk> \<Longrightarrow>
    yields env scs p (LoadStmt raw k) m'"

inductive_cases yields_loadE: "yields env scs p (LoadStmt raw k) m"
inductive_simps yields_done_simps [simp]:
  "yields env scs p (Finished m) m'"
  "yields env scs p (Failed e) m'"

definition cache_means :: "'m axl_env \<Rightarrow> 'm axl_loader \<Rightarrow> bool" where
  "cache_means env s \<longleftrightarrow> (\<forall>q m. loaded_modules s q = Some (Loaded m) \<longrightarrow> means env q m)"

lemma cache_means_simps [simp]:
  "cache_means env new_loader"
  "cache_means env (push_scope sc s) = cache_means env s"
  "cache_means env (pop_scope s) = cache_means env s"
  by (simp_all add: cache_means_def new_loader_def push_scope_def pop_scope_def)

lemma cache_means_enter: "cache_means env s \<Longrightarrow> cache_means env (enter_load p s)"
  by (simp add: cache_means_def enter_load_def)

lemma cache_means_leave:
  "cache_means env s \<Longrightarrow> (\<And>m. r = Inr m \<Longrightarrow> means env p m) \<Longrightarrow> cache_means env (leave_load p r s)"
  by (auto simp: cache_means_def leave_load_def split: sum.splits)

lemma resolve_load_caller:
  assumes "load_stack s \<noteq> []" and "last (load_stack s) = p" and "module_stack s = scs"
  shows "resolve_load env lp (caller scs p) = resolve_load env lp s"
  using assms
  by (simp add: resolve_load_def caller_def current_module_def current_script_def split: load_path.splits)

lemma means_induct:
  shows "evals env p c b s r s' \<Longrightarrow> cache_means env s \<longrightarrow>
      cache_means env s' \<and> (\<forall>m. r = Inr m \<longrightarrow> means env p m)"
    and "runs env t s r s' \<Longrightarrow> cache_means env s \<and> load_stack s \<noteq> [] \<longrightarrow>
      cache_means env s' \<and>
      (\<forall>m. r = Inr m \<longrightarrow> yields env (module_stack s) (last (load_stack s)) t m)"
    and "loads env raw s r s' \<Longrightarrow> cache_means env s \<longrightarrow>
      cache_means env s' \<and> (\<forall>m. r = Inr m \<longrightarrow>
        (\<exists>lp q t. parse_load_path raw = Inr lp \<and> resolve_load env lp s = Inr (q, t) \<and> means env q m))"
proof (induction rule: evals_runs_loads.inducts)
  case (evals_cached p s m c b)
  then show ?case by (auto simp: cache_means_def)
next
  case (evals_unreadable p s c e b)
  then show ?case by (auto intro: cache_means_enter cache_means_leave)
next
  case (evals_run p s c raw b r s')
  have stack: "load_stack (enter_load p s) \<noteq> []" "last (load_stack (enter_load p s)) = p"
    by (simp_all add: enter_load_def)
  show ?case
  proof (intro impI conjI allI)
    assume s: "cache_means env s"
    with evals_run.IH stack cache_means_enter have s': "cache_means env s'" by blast
    have m: "means env p m" if "r = Inr m" for m
      using that s evals_run.IH evals_run.hyps stack cache_means_enter [OF s] by (auto intro: means_file)
    then show "cache_means env (leave_load p r s')" using s' by (rule cache_means_leave [rotated])
    show "means env p m" if "r = Inr m" for m using that by (rule m)
  qed
next
  case (runs_load raw s m s' k r s'')
  have keep: "load_stack s' = load_stack s" "module_stack s' = module_stack s"
    using loads_keeps runs_load(1) by (fastforce simp: keeps_def)+
  show ?case
  proof (intro impI)
    assume s: "cache_means env s \<and> load_stack s \<noteq> []"
    with runs_load(2) obtain lp q t where lp: "parse_load_path raw = Inr lp"
      and q: "resolve_load env lp s = Inr (q, t)" and m: "means env q m" and s': "cache_means env s'"
      by blast
    have "resolve_load env lp (caller (module_stack s) (last (load_stack s))) = Inr (q, t)"
      using q s resolve_load_caller [OF _ refl refl, of s env lp] by simp
    with lp m s s' keep runs_load(4)
    show "cache_means env s'' \<and>
        (\<forall>m. r = Inr m \<longrightarrow> yields env (module_stack s) (last (load_stack s)) (LoadStmt raw k) m)"
      by (auto intro: yields_load)
  qed
qed auto


section \<open>A small repository\<close>

text \<open>Two modules; a file's text is the list of its loads, its module the number of answers.\<close>

fun sample_loads :: "nat \<Rightarrow> string list \<Rightarrow> nat run" where
  "sample_loads n [] = Finished n"
| "sample_loads n (w # ws) = LoadStmt w (\<lambda>m. sample_loads (n + m + 1) ws)"

definition sample_root :: mod_scope where
  "sample_root = \<lparr>mod_name = ''_root'', mod_root = [RootDir, NormalComp ''r'']\<rparr>"

definition sample_tools :: mod_scope where
  "sample_tools = \<lparr>mod_name = ''tools'', mod_root = [RootDir, NormalComp ''t'']\<rparr>"

definition sample_files :: "(path \<times> string) list" where
  "sample_files = map (\<lambda>(f, text). (path_components f, text))
     [(''/r/main.axl'', ''./u.axl,@tools//a.axl,u.axl''),
      (''/r/u.axl'', ''''),
      (''/r/loop.axl'', ''d/back.axl''),
      (''/r/d/back.axl'', ''../loop.axl''),
      (''/r/out.axl'', ''../s.axl''),
      (''/t/a.axl'', ''./b.axl''),
      (''/t/b.axl'', '''')]"

definition sample_env :: "nat axl_env" where
  "sample_env = \<lparr>modules = [sample_root, sample_tools],
     read_file = (\<lambda>p. case map_of sample_files p of
        Some raw \<Rightarrow> Inr raw | None \<Rightarrow> Inl ''not found''),
     is_file = (\<lambda>p. map_of sample_files p \<noteq> None),
     embedded = (\<lambda>m f. None),
     interp = (\<lambda>p raw b. sample_loads 0 (if b \<or> raw = [] then [] else split_on (CHR '','') raw))\<rparr>"

definition sample_result :: "string \<Rightarrow> (load_error + nat) option" where
  "sample_result f =
     map_option fst (eval_module 4 sample_env sample_root [RootDir, NormalComp ''r'', NormalComp f] new_loader)"

lemma sample_main: "sample_result ''main.axl'' = Some (Inr 4)"
  by code_simp

lemma sample_loop:
  "sample_result ''loop.axl'' =
     Some (Inl (CycleDetected
       [[RootDir, NormalComp ''r'', NormalComp ''loop.axl''],
        [RootDir, NormalComp ''r'', NormalComp ''d'', NormalComp ''back.axl'']]
       [RootDir, NormalComp ''r'', NormalComp ''loop.axl'']))"
  by code_simp

lemma sample_out:
  "sample_result ''out.axl'' =
     Some (Inl (Confined (OutsideBase [ParentDir, NormalComp ''s.axl''] [RootDir, NormalComp ''r''])))"
  by code_simp

lemma sample_eval:
  assumes "sample_result f = Some r"
  obtains s' where "eval_module 4 sample_env sample_root
      [RootDir, NormalComp ''r'', NormalComp f] new_loader = Some (r, s')"
  using assms by (auto simp: sample_result_def)

lemma sample_loadable: "finite (loadable sample_env)"
proof -
  have "loadable sample_env \<subseteq> dom (map_of sample_files)"
    by (auto simp: loadable_def sample_env_def split: option.splits)
  then show ?thesis by (rule finite_subset) (rule finite_dom_map_of)
qed

lemma sample_shims: "shims_load_nothing sample_env"
  by (simp add: shims_load_nothing_def sample_env_def no_load_def)

text \<open>The witnesses of the properties above.\<close>

theorem eval_module_restores_loader_witness:
  "\<exists>s' :: nat axl_loader. load_stack s' = [] \<and>
    loaded_modules s' [RootDir, NormalComp ''r'', NormalComp ''main.axl''] = Some (Loaded 4)"
proof -
  obtain s' where "eval_module 4 sample_env sample_root
      [RootDir, NormalComp ''r'', NormalComp ''main.axl''] new_loader = Some (Inr 4, s')"
    using sample_eval [OF sample_main] .
  from eval_module_restores_loader [OF this] show ?thesis by (auto simp: new_loader_def)
qed


theorem eval_module_terminates_witness:
  "\<exists>r s'. eval_module (Suc (unvisited_files sample_env new_loader)) sample_env sample_tools
     [RootDir, NormalComp ''t'', NormalComp ''a.axl''] new_loader = Some (r, s')"
  by (rule eval_module_terminates [OF sample_loadable sample_shims]) simp

theorem loads_stay_in_modules_witness:
  "eval_module 4 (sample_env\<lparr>read_file := (read_file sample_env)([RootDir, NormalComp ''s.axl''] := Inr [])\<rparr>)
     sample_root [RootDir, NormalComp ''r'', NormalComp ''out.axl''] new_loader =
   eval_module 4 sample_env sample_root [RootDir, NormalComp ''r'', NormalComp ''out.axl''] new_loader"
proof (rule loads_stay_in_modules [of "{sample_root, sample_tools}"])
  show "same_inside {sample_root, sample_tools} sample_env
      (sample_env\<lparr>read_file := (read_file sample_env)([RootDir, NormalComp ''s.axl''] := Inr [])\<rparr>)"
    by (auto simp: same_inside_def owned_def sample_root_def sample_tools_def)
  show "[RootDir, NormalComp ''r'', NormalComp ''out.axl''] \<in> owned {sample_root, sample_tools}"
    by (auto simp: owned_def sample_root_def intro!: exI [of _ "[''out.axl'']"])
qed (simp_all add: sample_env_def new_loader_def)

theorem loader_assert_holds_witness:
  "sample_result ''main.axl'' \<noteq> Some (Inl (NotAbsolute []))"
proof -
  obtain s' where "eval_module 4 sample_env sample_root
      [RootDir, NormalComp ''r'', NormalComp ''main.axl''] new_loader = Some (Inr 4, s')"
    using sample_eval [OF sample_main] .
  from loader_assert_holds [OF this, of "[]"] show ?thesis
    by (simp add: sample_main is_absolute_def sample_root_def sample_tools_def sample_env_def
        new_loader_def)
qed


section \<open>Reserved names\<close>

text \<open>
  \<open>std\<close> and \<open>bazel\<close> pass the validation of dependency names, but a load from them never looks at
  the declared modules: a dependency of that name can be declared and not loaded.
\<close>

lemma reserved_names_are_valid:
  "validate_module_name ''std'' = Inr ()" "validate_module_name ''bazel'' = Inr ()"
  by code_simp+

lemma builtin_names_shadow_modules:
  assumes "m = ''std'' \<or> m = ''bazel''"
  shows "resolve_load (env\<lparr>modules := ms\<rparr>) (ModuleSpecifier m p) s =
    resolve_load env (ModuleSpecifier m p) s"
  using assms by (auto simp: resolve_load_def builtins_get_def Let_def)

end
