(* ===== verification/Dep_Store.thy ===== *)
theory Dep_Store
  imports Load_Path
begin

text \<open>
  The store of AXL module dependencies (crates/axl-runtime/src/module/disk_store.rs): archives are
  downloaded into a content-addressed area once their integrity is checked, expanded below the
  dependency's directory, and a marker file records what was expanded; local dependencies are
  symbolic links. The file system maps paths to nodes. Hashing, integrity checks, the network,
  the tar reader and the unpacking of one entry are the services; \<open>ds_io\<close> says which file
  operations fail. The randomly named temporary download file is not part of the state: \<open>ds_get\<close> is
  the whole download of a URL to it, its error or its bytes.
\<close>

section \<open>State and services\<close>

datatype fs_node = FileNode string | LinkNode path | DirNode

type_synonym fs = "path \<Rightarrow> fs_node option"

type_synonym integrity = string

record tar_entry =
  te_path :: path
  te_is_link :: bool
  te_data :: string

datatype store_error =
    StoreIo string
  | FetchError string
  | ChecksumError string
  | UnpackError string
  | LinkError string
  | MissingIntegrity string integrity
  | Panicked

datatype store_op = ReadMarker | RemoveDep | LinkDep | CreateDir | OpenCas | RenameCas | WriteMarker

record dep_services =
  ds_sha :: "string \<Rightarrow> string"
  ds_io :: "store_op \<Rightarrow> path \<Rightarrow> string option"
  ds_get :: "string \<Rightarrow> store_error + string"
  ds_check :: "integrity \<Rightarrow> string \<Rightarrow> string option"
  ds_hash :: "string \<Rightarrow> integrity"
  ds_hex :: "integrity \<Rightarrow> string \<times> string"
  ds_entries :: "string \<Rightarrow> string + (string + tar_entry) list"
  ds_unpack :: "tar_entry \<Rightarrow> path \<Rightarrow> fs \<Rightarrow> string + fs"

record disk_store =
  cache_root :: path
  root_sha :: string

datatype axl_dep =
    LocalDep (dep_name: string) path (auto_use: bool)
  | RemoteDep (dep_name: string) "string list" "integrity option" string (auto_use: bool)

definition deps_path :: "disk_store \<Rightarrow> path" where
  "deps_path ds = cache_root ds @ [NormalComp ''deps'', NormalComp (root_sha ds)]"

definition dep_path :: "disk_store \<Rightarrow> string \<Rightarrow> path" where
  "dep_path ds name = deps_path ds @ [NormalComp name]"

definition dep_marker_path :: "disk_store \<Rightarrow> string \<Rightarrow> path" where
  "dep_marker_path ds name = deps_path ds @ [NormalComp (name @ ''@marker'')]"

definition cas_path_for_integrity :: "dep_services \<Rightarrow> disk_store \<Rightarrow> integrity \<Rightarrow> path" where
  "cas_path_for_integrity sv ds i =
     cache_root ds @ [NormalComp ''cas'', NormalComp (fst (ds_hex sv i)), NormalComp (snd (ds_hex sv i))]"

definition remove_dir_all :: "path \<Rightarrow> fs \<Rightarrow> fs" where
  "remove_dir_all p files = (\<lambda>q. if prefix p q then None else files q)"

section \<open>Fetching\<close>

definition fetch_dep ::
  "dep_services \<Rightarrow> disk_store \<Rightarrow> integrity option \<Rightarrow> string \<Rightarrow> fs \<Rightarrow>
   (store_error + integrity option) \<times> fs" where
  "fetch_dep sv ds integ url files =
     (case ds_get sv url of
        Inl e \<Rightarrow> (Inl e, files)
      | Inr bytes \<Rightarrow>
          (case integ of
             None \<Rightarrow> (Inr (Some (ds_hash sv bytes)), files)
           | Some i \<Rightarrow>
               (case ds_check sv i bytes of
                  Some e \<Rightarrow> (Inl (ChecksumError e), files)
                | None \<Rightarrow>
                    (let cas = cas_path_for_integrity sv ds i in
                     case ds_io sv RenameCas cas of
                       Some e \<Rightarrow> (Inl (StoreIo e), files)
                     | None \<Rightarrow> (Inr None, files(cas \<mapsto> FileNode bytes))))))"

text \<open>The URLs in order; with none at all the code unwraps an empty error.\<close>

fun fetch_urls ::
  "dep_services \<Rightarrow> disk_store \<Rightarrow> string \<Rightarrow> integrity option \<Rightarrow> string list \<Rightarrow> fs \<Rightarrow>
   (store_error + unit) \<times> fs" where
  "fetch_urls sv ds name integ [] files = (Inl Panicked, files)"
| "fetch_urls sv ds name integ (url # urls) files =
     (case fetch_dep sv ds integ url files of
        (Inr (Some computed), files') \<Rightarrow> (Inl (MissingIntegrity name computed), files')
      | (Inr None, files') \<Rightarrow> (Inr (), files')
      | (Inl e, files') \<Rightarrow>
          if urls = [] then (Inl e, files') else fetch_urls sv ds name integ urls files')"

section \<open>Expanding\<close>

fun expand_entries ::
  "dep_services \<Rightarrow> path \<Rightarrow> string \<Rightarrow> (string + tar_entry) list \<Rightarrow> bool \<Rightarrow> fs \<Rightarrow>
   (string + bool) \<times> fs" where
  "expand_entries sv dest strip [] found files = (Inr found, files)"
| "expand_entries sv dest strip (Inl e # es) found files = (Inl e, files)"
| "expand_entries sv dest strip (Inr entry # es) found files =
     (if te_is_link entry then expand_entries sv dest strip es found files
      else (case strip_components (path_components strip) (te_path entry) of
          None \<Rightarrow> expand_entries sv dest strip es found files
        | Some new_dst \<Rightarrow>
            if new_dst = [] \<or> new_dst = [RootDir] then expand_entries sv dest strip es True files
            else (case ds_unpack sv entry (path_push dest new_dst) files of
                Inl e \<Rightarrow> (Inl e, files)
              | Inr files' \<Rightarrow> expand_entries sv dest strip es True files')))"

definition expand_dep ::
  "dep_services \<Rightarrow> disk_store \<Rightarrow> string \<Rightarrow> integrity \<Rightarrow> string \<Rightarrow> fs \<Rightarrow> (string + unit) \<times> fs" where
  "expand_dep sv ds name i strip files =
     (let cas = cas_path_for_integrity sv ds i in
      case (ds_io sv OpenCas cas, files cas) of
        (None, Some (FileNode raw)) \<Rightarrow>
          (case ds_entries sv raw of
             Inl e \<Rightarrow> (Inl e, files)
           | Inr entries \<Rightarrow>
               (case expand_entries sv (dep_path ds name) strip entries False files of
                  (Inl e, files') \<Rightarrow> (Inl e, files')
                | (Inr found, files') \<Rightarrow>
                    (if strip \<noteq> [] \<and> \<not> found
                     then Inl (''strip_prefix '' @ strip @
                       '' was provided but it does not match any entries.'')
                     else Inr (), files')))
      | (Some e, _) \<Rightarrow> (Inl e, files)
      | _ \<Rightarrow> (Inl ''cannot open the archive'', files))"

definition link_dep :: "dep_services \<Rightarrow> disk_store \<Rightarrow> string \<Rightarrow> path \<Rightarrow> fs \<Rightarrow> (string + unit) \<times> fs" where
  "link_dep sv ds name target files =
     (let p = dep_path ds name;
          files' = (case files p of
             Some DirNode \<Rightarrow> files
           | Some _ \<Rightarrow> (if ds_io sv RemoveDep p = None then files(p := None) else files)
           | None \<Rightarrow> files)
      in case ds_io sv LinkDep p of
           Some e \<Rightarrow> (Inl e, files')
         | None \<Rightarrow>
             if files' p \<noteq> None then (Inl ''File exists'', files')
             else (Inr (), files'(p \<mapsto> LinkNode target)))"

definition current_hash :: "dep_services \<Rightarrow> axl_dep \<Rightarrow> string" where
  "current_hash sv dep =
     (case dep of
        LocalDep name target auto \<Rightarrow> ds_sha sv (path_text target)
      | RemoteDep name urls integ strip auto \<Rightarrow>
          (case integ of Some i \<Rightarrow> ds_sha sv (i @ strip) | None \<Rightarrow> []))"

text \<open>What \<open>symlink_metadata\<close> finds at the dependency's path is removed: a link as a file, anything
  else as a directory tree.\<close>

definition remove_existing :: "dep_services \<Rightarrow> path \<Rightarrow> fs \<Rightarrow> (store_error + unit) \<times> fs" where
  "remove_existing sv p files =
     (case files p of
        None \<Rightarrow> (Inr (), files)
      | Some node \<Rightarrow>
          (case ds_io sv RemoveDep p of
             Some e \<Rightarrow> (Inl (StoreIo e), files)
           | None \<Rightarrow>
               (case node of
                  LinkNode t \<Rightarrow> (Inr (), files(p := None))
                | FileNode c \<Rightarrow> (Inl (StoreIo ''Not a directory''), files)
                | DirNode \<Rightarrow> (Inr (), remove_dir_all p files))))"

definition discard_stale ::
  "dep_services \<Rightarrow> disk_store \<Rightarrow> axl_dep \<Rightarrow> fs \<Rightarrow> (store_error + unit) \<times> fs" where
  "discard_stale sv ds dep files =
     (let p = dep_path ds (dep_name dep); marker = dep_marker_path ds (dep_name dep)
      in case files marker of
           Some (FileNode prev_hash) \<Rightarrow>
             (case ds_io sv ReadMarker marker of
                Some e \<Rightarrow> (Inl (StoreIo e), files)
              | None \<Rightarrow>
                  if prev_hash \<noteq> current_hash sv dep then remove_existing sv p files
                  else (Inr (), files))
         | Some _ \<Rightarrow> (Inl (StoreIo ''cannot read the marker''), files)
         | None \<Rightarrow> remove_existing sv p files)"

definition create_dir :: "dep_services \<Rightarrow> path \<Rightarrow> fs \<Rightarrow> (store_error + unit) \<times> fs" where
  "create_dir sv p files =
     (case ds_io sv CreateDir p of
        Some e \<Rightarrow> (Inl (StoreIo e), files)
      | None \<Rightarrow> (Inr (), files(p \<mapsto> DirNode)))"

text \<open>\<open>create_dir_all\<close> of the store's own directories, whose existence nothing else looks at.\<close>

fun make_dirs :: "dep_services \<Rightarrow> path list \<Rightarrow> store_error option" where
  "make_dirs sv [] = None"
| "make_dirs sv (p # ps) =
     (case ds_io sv CreateDir p of Some e \<Rightarrow> Some (StoreIo e) | None \<Rightarrow> make_dirs sv ps)"

definition and_then ::
  "(store_error + unit) \<times> fs \<Rightarrow> (fs \<Rightarrow> (store_error + unit) \<times> fs) \<Rightarrow>
   (store_error + unit) \<times> fs" where
  "and_then r f = (case r of (Inl e, files) \<Rightarrow> (Inl e, files) | (Inr _, files) \<Rightarrow> f files)"

definition map_error :: "(string \<Rightarrow> store_error) \<Rightarrow> (string + unit) \<times> fs \<Rightarrow> (store_error + unit) \<times> fs" where
  "map_error g r = (case r of (Inl e, files) \<Rightarrow> (Inl (g e), files) | (Inr u, files) \<Rightarrow> (Inr u, files))"

definition provide_dep ::
  "dep_services \<Rightarrow> disk_store \<Rightarrow> axl_dep \<Rightarrow> fs \<Rightarrow> (store_error + unit) \<times> fs" where
  "provide_dep sv ds dep files =
     (if files (dep_path ds (dep_name dep)) \<noteq> None then (Inr (), files)
      else (case dep of
          LocalDep name target auto \<Rightarrow> map_error LinkError (link_dep sv ds name target files)
        | RemoteDep name urls integ strip auto \<Rightarrow>
            and_then
              (if (case integ of Some i \<Rightarrow> files (cas_path_for_integrity sv ds i) = None | None \<Rightarrow> True)
               then
                 (case (case integ of
                     Some i \<Rightarrow> make_dirs sv [butlast (cas_path_for_integrity sv ds i)]
                   | None \<Rightarrow> None) of
                    Some e \<Rightarrow> (Inl e, files)
                  | None \<Rightarrow> fetch_urls sv ds name integ urls files)
               else (Inr (), files))
              (\<lambda>files1. and_then (create_dir sv (dep_path ds name) files1)
                (\<lambda>files2. case integ of
                   Some i \<Rightarrow> map_error UnpackError (expand_dep sv ds name i strip files2)
                 | None \<Rightarrow> (Inl Panicked, files2)))))"

definition write_marker ::
  "dep_services \<Rightarrow> disk_store \<Rightarrow> axl_dep \<Rightarrow> fs \<Rightarrow> (store_error + unit) \<times> fs" where
  "write_marker sv ds dep files =
     (let marker = dep_marker_path ds (dep_name dep) in
      if current_hash sv dep = [] then (Inr (), files)
      else (case ds_io sv WriteMarker marker of
          Some e \<Rightarrow> (Inl (StoreIo e), files)
        | None \<Rightarrow> (Inr (), files(marker \<mapsto> FileNode (current_hash sv dep)))))"

definition expand_one ::
  "dep_services \<Rightarrow> disk_store \<Rightarrow> axl_dep \<Rightarrow> fs \<Rightarrow> (store_error + unit) \<times> fs" where
  "expand_one sv ds dep files =
     and_then (discard_stale sv ds dep files)
       (\<lambda>f1. and_then (provide_dep sv ds dep f1) (write_marker sv ds dep))"

fun expand_deps ::
  "dep_services \<Rightarrow> disk_store \<Rightarrow> axl_dep list \<Rightarrow> fs \<Rightarrow> (store_error + unit) \<times> fs" where
  "expand_deps sv ds [] files = (Inr (), files)"
| "expand_deps sv ds (dep # deps) files =
     and_then (expand_one sv ds dep files) (expand_deps sv ds deps)"

text \<open>Builtins come first, as local dependencies whose tasks are used; the result is the modules
  whose tasks are used, by name.\<close>

definition expand_store ::
  "dep_services \<Rightarrow> disk_store \<Rightarrow> (string \<times> path) list \<Rightarrow> axl_dep list \<Rightarrow> fs \<Rightarrow>
   (store_error + (string \<times> path) list) \<times> fs" where
  "expand_store sv ds builtins deps files =
     (let all = map (\<lambda>(name, p). LocalDep name p True) builtins @ deps in
      case make_dirs sv [cache_root ds, deps_path ds, cache_root ds @ [NormalComp ''cas''],
          cache_root ds @ [NormalComp ''dl'']] of
        Some e \<Rightarrow> (Inl e, files)
      | None \<Rightarrow>
          (case expand_deps sv ds all files of
             (Inl e, files') \<Rightarrow> (Inl e, files')
           | (Inr _, files') \<Rightarrow>
               (Inr (sort_key fst (map (\<lambda>d. (dep_name d, dep_path ds (dep_name d)))
                  (filter auto_use all))), files')))"

section \<open>Where a dependency's files are\<close>

text \<open>Module names have no \<open>@\<close>, so markers, directories and archives never meet.\<close>

definition plain_dep_name :: "string \<Rightarrow> bool" where
  "plain_dep_name name \<longleftrightarrow> CHR ''@'' \<notin> set name"

lemmas store_paths = dep_path_def dep_marker_path_def cas_path_for_integrity_def deps_path_def

lemma paths_apart [simp]:
  "\<not> prefix (dep_path ds name) (cas_path_for_integrity sv ds i)"
  "cas_path_for_integrity sv ds i \<noteq> dep_marker_path ds name"
  "dep_marker_path ds name \<noteq> cas_path_for_integrity sv ds i"
  "\<not> prefix (dep_path ds name) (dep_marker_path ds name)"
  "dep_path ds name \<noteq> dep_marker_path ds name'" if "plain_dep_name name"
  using that by (auto simp: store_paths prefix_def plain_dep_name_def)

lemma marker_apart:
  "plain_dep_name m \<Longrightarrow> \<not> prefix (dep_path ds m) (dep_marker_path ds name)"
  by (auto simp: store_paths prefix_def plain_dep_name_def)

lemma dep_paths_apart:
  "m \<noteq> name \<Longrightarrow> prefix (dep_path ds m) q \<Longrightarrow> \<not> prefix (dep_path ds name) q"
  by (auto simp: store_paths prefix_def)

lemma markers_apart: "m \<noteq> name \<Longrightarrow> dep_marker_path ds m \<noteq> dep_marker_path ds name"
  by (simp add: store_paths)

text \<open>The tar reader writes an entry at its destination and nowhere else; the archives are
  well-behaved when no entry is absolute or climbs.\<close>

definition stays_below :: "path \<Rightarrow> bool" where
  "stays_below p \<longleftrightarrow> RootDir \<notin> set p \<and> ParentDir \<notin> set p"

definition unpacks_below :: "dep_services \<Rightarrow> bool" where
  "unpacks_below sv \<longleftrightarrow> (\<forall>e dst f f'. ds_unpack sv e dst f = Inr f' \<longrightarrow>
     (\<forall>q. \<not> prefix dst q \<longrightarrow> f' q = f q))"

definition safe_archives :: "dep_services \<Rightarrow> bool" where
  "safe_archives sv \<longleftrightarrow> (\<forall>raw entries e. ds_entries sv raw = Inr entries \<longrightarrow> Inr e \<in> set entries \<longrightarrow>
     stays_below (te_path e))"

definition store_step :: "dep_services \<Rightarrow> disk_store \<Rightarrow> string \<Rightarrow> fs \<Rightarrow> fs \<Rightarrow> bool" where
  "store_step sv ds name f f' \<longleftrightarrow> (\<forall>q. f' q = f q \<or> prefix (dep_path ds name) q \<or>
     q = dep_marker_path ds name \<or>
     (\<exists>i c. q = cas_path_for_integrity sv ds i \<and> f' q = Some (FileNode c) \<and> ds_check sv i c = None))"

lemma store_step_refl [simp]: "store_step sv ds name f f"
  by (simp add: store_step_def)

lemma store_step_trans:
  assumes "store_step sv ds name f g" and "store_step sv ds name g h"
  shows "store_step sv ds name f h"
  unfolding store_step_def
proof
  fix q
  show "h q = f q \<or> prefix (dep_path ds name) q \<or> q = dep_marker_path ds name \<or>
     (\<exists>i c. q = cas_path_for_integrity sv ds i \<and> h q = Some (FileNode c) \<and> ds_check sv i c = None)"
  proof (cases "h q = g q")
    case True
    with assms(1) show ?thesis unfolding store_step_def by (metis (no_types))
  next
    case False
    with assms(2) show ?thesis unfolding store_step_def by (metis (no_types))
  qed
qed

lemma store_step_dep [simp]: "store_step sv ds name f (f(dep_path ds name := x))"
  by (simp add: store_step_def)

lemma remove_existing_step: "remove_existing sv (dep_path ds name) f = (r, f') \<Longrightarrow> store_step sv ds name f f'"
  by (auto simp: remove_existing_def store_step_def remove_dir_all_def
      split: option.splits fs_node.splits if_splits)

lemma remove_existing_gone:
  "remove_existing sv p f = (Inr u, f') \<Longrightarrow> f' p = None"
  by (auto simp: remove_existing_def remove_dir_all_def split: option.splits fs_node.splits)

lemma discard_stale_step:
  "discard_stale sv ds dep f = (r, f') \<Longrightarrow> store_step sv ds (dep_name dep) f f'"
  by (auto simp: discard_stale_def Let_def split: option.splits fs_node.splits if_splits
      dest: remove_existing_step)

lemma fetch_dep_step:
  "fetch_dep sv ds integ url f = (r, f') \<Longrightarrow> store_step sv ds name f f'"
  by (auto simp: fetch_dep_def store_step_def Let_def split: sum.splits option.splits if_splits)

lemma fetch_urls_step:
  "fetch_urls sv ds name integ urls f = (r, f') \<Longrightarrow> store_step sv ds name f f'"
proof (induction urls arbitrary: f)
  case (Cons url urls)
  obtain x g where x: "fetch_dep sv ds integ url f = (x, g)" by fastforce
  note step = fetch_dep_step [OF x, of name]
  show ?case
  proof (cases "\<exists>e. x = Inl e \<and> urls \<noteq> []")
    case True
    with Cons.prems x have "fetch_urls sv ds name integ urls g = (r, f')" by auto
    from store_step_trans [OF step Cons.IH [OF this]] show ?thesis .
  next
    case False
    with Cons.prems x step show ?thesis by (auto split: sum.splits option.splits if_splits)
  qed
qed simp

lemma strip_components_below:
  "strip_components bs cs = Some r \<Longrightarrow> stays_below cs \<Longrightarrow> stays_below r"
  by (auto simp: strip_components_Some_iff stays_below_def)

lemma path_push_below: "stays_below r \<Longrightarrow> p \<noteq> [] \<Longrightarrow> prefix p (path_push p r)"
  by (cases r) (auto simp: path_push_def stays_below_def split: path_component.splits)

lemma expand_entries_step:
  "unpacks_below sv \<Longrightarrow> \<forall>e. Inr e \<in> set es \<longrightarrow> stays_below (te_path e) \<Longrightarrow>
    expand_entries sv (dep_path ds name) strip es found f = (r, f') \<Longrightarrow> store_step sv ds name f f'"
proof (induction sv "dep_path ds name" strip es found f rule: expand_entries.induct)
  case (3 sv strip entry es found f)
  show ?case
  proof (cases "te_is_link entry \<or> strip_components (path_components strip) (te_path entry) = None")
    case True
    with 3 show ?thesis by (auto split: option.splits)
  next
    case False
    then obtain dst where dst: "strip_components (path_components strip) (te_path entry) = Some dst"
      by auto
    then have "stays_below dst"
      using "3.prems"(2) strip_components_below [of _ "te_path entry" dst] by auto
    then have below: "prefix (dep_path ds name) (path_push (dep_path ds name) dst)"
      by (rule path_push_below) (simp add: store_paths)
    show ?thesis
    proof (cases "dst = [] \<or> dst = [RootDir]")
      case True
      with 3 False dst show ?thesis by simp
    next
      case go: False
      show ?thesis
      proof (cases "ds_unpack sv entry (path_push (dep_path ds name) dst) f")
        case (Inl e)
        with "3.prems"(3) False dst go show ?thesis by simp
      next
        case (Inr g)
        have "store_step sv ds name f g"
          using Inr "3.prems"(1) below unfolding unpacks_below_def store_step_def
          by (metis prefix_order.trans)
        moreover have "store_step sv ds name g f'"
          using 3 False dst go Inr by auto
        ultimately show ?thesis by (rule store_step_trans)
      qed
    qed
  qed
qed simp_all

lemma expand_dep_step:
  assumes "unpacks_below sv" and "safe_archives sv" and "expand_dep sv ds name i strip f = (r, f')"
  shows "store_step sv ds name f f'"
proof -
  have "store_step sv ds name f g" if "ds_entries sv raw = Inr entries"
    "expand_entries sv (dep_path ds name) strip entries False f = (x, g)" for raw entries x g
    using that assms(1,2) by (auto simp: safe_archives_def intro: expand_entries_step)
  then show ?thesis
    using assms(3)
    by (auto simp: expand_dep_def Let_def split: prod.splits option.splits fs_node.splits sum.splits)
qed

lemma link_dep_step: "link_dep sv ds name target f = (r, f') \<Longrightarrow> store_step sv ds name f f'"
  by (auto simp: link_dep_def Let_def store_step_def
      split: option.splits fs_node.splits if_splits)

lemma provide_dep_step:
  assumes "unpacks_below sv" and "safe_archives sv" and "provide_dep sv ds dep f = (r, f')"
  shows "store_step sv ds (dep_name dep) f f'"
proof (cases "f (dep_path ds (dep_name dep))")
  case (Some node)
  with assms(3) show ?thesis by (simp add: provide_dep_def)
next
  case none: None
  show ?thesis
  proof (cases dep)
    case (LocalDep name target auto)
    obtain x g where "link_dep sv ds name target f = (x, g)" by fastforce
    with link_dep_step [OF this] assms(3) none LocalDep show ?thesis
      by (auto simp: provide_dep_def map_error_def split: sum.splits)
  next
    case (RemoteDep name urls integ strip auto)
    define fetch where "fetch = (case integ of
        Some i \<Rightarrow> f (cas_path_for_integrity sv ds i) = None | None \<Rightarrow> True)"
    define fetched where "fetched = (if fetch then
        (case (case integ of Some i \<Rightarrow> make_dirs sv [butlast (cas_path_for_integrity sv ds i)]
           | None \<Rightarrow> None) of
           Some e \<Rightarrow> (Inl e, f) | None \<Rightarrow> fetch_urls sv ds name integ urls f)
        else (Inr (), f))"
    obtain x g where x: "fetched = (x, g)" by fastforce
    then have fg: "store_step sv ds name f g"
      by (auto simp: fetched_def split: if_splits option.splits dest: fetch_urls_step)
    obtain y h where y: "create_dir sv (dep_path ds name) g = (y, h)" by fastforce
    then have gh: "store_step sv ds name g h" by (auto simp: create_dir_def split: option.splits)
    have unpack: "store_step sv ds name h k" if "expand_dep sv ds name i strip h = (z, k)" for i z k
      using that by (rule expand_dep_step [OF assms(1,2)])
    show ?thesis
      using assms(3) none RemoteDep x y fg gh unpack store_step_trans [OF fg gh]
      by (auto simp: provide_dep_def fetch_def [symmetric] fetched_def [symmetric] and_then_def
          map_error_def
          split: sum.splits option.splits prod.splits intro: store_step_trans)
  qed
qed

lemma write_marker_step: "write_marker sv ds dep f = (r, f') \<Longrightarrow> store_step sv ds (dep_name dep) f f'"
  by (auto simp: write_marker_def Let_def store_step_def split: if_splits option.splits)

lemma and_then_cases:
  assumes "and_then r k = (x, f')"
  obtains (fail) e where "r = (Inl e, f')" "x = Inl e"
  | (go) f where "r = (Inr (), f)" "k f = (x, f')"
  using assms by (auto simp: and_then_def split: prod.splits sum.splits)

lemma expand_one_step:
  assumes "unpacks_below sv" and "safe_archives sv" and one: "expand_one sv ds dep f = (r, f')"
  shows "store_step sv ds (dep_name dep) f f'"
  using one unfolding expand_one_def
proof (cases rule: and_then_cases)
  case (fail e)
  then show ?thesis by (simp add: discard_stale_step)
next
  case (go f1)
  note f1 = discard_stale_step [OF go(1)]
  from go(2) show ?thesis
  proof (cases rule: and_then_cases)
    case (fail e)
    with f1 provide_dep_step [OF assms(1,2)] show ?thesis by (blast intro: store_step_trans)
  next
    case (go f2)
    with f1 provide_dep_step [OF assms(1,2)] write_marker_step show ?thesis
      by (blast intro: store_step_trans)
  qed
qed

section \<open>The archives are the ones the configuration names\<close>

definition cas_checked :: "dep_services \<Rightarrow> disk_store \<Rightarrow> fs \<Rightarrow> bool" where
  "cas_checked sv ds f \<longleftrightarrow> (\<forall>i c. f (cas_path_for_integrity sv ds i) = Some (FileNode c) \<longrightarrow>
     (\<exists>j. cas_path_for_integrity sv ds j = cas_path_for_integrity sv ds i \<and> ds_check sv j c = None))"

lemma store_step_cas:
  assumes "store_step sv ds name f f'" and "plain_dep_name name" and "cas_checked sv ds f"
  shows "cas_checked sv ds f'"
  unfolding cas_checked_def
proof (intro allI impI)
  fix i c assume c: "f' (cas_path_for_integrity sv ds i) = Some (FileNode c)"
  from assms(1) have "f' (cas_path_for_integrity sv ds i) = f (cas_path_for_integrity sv ds i) \<or>
      (\<exists>j c. cas_path_for_integrity sv ds i = cas_path_for_integrity sv ds j \<and>
        f' (cas_path_for_integrity sv ds i) = Some (FileNode c) \<and> ds_check sv j c = None)"
    unfolding store_step_def using paths_apart [OF assms(2)] by metis
  with assms(3) c show "\<exists>j. cas_path_for_integrity sv ds j = cas_path_for_integrity sv ds i \<and>
      ds_check sv j c = None"
    unfolding cas_checked_def by fastforce
qed

lemma expand_deps_cas:
  assumes "unpacks_below sv" and "safe_archives sv"
  shows "\<forall>dep \<in> set deps. plain_dep_name (dep_name dep) \<Longrightarrow> cas_checked sv ds f \<Longrightarrow>
    expand_deps sv ds deps f = (r, f') \<Longrightarrow> cas_checked sv ds f'"
proof (induction deps arbitrary: f)
  case (Cons dep deps)
  from Cons.prems(3) show ?case
    unfolding expand_deps.simps
  proof (cases rule: and_then_cases)
    case (fail e)
    with Cons.prems expand_one_step [OF assms] store_step_cas show ?thesis by fastforce
  next
    case (go f1)
    with Cons.prems expand_one_step [OF assms] store_step_cas have "cas_checked sv ds f1" by fastforce
    with Cons go show ?thesis by simp
  qed
qed simp


section \<open>What a marker stands for\<close>

text \<open>\<open>complete\<close>: below the dependency's directory is what providing a dependency with this hash put
  there, from nothing, without an error.\<close>

definition complete :: "dep_services \<Rightarrow> disk_store \<Rightarrow> string \<Rightarrow> string \<Rightarrow> fs \<Rightarrow> bool" where
  "complete sv ds name h f \<longleftrightarrow> (\<exists>dep g g'. dep_name dep = name \<and> current_hash sv dep = h \<and>
     g (dep_path ds name) = None \<and> provide_dep sv ds dep g = (Inr (), g') \<and>
     (\<forall>q. prefix (dep_path ds name) q \<longrightarrow> f q = g' q))"

definition markers_true :: "dep_services \<Rightarrow> disk_store \<Rightarrow> fs \<Rightarrow> bool" where
  "markers_true sv ds f \<longleftrightarrow> (\<forall>name h. plain_dep_name name \<longrightarrow>
     f (dep_marker_path ds name) = Some (FileNode h) \<longrightarrow> f (dep_path ds name) \<noteq> None \<longrightarrow>
     complete sv ds name h f)"

lemma complete_cong:
  "complete sv ds name h f \<Longrightarrow> (\<And>q. prefix (dep_path ds name) q \<Longrightarrow> f' q = f q) \<Longrightarrow>
   complete sv ds name h f'"
  unfolding complete_def by metis

lemma store_step_other:
  assumes "store_step sv ds name f f'" and "plain_dep_name name" "plain_dep_name m" "m \<noteq> name"
  shows "f' (dep_marker_path ds m) = f (dep_marker_path ds m)"
    and "prefix (dep_path ds m) q \<Longrightarrow> f' q = f q"
proof -
  show "f' (dep_marker_path ds m) = f (dep_marker_path ds m)"
    using assms marker_apart [of name ds m] markers_apart [of m name ds]
    unfolding store_step_def by (metis paths_apart(3))
  show "prefix (dep_path ds m) q \<Longrightarrow> f' q = f q"
    using assms dep_paths_apart [of m name ds q] marker_apart [of m ds name]
      paths_apart(1) [OF assms(3), of ds sv]
    unfolding store_step_def by blast
qed

lemma markers_true_other:
  assumes "store_step sv ds name f f'" and "plain_dep_name name" and "markers_true sv ds f"
    and "\<And>h. f' (dep_marker_path ds name) = Some (FileNode h) \<Longrightarrow> f' (dep_path ds name) \<noteq> None \<Longrightarrow>
      complete sv ds name h f'"
  shows "markers_true sv ds f'"
  unfolding markers_true_def
proof (intro allI impI)
  fix m h
  assume m: "plain_dep_name m" "f' (dep_marker_path ds m) = Some (FileNode h)" "f' (dep_path ds m) \<noteq> None"
  show "complete sv ds m h f'"
  proof (cases "m = name")
    case False
    note other = store_step_other [OF assms(1,2) m(1) False]
    with m assms(3) have "complete sv ds m h f" unfolding markers_true_def by simp
    then show ?thesis using other(2) by (rule complete_cong)
  qed (use m assms(4) in blast)
qed

lemma discard_stale_success:
  assumes "discard_stale sv ds dep f = (Inr u, f')"
  shows "f' (dep_path ds (dep_name dep)) = None \<or>
    f' = f \<and> f (dep_marker_path ds (dep_name dep)) = Some (FileNode (current_hash sv dep))"
  using assms
  by (auto simp: discard_stale_def Let_def split: option.splits fs_node.splits if_splits
      dest: remove_existing_gone)

lemma write_marker_below:
  "plain_dep_name (dep_name dep) \<Longrightarrow> write_marker sv ds dep f = (r, f') \<Longrightarrow>
   prefix (dep_path ds (dep_name dep)) q \<Longrightarrow> f' q = f q"
  using marker_apart [of "dep_name dep" ds "dep_name dep"]
  by (auto simp: write_marker_def Let_def split: if_splits option.splits)

lemma expand_one_complete:
  assumes sv: "unpacks_below sv" "safe_archives sv" and name: "plain_dep_name (dep_name dep)"
    and inv: "markers_true sv ds f" and hash: "current_hash sv dep \<noteq> []"
    and one: "expand_one sv ds dep f = (Inr (), f')"
  shows "markers_true sv ds f' \<and> complete sv ds (dep_name dep) (current_hash sv dep) f' \<and>
    f' (dep_marker_path ds (dep_name dep)) = Some (FileNode (current_hash sv dep))"
proof -
  let ?p = "dep_path ds (dep_name dep)" and ?m = "dep_marker_path ds (dep_name dep)"
    and ?h = "current_hash sv dep"
  obtain f1 f2 where f1: "discard_stale sv ds dep f = (Inr (), f1)"
    and f2: "provide_dep sv ds dep f1 = (Inr (), f2)" and f': "write_marker sv ds dep f2 = (Inr (), f')"
    using one by (auto simp: expand_one_def elim!: and_then_cases)
  have "complete sv ds (dep_name dep) ?h f2"
  proof (cases "f1 ?p = None")
    case True
    with f2 show ?thesis unfolding complete_def by blast
  next
    case False
    with discard_stale_success [OF f1] have "f1 = f" "f ?m = Some (FileNode ?h)" by auto
    moreover from False f2 have "f2 = f1" by (simp add: provide_dep_def)
    ultimately show ?thesis using inv name False unfolding markers_true_def by auto
  qed
  then have done_one: "complete sv ds (dep_name dep) ?h f'"
    by (rule complete_cong) (rule write_marker_below [OF name f'])
  have marker: "f' ?m = Some (FileNode ?h)"
    using f' hash by (auto simp: write_marker_def Let_def split: option.splits)
  have "markers_true sv ds f'"
    using expand_one_step [OF sv one] name inv
    by (rule markers_true_other) (simp add: marker done_one)
  with done_one marker show ?thesis by simp
qed

lemma expand_deps_other:
  assumes "unpacks_below sv" "safe_archives sv" and "plain_dep_name m"
  shows "\<forall>dep \<in> set deps. plain_dep_name (dep_name dep) \<and> dep_name dep \<noteq> m \<Longrightarrow>
    expand_deps sv ds deps f = (r, f') \<Longrightarrow>
    f' (dep_marker_path ds m) = f (dep_marker_path ds m) \<and>
    (\<forall>q. prefix (dep_path ds m) q \<longrightarrow> f' q = f q)"
proof (induction deps arbitrary: f)
  case (Cons dep deps)
  have step: "g (dep_marker_path ds m) = f (dep_marker_path ds m) \<and>
      (\<forall>q. prefix (dep_path ds m) q \<longrightarrow> g q = f q)" if "expand_one sv ds dep f = (x, g)" for x g
    using store_step_other [OF expand_one_step [OF assms(1,2) that] _ assms(3)] Cons.prems(1) by auto
  from Cons.prems(2) show ?case
    unfolding expand_deps.simps
  proof (cases rule: and_then_cases)
    case (fail e)
    with step show ?thesis by blast
  next
    case (go f1)
    with step [OF go(1)] Cons show ?thesis by simp
  qed
qed simp

lemma expand_deps_complete:
  assumes sv: "unpacks_below sv" "safe_archives sv"
  shows "\<forall>dep \<in> set deps. plain_dep_name (dep_name dep) \<and> current_hash sv dep \<noteq> [] \<Longrightarrow>
    distinct (map dep_name deps) \<Longrightarrow> markers_true sv ds f \<Longrightarrow> expand_deps sv ds deps f = (Inr (), f') \<Longrightarrow>
    markers_true sv ds f' \<and> (\<forall>dep \<in> set deps.
      complete sv ds (dep_name dep) (current_hash sv dep) f' \<and>
      f' (dep_marker_path ds (dep_name dep)) = Some (FileNode (current_hash sv dep)))"
proof (induction deps arbitrary: f)
  case (Cons dep deps)
  obtain f1 where f1: "expand_one sv ds dep f = (Inr (), f1)"
    and rest: "expand_deps sv ds deps f1 = (Inr (), f')"
    using Cons.prems(4) by (auto elim!: and_then_cases)
  from expand_one_complete [OF sv _ Cons.prems(3) _ f1] Cons.prems(1)
  have one: "markers_true sv ds f1" "complete sv ds (dep_name dep) (current_hash sv dep) f1"
    "f1 (dep_marker_path ds (dep_name dep)) = Some (FileNode (current_hash sv dep))"
    by simp_all
  have "dep_name d \<noteq> dep_name dep" if "d \<in> set deps" for d
    using Cons.prems(2) that by (auto simp: image_iff)
  with expand_deps_other [OF sv _ _ rest, of "dep_name dep"] Cons.prems(1)
  have kept: "f' (dep_marker_path ds (dep_name dep)) = f1 (dep_marker_path ds (dep_name dep))"
    "\<And>q. prefix (dep_path ds (dep_name dep)) q \<Longrightarrow> f' q = f1 q"
    by simp_all
  from one(2) kept(2) have "complete sv ds (dep_name dep) (current_hash sv dep) f'"
    by (rule complete_cong)
  with one kept(1) Cons.IH [OF _ _ one(1) rest] Cons.prems(1,2) show ?case by simp
qed simp


text \<open>The modules whose tasks are used come back sorted by name.\<close>

lemma expand_store_roots:
  assumes "all = map (\<lambda>(name, p). LocalDep name p True) builtins @ deps"
    and "expand_store sv ds builtins deps f = (Inr roots, f')"
  shows "sorted (map fst roots) \<and>
    set roots = (\<lambda>d. (dep_name d, dep_path ds (dep_name d))) ` {d \<in> set all. auto_use d}"
  using assms(2)
  by (auto simp: expand_store_def assms(1) [symmetric] Let_def
      split: prod.splits sum.splits option.splits)

section \<open>A small store\<close>

definition sample_store_services :: dep_services where
  "sample_store_services =
     \<lparr>ds_sha = (\<lambda>s. ''sha:'' @ s), ds_io = (\<lambda>_ _. None), ds_get = (\<lambda>url. Inr ''gz''),
      ds_check = (\<lambda>i bytes. if i = ''i'' \<and> bytes = ''gz'' then None else Some ''mismatch''),
      ds_hash = (\<lambda>_. ''i''), ds_hex = (\<lambda>i. (''sha512'', i)),
      ds_entries = (\<lambda>raw. Inr [Inr \<lparr>te_path = [NormalComp ''lib'', NormalComp ''a.axl''],
        te_is_link = False, te_data = raw\<rparr>]),
      ds_unpack = (\<lambda>e dst f. Inr (f(dst \<mapsto> FileNode (te_data e))))\<rparr>"

definition sample_store :: disk_store where
  "sample_store = \<lparr>cache_root = [RootDir], root_sha = ''r''\<rparr>"

definition sample_dep :: "string \<Rightarrow> axl_dep" where
  "sample_dep strip = RemoteDep ''m'' [''u''] (Some ''i'') strip False"

definition sample_expand :: "axl_dep \<Rightarrow> fs \<Rightarrow> (store_error + unit) \<times> fs" where
  "sample_expand dep f = expand_deps sample_store_services sample_store [dep] f"

lemma sample_services_safe: "unpacks_below sample_store_services" "safe_archives sample_store_services"
  by (auto simp: unpacks_below_def safe_archives_def stays_below_def sample_store_services_def
      prefix_def)

lemma sample_first_run: "fst (sample_expand (sample_dep ''lib'') (\<lambda>_. None)) = Inr ()"
  by code_simp

lemma sample_expand_store:
  "expand_store sample_store_services sample_store [] [sample_dep ''lib''] (\<lambda>_. None) =
     (Inr [], snd (sample_expand (sample_dep ''lib'') (\<lambda>_. None)))"
  using sample_first_run
  by (auto simp: expand_store_def sample_expand_def sample_dep_def sample_store_services_def
      split: prod.splits)



section \<open>Deviations\<close>

text \<open>
  A marker outlives its directory: when the configuration changes, the directory is removed but
  not the marker, so after a failed expansion the old marker stands next to the remains of the
  new one. Going back to the old configuration then succeeds without expanding anything. Here
  a wrong \<open>strip_prefix\<close> fails, and restoring the right one leaves the module empty.
\<close>

lemma failed_change_then_revert_loses_files:
  "let a = [RootDir, NormalComp ''deps'', NormalComp ''r'', NormalComp ''m'', NormalComp ''a.axl''];
       (r1, f1) = sample_expand (sample_dep ''lib'') (\<lambda>_. None);
       (r2, f2) = sample_expand (sample_dep ''wrong'') f1;
       (r3, f3) = sample_expand (sample_dep ''lib'') f2
   in (r1 = Inr () \<and> f1 a = Some (FileNode ''gz'')) \<and> r2 \<noteq> Inr () \<and> (r3 = Inr () \<and> f3 a = None)"
  by code_simp

text \<open>A dependency without URLs whose archive is not in the store ends in a panic.\<close>

lemma no_urls_panics:
  assumes "f (dep_path ds name) = None" and "f (cas_path_for_integrity sv ds i) = None"
    and "ds_io sv CreateDir (butlast (cas_path_for_integrity sv ds i)) = None"
  shows "fst (provide_dep sv ds (RemoteDep name [] (Some i) strip auto) f) = Inl Panicked"
  using assms by (simp add: provide_dep_def and_then_def)

text \<open>An archive entry with an absolute path is unpacked there, outside the dependency's directory.\<close>

lemma absolute_entry_escapes:
  "ds_unpack sv \<lparr>te_path = [RootDir, NormalComp x], te_is_link = False, te_data = c\<rparr>
     [RootDir, NormalComp x] f = Inr f' \<Longrightarrow>
   expand_entries sv dest [] [Inr \<lparr>te_path = [RootDir, NormalComp x], te_is_link = False, te_data = c\<rparr>]
     False f = (Inr True, f')"
  by (simp add: path_components_def starts_with_def path_push_def)

lemma parent_entry_escapes:
  "ds_unpack sv \<lparr>te_path = ParentDir # rest, te_is_link = False, te_data = c\<rparr>
     (dest @ ParentDir # rest) f = Inr f' \<Longrightarrow>
   expand_entries sv dest [] [Inr \<lparr>te_path = ParentDir # rest, te_is_link = False, te_data = c\<rparr>]
     False f = (Inr True, f')"
  by (simp add: path_components_def starts_with_def path_push_def)

end
