(* ===== verification/Launcher_Config.thy ===== *)
theory Launcher_Config
  imports Rust_Path "HOL-Library.AList"
begin

text \<open>
  The launcher's configuration (crates/aspect-launcher/src/config.rs): which directory is the
  project root, which \<open>version.axl\<close> is read, and how its \<open>version(...)\<close> call becomes the pinned
  version and the list of sources. The Starlark parser is not under src/: the model starts from
  the syntax tree, as far as the code matches on it, and \<open>OtherExpr\<close>, \<open>OtherStmt\<close> stand for every
  other node. The file system is the arguments \<open>exists\<close> and \<open>read_cfg\<close>.
\<close>

section \<open>Project root\<close>

definition aspect_boundary_files :: "string list" where
  "aspect_boundary_files = [''MODULE.aspect'', ''.aspect/version.axl'']"

definition bazel_boundary_files :: "string list" where
  "bazel_boundary_files =
     [''MODULE.bazel'', ''MODULE.bazel.lock'', ''REPO.bazel'', ''WORKSPACE'', ''WORKSPACE.bazel'']"

function path_ancestors :: "path \<Rightarrow> path list" where
  "path_ancestors p =
     p # (case path_parent p of None \<Rightarrow> [] | Some q \<Rightarrow> path_ancestors q)"
  by pat_completeness auto
termination
  by (relation "measure length") (auto simp: path_parent_def split: if_splits)

declare path_ancestors.simps [simp del]

definition find_ancestor_with_any ::
  "(path \<Rightarrow> bool) \<Rightarrow> path \<Rightarrow> string list \<Rightarrow> path option \<Rightarrow> path option" where
  "find_ancestor_with_any exists start markers except =
     find (\<lambda>dir. list_ex (\<lambda>m. exists (path_push dir (path_components m))) markers)
       (filter (\<lambda>dir. except \<noteq> Some dir) (path_ancestors start))"

section \<open>The version file\<close>

datatype tool_source =
    GitHub string string string string
  | Http string "(string \<times> string) list"
  | Local string

record cli_config =
  sources :: "tool_source list"
  version :: "string option"

definition default_cli_sources :: "tool_source list" where
  "default_cli_sources = [GitHub ''aspect-build'' ''aspect-cli'' [] []]"

definition default_config :: cli_config where
  "default_config = \<lparr>sources = default_cli_sources, version = None\<rparr>"

datatype ast_expr =
    StringLit string
  | Identifier string
  | CallExpr ast_expr "ast_arg list"
  | ListExpr "ast_expr list"
  | DictExpr "(ast_expr \<times> ast_expr) list"
  | OtherExpr
and ast_arg = Positional ast_expr | Named string ast_expr | Splat

datatype ast_stmt = ExprStmt ast_expr | Statements "ast_stmt list" | OtherStmt

datatype config_error =
    ExpectedString
  | UnexpectedSplat
  | MissingArgument string string
  | ExpectedSourceName
  | UnknownSource string
  | ExpectedSourceCall
  | ParseFailed string
  | NoVersionCall
  | SecondPositional
  | SourcesNotList
  | UnknownArgument string
  | ReadFailed string
  | NoCurrentDir string

fun extract_string_literal :: "ast_expr \<Rightarrow> config_error + string" where
  "extract_string_literal (StringLit s) = Inr s"
| "extract_string_literal _ = Inl ExpectedString"

fun named_loop ::
  "ast_arg list \<Rightarrow> (string \<Rightarrow> string option) \<Rightarrow> config_error + (string \<Rightarrow> string option)" where
  "named_loop [] m = Inr m"
| "named_loop (Named name e # args) m =
     (case extract_string_literal e of
        Inl err \<Rightarrow> Inl err
      | Inr v \<Rightarrow> named_loop args (m(name \<mapsto> v)))"
| "named_loop (Positional e # args) m = named_loop args m"
| "named_loop (Splat # args) m = Inl UnexpectedSplat"

definition extract_named_string_args :: "ast_arg list \<Rightarrow> config_error + (string \<Rightarrow> string option)" where
  "extract_named_string_args args = named_loop args (\<lambda>_. None)"

fun parse_local_source :: "ast_arg list \<Rightarrow> config_error + tool_source" where
  "parse_local_source [] = Inl (MissingArgument ''local'' ''path'')"
| "parse_local_source (Positional e # args) =
     (case extract_string_literal e of Inl err \<Rightarrow> Inl err | Inr p \<Rightarrow> Inr (Local p))"
| "parse_local_source (_ # args) = parse_local_source args"

definition get_or_empty :: "(string \<Rightarrow> string option) \<Rightarrow> string \<Rightarrow> string" where
  "get_or_empty m k = (case m k of Some v \<Rightarrow> v | None \<Rightarrow> [])"

definition parse_github_source :: "ast_arg list \<Rightarrow> config_error + tool_source" where
  "parse_github_source args =
     (case extract_named_string_args args of
        Inl err \<Rightarrow> Inl err
      | Inr named \<Rightarrow>
          (case named ''org'' of
             None \<Rightarrow> Inl (MissingArgument ''github'' ''org'')
           | Some org \<Rightarrow>
               (case named ''repo'' of
                  None \<Rightarrow> Inl (MissingArgument ''github'' ''repo'')
                | Some repo \<Rightarrow>
                    Inr (GitHub org repo (get_or_empty named ''tag'')
                      (get_or_empty named ''artifact'')))))"

fun dict_loop ::
  "(ast_expr \<times> ast_expr) list \<Rightarrow> (string \<times> string) list \<Rightarrow>
   config_error + (string \<times> string) list" where
  "dict_loop [] m = Inr m"
| "dict_loop ((k, v) # entries) m =
     (case extract_string_literal k of
        Inl err \<Rightarrow> Inl err
      | Inr key \<Rightarrow>
          (case extract_string_literal v of
             Inl err \<Rightarrow> Inl err
           | Inr val \<Rightarrow> dict_loop entries (AList.update key val m)))"

fun headers_loop ::
  "ast_arg list \<Rightarrow> (string \<times> string) list \<Rightarrow> config_error + (string \<times> string) list" where
  "headers_loop [] m = Inr m"
| "headers_loop (Named name (DictExpr entries) # args) m =
     (if name = ''headers'' then
        (case dict_loop entries m of Inl err \<Rightarrow> Inl err | Inr m' \<Rightarrow> headers_loop args m')
      else headers_loop args m)"
| "headers_loop (_ # args) m = headers_loop args m"

definition parse_http_source :: "ast_arg list \<Rightarrow> config_error + tool_source" where
  "parse_http_source args =
     (case extract_named_string_args args of
        Inl err \<Rightarrow> Inl err
      | Inr named \<Rightarrow>
          (case named ''url'' of
             None \<Rightarrow> Inl (MissingArgument ''http'' ''url'')
           | Some url \<Rightarrow>
               (case headers_loop args [] of
                  Inl err \<Rightarrow> Inl err
                | Inr headers \<Rightarrow> Inr (Http url headers))))"

fun parse_source :: "ast_expr \<Rightarrow> config_error + tool_source" where
  "parse_source (CallExpr (Identifier name) args) =
     (if name = ''local'' then parse_local_source args
      else if name = ''github'' then parse_github_source args
      else if name = ''http'' then parse_http_source args
      else Inl (UnknownSource name))"
| "parse_source (CallExpr _ args) = Inl ExpectedSourceName"
| "parse_source _ = Inl ExpectedSourceCall"

fun parse_sources :: "ast_expr list \<Rightarrow> config_error + tool_source list" where
  "parse_sources [] = Inr []"
| "parse_sources (e # es) =
     (case parse_source e of
        Inl err \<Rightarrow> Inl err
      | Inr src \<Rightarrow>
          (case parse_sources es of Inl err \<Rightarrow> Inl err | Inr srcs \<Rightarrow> Inr (src # srcs)))"

fun is_version_call :: "ast_stmt \<Rightarrow> bool" where
  "is_version_call (ExprStmt (CallExpr (Identifier name) args)) \<longleftrightarrow> name = ''version''"
| "is_version_call _ \<longleftrightarrow> False"

fun version_expr :: "ast_stmt \<Rightarrow> ast_expr option" where
  "version_expr (ExprStmt e) = Some e"
| "version_expr (Statements stmts) =
     (case find is_version_call stmts of Some (ExprStmt e) \<Rightarrow> Some e | _ \<Rightarrow> None)"
| "version_expr OtherStmt = None"

fun version_args ::
  "ast_arg list \<Rightarrow> string option \<Rightarrow> tool_source list option \<Rightarrow>
   config_error + (string option \<times> tool_source list option)" where
  "version_args [] ver srcs = Inr (ver, srcs)"
| "version_args (Positional e # args) ver srcs =
     (if ver = None then
        (case extract_string_literal e of
           Inl err \<Rightarrow> Inl err
         | Inr v \<Rightarrow> version_args args (Some v) srcs)
      else Inl SecondPositional)"
| "version_args (Named name e # args) ver srcs =
     (if name = ''sources'' then
        (case e of
           ListExpr items \<Rightarrow>
             (case parse_sources items of
                Inl err \<Rightarrow> Inl err
              | Inr list \<Rightarrow> version_args args ver (Some list))
         | _ \<Rightarrow> Inl SourcesNotList)
      else Inl (UnknownArgument name))"
| "version_args (Splat # args) ver srcs = Inl UnexpectedSplat"

definition parse_version_axl :: "(string \<Rightarrow> string + ast_stmt) \<Rightarrow> string \<Rightarrow> config_error + cli_config" where
  "parse_version_axl parse content =
     (case parse content of
        Inl msg \<Rightarrow> Inl (ParseFailed msg)
      | Inr root \<Rightarrow>
          (case version_expr root of
             Some (CallExpr (Identifier name) args) \<Rightarrow>
               if name = ''version'' then
                 (case version_args args None None of
                    Inl err \<Rightarrow> Inl err
                  | Inr (ver, srcs) \<Rightarrow>
                      Inr \<lparr>sources = (case srcs of Some l \<Rightarrow> l | None \<Rightarrow> default_cli_sources),
                           version = ver\<rparr>)
               else Inl NoVersionCall
           | _ \<Rightarrow> Inl NoVersionCall))"

section \<open>Which configuration\<close>

datatype read_result = NotFound | IoError string | Contents string

definition load_config ::
  "(string \<Rightarrow> string + ast_stmt) \<Rightarrow> (path \<Rightarrow> read_result) \<Rightarrow> path \<Rightarrow> config_error + cli_config" where
  "load_config parse read_cfg p =
     (case read_cfg p of
        Contents c \<Rightarrow> parse_version_axl parse c
      | NotFound \<Rightarrow> Inr default_config
      | IoError e \<Rightarrow> Inl (ReadFailed e))"

definition version_axl_in :: "path \<Rightarrow> path" where
  "version_axl_in dir = path_push dir (path_components ''.aspect/version.axl'')"

definition resolve_config ::
  "(string \<Rightarrow> string + ast_stmt) \<Rightarrow> (path \<Rightarrow> bool) \<Rightarrow> (path \<Rightarrow> read_result) \<Rightarrow> path \<Rightarrow> path option \<Rightarrow>
   config_error + cli_config" where
  "resolve_config parse exists read_cfg root_dir home_dir =
     (if exists (version_axl_in root_dir) then load_config parse read_cfg (version_axl_in root_dir)
      else (case home_dir of
          Some h \<Rightarrow>
            if exists (version_axl_in h) then load_config parse read_cfg (version_axl_in h)
            else Inr default_config
        | None \<Rightarrow> Inr default_config))"

definition autoconf ::
  "(string \<Rightarrow> string + ast_stmt) \<Rightarrow> (path \<Rightarrow> bool) \<Rightarrow> (path \<Rightarrow> read_result) \<Rightarrow> string + path \<Rightarrow>
   path option \<Rightarrow> config_error + (path \<times> cli_config)" where
  "autoconf parse exists read_cfg cwd home_dir =
     (case cwd of
        Inl e \<Rightarrow> Inl (NoCurrentDir e)
      | Inr current_dir \<Rightarrow>
          (let root_dir =
             (case find_ancestor_with_any exists current_dir aspect_boundary_files home_dir of
                Some d \<Rightarrow> d
              | None \<Rightarrow>
                  (case find_ancestor_with_any exists current_dir bazel_boundary_files None of
                     Some d \<Rightarrow> d
                   | None \<Rightarrow> current_dir))
           in case resolve_config parse exists read_cfg root_dir home_dir of
                Inl err \<Rightarrow> Inl err
              | Inr config \<Rightarrow> Inr (root_dir, config)))"

section \<open>The root is the nearest marked directory\<close>

lemma path_ancestors_smaller:
  "e \<in> set (tl (path_ancestors p)) \<Longrightarrow> length e < length p"
proof (induction p arbitrary: e rule: path_ancestors.induct)
  case (1 p)
  have "set (tl (path_ancestors p)) =
      (case path_parent p of None \<Rightarrow> {} | Some q \<Rightarrow> set (path_ancestors q))"
    by (subst path_ancestors.simps) (simp split: option.splits)
  with "1.prems" obtain q where q: "path_parent p = Some q" "e \<in> set (path_ancestors q)"
    by (auto split: option.splits)
  then have "length q < length p" by (auto simp: path_parent_def split: if_splits)
  moreover have "e = q \<or> length e < length q"
    using 1 q by (subst (asm) path_ancestors.simps) (auto simp: path_ancestors.simps [of q])
  ultimately show ?case by auto
qed

lemma path_ancestors_sorted: "sorted_wrt (\<lambda>d e. length e < length d) (path_ancestors p)"
proof (induction p rule: path_ancestors.induct)
  case (1 p)
  show ?case
  proof (cases "path_parent p")
    case (Some q)
    then have "path_ancestors p = p # path_ancestors q"
      by (subst path_ancestors.simps) simp
    with 1 [OF Some] path_ancestors_smaller [of _ p] show ?thesis by simp
  qed (subst path_ancestors.simps, simp)
qed

lemma find_sorted_wrt:
  assumes "sorted_wrt R xs" and "find P (filter Q xs) = Some x"
  shows "x \<in> set xs \<and> P x \<and> Q x \<and> (\<forall>y \<in> set xs. P y \<and> Q y \<and> y \<noteq> x \<longrightarrow> R x y)"
  using assms by (induction xs) (auto split: if_splits)

definition marked :: "(path \<Rightarrow> bool) \<Rightarrow> string list \<Rightarrow> path \<Rightarrow> bool" where
  "marked exists markers dir \<longleftrightarrow> (\<exists>m \<in> set markers. exists (path_push dir (path_components m)))"

lemma find_ancestor_Some:
  assumes "find_ancestor_with_any exists start markers except = Some d"
  shows "d \<in> set (path_ancestors start) \<and> marked exists markers d \<and> except \<noteq> Some d \<and>
    (\<forall>e \<in> set (path_ancestors start). marked exists markers e \<and> except \<noteq> Some e \<and> e \<noteq> d \<longrightarrow>
      length e < length d)"
  using find_sorted_wrt [OF path_ancestors_sorted] assms
  unfolding find_ancestor_with_any_def marked_def list_ex_iff by blast

lemma find_ancestor_None:
  "find_ancestor_with_any exists start markers except = None \<longleftrightarrow>
   (\<forall>e \<in> set (path_ancestors start). marked exists markers e \<longrightarrow> except = Some e)"
  by (auto simp: find_ancestor_with_any_def find_None_iff marked_def list_ex_iff)

definition nearest :: "(path \<Rightarrow> bool) \<Rightarrow> path \<Rightarrow> path \<Rightarrow> bool" where
  "nearest P start d \<longleftrightarrow> d \<in> set (path_ancestors start) \<and> P d \<and>
     (\<forall>e \<in> set (path_ancestors start). P e \<and> e \<noteq> d \<longrightarrow> length e < length d)"

text \<open>The project root is the nearest directory at or above the working directory that marks an
  Aspect project, the home directory never counting; only when there is none at all it is the
  nearest Bazel repository, and only when there is no such either the working directory.\<close>

theorem autoconf_root:
  assumes "autoconf parse exists read_cfg (Inr cwd) home = Inr (root, cfg)"
  shows "let aspect = (\<lambda>d. marked exists aspect_boundary_files d \<and> home \<noteq> Some d);
             bazel = marked exists bazel_boundary_files;
             above = set (path_ancestors cwd)
    in nearest aspect cwd root \<or>
      (\<forall>d \<in> above. \<not> aspect d) \<and> nearest bazel cwd root \<or>
      (\<forall>d \<in> above. \<not> aspect d \<and> \<not> bazel d) \<and> root = cwd"
proof (cases "find_ancestor_with_any exists cwd aspect_boundary_files home")
  case (Some d)
  with assms find_ancestor_Some [OF Some] show ?thesis
    by (auto simp: autoconf_def Let_def nearest_def split: sum.splits)
next
  case none: None
  show ?thesis
  proof (cases "find_ancestor_with_any exists cwd bazel_boundary_files None")
    case (Some d)
    with assms none find_ancestor_Some [OF Some] show ?thesis
      by (auto simp: autoconf_def Let_def nearest_def find_ancestor_None split: sum.splits)
  next
    case None
    with assms none show ?thesis
      by (auto simp: autoconf_def Let_def find_ancestor_None split: sum.splits)
  qed
qed

theorem autoconf_root_witness:
  "nearest (\<lambda>d. marked (\<lambda>p. p \<in> set (map path_components
       [''/h/m/MODULE.bazel'', ''/h/m/p/.aspect/version.axl'', ''/h/.aspect/version.axl'']))
       aspect_boundary_files d \<and> Some (path_components ''/h'') \<noteq> Some d)
     (path_components ''/h/m/p/q'') (path_components ''/h/m/p'')"
proof -
  let ?exists = "\<lambda>p. p \<in> set (map path_components
      [''/h/m/MODULE.bazel'', ''/h/m/p/.aspect/version.axl'', ''/h/.aspect/version.axl''])"
  have "autoconf (\<lambda>_. Inl []) ?exists (\<lambda>_. NotFound) (Inr (path_components ''/h/m/p/q''))
      (Some (path_components ''/h'')) = Inr (path_components ''/h/m/p'', default_config)"
    by code_simp
  from autoconf_root [OF this] have "nearest (\<lambda>d. marked ?exists aspect_boundary_files d \<and>
        Some (path_components ''/h'') \<noteq> Some d)
      (path_components ''/h/m/p/q'') (path_components ''/h/m/p'') \<or>
    (\<forall>d \<in> set (path_ancestors (path_components ''/h/m/p/q'')).
       \<not> (marked ?exists aspect_boundary_files d \<and> Some (path_components ''/h'') \<noteq> Some d))"
    by (auto simp: Let_def)
  moreover have "\<exists>d \<in> set (path_ancestors (path_components ''/h/m/p/q'')).
      marked ?exists aspect_boundary_files d \<and> Some (path_components ''/h'') \<noteq> Some d"
    by code_simp
  ultimately show ?thesis by blast
qed

section \<open>Writing a version file and reading it back\<close>

text \<open>The call that configures a source, and a \<open>version(...)\<close> call with a list of sources.\<close>

definition header_entries :: "(string \<times> string) list \<Rightarrow> (ast_expr \<times> ast_expr) list" where
  "header_entries hs = map (\<lambda>(k, v). (StringLit k, StringLit v)) hs"

primrec source_expr :: "tool_source \<Rightarrow> ast_expr" where
  "source_expr (GitHub org repo tag artifact) =
     CallExpr (Identifier ''github'')
       [Named ''org'' (StringLit org), Named ''repo'' (StringLit repo),
        Named ''tag'' (StringLit tag), Named ''artifact'' (StringLit artifact)]"
| "source_expr (Http url headers) =
     CallExpr (Identifier ''http'')
       (Named ''url'' (StringLit url) #
        (if headers = [] then [] else [Named ''headers'' (DictExpr (header_entries headers))]))"
| "source_expr (Local p) = CallExpr (Identifier ''local'') [Positional (StringLit p)]"

definition version_call :: "cli_config \<Rightarrow> ast_stmt" where
  "version_call cfg = ExprStmt (CallExpr (Identifier ''version'')
     ((case version cfg of Some v \<Rightarrow> [Positional (StringLit v)] | None \<Rightarrow> []) @
      [Named ''sources'' (ListExpr (map source_expr (sources cfg)))]))"

fun has_headers :: "tool_source \<Rightarrow> bool" where
  "has_headers (Http url headers) \<longleftrightarrow> headers \<noteq> []"
| "has_headers _ \<longleftrightarrow> False"

lemma parse_source_expr: "\<not> has_headers src \<Longrightarrow> parse_source (source_expr src) = Inr src"
  by (cases src)
    (simp_all add: parse_github_source_def parse_http_source_def extract_named_string_args_def
      get_or_empty_def)

lemma parse_sources_exprs:
  "list_all (\<lambda>s. \<not> has_headers s) srcs \<Longrightarrow> parse_sources (map source_expr srcs) = Inr srcs"
  by (induction srcs) (simp_all add: parse_source_expr)

lemma version_expr_statements:
  "list_all (\<lambda>s. \<not> is_version_call s) before \<Longrightarrow>
   version_expr (Statements (before @ ExprStmt (CallExpr (Identifier ''version'') args) # rest)) =
     Some (CallExpr (Identifier ''version'') args)"
  by (induction before) auto

text \<open>A \<open>version()\<close> call that spells out a configuration is read back as that configuration, alone
  in the file or after any statements that are not \<open>version()\<close> calls, for every pinned or
  unpinned version and every list of sources without HTTP headers.\<close>

theorem version_file_reads_back:
  assumes "list_all (\<lambda>s. \<not> has_headers s) (sources cfg)"
    and "parse text = Inr (version_call cfg) \<or>
      (\<exists>before rest. parse text = Inr (Statements (before @ version_call cfg # rest)) \<and>
        list_all (\<lambda>s. \<not> is_version_call s) before)"
  shows "parse_version_axl parse text = Inr cfg"
proof -
  define args where "args = (case version cfg of Some v \<Rightarrow> [Positional (StringLit v)] | None \<Rightarrow> []) @
      [Named ''sources'' (ListExpr (map source_expr (sources cfg)))]"
  have call: "version_call cfg = ExprStmt (CallExpr (Identifier ''version'') args)"
    by (simp add: version_call_def args_def)
  have "version_args args None None = Inr (version cfg, Some (sources cfg))"
    using assms(1) by (auto simp: args_def parse_sources_exprs split: option.splits)
  moreover obtain root where "parse text = Inr root"
    "version_expr root = Some (CallExpr (Identifier ''version'') args)"
    using assms(2) version_expr_statements [of _ args] by (auto simp: call)
  ultimately show ?thesis by (simp add: parse_version_axl_def)
qed

theorem version_file_reads_back_witness:
  "parse_version_axl (\<lambda>_. Inr (Statements [OtherStmt,
       version_call \<lparr>sources = [Local ''bin/cli'', GitHub ''o'' ''r'' [] []], version = Some ''1.2''\<rparr>])) ''x'' =
   Inr \<lparr>sources = [Local ''bin/cli'', GitHub ''o'' ''r'' [] []], version = Some ''1.2''\<rparr>"
proof (rule version_file_reads_back, simp, rule disjI2, intro exI conjI)
  show "list_all (\<lambda>s. \<not> is_version_call s) [OtherStmt]" by simp
qed simp

text \<open>
  A source with headers cannot be configured: the named arguments are first read as strings, and
  the headers are a dict. The same call is an error whatever the entries are.
\<close>

lemma http_headers_always_rejected:
  "has_headers src \<Longrightarrow> parse_source (source_expr src) = Inl ExpectedString"
  by (cases src) (simp_all add: parse_http_source_def extract_named_string_args_def)

lemma headers_that_are_no_dict_are_dropped:
  "parse_source (CallExpr (Identifier ''http'')
     [Named ''url'' (StringLit u), Named ''headers'' (StringLit h)]) = Inr (Http u [])"
  by (simp add: parse_http_source_def extract_named_string_args_def)

end
