(* ===== verification/Launcher_Fetch.thy ===== *)
theory Launcher_Fetch
  imports Launcher_Config Utf8
begin

text \<open>
  How the launcher obtains the CLI binary (crates/aspect-launcher/src/main.rs and cache.rs): the
  sources in order, the download cache, the 24-hour hint of the latest tag, retries and
  fallbacks. The state is the file system and the requests made so far. The network is the
  argument \<open>sv_get\<close>/\<open>sv_releases\<close> of the services, which may answer each request differently (they
  are given the number of earlier requests); SHA-256, the platform names and the clock are
  arguments too, and \<open>sv_io\<close> says which file operations fail.
\<close>

section \<open>Errors\<close>

datatype io_kind =
    ConnectionRefused | ConnectionReset | ConnectionAborted | TimedOut | HostUnreachable
  | NetworkUnreachable | NetworkDown | OtherKind

text \<open>A report is its chain of causes, outermost first; a cause may be an I/O error.\<close>

datatype cause = Cause (cause_kind: "io_kind option") (cause_text: string)

type_synonym report = "cause list"

definition error_chain :: "report \<Rightarrow> string" where
  "error_chain err = join '': '' (map cause_text err)"

definition transient_messages :: "string list" where
  "transient_messages =
     [''error sending request'', ''http2 error'', ''connection closed'', ''connection reset'',
      ''operation timed out'', ''dns error'', ''HTTP status server error'',
      ''429 Too Many Requests'']"

definition is_transient_network_error :: "report \<Rightarrow> bool" where
  "is_transient_network_error err \<longleftrightarrow>
     list_ex (\<lambda>c. case cause_kind c of
         Some k \<Rightarrow> k \<noteq> OtherKind
       | None \<Rightarrow> list_ex (\<lambda>m. contains_sub m (cause_text c)) transient_messages) err"

record source_failure =
  failed_source :: string
  failure_error :: report
  transient :: bool

definition new_failure :: "string \<Rightarrow> report \<Rightarrow> source_failure" where
  "new_failure src err =
     \<lparr>failed_source = src, failure_error = err, transient = is_transient_network_error err\<rparr>"

section \<open>Services and state\<close>

datatype io_op =
    CreateTmp | MakeDirs | WriteFile | RenameFile | RemoveFile | CopyFile | Stat | SetMode

datatype response =
    SendError report
  | StatusError report
  | Streamed "nat option" string "report option"

record release =
  tag_name :: string
  prerelease :: bool
  assets :: "string list"

datatype releases_answer =
    ApiUnreachable report
  | ApiStatus nat string
  | ApiUnparsed report
  | ApiReleases "release list"

record services =
  sv_now :: int
  sv_sha :: "string \<Rightarrow> string"
  sv_short_version :: string
  sv_goos :: string
  sv_bzlarch :: string
  sv_llvm_triple :: string
  sv_debug_cli :: bool
  sv_io :: "io_op \<Rightarrow> path \<Rightarrow> report option"
  sv_bad_request :: "string \<Rightarrow> report option"
  sv_get :: "nat \<Rightarrow> string \<Rightarrow> response"
  sv_releases :: "nat \<Rightarrow> string \<Rightarrow> releases_answer"

datatype request = AssetRequest string | ApiRequest string

record world =
  w_files :: "path \<Rightarrow> string option"
  w_mtime :: "path \<Rightarrow> int"
  w_requests :: "request list"
  w_slept :: "nat list"

definition write_file :: "services \<Rightarrow> path \<Rightarrow> string \<Rightarrow> world \<Rightarrow> world" where
  "write_file sv p c w = w\<lparr>w_files := (w_files w)(p \<mapsto> c), w_mtime := (w_mtime w)(p := sv_now sv)\<rparr>"

definition delete_file :: "path \<Rightarrow> world \<Rightarrow> world" where
  "delete_file p w = w\<lparr>w_files := (w_files w)(p := None)\<rparr>"

definition file_exists :: "world \<Rightarrow> path \<Rightarrow> bool" where
  "file_exists w p \<longleftrightarrow> w_files w p \<noteq> None"

definition read_text :: "world \<Rightarrow> path \<Rightarrow> string option" where
  "read_text w p = (case w_files w p of
     Some c \<Rightarrow> if valid_utf8 c then Some c else None | None \<Rightarrow> None)"

section \<open>Names, cache paths and the hint\<close>

definition replace_vars :: "services \<Rightarrow> string \<Rightarrow> string \<Rightarrow> string" where
  "replace_vars sv s ver =
     replace_sub ''{target}'' (sv_llvm_triple sv)
       (replace_sub ''{arch}'' (sv_bzlarch sv)
         (replace_sub ''{os}'' (sv_goos sv) (replace_sub ''{version}'' ver s)))"

definition default_artifact :: "services \<Rightarrow> string \<Rightarrow> bool \<Rightarrow> string" where
  "default_artifact sv repo debug =
     (if debug then repo @ ''-debug-'' @ sv_llvm_triple sv else repo @ ''-'' @ sv_llvm_triple sv)"

definition release_asset_url :: "string \<Rightarrow> string \<Rightarrow> string \<Rightarrow> string \<Rightarrow> string" where
  "release_asset_url org repo tag artifact =
     ''https://github.com/'' @ org @ ''/'' @ repo @ ''/releases/download/'' @ tag @ ''/'' @ artifact"

definition tool_path :: "services \<Rightarrow> path \<Rightarrow> string \<Rightarrow> string \<Rightarrow> path" where
  "tool_path sv root tool src =
     path_push root (path_components
       (''bin/'' @ tool @ ''/'' @ sv_sha sv (tool @ src) @ ''/'' @ tool))"

definition latest_tag_path :: "services \<Rightarrow> path \<Rightarrow> string \<Rightarrow> string \<Rightarrow> string \<Rightarrow> string \<Rightarrow> path" where
  "latest_tag_path sv root tool org repo artifact =
     path_push root (path_components (''latest/'' @ sv_sha sv (tool @ org @ repo @ artifact)))"

definition latest_tag_is_fresh :: "services \<Rightarrow> world \<Rightarrow> path \<Rightarrow> int \<Rightarrow> bool" where
  "latest_tag_is_fresh sv w hint max_age \<longleftrightarrow>
     file_exists w hint \<and> w_mtime w hint \<le> sv_now sv \<and> sv_now sv - w_mtime w hint < max_age"

definition touch_latest_tag :: "services \<Rightarrow> path \<Rightarrow> world \<Rightarrow> world" where
  "touch_latest_tag sv hint w =
     (case w_files w hint of
        Some c \<Rightarrow> if sv_io sv WriteFile hint = None then write_file sv hint c w else w
      | None \<Rightarrow> w)"

definition hint_max_age :: int where
  "hint_max_age = 24 * 60 * 60"

section \<open>Downloading\<close>

text \<open>\<open>with_extension("tmp")\<close> of a file name.\<close>

definition tmp_path :: "path \<Rightarrow> path" where
  "tmp_path p = (case rev p of
     NormalComp w # ds \<Rightarrow>
       (let pieces = split_on (CHR ''.'') w; before = join ''.'' (butlast pieces);
            stem = (if length pieces = 1 \<or> before = [] then w else before)
        in rev ds @ [NormalComp (stem @ ''.tmp'')])
   | _ \<Rightarrow> p)"

definition plain :: "string \<Rightarrow> report" where
  "plain msg = [Cause None msg]"

text \<open>
  The body is streamed to a temporary file that is renamed only when it is complete; a stream
  that fails leaves what it wrote there. A \<open>response\<close> is what \<open>execute\<close> and \<open>error_for_status\<close>
  give: an error, or the announced length, the bytes received and how the stream ended.
\<close>

definition download_into_cache ::
  "services \<Rightarrow> path \<Rightarrow> string \<Rightarrow> world \<Rightarrow> (report + unit) \<times> world" where
  "download_into_cache sv entry url w =
     (let tmp = tmp_path entry in
      case sv_io sv CreateTmp tmp of
        Some e \<Rightarrow> (Inl (Cause None ''failed to create temporary file'' # e), w)
      | None \<Rightarrow>
          (let w1 = write_file sv tmp [] w in
           case (case sv_io sv Stat tmp of Some e \<Rightarrow> Some e | None \<Rightarrow> sv_io sv SetMode tmp) of
             Some e \<Rightarrow> (Inl e, w1)
           | None \<Rightarrow>
               (let answer = sv_get sv (length (w_requests w1)) url;
                    w2 = w1\<lparr>w_requests := w_requests w1 @ [AssetRequest url]\<rparr>
                in case answer of
                     SendError e \<Rightarrow> (Inl e, w2)
                   | StatusError e \<Rightarrow> (Inl e, w2)
                   | Streamed expected bytes failure \<Rightarrow>
                       (let w3 = write_file sv tmp bytes w2 in
                        case failure of
                          Some e \<Rightarrow> (Inl e, w3)
                        | None \<Rightarrow>
                            if bytes = [] then
                              (Inl (plain ''downloaded an empty file (0 bytes)''), delete_file tmp w3)
                            else if expected \<noteq> None \<and> expected \<noteq> Some (length bytes) then
                              (Inl (plain ''download truncated''), delete_file tmp w3)
                            else (case sv_io sv RenameFile entry of
                                Some e \<Rightarrow> (Inl (Cause None ''failed to move tool'' # e), w3)
                              | None \<Rightarrow> (Inr (), write_file sv entry bytes (delete_file tmp w3)))))))"

definition max_download_attempts :: nat where
  "max_download_attempts = 3"

function download_loop ::
  "services \<Rightarrow> path \<Rightarrow> string \<Rightarrow> nat \<Rightarrow> report \<Rightarrow> world \<Rightarrow> (report + unit) \<times> world" where
  "download_loop sv dest url attempt last_err w =
     (if max_download_attempts \<le> attempt then (Inl last_err, w)
      else
        (let w1 = (if 0 < attempt then w\<lparr>w_slept := w_slept w @ [2 ^ (attempt - 1)]\<rparr> else w)
         in case sv_bad_request sv url of
              Some e \<Rightarrow> (Inl e, w1)
            | None \<Rightarrow>
                (case download_into_cache sv dest url w1 of
                   (Inr _, w2) \<Rightarrow> (Inr (), w2)
                 | (Inl e, w2) \<Rightarrow> download_loop sv dest url (Suc attempt) e w2)))"
  by pat_completeness auto
termination
  by (relation "measure (\<lambda>(sv, dest, url, attempt, e, w). max_download_attempts - attempt)") auto

declare download_loop.simps [simp del]

definition download_with_retries ::
  "services \<Rightarrow> path \<Rightarrow> string \<Rightarrow> world \<Rightarrow> (report + unit) \<times> world" where
  "download_with_retries sv dest url w = download_loop sv dest url 0 [] w"

section \<open>One source\<close>

record provisioned =
  prov_path :: path
  prov_method :: string
  prov_envs :: "(string \<times> string) list"

text \<open>What trying a source does to the task: end it with an error (\<open>?\<close>), return, or go on to the
  next source with one more failure.\<close>

datatype attempt = Abort report | Provided provisioned | SourceFailed source_failure

definition github_envs :: "string \<Rightarrow> string \<Rightarrow> string \<Rightarrow> string \<Rightarrow> (string \<times> string) list" where
  "github_envs org repo tag artifact =
     [(''ASPECT_LAUNCHER_ASPECT_CLI_ORG'', org), (''ASPECT_LAUNCHER_ASPECT_CLI_REPO'', repo),
      (''ASPECT_LAUNCHER_ASPECT_CLI_TAG'', tag), (''ASPECT_LAUNCHER_ASPECT_CLI_ARTIFACT'', artifact)]"

definition parent_dir :: "path \<Rightarrow> path" where
  "parent_dir p = (case path_parent p of Some d \<Rightarrow> d | None \<Rightarrow> p)"

definition try_http ::
  "services \<Rightarrow> path \<Rightarrow> string \<Rightarrow> string option \<Rightarrow> string \<Rightarrow> world \<Rightarrow> attempt \<times> world" where
  "try_http sv root tool ver url0 w =
     (let url = replace_vars sv url0 (case ver of Some v \<Rightarrow> v | None \<Rightarrow> sv_short_version sv) in
      case sv_bad_request sv url of
        Some e \<Rightarrow> (Abort e, w)
      | None \<Rightarrow>
          (let dest = tool_path sv root tool url;
               ok = \<lparr>prov_path = dest, prov_method = ''http'',
                     prov_envs = [(''ASPECT_LAUNCHER_ASPECT_CLI_URL'', url)]\<rparr>
           in if file_exists w dest then (Provided ok, w)
              else (case sv_io sv MakeDirs (parent_dir dest) of
                  Some e \<Rightarrow> (Abort e, w)
                | None \<Rightarrow>
                    (case download_into_cache sv dest url w of
                       (Inl e, w1) \<Rightarrow> (SourceFailed (new_failure url e), w1)
                     | (Inr _, w1) \<Rightarrow> (Provided ok, w1)))))"

datatype tag_answer = Tag string | CachedTag string | NoTag source_failure | TagAbort report

text \<open>The hint's tag, when the binary it stands for is in the cache.\<close>

definition hinted_tag ::
  "services \<Rightarrow> path \<Rightarrow> string \<Rightarrow> string \<Rightarrow> string \<Rightarrow> string \<Rightarrow> world \<Rightarrow> string option" where
  "hinted_tag sv root tool org repo artifact w =
     (case read_text w (latest_tag_path sv root tool org repo artifact) of
        None \<Rightarrow> None
      | Some raw \<Rightarrow>
          (let t = trim raw
           in if file_exists w (tool_path sv root tool (release_asset_url org repo t artifact))
              then Some t else None))"

definition releases_url :: "string \<Rightarrow> string \<Rightarrow> string" where
  "releases_url org repo =
     ''https://api.github.com/repos/'' @ org @ ''/'' @ repo @ ''/releases?per_page=10''"

definition api_source :: "string \<Rightarrow> string \<Rightarrow> string" where
  "api_source org repo = ''github.com/'' @ org @ ''/'' @ repo @ '' releases API''"

definition query_releases ::
  "services \<Rightarrow> string \<Rightarrow> string \<Rightarrow> world \<Rightarrow> (source_failure + release list) \<times> world" where
  "query_releases sv org repo w =
     (let url = releases_url org repo;
          src = api_source org repo;
          answer = sv_releases sv (length (w_requests w)) url;
          w1 = w\<lparr>w_requests := w_requests w @ [ApiRequest url]\<rparr>
      in (case answer of
            ApiUnreachable e \<Rightarrow> Inl (new_failure src e)
          | ApiStatus n body \<Rightarrow>
              Inl \<lparr>failed_source = src,
                   failure_error = plain (''request failed with status '' @ show_nat n @ '': '' @ body),
                   transient = (500 \<le> n \<and> n < 600) \<or> n = 429\<rparr>
          | ApiUnparsed e \<Rightarrow> Inl (new_failure src e)
          | ApiReleases rs \<Rightarrow> Inr rs, w1))"

definition latest_tag ::
  "services \<Rightarrow> path \<Rightarrow> string \<Rightarrow> string \<Rightarrow> string \<Rightarrow> string \<Rightarrow> world \<Rightarrow> tag_answer \<times> world" where
  "latest_tag sv root tool org repo artifact w =
     (let hint = latest_tag_path sv root tool org repo artifact;
          hinted = hinted_tag sv root tool org repo artifact
      in case (if latest_tag_is_fresh sv w hint hint_max_age then hinted w else None) of
           Some t \<Rightarrow> (CachedTag t, w)
         | None \<Rightarrow>
             (case sv_bad_request sv (releases_url org repo) of
                Some e \<Rightarrow> (TagAbort e, w)
              | None \<Rightarrow>
                  (case query_releases sv org repo w of
                     (Inl failure, w1) \<Rightarrow>
                       (case hinted w1 of
                          Some t \<Rightarrow> (CachedTag t, touch_latest_tag sv hint w1)
                        | None \<Rightarrow> (NoTag failure, w1))
                   | (Inr releases, w1) \<Rightarrow>
                       (case find (\<lambda>r. \<not> prerelease r \<and> artifact \<in> set (assets r)) releases of
                          Some r \<Rightarrow> (Tag (tag_name r),
                            (if sv_io sv MakeDirs (parent_dir hint) = None \<and>
                                sv_io sv WriteFile hint = None
                             then write_file sv hint (tag_name r) w1 else w1))
                        | None \<Rightarrow>
                            (NoTag \<lparr>failed_source = api_source org repo,
                               failure_error = plain (''unable to find release artifact '' @ artifact @
                                 '' in any recent release''),
                               transient = False\<rparr>, w1)))))"

datatype asset_result = AssetReady | AssetAbort report | AssetFailed report

text \<open>The binary of one release URL: from the cache, or downloaded.\<close>

definition obtain_asset ::
  "services \<Rightarrow> path \<Rightarrow> string \<Rightarrow> string \<Rightarrow> world \<Rightarrow> asset_result \<times> world" where
  "obtain_asset sv root tool url w =
     (let dest = tool_path sv root tool url in
      if file_exists w dest then (AssetReady, w)
      else (case sv_io sv MakeDirs (parent_dir dest) of
          Some e \<Rightarrow> (AssetAbort e, w)
        | None \<Rightarrow>
            (case download_with_retries sv dest url w of
               (Inr _, w1) \<Rightarrow> (AssetReady, w1)
             | (Inl e, w1) \<Rightarrow> (AssetFailed e, w1))))"

definition github_provided ::
  "services \<Rightarrow> path \<Rightarrow> string \<Rightarrow> string \<Rightarrow> string \<Rightarrow> string \<Rightarrow> string \<Rightarrow> provisioned" where
  "github_provided sv root tool org repo t a =
     \<lparr>prov_path = tool_path sv root tool (release_asset_url org repo t a),
      prov_method = ''github'', prov_envs = github_envs org repo t a\<rparr>"

text \<open>With the tag known: the asset, or for a debug variant the launcher chose itself, the primary
  binary of the same release when the variant cannot be downloaded.\<close>

definition fetch_release ::
  "services \<Rightarrow> path \<Rightarrow> string \<Rightarrow> string \<Rightarrow> string \<Rightarrow> string \<Rightarrow> string \<Rightarrow> bool \<Rightarrow> world \<Rightarrow>
   attempt \<times> world" where
  "fetch_release sv root tool org repo t artifact chose_debug w =
     (let url = release_asset_url org repo t artifact in
      case obtain_asset sv root tool url w of
        (AssetReady, w1) \<Rightarrow> (Provided (github_provided sv root tool org repo t artifact), w1)
      | (AssetAbort e, w1) \<Rightarrow> (Abort e, w1)
      | (AssetFailed e, w1) \<Rightarrow>
          if \<not> chose_debug then (SourceFailed (new_failure url e), w1)
          else
            (let primary = default_artifact sv repo False;
                 url' = release_asset_url org repo t primary
             in case obtain_asset sv root tool url' w1 of
                  (AssetReady, w2) \<Rightarrow> (Provided (github_provided sv root tool org repo t primary), w2)
                | (AssetAbort e', w2) \<Rightarrow> (Abort e', w2)
                | (AssetFailed e', w2) \<Rightarrow> (SourceFailed (new_failure url' e'), w2)))"

definition chooses_debug :: "services \<Rightarrow> string \<Rightarrow> bool" where
  "chooses_debug sv artifact \<longleftrightarrow> artifact = [] \<and> sv_debug_cli sv"

definition github_artifact :: "services \<Rightarrow> string \<Rightarrow> string option \<Rightarrow> string \<Rightarrow> string" where
  "github_artifact sv repo pinned artifact =
     (if artifact = [] then default_artifact sv repo (chooses_debug sv artifact)
      else replace_vars sv artifact
        (case pinned of Some v \<Rightarrow> v | None \<Rightarrow> sv_short_version sv))"

definition try_github ::
  "services \<Rightarrow> path \<Rightarrow> string \<Rightarrow> string option \<Rightarrow> string \<Rightarrow> string \<Rightarrow> string \<Rightarrow> string \<Rightarrow> world \<Rightarrow>
   attempt \<times> world" where
  "try_github sv root tool pinned org repo tag artifact w =
     (let asset = github_artifact sv repo pinned artifact;
          debug = chooses_debug sv artifact
      in case pinned of
           Some v \<Rightarrow>
             fetch_release sv root tool org repo
               (if tag = [] then ''v'' @ v else replace_vars sv tag v) asset debug w
         | None \<Rightarrow>
             (case latest_tag sv root tool org repo asset w of
                (CachedTag t, w1) \<Rightarrow>
                  (Provided (github_provided sv root tool org repo t asset), w1)
              | (NoTag failure, w1) \<Rightarrow> (SourceFailed failure, w1)
              | (TagAbort e, w1) \<Rightarrow> (Abort e, w1)
              | (Tag t, w1) \<Rightarrow> fetch_release sv root tool org repo t asset debug w1))"

definition first_error :: "report option list \<Rightarrow> report option" where
  "first_error es = (case filter (\<lambda>e. e \<noteq> None) es of [] \<Rightarrow> None | e # _ \<Rightarrow> e)"

definition try_local ::
  "services \<Rightarrow> path \<Rightarrow> path \<Rightarrow> string \<Rightarrow> string \<Rightarrow> world \<Rightarrow> attempt \<times> world" where
  "try_local sv root root_dir tool p w =
     (let dest = tool_path sv root tool p; full = path_push root_dir (path_components p) in
      case first_error [sv_io sv MakeDirs (parent_dir dest), sv_io sv Stat full] of
        Some e \<Rightarrow> (Abort e, w)
      | None \<Rightarrow>
          if \<not> file_exists w full then
            (SourceFailed \<lparr>failed_source = path_text full,
               failure_error = plain ''file does not exist'', transient = False\<rparr>, w)
          else
            (case first_error ([sv_io sv Stat dest] @
                (if file_exists w dest then [sv_io sv RemoveFile dest] else [])) of
               Some e \<Rightarrow> (Abort e, w)
             | None \<Rightarrow>
                 (let w1 = (if file_exists w dest then delete_file dest w else w) in
                  case (sv_io sv CopyFile dest, w_files w1 full) of
                    (None, Some content) \<Rightarrow>
                      (let w2 = write_file sv dest content w1 in
                       case first_error [sv_io sv Stat dest, sv_io sv SetMode dest] of
                         Some e \<Rightarrow> (Abort e, w2)
                       | None \<Rightarrow>
                           (Provided \<lparr>prov_path = dest, prov_method = ''local'',
                              prov_envs = [(''ASPECT_LAUNCHER_ASPECT_CLI_PATH'', p)]\<rparr>, w2))
                  | (Some e, _) \<Rightarrow> (Abort e, w1)
                  | (None, None) \<Rightarrow> (Abort (plain ''No such file or directory''), w1))))"

section \<open>The task\<close>

fun try_source ::
  "services \<Rightarrow> path \<Rightarrow> path \<Rightarrow> string \<Rightarrow> string option \<Rightarrow> tool_source \<Rightarrow> world \<Rightarrow>
   attempt \<times> world" where
  "try_source sv root root_dir tool ver (Http url headers) w = try_http sv root tool ver url w"
| "try_source sv root root_dir tool ver (GitHub org repo tag artifact) w =
     try_github sv root tool ver org repo tag artifact w"
| "try_source sv root root_dir tool ver (Local p) w = try_local sv root root_dir tool p w"

datatype provision_error = Aborted report | AllFailed "source_failure list"

fun try_sources ::
  "services \<Rightarrow> path \<Rightarrow> path \<Rightarrow> string \<Rightarrow> string option \<Rightarrow> tool_source list \<Rightarrow>
   source_failure list \<Rightarrow> world \<Rightarrow> (provision_error + provisioned) \<times> world" where
  "try_sources sv root root_dir tool ver [] errs w = (Inl (AllFailed errs), w)"
| "try_sources sv root root_dir tool ver (src # srcs) errs w =
     (case try_source sv root root_dir tool ver src w of
        (Abort e, w1) \<Rightarrow> (Inl (Aborted e), w1)
      | (Provided p, w1) \<Rightarrow> (Inr p, w1)
      | (SourceFailed f, w1) \<Rightarrow> try_sources sv root root_dir tool ver srcs (errs @ [f]) w1)"

definition configure_tool_task ::
  "services \<Rightarrow> path \<Rightarrow> path \<Rightarrow> string \<Rightarrow> cli_config \<Rightarrow> world \<Rightarrow>
   (provision_error + provisioned) \<times> world" where
  "configure_tool_task sv root root_dir tool cfg w =
     try_sources sv root root_dir tool (version cfg) (sources cfg) [] w"

definition failure_message :: "string \<Rightarrow> source_failure list \<Rightarrow> string" where
  "failure_message tool errs =
     ''failed to download '' @ tool @
     (if errs = [] then '': no tool sources are configured''
      else [CHR '' '', CHR 0xE2, CHR 0x80, CHR 0x94] @ '' every source failed:'' @
        concat (map (\<lambda>f. [CHR 0x0A] @ ''  '' @ failed_source f @ '': '' @
          error_chain (failure_error f)) errs))"

text \<open>The error the user sees, and whether it comes with the advice to retry.\<close>

definition provision_report :: "string \<Rightarrow> provision_error \<Rightarrow> string \<times> bool" where
  "provision_report tool e =
     (case e of
        Aborted r \<Rightarrow> (error_chain r, False)
      | AllFailed errs \<Rightarrow> (failure_message tool errs, list_ex transient errs))"

section \<open>Downloads\<close>

lemmas world_ops = write_file_def delete_file_def file_exists_def

definition complete_body :: "services \<Rightarrow> string \<Rightarrow> string \<Rightarrow> bool" where
  "complete_body sv url bytes \<longleftrightarrow> bytes \<noteq> [] \<and>
     (\<exists>i expected. sv_get sv i url = Streamed expected bytes None \<and>
        (expected = None \<or> expected = Some (length bytes)))"

text \<open>What a download leaves: other files apart from the temporary one are untouched; the target
  changes only to a complete body, exactly when the download succeeds.\<close>

definition download_post ::
  "services \<Rightarrow> path \<Rightarrow> string \<Rightarrow> world \<Rightarrow> (report + unit) \<times> world \<Rightarrow> bool" where
  "download_post sv dest url w r \<longleftrightarrow>
     (\<forall>p. p \<noteq> dest \<and> p \<noteq> tmp_path dest \<longrightarrow>
        w_files (snd r) p = w_files w p \<and> w_mtime (snd r) p = w_mtime w p) \<and>
     (case fst r of
        Inl e \<Rightarrow> w_files (snd r) dest = w_files w dest
      | Inr _ \<Rightarrow> \<exists>bytes. w_files (snd r) dest = Some bytes \<and> complete_body sv url bytes) \<and>
     (\<exists>k. w_requests (snd r) = w_requests w @ replicate k (AssetRequest url))"

lemma download_into_cache_post:
  assumes "tmp_path dest \<noteq> dest"
  shows "download_post sv dest url w (download_into_cache sv dest url w)"
    and "\<exists>k \<le> 1. w_requests (snd (download_into_cache sv dest url w)) =
      w_requests w @ replicate k (AssetRequest url)"
    and "w_slept (snd (download_into_cache sv dest url w)) = w_slept w"
proof -
  have one: "\<exists>k. [x] = replicate k x" "\<exists>k \<le> 1. [x] = replicate k x" for x :: request
    by (auto intro!: exI [of _ 1])
  show "download_post sv dest url w (download_into_cache sv dest url w)"
    using assms one
    by (auto simp: download_post_def download_into_cache_def Let_def complete_body_def world_ops
        split: option.splits response.splits if_splits)
  show "\<exists>k \<le> 1. w_requests (snd (download_into_cache sv dest url w)) =
      w_requests w @ replicate k (AssetRequest url)"
    using one
    by (auto simp: download_into_cache_def Let_def world_ops
        split: option.splits response.splits if_splits)
  show "w_slept (snd (download_into_cache sv dest url w)) = w_slept w"
    by (simp add: download_into_cache_def Let_def world_ops
        split: option.splits response.splits)
qed

lemma download_post_trans:
  assumes "download_post sv dest url w (Inl e, w1)" and "download_post sv dest url w1 r"
  shows "download_post sv dest url w r"
  using assms by (auto simp: download_post_def replicate_add [symmetric] split: sum.splits)

lemma download_post_slept [simp]:
  "download_post sv dest url (w\<lparr>w_slept := x\<rparr>) r = download_post sv dest url w r"
  by (cases "fst r") (simp_all add: download_post_def)

lemma download_post_refl: "download_post sv dest url w (Inl e, w)"
  by (simp add: download_post_def exI [of _ 0])

definition attempt_start :: "nat \<Rightarrow> world \<Rightarrow> world" where
  "attempt_start attempt w =
     (if 0 < attempt then w\<lparr>w_slept := w_slept w @ [2 ^ (attempt - 1)]\<rparr> else w)"

lemma attempt_start_simps [simp]:
  "w_requests (attempt_start n w) = w_requests w"
  "download_post sv dest url (attempt_start n w) r = download_post sv dest url w r"
  by (simp_all add: attempt_start_def)

lemma download_post_start: "download_post sv dest url w (Inl e, attempt_start n w)"
  by (simp add: attempt_start_def download_post_def exI [of _ 0])

text \<open>The loop, one attempt at a time.\<close>

lemma download_loop_cases:
  obtains (out) "max_download_attempts \<le> n" "download_loop sv dest url n e w = (Inl e, w)"
  | (bad) e' where "n < max_download_attempts"
      "download_loop sv dest url n e w = (Inl e', attempt_start n w)"
  | (ok) w2 where "n < max_download_attempts"
      "download_into_cache sv dest url (attempt_start n w) = (Inr (), w2)"
      "download_loop sv dest url n e w = (Inr (), w2)"
  | (again) e' w2 where "n < max_download_attempts"
      "download_into_cache sv dest url (attempt_start n w) = (Inl e', w2)"
      "download_loop sv dest url n e w = download_loop sv dest url (Suc n) e' w2"
proof (cases "max_download_attempts \<le> n")
  case True
  then show ?thesis using out by (simp add: download_loop.simps)
next
  case less: False
  note unfold = download_loop.simps [of sv dest url n e w, folded attempt_start_def]
  obtain r w2 where dl: "download_into_cache sv dest url (attempt_start n w) = (r, w2)"
    by fastforce
  show ?thesis
  proof (cases "sv_bad_request sv url")
    case (Some e')
    with less bad [of e'] unfold show ?thesis by simp
  next
    case None
    show ?thesis
    proof (cases r)
      case (Inl e')
      with None less dl again [of e' w2] unfold show ?thesis by simp
    next
      case (Inr u)
      with None less dl ok [of w2] unfold show ?thesis by simp
    qed
  qed
qed

lemma download_loop_post:
  assumes "tmp_path dest \<noteq> dest"
  shows "n \<le> max_download_attempts \<Longrightarrow> download_post sv dest url w (download_loop sv dest url n e w) \<and>
    length (w_requests (snd (download_loop sv dest url n e w))) \<le>
      length (w_requests w) + (max_download_attempts - n)"
proof (induction "max_download_attempts - n" arbitrary: n e w)
  case 0
  then show ?case by (cases rule: download_loop_cases [of n sv dest url e w])
      (simp_all add: download_post_refl)
next
  case (Suc d)
  note one = download_into_cache_post [OF assms, of sv url "attempt_start n w"]
  show ?case
  proof (cases rule: download_loop_cases [of n sv dest url e w])
    case (again e' w2)
    have post: "download_post sv dest url w (Inl e', w2)" using one(1) again(2) by simp
    have len: "length (w_requests w2) \<le> Suc (length (w_requests w))"
      using one(2) again(2) by auto
    have "d = max_download_attempts - Suc n" "Suc n \<le> max_download_attempts"
      using Suc.hyps(2) again(1) by simp_all
    from Suc.hyps(1) [OF this, of w2 e'] post len again(1,3) show ?thesis
      by (auto intro: download_post_trans)
  next
    case (ok w2)
    then show ?thesis using one(1,2) Suc.hyps(2) by auto
  qed (use Suc.hyps in \<open>simp_all add: download_post_refl download_post_start\<close>)
qed

lemma download_loop_slept:
  assumes "tmp_path dest \<noteq> dest"
  shows "n \<le> max_download_attempts \<Longrightarrow>
    \<exists>k \<le> max_download_attempts. w_slept (snd (download_loop sv dest url n e w)) =
      w_slept w @ map (\<lambda>i. 2 ^ (i - 1)) [max 1 n..<k]"
proof (induction "max_download_attempts - n" arbitrary: n e w)
  case 0
  then have "snd (download_loop sv dest url n e w) = w"
    by (cases rule: download_loop_cases [of n sv dest url e w]) simp_all
  then show ?case by (auto intro: exI [of _ 0])
next
  case (Suc d)
  note one = download_into_cache_post(3) [OF assms, of sv url "attempt_start n w"]
  have start: "w_slept (attempt_start n w) = w_slept w @ map (\<lambda>i. 2 ^ (i - 1)) [max 1 n..<Suc n]"
    by (cases n) (simp_all add: attempt_start_def)
  have now: "\<exists>k \<le> max_download_attempts. w_slept (attempt_start n w) =
      w_slept w @ map (\<lambda>i. 2 ^ (i - 1)) [max 1 n..<k]"
    using start Suc.hyps(2) by (intro exI [of _ "Suc n"]) simp
  show ?case
  proof (cases rule: download_loop_cases [of n sv dest url e w])
    case (again e' w2)
    have "d = max_download_attempts - Suc n" "Suc n \<le> max_download_attempts"
      using Suc.hyps(2) again(1) by simp_all
    from Suc.hyps(1) [OF this, of e' w2] obtain k where k: "k \<le> max_download_attempts"
      "w_slept (snd (download_loop sv dest url n e w)) =
        w_slept w2 @ map (\<lambda>i. 2 ^ (i - 1)) [max 1 (Suc n)..<k]"
      by (auto simp: again(3))
    have "w_slept w2 = w_slept (attempt_start n w)" using one again(2) by simp
    with k start have "w_slept (snd (download_loop sv dest url n e w)) =
        w_slept w @ map (\<lambda>i. 2 ^ (i - 1)) ([max 1 n..<Suc n] @ [Suc n..<k])"
      by (simp only: map_append append_assoc)
        (simp del: upt_Suc)
    moreover have "[max 1 n..<Suc n] @ [Suc n..<k] = [max 1 n..<max k (Suc n)]"
      using upt_add_eq_append [of "max 1 n" "Suc n" "max k (Suc n) - Suc n"]
      by (simp add: max_def del: upt_Suc)
    ultimately have "w_slept (snd (download_loop sv dest url n e w)) =
        w_slept w @ map (\<lambda>i. 2 ^ (i - 1)) [max 1 n..<max k (Suc n)]"
      by (simp only:)
    then show ?thesis
      using k(1) \<open>Suc n \<le> max_download_attempts\<close> by (intro exI [of _ "max k (Suc n)"] conjI) simp_all
  next
    case (ok w2)
    with one now show ?thesis by simp
  next
    case (bad e')
    with now show ?thesis by simp
  qed (use Suc.hyps in simp)
qed

text \<open>C10. A download makes at most three requests, waiting one and then two seconds between them;
  the target changes only to a complete, non-empty body that the server sent, exactly when the
  download succeeds, so a failed or truncated transfer never replaces a cached binary; nothing
  else changes but the temporary file.\<close>

theorem download_is_atomic:
  assumes "tmp_path dest \<noteq> dest"
  shows "let (r, w') = download_with_retries sv dest url w in
    download_post sv dest url w (r, w') \<and>
    length (w_requests w') \<le> length (w_requests w) + 3 \<and>
    (\<exists>waits. prefix waits [1, 2] \<and> w_slept w' = w_slept w @ waits)"
proof -
  let ?r = "download_with_retries sv dest url w"
  have post: "download_post sv dest url w ?r"
    and len: "length (w_requests (snd ?r)) \<le> length (w_requests w) + 3"
    using download_loop_post [OF assms, of 0] by (auto simp: download_with_retries_def max_download_attempts_def)
  obtain k :: nat where k: "k \<le> 3" "w_slept (snd ?r) = w_slept w @ map (\<lambda>i. 2 ^ (i - 1)) [1..<k]"
    using download_loop_slept [OF assms, of 0 sv url "[]" w]
    by (auto simp: download_with_retries_def max_download_attempts_def)
  from k(1) consider "k \<le> 1" | "k = 2" | "k = 3" by linarith
  then have "prefix (map (\<lambda>i. 2 ^ (i - 1)) [1..<k]) [1, 2 :: nat]"
    by cases (simp_all add: numeral_eq_Suc)
  with k(2) post len show ?thesis by (auto simp: Let_def split: prod.splits)
qed

section \<open>Cache paths\<close>

definition valid_tool :: "string \<Rightarrow> bool" where
  "valid_tool tool \<longleftrightarrow> tool \<noteq> [] \<and> CHR ''/'' \<notin> set tool \<and> tool \<noteq> ''.'' \<and> tool \<noteq> ''..'' \<and>
     \<not> ends_with ''.tmp'' tool"

lemma path_components_under:
  assumes "CHR ''/'' \<notin> set d" and "d \<noteq> []" and "d \<noteq> ''.''" and "d \<noteq> ''..''"
  shows "path_components (d @ ''/'' @ s) =
    NormalComp d # map name_component (filter (\<lambda>w. w \<noteq> [] \<and> w \<noteq> ''.'') (split_on (CHR ''/'') s))"
proof -
  have "\<not> starts_with ''/'' (d @ ''/'' @ s)"
    using assms(1,2) by (cases d) (auto simp: starts_with_def)
  then show ?thesis
    using assms split_on_append [of "CHR ''/''" d s]
    by (simp add: path_components_def Let_def name_component_def)
qed

lemma tool_path_shape:
  assumes "valid_tool tool"
  shows "\<exists>mid. tool_path sv root tool src = root @ NormalComp ''bin'' # mid @ [NormalComp tool]"
proof -
  have "split_on (CHR ''/'') (tool @ ''/'' @ sv_sha sv (tool @ src) @ ''/'' @ tool) =
      split_on (CHR ''/'') (tool @ ''/'' @ sv_sha sv (tool @ src)) @ [tool]"
    using assms split_on_append_sep [of "CHR ''/''" "tool @ ''/'' @ sv_sha sv (tool @ src)" tool]
    by (simp add: valid_tool_def split_on_clean)
  with assms path_components_under [of "''bin''"
      "tool @ ''/'' @ sv_sha sv (tool @ src) @ ''/'' @ tool"]
  show ?thesis
    by (simp add: tool_path_def path_push_def valid_tool_def name_component_def)
qed

lemma tool_path_tmp:
  assumes "valid_tool tool"
  shows "tmp_path (tool_path sv root tool src) \<noteq> tool_path sv root tool src"
    and "\<exists>mid e. tmp_path (tool_path sv root tool src) = root @ NormalComp ''bin'' # mid @ [e]"
proof -
  obtain mid where p: "tool_path sv root tool src = root @ NormalComp ''bin'' # mid @ [NormalComp tool]"
    using tool_path_shape [OF assms] by blast
  have "\<exists>stem. tmp_path (tool_path sv root tool src) =
      root @ NormalComp ''bin'' # mid @ [NormalComp (stem @ ''.tmp'')]"
    by (simp add: p tmp_path_def Let_def)
  with assms p show "tmp_path (tool_path sv root tool src) \<noteq> tool_path sv root tool src"
    and "\<exists>mid e. tmp_path (tool_path sv root tool src) = root @ NormalComp ''bin'' # mid @ [e]"
    by (auto simp: valid_tool_def ends_with_iff)
qed

lemma hint_path_shape: "\<exists>rest. latest_tag_path sv root tool org repo artifact =
    root @ NormalComp ''latest'' # rest"
  using path_components_under [of "''latest''"]
  by (simp add: latest_tag_path_def path_push_def)

lemma hint_is_no_binary:
  assumes "valid_tool tool"
  shows "latest_tag_path sv root tool org repo artifact \<noteq> tool_path sv root tool src"
    and "latest_tag_path sv root tool org repo artifact \<noteq> tmp_path (tool_path sv root tool src)"
  using tool_path_shape [OF assms, of sv root src] tool_path_tmp(2) [OF assms, of sv root src]
    hint_path_shape [of sv root tool org repo artifact] by auto

text \<open>The hint is keyed on the concatenation of organisation, repository and artifact.\<close>

lemma hint_key_is_ambiguous:
  "org @ repo = org' @ repo' \<Longrightarrow>
   latest_tag_path sv root tool org repo artifact = latest_tag_path sv root tool org' repo' artifact"
  by (metis latest_tag_path_def append_assoc)

section \<open>What provisioning guarantees\<close>

definition asset_only :: "request list \<Rightarrow> bool" where
  "asset_only rs \<longleftrightarrow> (\<forall>r \<in> set rs. \<exists>url. r = AssetRequest url)"

definition attempt_post :: "bool \<Rightarrow> world \<Rightarrow> attempt \<times> world \<Rightarrow> bool" where
  "attempt_post pinned w r \<longleftrightarrow>
     (\<exists>rs. w_requests (snd r) = w_requests w @ rs \<and> (pinned \<longrightarrow> asset_only rs)) \<and>
     (\<forall>p. fst r = Provided p \<longrightarrow> file_exists (snd r) (prov_path p))"

lemma download_post_requests:
  "download_post sv dest url w r \<Longrightarrow>
   \<exists>rs. w_requests (snd r) = w_requests w @ rs \<and> asset_only rs"
  by (force simp: download_post_def asset_only_def)

lemma download_post_exists:
  "download_post sv dest url w (Inr u, w') \<Longrightarrow> file_exists w' dest"
  by (auto simp: download_post_def file_exists_def)

lemma download_with_retries_post:
  assumes "valid_tool tool"
  shows "download_with_retries sv (tool_path sv root tool url) url w = r \<Longrightarrow>
   download_post sv (tool_path sv root tool url) url w r"
  using download_loop_post [OF tool_path_tmp(1) [OF assms], of 0]
  by (auto simp: download_with_retries_def)

lemma attempt_postI:
  "w_requests w' = w_requests w @ rs \<Longrightarrow> pinned \<longrightarrow> asset_only rs \<Longrightarrow>
   (\<And>p. a = Provided p \<Longrightarrow> file_exists w' (prov_path p)) \<Longrightarrow> attempt_post pinned w (a, w')"
  by (auto simp: attempt_post_def)

lemma attempt_post_same [intro]:
  "(\<And>p. a = Provided p \<Longrightarrow> file_exists w (prov_path p)) \<Longrightarrow> attempt_post pinned w (a, w)"
  by (rule attempt_postI [of _ _ "[]"]) (simp_all add: asset_only_def)

lemma attempt_post_download:
  assumes "download_post sv dest url w (r, w')"
    and "\<And>p. a = Provided p \<Longrightarrow> prov_path p = dest \<and> r = Inr ()"
  shows "attempt_post pinned w (a, w')"
  using assms download_post_requests [OF assms(1)]
  by (auto simp: attempt_post_def dest: download_post_exists)

lemma attempt_post_trans:
  assumes "w_requests w1 = w_requests w @ rs" and "pinned \<longrightarrow> asset_only rs"
    and "attempt_post pinned w1 r"
  shows "attempt_post pinned w r"
  using assms by (auto simp: attempt_post_def asset_only_def)

lemma try_http_post:
  assumes "valid_tool tool"
  shows "attempt_post pinned w (try_http sv root tool ver url0 w)"
proof -
  define url where "url = replace_vars sv url0 (case ver of Some v \<Rightarrow> v | None \<Rightarrow> sv_short_version sv)"
  define dest where "dest = tool_path sv root tool url"
  obtain r w1 where dl: "download_into_cache sv dest url w = (r, w1)" by fastforce
  have "tmp_path dest \<noteq> dest" by (simp add: dest_def tool_path_tmp(1) [OF assms])
  from download_into_cache_post(1) [OF this, of sv url w] dl
  have "download_post sv dest url w (r, w1)" by simp
  with dl show ?thesis
    by (auto simp: try_http_def Let_def url_def [symmetric] dest_def [symmetric]
        split: option.splits sum.splits intro: attempt_post_download)
qed

lemma hinted_tag_exists:
  "hinted_tag sv root tool org repo artifact w = Some t \<Longrightarrow>
   file_exists w (tool_path sv root tool (release_asset_url org repo t artifact))"
  by (auto simp: hinted_tag_def Let_def split: option.splits if_splits)

lemma query_releases_world:
  "query_releases sv org repo w = (r, w1) \<Longrightarrow>
   w_files w1 = w_files w \<and> w_mtime w1 = w_mtime w \<and> (\<exists>url. w_requests w1 = w_requests w @ [ApiRequest url])"
  by (auto simp: query_releases_def Let_def split: releases_answer.splits)

lemma touch_latest_tag_world [simp]:
  "w_files (touch_latest_tag sv hint w) = w_files w"
  "w_requests (touch_latest_tag sv hint w) = w_requests w"
  by (auto simp: touch_latest_tag_def write_file_def split: option.splits)

lemma hinted_tag_files:
  "w_files w1 = w_files w \<Longrightarrow>
   hinted_tag sv root tool org repo artifact w1 = hinted_tag sv root tool org repo artifact w"
  by (simp add: hinted_tag_def read_text_def file_exists_def cong: option.case_cong)

text \<open>The possible outcomes of resolving an unpinned version.\<close>

lemma latest_tag_cases:
  assumes "latest_tag sv root tool org repo artifact w = (a, w1)"
  obtains (fresh) t where "latest_tag_is_fresh sv w (latest_tag_path sv root tool org repo artifact) hint_max_age"
      "hinted_tag sv root tool org repo artifact w = Some t" "a = CachedTag t" "w1 = w"
  | (abort) e where "a = TagAbort e" "w1 = w"
  | (stale) t failure w' where "query_releases sv org repo w = (Inl failure, w')"
      "hinted_tag sv root tool org repo artifact w = Some t" "a = CachedTag t"
      "w1 = touch_latest_tag sv (latest_tag_path sv root tool org repo artifact) w'"
  | (failed) failure' r where "query_releases sv org repo w = (r, w1)" "a = NoTag failure'"
  | (found) rel rels w' where "query_releases sv org repo w = (Inr rels, w')" "rel \<in> set rels"
      "a = Tag (tag_name rel)"
      "w1 = (if sv_io sv MakeDirs (parent_dir (latest_tag_path sv root tool org repo artifact)) = None \<and>
          sv_io sv WriteFile (latest_tag_path sv root tool org repo artifact) = None
        then write_file sv (latest_tag_path sv root tool org repo artifact) (tag_name rel) w' else w')"
proof -
  let ?hint = "latest_tag_path sv root tool org repo artifact"
  let ?hinted = "hinted_tag sv root tool org repo artifact"
  show ?thesis
  proof (cases "if latest_tag_is_fresh sv w ?hint hint_max_age then ?hinted w else None")
    case (Some t)
    then have hint: "latest_tag_is_fresh sv w ?hint hint_max_age" "?hinted w = Some t"
      by (simp_all split: if_splits)
    with assms have "a = CachedTag t" "w1 = w" by (simp_all add: latest_tag_def Let_def)
    with hint show ?thesis by (rule fresh)
  next
    case none: None
    note eq = assms [unfolded latest_tag_def Let_def none option.case]
    show ?thesis
    proof (cases "sv_bad_request sv (releases_url org repo)")
      case (Some e)
      with eq abort [of e] show ?thesis by simp
    next
      case None
      obtain q w' where q: "query_releases sv org repo w = (q, w')" by fastforce
      then have files: "w_files w' = w_files w" by (simp add: query_releases_world)
      show ?thesis
      proof (cases q)
        case (Inl failure)
        show ?thesis
        proof (cases "?hinted w'")
          case hint: (Some t)
          with eq None q Inl have "a = CachedTag t" "w1 = touch_latest_tag sv ?hint w'"
            by (simp_all split: option.splits)
          with stale [of failure w' t] q Inl hint hinted_tag_files [OF files] show ?thesis by simp
        next
          case hint: None
          with eq None q Inl have "a = NoTag failure" "w1 = w'" by (simp_all split: option.splits)
          with failed [of q failure] q show ?thesis by simp
        qed
      next
        case (Inr rels)
        show ?thesis
        proof (cases "find (\<lambda>r. \<not> prerelease r \<and> artifact \<in> set (assets r)) rels")
          case (Some rel)
          then have "rel \<in> set rels" by (auto simp: find_Some_iff)
          moreover from eq None q Inr Some have "a = Tag (tag_name rel)" and
            "w1 = (if sv_io sv MakeDirs (parent_dir ?hint) = None \<and> sv_io sv WriteFile ?hint = None
              then write_file sv ?hint (tag_name rel) w' else w')"
            by (simp_all split: option.splits)
          ultimately show ?thesis using found [of rels w' rel] q Inr by simp
        next
          case no: None
          with eq None q Inr have "\<exists>failure'. a = NoTag failure'" "w1 = w'"
            by (auto split: option.splits)
          with failed [of q] q show ?thesis by blast
        qed
      qed
    qed
  qed
qed

definition keeps_elsewhere :: "services \<Rightarrow> path \<Rightarrow> string \<Rightarrow> world \<Rightarrow> world \<Rightarrow> bool" where
  "keeps_elsewhere sv root tool w w' \<longleftrightarrow>
     (\<exists>rs. w_requests w' = w_requests w @ rs \<and> asset_only rs) \<and>
     (\<forall>p. (\<forall>url. p \<noteq> tool_path sv root tool url \<and> p \<noteq> tmp_path (tool_path sv root tool url)) \<longrightarrow>
        w_files w' p = w_files w p \<and> w_mtime w' p = w_mtime w p)"

lemma keeps_elsewhere_refl [simp]: "keeps_elsewhere sv root tool w w"
  by (simp add: keeps_elsewhere_def asset_only_def exI [of _ "[]"])

lemma keeps_elsewhere_trans:
  "keeps_elsewhere sv root tool w w1 \<Longrightarrow> keeps_elsewhere sv root tool w1 w2 \<Longrightarrow>
   keeps_elsewhere sv root tool w w2"
  by (force simp: keeps_elsewhere_def asset_only_def)

lemma download_keeps_elsewhere:
  assumes "download_post sv (tool_path sv root tool url) url w (r, w')"
  shows "keeps_elsewhere sv root tool w w'"
  using assms download_post_requests [OF assms] by (simp add: keeps_elsewhere_def download_post_def)

lemma obtain_asset_post:
  assumes "valid_tool tool" and "obtain_asset sv root tool url w = (r, w')"
  shows "keeps_elsewhere sv root tool w w' \<and>
    (r = AssetReady \<longrightarrow> file_exists w' (tool_path sv root tool url))"
proof -
  obtain d w1 where dl: "download_with_retries sv (tool_path sv root tool url) url w = (d, w1)"
    by fastforce
  note post = download_with_retries_post [OF assms(1) dl]
  show ?thesis
    using assms(2) dl download_keeps_elsewhere [OF post] download_post_exists [of sv _ url w _ w1] post
    by (auto simp: obtain_asset_def Let_def split: if_splits option.splits sum.splits)
qed

lemma fetch_release_post:
  assumes "valid_tool tool" and "fetch_release sv root tool org repo t artifact debug w = (a, w')"
  shows "keeps_elsewhere sv root tool w w' \<and> (\<forall>p. a = Provided p \<longrightarrow>
    file_exists w' (prov_path p) \<and>
    (\<not> debug \<longrightarrow> p = github_provided sv root tool org repo t artifact))"
proof -
  obtain r w1 where r: "obtain_asset sv root tool (release_asset_url org repo t artifact) w = (r, w1)"
    by fastforce
  obtain r' w2 where r': "obtain_asset sv root tool
      (release_asset_url org repo t (default_artifact sv repo False)) w1 = (r', w2)"
    by fastforce
  show ?thesis
    using assms(2) r r' obtain_asset_post [OF assms(1) r] obtain_asset_post [OF assms(1) r']
    by (auto simp: fetch_release_def Let_def github_provided_def
        split: asset_result.splits if_splits dest: keeps_elsewhere_trans)
qed

lemma fetch_release_attempt:
  assumes "valid_tool tool"
  shows "attempt_post pinned w (fetch_release sv root tool org repo t artifact debug w)"
proof -
  obtain a w' where f: "fetch_release sv root tool org repo t artifact debug w = (a, w')" by fastforce
  from fetch_release_post [OF assms f] show ?thesis
    by (auto simp: f attempt_post_def keeps_elsewhere_def)
qed

lemma latest_tag_post:
  assumes "latest_tag sv root tool org repo artifact w = (a, w1)"
  shows "(\<exists>rs. w_requests w1 = w_requests w @ rs) \<and> (\<forall>t. a = CachedTag t \<longrightarrow>
    file_exists w1 (tool_path sv root tool (release_asset_url org repo t artifact)))"
  using assms
proof (cases rule: latest_tag_cases)
  case (stale t failure w')
  then show ?thesis
    using hinted_tag_exists [OF stale(2)] query_releases_world [OF stale(1)]
    by (auto simp: file_exists_def)
next
  case (failed failure' r)
  then show ?thesis using query_releases_world [OF failed(1)] by auto
next
  case (found rel rels w')
  then show ?thesis using query_releases_world [OF found(1)] by (auto simp: write_file_def)
qed (auto dest: hinted_tag_exists)

lemma try_github_post:
  assumes "valid_tool tool"
  shows "attempt_post (pinned \<noteq> None) w (try_github sv root tool pinned org repo tag artifact w)"
proof (cases pinned)
  case (Some v)
  then show ?thesis by (simp add: try_github_def Let_def fetch_release_attempt [OF assms])
next
  case None
  let ?asset = "github_artifact sv repo pinned artifact"
  obtain a w1 where tag: "latest_tag sv root tool org repo ?asset w = (a, w1)" by fastforce
  from latest_tag_post [OF tag] obtain rs where rs: "w_requests w1 = w_requests w @ rs" by blast
  have "attempt_post False w1
      (fetch_release sv root tool org repo t ?asset (chooses_debug sv artifact) w1)" for t
    by (rule fetch_release_attempt [OF assms])
  from attempt_post_trans [OF rs _ this] latest_tag_post [OF tag] None tag show ?thesis
    by (cases a) (auto simp: try_github_def Let_def attempt_post_def github_provided_def)
qed

lemma try_local_post: "attempt_post pinned w (try_local sv root root_dir tool p w)"
proof -
  have "attempt_post pinned w (Provided \<lparr>prov_path = dest, prov_method = m, prov_envs = e\<rparr>,
      write_file sv dest c w1)" if "w_requests w1 = w_requests w" for dest m e c w1
    using that by (intro attempt_postI [of _ _ "[]"]) (auto simp: world_ops asset_only_def)
  moreover have "attempt_post pinned w (Abort e, w1)" if "w_requests w1 = w_requests w" for e w1
    using that by (intro attempt_postI [of _ _ "[]"]) (simp_all add: asset_only_def)
  ultimately show ?thesis
    by (auto simp: try_local_def Let_def delete_file_def write_file_def split: option.splits)
qed

lemma try_source_post:
  "valid_tool tool \<Longrightarrow> attempt_post (ver \<noteq> None) w (try_source sv root root_dir tool ver src w)"
  by (cases src) (simp_all add: try_http_post try_github_post try_local_post del: not_None_eq)

lemma try_sources_post:
  assumes "valid_tool tool"
  shows "try_sources sv root root_dir tool ver srcs errs w = (r, w') \<Longrightarrow>
    (\<exists>rs. w_requests w' = w_requests w @ rs \<and> (ver \<noteq> None \<longrightarrow> asset_only rs)) \<and>
    (\<forall>p. r = Inr p \<longrightarrow> file_exists w' (prov_path p))"
proof (induction srcs arbitrary: errs w)
  case Nil
  then show ?case by (auto simp: asset_only_def)
next
  case (Cons src srcs)
  obtain a w1 where src: "try_source sv root root_dir tool ver src w = (a, w1)" by fastforce
  from try_source_post [OF assms, of ver w sv root root_dir src] src
  obtain rs where rs: "w_requests w1 = w_requests w @ rs" "ver \<noteq> None \<longrightarrow> asset_only rs"
    and found: "\<And>p. a = Provided p \<Longrightarrow> file_exists w1 (prov_path p)"
    by (auto simp: attempt_post_def)
  show ?case
  proof (cases a)
    case (SourceFailed f)
    with Cons.prems src have "try_sources sv root root_dir tool ver srcs (errs @ [f]) w1 = (r, w')"
      by simp
    from Cons.IH [OF this] rs show ?thesis by (auto simp: asset_only_def)
  next
    case (Abort e)
    with Cons.prems src rs show ?thesis by auto
  next
    case (Provided p)
    with Cons.prems src rs found show ?thesis by auto
  qed
qed

text \<open>When the task succeeds, the binary it returns is in the file system, whichever source, cache
  entry or fallback supplied it.\<close>

theorem provisioned_binary_exists:
  assumes "configure_tool_task sv root root_dir tool cfg w = (Inr p, w')" and "valid_tool tool"
  shows "file_exists w' (prov_path p)"
  using try_sources_post [OF assms(2)] assms(1) by (auto simp: configure_tool_task_def)

text \<open>With a pinned version the releases API is never asked: every request is a download, on
  every path through every source.\<close>

theorem pinned_version_skips_api:
  assumes "configure_tool_task sv root root_dir tool cfg w = (r, w')" and "version cfg = Some v"
    and "valid_tool tool"
  shows "\<exists>rs. w_requests w' = w_requests w @ rs \<and> asset_only rs"
proof -
  from assms(1) have "try_sources sv root root_dir tool (Some v) (sources cfg) [] w = (r, w')"
    by (simp add: configure_tool_task_def assms(2))
  from try_sources_post [OF assms(3) this] show ?thesis by auto
qed

text \<open>The sources in order: the result is the first source's that does not fail, in the state the
  failed ones left; each failed source adds one failure.\<close>

inductive fails_through ::
  "services \<Rightarrow> path \<Rightarrow> path \<Rightarrow> string \<Rightarrow> string option \<Rightarrow> tool_source list \<Rightarrow> world \<Rightarrow>
   source_failure list \<Rightarrow> world \<Rightarrow> bool"
  for sv root root_dir tool ver where
  fails_none: "fails_through sv root root_dir tool ver [] w [] w"
| fails_more: "\<lbrakk>try_source sv root root_dir tool ver src w = (SourceFailed f, w1);
     fails_through sv root root_dir tool ver srcs w1 fs w2\<rbrakk> \<Longrightarrow>
    fails_through sv root root_dir tool ver (src # srcs) w (f # fs) w2"

inductive_simps fails_through_simps:
  "fails_through sv root root_dir tool ver [] w fs w'"
  "fails_through sv root root_dir tool ver (src # srcs) w fs w'"

lemma fails_through_length: "fails_through sv root root_dir tool ver srcs w fs w' \<Longrightarrow> length fs = length srcs"
  by (induction rule: fails_through.induct) simp_all

lemma try_sources_order:
  "try_sources sv root root_dir tool ver srcs errs w = (r, w') \<Longrightarrow>
   (case r of
      Inl (AllFailed fs) \<Rightarrow> \<exists>new. fs = errs @ new \<and> fails_through sv root root_dir tool ver srcs w new w'
    | Inl (Aborted e) \<Rightarrow> \<exists>before src after fs w1. srcs = before @ src # after \<and>
        fails_through sv root root_dir tool ver before w fs w1 \<and>
        try_source sv root root_dir tool ver src w1 = (Abort e, w')
    | Inr p \<Rightarrow> \<exists>before src after fs w1. srcs = before @ src # after \<and>
        fails_through sv root root_dir tool ver before w fs w1 \<and>
        try_source sv root root_dir tool ver src w1 = (Provided p, w'))"
proof (induction srcs arbitrary: errs w)
  case Nil
  then show ?case by (auto intro: fails_none)
next
  case (Cons src srcs)
  obtain a w1 where src: "try_source sv root root_dir tool ver src w = (a, w1)" by fastforce
  show ?case
  proof (cases a)
    case (SourceFailed f)
    with Cons.prems src have rest: "try_sources sv root root_dir tool ver srcs (errs @ [f]) w1 = (r, w')"
      by simp
    have extend: "fails_through sv root root_dir tool ver (src # before) w (f # fs) w2"
      if "fails_through sv root root_dir tool ver before w1 fs w2" for before fs w2
      using that src SourceFailed by (auto intro: fails_more)
    show ?thesis
      using Cons.IH [OF rest] extend
      by (auto split: sum.splits provision_error.splits) (metis append_Cons)+
  next
    case (Abort e)
    with Cons.prems src have "r = Inl (Aborted e)" "w' = w1" by simp_all
    with src Abort fails_none show ?thesis by fastforce
  next
    case (Provided p)
    with Cons.prems src have "r = Inr p" "w' = w1" by simp_all
    with src Provided fails_none show ?thesis by fastforce
  qed
qed

text \<open>The sources are tried in the configured order: a provisioned binary comes from the first
  source that does not fail, and the task reports that every source failed only after each one
  has failed, with one failure per source.\<close>

theorem sources_in_order:
  assumes "configure_tool_task sv root root_dir tool cfg w = (r, w')"
  shows "case r of
      Inl (AllFailed fs) \<Rightarrow>
        fails_through sv root root_dir tool (version cfg) (sources cfg) w fs w' \<and>
        length fs = length (sources cfg)
    | Inl (Aborted e) \<Rightarrow> \<exists>before src after fs w1. sources cfg = before @ src # after \<and>
        fails_through sv root root_dir tool (version cfg) before w fs w1 \<and>
        try_source sv root root_dir tool (version cfg) src w1 = (Abort e, w')
    | Inr p \<Rightarrow> \<exists>before src after fs w1. sources cfg = before @ src # after \<and>
        fails_through sv root root_dir tool (version cfg) before w fs w1 \<and>
        try_source sv root root_dir tool (version cfg) src w1 = (Provided p, w')"
  using try_sources_order [of sv root root_dir tool "version cfg" "sources cfg" "[]" w r w'] assms
  by (auto simp: configure_tool_task_def fails_through_length split: sum.splits provision_error.splits)

section \<open>The hint\<close>

lemma keeps_elsewhere_hint:
  assumes "keeps_elsewhere sv root tool w w'" and "valid_tool tool"
  shows "w_files w' (latest_tag_path sv root tool org repo artifact) =
      w_files w (latest_tag_path sv root tool org repo artifact) \<and>
    w_mtime w' (latest_tag_path sv root tool org repo artifact) =
      w_mtime w (latest_tag_path sv root tool org repo artifact)"
  using assms hint_is_no_binary [OF assms(2)] by (simp add: keeps_elsewhere_def)

lemma latest_tag_fresh:
  assumes "w_files w (latest_tag_path sv root tool org repo artifact) = Some t"
    and "w_mtime w (latest_tag_path sv root tool org repo artifact) = sv_now sv"
    and "valid_utf8 t" and "trim t = t'"
    and "file_exists w (tool_path sv root tool (release_asset_url org repo t' artifact))"
  shows "latest_tag sv root tool org repo artifact w = (CachedTag t', w)"
  using assms
  by (simp add: latest_tag_def Let_def latest_tag_is_fresh_def hinted_tag_def read_text_def
      file_exists_def hint_max_age_def)

definition clean_tags :: "services \<Rightarrow> bool" where
  "clean_tags sv \<longleftrightarrow> (\<forall>i url rels. sv_releases sv i url = ApiReleases rels \<longrightarrow>
     (\<forall>r \<in> set rels. valid_utf8 (tag_name r) \<and> trim (tag_name r) = tag_name r))"

lemma query_releases_clean:
  "clean_tags sv \<Longrightarrow> query_releases sv org repo w = (Inr rels, w1) \<Longrightarrow> r \<in> set rels \<Longrightarrow>
   valid_utf8 (tag_name r) \<and> trim (tag_name r) = tag_name r"
  by (auto simp: query_releases_def Let_def clean_tags_def split: releases_answer.splits)

lemma hinted_tag_text:
  "hinted_tag sv root tool org repo artifact w = Some t \<Longrightarrow>
   \<exists>raw. w_files w (latest_tag_path sv root tool org repo artifact) = Some raw \<and>
     valid_utf8 raw \<and> trim raw = t"
  by (auto simp: hinted_tag_def read_text_def Let_def split: option.splits if_splits)

text \<open>An unpinned source that has just been provisioned is provisioned again from the hint.\<close>

lemma try_github_again:
  assumes tool: "valid_tool tool"
    and first: "try_github sv root tool None org repo tag artifact w = (Provided p, w1)"
    and primary: "\<not> chooses_debug sv artifact" and tags: "clean_tags sv"
    and io: "\<And>hint. sv_io sv MakeDirs hint = None" "\<And>hint. sv_io sv WriteFile hint = None"
  shows "try_github sv root tool None org repo tag artifact w1 = (Provided p, w1)"
proof -
  let ?a = "github_artifact sv repo None artifact"
  let ?hint = "latest_tag_path sv root tool org repo ?a"
  obtain a w' where lt: "latest_tag sv root tool org repo ?a w = (a, w')" by fastforce
  have again: "try_github sv root tool None org repo tag artifact w1 =
      (Provided (github_provided sv root tool org repo t ?a), w1)"
    if "latest_tag sv root tool org repo ?a w1 = (CachedTag t, w1)" for t
    using that by (simp add: try_github_def Let_def)
  from lt show ?thesis
  proof (cases rule: latest_tag_cases)
    case (fresh t)
    with first lt show ?thesis by (simp add: try_github_def Let_def)
  next
    case (stale t failure w2)
    then have "p = github_provided sv root tool org repo t ?a" and w1: "w1 = touch_latest_tag sv ?hint w2"
      using first lt by (simp_all add: try_github_def Let_def)
    moreover obtain raw where raw: "w_files w ?hint = Some raw" "valid_utf8 raw" "trim raw = t"
      using hinted_tag_text [OF stale(2)] by blast
    moreover have files: "w_files w1 = w_files w"
      using query_releases_world [OF stale(1)] by (simp add: w1)
    moreover have "w_files w2 ?hint = Some raw"
      using raw(1) query_releases_world [OF stale(1)] by simp
    then have "w_mtime w1 ?hint = sv_now sv"
      using io by (simp add: w1 touch_latest_tag_def write_file_def)
    moreover have "file_exists w1 (tool_path sv root tool (release_asset_url org repo t ?a))"
      using hinted_tag_exists [OF stale(2)] files by (simp add: file_exists_def)
    ultimately show ?thesis using again latest_tag_fresh by simp
  next
    case (found rel rels w2)
    have w': "w' = write_file sv ?hint (tag_name rel) w2" using found io by simp
    have fetch: "fetch_release sv root tool org repo (tag_name rel) ?a False w' = (Provided p, w1)"
      using first lt found primary by (simp add: try_github_def Let_def)
    note post = fetch_release_post [OF tool fetch]
    then have p: "p = github_provided sv root tool org repo (tag_name rel) ?a"
      and kept: "w_files w1 ?hint = Some (tag_name rel)" "w_mtime w1 ?hint = sv_now sv"
      using keeps_elsewhere_hint [of sv root tool w' w1 org repo ?a] tool
      by (auto simp: w' write_file_def)
    moreover have "file_exists w1 (tool_path sv root tool (release_asset_url org repo (tag_name rel) ?a))"
      using post p by (simp add: github_provided_def)
    ultimately show ?thesis
      using again latest_tag_fresh query_releases_clean [OF tags found(1,2)] by simp
  qed (use first lt in \<open>simp_all add: try_github_def Let_def\<close>)
qed

text \<open>Right after an unpinned GitHub configuration has been provisioned, provisioning it again
  returns the same binary without any request and without touching a file: the tag hint and
  the cached binary are enough, also when the first run fell back to a stale hint because the
  API was down.\<close>

theorem second_run_is_offline:
  assumes "configure_tool_task sv root root_dir tool
      \<lparr>sources = [GitHub org repo tag artifact], version = None\<rparr> w = (Inr p, w1)"
    and "valid_tool tool" and "\<not> chooses_debug sv artifact" and "clean_tags sv"
    and "\<forall>hint. sv_io sv MakeDirs hint = None \<and> sv_io sv WriteFile hint = None"
  shows "configure_tool_task sv root root_dir tool
      \<lparr>sources = [GitHub org repo tag artifact], version = None\<rparr> w1 = (Inr p, w1)"
proof -
  have "try_github sv root tool None org repo tag artifact w = (Provided p, w1)"
    using assms(1) by (auto simp: configure_tool_task_def split: prod.splits attempt.splits)
  from try_github_again [OF assms(2) this assms(3,4)] assms(5) show ?thesis
    by (simp add: configure_tool_task_def)
qed

section \<open>A small provisioning\<close>

definition sample_services :: services where
  "sample_services =
     \<lparr>sv_now = 100, sv_sha = map (\<lambda>c. if c = CHR ''/'' then CHR ''_'' else c),
      sv_short_version = ''1.0'', sv_goos = ''linux'', sv_bzlarch = ''x86_64'',
      sv_llvm_triple = ''x86_64-linux'', sv_debug_cli = False,
      sv_io = (\<lambda>_ _. None), sv_bad_request = (\<lambda>_. None),
      sv_get = (\<lambda>i url. if i = 1 then SendError (plain ''connection reset'')
                       else Streamed (Some 3) ''elf'' None),
      sv_releases = (\<lambda>i url. ApiReleases [\<lparr>tag_name = ''v9'', prerelease = False,
        assets = [''t-x86_64-linux'']\<rparr>])\<rparr>"

definition empty_world :: world where
  "empty_world = \<lparr>w_files = (\<lambda>_. None), w_mtime = (\<lambda>_. 0), w_requests = [], w_slept = []\<rparr>"

definition sample_cfg :: cli_config where
  "sample_cfg = \<lparr>sources = [GitHub ''o'' ''t'' [] []], version = None\<rparr>"

definition sample_pinned :: cli_config where
  "sample_pinned = \<lparr>sources = [Local ''missing'', GitHub ''o'' ''t'' [] []], version = Some ''3''\<rparr>"

definition sample_run :: "cli_config \<Rightarrow> (provision_error + provisioned) \<times> world" where
  "sample_run cfg = configure_tool_task sample_services [RootDir, NormalComp ''c''] [RootDir]
     ''aspect-cli'' cfg empty_world"

definition sample_provisioned :: "string \<Rightarrow> provisioned" where
  "sample_provisioned tag = github_provided sample_services [RootDir, NormalComp ''c''] ''aspect-cli''
     ''o'' ''t'' tag ''t-x86_64-linux''"

lemma sample_run_latest:
  "fst (sample_run sample_cfg) = Inr (sample_provisioned ''v9'') \<and>
   length (w_requests (snd (sample_run sample_cfg))) = 3 \<and> w_slept (snd (sample_run sample_cfg)) = [1]"
  by code_simp

lemma sample_run_pinned: "fst (sample_run sample_pinned) = Inr (sample_provisioned ''v3'')"
  by code_simp

lemma sample_tool: "valid_tool ''aspect-cli''"
  by code_simp

lemma sample_configure:
  assumes "fst (sample_run cfg) = r"
  shows "configure_tool_task sample_services [RootDir, NormalComp ''c''] [RootDir] ''aspect-cli'' cfg
    empty_world = (r, snd (sample_run cfg))"
  using assms by (simp add: sample_run_def prod_eq_iff)

theorem download_is_atomic_witness:
  "\<exists>waits. prefix waits [1, 2] \<and>
     w_slept (snd (download_with_retries sample_services
       (tool_path sample_services [] ''aspect-cli'' ''u'') ''u'' empty_world)) = waits"
proof -
  have "tmp_path (tool_path sample_services [] ''aspect-cli'' ''u'') \<noteq>
      tool_path sample_services [] ''aspect-cli'' ''u''"
    by (rule tool_path_tmp(1) [OF sample_tool])
  from download_is_atomic [OF this, of sample_services "''u''" empty_world]
  show ?thesis by (auto simp: empty_world_def split: prod.splits)
qed

theorem provisioned_binary_exists_witness:
  "file_exists (snd (sample_run sample_cfg)) (prov_path (sample_provisioned ''v9''))"
  using provisioned_binary_exists [OF sample_configure [OF conjunct1 [OF sample_run_latest]] sample_tool] .

theorem pinned_version_skips_api_witness:
  "asset_only (w_requests (snd (sample_run sample_pinned)))"
  using pinned_version_skips_api [OF sample_configure [OF sample_run_pinned] _ sample_tool, of "''3''"]
  by (simp add: sample_pinned_def empty_world_def)

theorem sources_in_order_witness:
  "\<exists>before src after. sources sample_pinned = before @ src # after"
  using sources_in_order [OF sample_configure [OF sample_run_pinned]] by auto

theorem second_run_is_offline_witness:
  "configure_tool_task sample_services [RootDir, NormalComp ''c''] [RootDir] ''aspect-cli'' sample_cfg
     (snd (sample_run sample_cfg)) = (Inr (sample_provisioned ''v9''), snd (sample_run sample_cfg))"
  unfolding sample_cfg_def
proof (rule second_run_is_offline)
  show "configure_tool_task sample_services [RootDir, NormalComp ''c''] [RootDir] ''aspect-cli''
      \<lparr>sources = [GitHub ''o'' ''t'' [] []], version = None\<rparr> empty_world =
      (Inr (sample_provisioned ''v9''),
       snd (sample_run \<lparr>sources = [GitHub ''o'' ''t'' [] []], version = None\<rparr>))"
    using sample_configure [OF conjunct1 [OF sample_run_latest]] by (simp only: sample_cfg_def)
  show "valid_tool ''aspect-cli''" by (rule sample_tool)
  show "\<not> chooses_debug sample_services []" by code_simp
  have "valid_utf8 ''v9'' \<and> trim ''v9'' = ''v9''" by code_simp
  then show "clean_tags sample_services" by (simp add: clean_tags_def sample_services_def)
  show "\<forall>hint. sv_io sample_services MakeDirs hint = None \<and> sv_io sample_services WriteFile hint = None"
    by (simp add: sample_services_def)
qed

end
