(* ===== verification/Trace_Buffer.thy ===== *)
theory Trace_Buffer
  imports Cli_Prelude "HOL-Library.Multiset"
begin

text \<open>
  The buffering exporters of the CLI's telemetry (crates/aspect-cli/src/trace_buffer.rs): what is
  exported before the real exporters are known is kept, \<open>install_late\<close> replays it, and later
  batches fan out. Each operation's decision happens under the exporter's lock, so a history is
  a list of operations; the sends happen after the lock is released, in any order. Exporters are
  numbers; whether a send succeeds is ignored by the code. The span and the log exporter differ
  in how a batch enters a full buffer.
\<close>

definition buffer_cap :: nat where
  "buffer_cap = 50000"

definition span_push :: "'a list \<Rightarrow> 'a list \<Rightarrow> 'a list" where
  "span_push buf batch =
     (let avail = buffer_cap - length buf
      in if avail < length batch then drop (min (length batch - avail) (length buf)) buf @ batch
         else buf @ batch)"

fun log_push :: "'a list \<Rightarrow> 'a list \<Rightarrow> 'a list" where
  "log_push buf [] = buf"
| "log_push buf (r # rs) =
     log_push ((if buffer_cap \<le> length buf then tl buf else buf) @ [r]) rs"

record 'a exporter_state =
  buffer :: "'a list"
  late :: "nat list"
  replayed :: bool

definition new_exporter :: "'a exporter_state" where
  "new_exporter = \<lparr>buffer = [], late = [], replayed = False\<rparr>"

type_synonym 'a delivery = "nat \<times> 'a list"

definition export_with ::
  "('a list \<Rightarrow> 'a list \<Rightarrow> 'a list) \<Rightarrow> 'a list \<Rightarrow> 'a exporter_state \<Rightarrow>
   'a exporter_state \<times> 'a delivery list" where
  "export_with push batch st =
     (if \<not> replayed st then (st\<lparr>buffer := push (buffer st) batch\<rparr>, [])
      else (st, map (\<lambda>ex. (ex, batch)) (late st)))"

definition install_late ::
  "nat list \<Rightarrow> 'a exporter_state \<Rightarrow> 'a exporter_state \<times> 'a delivery list" where
  "install_late exporters st =
     (st\<lparr>late := late st @ exporters, replayed := True, buffer := []\<rparr>,
      if buffer st = [] then [] else map (\<lambda>ex. (ex, buffer st)) exporters)"

definition span_export :: "'a list \<Rightarrow> 'a exporter_state \<Rightarrow> 'a exporter_state \<times> 'a delivery list" where
  "span_export = export_with span_push"

definition log_export :: "'a list \<Rightarrow> 'a exporter_state \<Rightarrow> 'a exporter_state \<times> 'a delivery list" where
  "log_export = export_with log_push"

datatype 'a exporter_op = Export "'a list" | InstallLate "nat list"

fun run_exporter ::
  "('a list \<Rightarrow> 'a exporter_state \<Rightarrow> 'a exporter_state \<times> 'a delivery list) \<Rightarrow>
   'a exporter_op list \<Rightarrow> 'a exporter_state \<Rightarrow> 'a exporter_state \<times> 'a delivery list" where
  "run_exporter ex [] st = (st, [])"
| "run_exporter ex (op # ops) st =
     (let (st', ds) = (case op of Export b \<Rightarrow> ex b st | InstallLate es \<Rightarrow> install_late es st);
          (st'', ds') = run_exporter ex ops st'
      in (st'', ds @ ds'))"

definition received :: "nat \<Rightarrow> 'a delivery list \<Rightarrow> 'a list" where
  "received e ds = concat (map snd (filter (\<lambda>d. fst d = e) ds))"

lemma received_simps [simp]:
  "received e [] = []"
  "received e (ds @ ds') = received e ds @ received e ds'"
  by (simp_all add: received_def)

lemma received_fan_out:
  "distinct es \<Longrightarrow> received e (map (\<lambda>ex. (ex, b)) es) = (if e \<in> set es then b else [])"
  by (induction es) (auto simp: received_def)

lemma received_order: "mset ds = mset ds' \<Longrightarrow> mset (received e ds) = mset (received e ds')"
proof -
  assume "mset ds = mset ds'"
  then have "(\<Sum>d \<in># filter_mset (\<lambda>d. fst d = e) (mset ds). mset (snd d)) =
      (\<Sum>d \<in># filter_mset (\<lambda>d. fst d = e) (mset ds'). mset (snd d))"
    by simp
  moreover have "mset (received e xs) = (\<Sum>d \<in># filter_mset (\<lambda>d. fst d = e) (mset xs). mset (snd d))"
    for xs :: "'a delivery list"
    by (induction xs) (auto simp: received_def)
  ultimately show ?thesis by simp
qed

section \<open>What a buffer promises\<close>

text \<open>The contract the replay rests on: below the bound a batch is appended; a buffer never holds
  anything but the newest records.\<close>

locale late_buffer =
  fixes push :: "'a list \<Rightarrow> 'a list \<Rightarrow> 'a list"
  assumes push_room: "length buf + length batch \<le> buffer_cap \<Longrightarrow> push buf batch = buf @ batch"
    and push_newest: "\<exists>n. push buf batch = drop n (buf @ batch)"
begin

lemma exports_buffered:
  assumes "\<not> replayed st"
  shows "length (buffer st) + length (concat bs) \<le> buffer_cap \<Longrightarrow>
    run_exporter (export_with push) (map Export bs) st =
      (st\<lparr>buffer := buffer st @ concat bs\<rparr>, [])"
  using assms
proof (induction bs arbitrary: st)
  case (Cons b bs)
  then have "push (buffer st) b = buffer st @ b" by (intro push_room) simp
  with Cons show ?case by (simp add: export_with_def Let_def)
qed simp

lemma exports_newest:
  assumes "\<not> replayed st"
  shows "\<exists>n. run_exporter (export_with push) (map Export bs) st =
      (st\<lparr>buffer := drop n (buffer st @ concat bs)\<rparr>, [])"
  using assms
proof (induction bs arbitrary: st)
  case (Cons b bs)
  obtain n where n: "push (buffer st) b = drop n (buffer st @ b)" using push_newest by blast
  from Cons.IH [of "st\<lparr>buffer := push (buffer st) b\<rparr>"] Cons.prems obtain m where m:
    "run_exporter (export_with push) (map Export bs) (st\<lparr>buffer := push (buffer st) b\<rparr>) =
      (st\<lparr>buffer := drop m (drop n (buffer st @ b) @ concat bs)\<rparr>, [])"
    by (auto simp: n)
  have "\<exists>k. drop m (drop n xs @ ys) = drop k (xs @ ys)" for xs ys :: "'a list"
    by (cases "n \<le> length xs")
      (auto simp: drop_append intro: exI [of _ "m + n"] exI [of _ "m + length xs"])
  then obtain k where "drop m (drop n (buffer st @ b) @ concat bs) = drop k ((buffer st @ b) @ concat bs)"
    by blast
  with m have "run_exporter (export_with push) (map Export bs) (st\<lparr>buffer := push (buffer st) b\<rparr>) =
      (st\<lparr>buffer := drop k (buffer st @ concat (b # bs))\<rparr>, [])"
    by simp
  moreover have "run_exporter (export_with push) (map Export (b # bs)) st =
      run_exporter (export_with push) (map Export bs) (st\<lparr>buffer := push (buffer st) b\<rparr>)"
    using Cons.prems by (simp add: export_with_def Let_def)
  ultimately show ?case by (simp only: exI [of _ k])
qed (auto intro: exI [of _ 0])

lemma exports_fan_out:
  assumes "replayed st" and "distinct (late st)"
  shows "fst (run_exporter (export_with push) (map Export bs) st) = st \<and>
    received e (snd (run_exporter (export_with push) (map Export bs) st)) =
      (if e \<in> set (late st) then concat bs else [])"
  using assms
  by (induction bs) (auto simp: export_with_def Let_def received_fan_out split: prod.splits)

lemma run_append:
  "run_exporter ex (ops @ ops') st =
     (let (st', ds) = run_exporter ex ops st; (st'', ds') = run_exporter ex ops' st'
      in (st'', ds @ ds'))"
  by (induction ops arbitrary: st) (auto simp: Let_def split: prod.splits)

lemma delivered_once:
  assumes "length (concat pre) \<le> buffer_cap" and "distinct es" and "e \<in> set es"
  shows "received e (snd (run_exporter (export_with push)
      (map Export pre @ InstallLate es # map Export post) new_exporter)) = concat pre @ concat post"
proof -
  let ?st = "new_exporter\<lparr>buffer := concat pre\<rparr>"
  have pre: "run_exporter (export_with push) (map Export pre) new_exporter = (?st, [])"
    using exports_buffered [of new_exporter pre] assms(1) by (simp add: new_exporter_def)
  obtain st' ds where inst: "install_late es ?st = (st', ds)" by fastforce
  then have st': "replayed st'" "late st' = es" and ds: "received e ds = concat pre"
    using assms(2,3) received_fan_out [of es e "concat pre"]
    by (auto simp: install_late_def new_exporter_def)
  have "received e (snd (run_exporter (export_with push) (map Export post) st')) = concat post"
    using exports_fan_out [where st = st' and e = e and bs = post] st' assms(2,3) by simp
  with ds show ?thesis
    by (cases "run_exporter (export_with push) (map Export post) st'")
      (simp add: run_append pre inst Let_def)
qed

end

lemma log_push_newest: "length buf \<le> buffer_cap \<Longrightarrow>
    log_push buf batch = drop (length buf + length batch - buffer_cap) (buf @ batch)"
proof (induction batch arbitrary: buf)
  case (Cons r rs)
  have pos: "0 < buffer_cap" by (simp add: buffer_cap_def)
  show ?case
  proof (cases "buffer_cap \<le> length buf")
    case True
    with Cons.prems pos have "length buf = buffer_cap" "buf \<noteq> []" by auto
    then obtain x xs where "buf = x # xs" by (cases buf) auto
    with \<open>length buf = buffer_cap\<close> Cons.IH [of "xs @ [r]"] show ?thesis by simp
  next
    case False
    with Cons.IH [of "buf @ [r]"] show ?thesis by simp
  qed
qed simp

lemma log_push_drop: "\<exists>n. log_push buf batch = drop n (buf @ batch)"
proof (induction batch arbitrary: buf)
  case (Cons r rs)
  show ?case
  proof (cases "buffer_cap \<le> length buf")
    case True
    then obtain x xs where buf: "buf = x # xs" by (cases buf) (auto simp: buffer_cap_def)
    from Cons.IH [of "xs @ [r]"] obtain n where "log_push (xs @ [r]) rs = drop n (xs @ r # rs)" by auto
    with True buf show ?thesis by (intro exI [of _ "Suc n"]) simp
  next
    case False
    with Cons.IH [of "buf @ [r]"] show ?thesis by simp
  qed
qed (auto intro: exI [of _ 0])

interpretation spans: late_buffer span_push
proof unfold_locales
  fix buf batch :: "'a list"
  show "length buf + length batch \<le> buffer_cap \<Longrightarrow> span_push buf batch = buf @ batch"
    by (simp add: span_push_def Let_def)
  show "\<exists>n. span_push buf batch = drop n (buf @ batch)"
    by (cases "buffer_cap - length buf < length batch")
      (auto simp: span_push_def Let_def drop_append intro: exI [of _ 0]
        exI [of _ "min (length batch - (buffer_cap - length buf)) (length buf)"])
qed

interpretation logs: late_buffer log_push
proof unfold_locales
  fix buf batch :: "'a list"
  show "length buf + length batch \<le> buffer_cap \<Longrightarrow> log_push buf batch = buf @ batch"
    by (simp add: log_push_newest)
  show "\<exists>n. log_push buf batch = drop n (buf @ batch)" by (rule log_push_drop)
qed

text \<open>Nothing is lost or duplicated around \<open>install_late\<close>: as long as the start-up phase exported no
  more than the bound, each installed exporter gets every record exactly once, those of the
  buffer and those exported afterwards, in whatever order the sends happen; for spans and for
  logs.\<close>

theorem late_exporters_see_everything_once:
  assumes "length (concat pre) \<le> buffer_cap" and "distinct es" and "e \<in> set es"
    and "export = span_export \<or> export = log_export"
    and "mset ds = mset (snd (run_exporter export
      (map Export pre @ InstallLate es # map Export post) new_exporter))"
  shows "mset (received e ds) = mset (concat pre) + mset (concat post)"
proof -
  have "received e (snd (run_exporter export
      (map Export pre @ InstallLate es # map Export post) new_exporter)) = concat pre @ concat post"
    using assms(4) spans.delivered_once [OF assms(1-3)] logs.delivered_once [OF assms(1-3)]
    by (auto simp: span_export_def log_export_def)
  with received_order [OF assms(5), of e] show ?thesis by simp
qed

theorem late_exporters_see_everything_once_witness:
  "mset (received 7 (rev (snd (run_exporter span_export
     ([Export ''ab''] @ InstallLate [6, 7] # [Export ''c'']) new_exporter)))) = mset ''abc''"
  using late_exporters_see_everything_once [of "[''ab'']" "[6, 7]" 7 span_export
      "rev (snd (run_exporter span_export
        ([Export ''ab''] @ InstallLate [6, 7] # [Export ''c'']) new_exporter))" "[''c'']"]
  by (simp add: buffer_cap_def)

text \<open>Past the bound: the log exporter keeps exactly the newest records.\<close>

lemma log_buffer_keeps_newest:
  "fst (run_exporter log_export (map Export (bs :: 'a list list)) new_exporter) =
     new_exporter\<lparr>buffer := drop (length (concat bs) - buffer_cap) (concat bs)\<rparr>"
proof -
  have "fst (run_exporter log_export (map Export bs) st) =
      st\<lparr>buffer := drop (length (all @ concat bs) - buffer_cap) (all @ concat bs)\<rparr>"
    if "\<not> replayed st" and "buffer st = drop (length all - buffer_cap) all"
    for st :: "'a exporter_state" and all
    using that
  proof (induction bs arbitrary: st all)
    case (Cons b bs)
    have "log_push (buffer st) b = drop (length (all @ b) - buffer_cap) (all @ b)"
      using Cons.prems(2) by (cases "length all \<le> buffer_cap") (simp_all add: log_push_newest add.commute)
    with Cons.IH [of "st\<lparr>buffer := log_push (buffer st) b\<rparr>" "all @ b"] Cons.prems show ?case
      by (simp add: log_export_def export_with_def Let_def split: prod.splits)
  qed simp
  from this [of new_exporter "[]"] show ?thesis by (simp add: new_exporter_def)
qed

text \<open>
  The span exporter's buffer can exceed the bound: a batch larger than the bound is kept whole,
  and stays (a later batch evicts only as many records as it brings).
\<close>

lemma oversized_span_batch_is_kept:
  "buffer_cap < length batch \<Longrightarrow>
   buffer (fst (run_exporter span_export [Export batch] new_exporter)) = batch"
  by (simp add: span_export_def export_with_def new_exporter_def span_push_def Let_def)

end
