(* ===== verification/Spec2Isabelle.thy ===== *)
theory Spec2Isabelle
  imports Bazel_Context Overlay Rc_Announce Cmd_Tree Bazel_Process File_Stream Bazel_Build Rc_Parse Redaction Names Broadcaster Bes_Work Auth_Token
    Module_Loader Dep_Store Launcher_Fetch Trace_Buffer Sandbox_Recovery
begin

text \<open>
  Verification of the Aspect CLI (crates/ of the repository, Rust).

  The program. A small launcher (crates/aspect-launcher) reads which version of the CLI a project
  pins, obtains that binary and runs it. The CLI (crates/aspect-cli) evaluates \<open>.axl\<close> files, a
  Starlark dialect, with the runtime in crates/axl-runtime: the files declare tasks, features and
  traits; the CLI turns the tasks into its command line, runs the one that is selected, and gives it
  \<open>ctx.bazel\<close>, through which it starts Bazel and reads the events and logs of builds. What Bazel
  reads from \<open>.bazelrc\<close> files is computed by crates/bazelrc; crates/galvanize follows files and
  pipes while Bazel writes them; build events are redacted, kept in files, offered to Starlark code,
  and forwarded over gRPC with credentials of crates/axl-runtime/src/engine/aspect/auth.rs.

  How the model is made. Every theory but the two of shared vocabulary is translated from the files
  it names at its top. A Rust string is the list of its bytes; structs are records, enums datatypes;
  a function that may fail returns a sum, with the error on the left; a panic is a value of its own
  where it can happen. Machine integers are words, or numbers with the bound of the type written out
  where it can be reached. State is passed explicitly. Threads, sockets and asynchronous functions
  are step functions or sequences of whole operations, in the granularity of the locks and await
  points of the code; a theorem about \<open>reachable\<close> states or about \<open>fold\<close> of any list of
  operations is one about every interleaving at that granularity. Libraries that are not in the
  repository, the operating system, the clock, the network and servers are parameters: arguments of
  the definitions, or fields of a record (\<open>host\<close>, \<open>services\<close>, \<open>machine\<close>, \<open>axl_env\<close>, \<open>bes_env\<close> and
  others). Theorems hold for all their values unless a hypothesis says what is used of them.

  Shared vocabulary. Cli_Prelude: Rust's \<open>str\<close> operations, lines, words, numbers. Rust_Path: \<open>Path\<close> on
  Unix and its comparison by components. Utf8: characters and validity of byte strings.

  Run commands (crates/bazelrc).
    Rc_Store: \<open>RcOption\<close>, \<open>BazelRC\<close> and its constructors (lib.rs).
    Rc_Lexer: joining of lines (preprocess.rs) and tokens (tokenize.rs), with a printer that they invert.
    Rc_Parse: discovery of the files (discover.rs), the recursive parser with imports (parse.rs), and
      \<open>BazelRC::new\<close>. An inductive relation says what it means that a file loads; the parser computes
      exactly that, errors of import cycles and missing files included.
    Rc_Expand: \<open>--config\<close> expansion (expand.rs) is equivalent to an inductive substitution relation;
      termination is by the sections that are not yet on the chain.
    Rc_Query, Rc_Announce: what queries and invocations see, and the printed announcement (lib.rs).
    Overlay: merging a run command with flags of the caller, across the four parts above.

  The runtime's language side (crates/axl-runtime/src/eval, module, engine).
    Load_Path: the text of \<open>load()\<close> and the joining of paths that cannot leave a root (eval/load_path.rs).
    Module_Loader: the loader with its cache, cycle detection and scope stacks (eval/load.rs,
      module/module.rs). Evaluation of a file is a tree of the loads it asks for. Loading ends, by a
      measure on the files not yet entered; it agrees with a meaning that has no cache.
    Dep_Store: the store of module dependencies on disk (module/disk_store.rs).
    Names: conversion and validation of names (engine/names.rs).
    Task_Defs: tasks, features, traits and the task map (engine/task.rs, feature.rs, task_map.rs,
      trait_map.rs). Cli_Args: arguments and how their values are merged (engine/arg.rs, arguments.rs).
    Task_Phases: phases, verdict and lines around a task (engine/task_info.rs, eval/multi_phase.rs,
      banner.rs).

  The command line (crates/aspect-cli).
    Cmd_Tree: the tree of groups and commands, selection of a task, and \<open>aspect describe\<close> (cmd.rs).
    Task_Name: the names of runs and their reservation among concurrent runs (cmd.rs, ci.rs).
    Trace_Buffer: telemetry that is held until its exporters are known (trace_buffer.rs).

  Bazel (crates/axl-runtime/src/engine/bazel).
    Bazel_Process: registry of clients, shutdown after a signal, cancellation, health check (live.rs,
      cancel.rs, health_check.rs, process.rs, info.rs, and main.rs of the CLI). Sandbox_Recovery.
    Delimited: delimited messages (stream/util.rs, starbuf-types). File_Stream: pipes and growing files
      with reader and writer interleaved (galvanize), execution and workspace log.
    Build_Events: the reader of the build event stream (stream/build_event.rs), which implements a view
      that knows only events and retries. Broadcaster: the fan-out to subscribers, against the
      sequence that each subscriber is promised. Redaction, Glob: removal of secrets (stream/redaction.rs).
    Retry, Bes_Stream, Bes_Work: the gRPC sink: its replay buffer and back-off (sink/retry.rs), one
      connection as a state machine over its await points, and the worker around it (sink/grpc.rs).
    Bazel_Build: event handles, start and end of a build (build.rs).
  Authentication and launcher.
    Auth_Deploy, Auth_Url, Auth_Token: deployments, the login's URLs and callback, sessions, refresh and
      the credential helper (engine/aspect/auth.rs, credential_store.rs, credential_helper.rs).
    Launcher_Config, Launcher_Fetch: \<open>version.axl\<close>, sources, cache, retries (config.rs, main.rs, cache.rs).

  What the lemmas show, from the base upwards: each theory has the well-formedness of its data and its
  preservation by every operation (\<open>rc_wf\<close>, \<open>rb_inv\<close>, \<open>bes_running\<close>, \<open>sink_ok\<close> and others), the outcome of
  the operations on all branches, and then its properties, which carry the ids C1 to C40 in the
  text before them. They are of these kinds: equivalence with an inductive or declarative
  specification (parser, expansion, glob, described defaults); refinement of an abstract view
  (broadcaster, reader of events, module loader, registry of clients); safety over all
  reachable states (no event lost silently, no token given to a foreign host, no path outside a
  root); termination and bounded waiting (loading, reconnecting, cancellation, select loop); round
  trips (authorize URL, length prefixes); and error behaviour. Interfaces between components are
  locales, interpreted on the model's own definitions in the theory that provides them.

  Bounds and fuel. Recursion ends by structural descent or by a measure that is proved; there is no
  fuel in the parser, the expansion, the loader or the retry loops. \<open>for_events\<close>, a loop that Starlark
  code runs over an iterator, takes a number of steps; one more than the events that were sent is
  enough, as its property states. The polls of cancellation and shutdown are bounded by their
  deadlines over the period of polling. Words have the widths of the code on a 64-bit target.

  Where the code does not do what it intends or documents, the model follows the code, and a lemma
  shows the behaviour at a concrete input (names such as \<open>failed_spawn_leaves_sink_live\<close>).

  Not modelled. Bindings of the standard library, HTTP, gRPC, WebAssembly, templates and futures for
  Starlark code (crates/axl-runtime/src/engine) pass values through to libraries. Crates starbuf-derive,
  axl-proto and build-event-stream generate or hold bindings of protocol messages. axl-lsp and axl-docgen
  hand the syntax tree to libraries or print documentation. aspect-telemetry, trace.rs and crash_handler.rs
  configure exporters and signal handlers of libraries; pty-multiplex and example-tui drive terminals.
  The built-in tasks are written in the \<open>.axl\<close> language, which has no formal semantics here.
  Clap's own parsing is a parameter of Cmd_Tree and Cli_Args, Starlark's evaluator one of Module_Loader.
\<close>

end
